(* ===== verification/Prelude.thy ===== *)
theory Prelude
  imports
    Main
    "HOL-Library.Word"
    "HOL-Library.Char_ord"
    "HOL-Library.List_Lexorder"
    "HOL-Library.Product_Lexorder"
begin

text \<open>
  Shared ground of the development: the machine integers of the Rust sources, the result type,
  the collections of rewrite rules the component proofs use, and generic facts on lists, options
  and sorted lists.

  \<^item> \<open>u64\<close> is a 64-bit word. Sequence numbers are kept at that width because the coverage
    code uses saturating arithmetic at the upper end of the range.
  \<^item> \<open>i64\<close> instants (Unix milliseconds) are integers; the one place where the code adds two of
    them saturates, which \<open>i64_saturating_add\<close> writes out.
  \<^item> \<open>('e, 'a) result\<close> is Rust's \<open>Result<'a, 'e>\<close>: \<open>Inl\<close> is \<open>Err\<close>, \<open>Inr\<close> is \<open>Ok\<close>.
\<close>

section \<open>Collections of facts\<close>

named_theorems u64_arith \<open>moving comparisons and saturating steps on u64 to the naturals\<close>
named_theorems record_defs \<open>definitions of whole-state operations\<close>

section \<open>Results\<close>

type_synonym ('e, 'a) result = "'e + 'a"

definition map_err :: "('e \<Rightarrow> 'f) \<Rightarrow> ('e, 'a) result \<Rightarrow> ('f, 'a) result" where
  "map_err f r = (case r of Inl e \<Rightarrow> Inl (f e) | Inr x \<Rightarrow> Inr x)"

lemma map_err_simps [simp]:
  "map_err f (Inl e) = Inl (f e)"
  "map_err f (Inr x) = Inr x"
  by (simp_all add: map_err_def)

lemma map_err_Inr_iff [simp]: "map_err f r = Inr x \<longleftrightarrow> r = Inr x"
  by (cases r) simp_all

definition map_or :: "'b \<Rightarrow> ('a \<Rightarrow> 'b) \<Rightarrow> 'a option \<Rightarrow> 'b" where
  "map_or d f x = (case x of None \<Rightarrow> d | Some y \<Rightarrow> f y)"

lemma map_or_simps [simp]:
  "map_or d f None = d"
  "map_or d f (Some y) = f y"
  by (simp_all add: map_or_def)

text \<open>
  A call that may fail, on a state: \<open>and_then\<close> is the early return of the question-mark operator,
  with the state as it is at that point; \<open>err_into\<close> converts the error on the way.
\<close>

definition and_then ::
  "('e, 'a) result \<times> 's \<Rightarrow> ('a \<Rightarrow> 's \<Rightarrow> ('e, 'b) result \<times> 's) \<Rightarrow> ('e, 'b) result \<times> 's" where
  "and_then r f = (case r of (Inl e, s) \<Rightarrow> (Inl e, s) | (Inr x, s) \<Rightarrow> f x s)"

definition err_into :: "('e \<Rightarrow> 'f) \<Rightarrow> ('e, 'a) result \<times> 's \<Rightarrow> ('f, 'a) result \<times> 's" where
  "err_into f r = (case r of (Inl e, s) \<Rightarrow> (Inl (f e), s) | (Inr x, s) \<Rightarrow> (Inr x, s))"

lemma and_then_simps [simp]:
  "and_then (Inl e, s) f = (Inl e, s)"
  "and_then (Inr x, s) f = f x s"
  by (simp_all add: and_then_def)

lemma err_into_simps [simp]:
  "err_into g (Inl e, s) = (Inl (g e), s)"
  "err_into g (Inr x, s) = (Inr x, s)"
  by (simp_all add: err_into_def)

lemma err_into_snd [simp]: "snd (err_into g r) = snd r"
  by (simp add: err_into_def split: prod.splits sum.splits)

lemma and_then_cases:
  assumes "and_then r f = (res, s')"
  obtains (err) e where "r = (Inl e, s')" and "res = Inl e"
  | (ok) x s where "r = (Inr x, s)" and "f x s = (res, s')"
proof (cases r)
  case (Pair y s)
  with assms err ok show thesis by (cases y) auto
qed

lemma err_into_Inr [simp]: "err_into g r = (Inr x, s) \<longleftrightarrow> r = (Inr x, s)"
  by (auto simp: err_into_def split: prod.splits sum.splits)

lemma and_then_Inr:
  "and_then r f = (Inr y, s') \<longleftrightarrow> (\<exists>x s. r = (Inr x, s) \<and> f x s = (Inr y, s'))"
  by (auto simp: and_then_def split: prod.splits sum.splits)

lemma and_then_Inr_unit:
  "and_then r f = (Inr y, s') \<longleftrightarrow> (\<exists>s. r = (Inr (), s) \<and> f () s = (Inr y, s'))"
  by (auto simp: and_then_Inr)

section \<open>Unsigned 64-bit integers\<close>

type_synonym u64 = "64 word"

definition u64_max :: u64 where
  "u64_max = - 1"

definition u64_saturating_add :: "u64 \<Rightarrow> u64 \<Rightarrow> u64" where
  "u64_saturating_add x y = (if unat x + unat y < 2 ^ 64 then x + y else u64_max)"

lemma unat_u64_max: "unat u64_max = 2 ^ 64 - 1"
  by (simp add: u64_max_def unsigned_minus_1_eq_mask mask_eq_exp_minus_1)

lemma u64_le_max [simp]: "x \<le> u64_max"
  by (simp add: u64_max_def unsigned_minus_1_eq_mask mask_eq_exp_minus_1)

lemma u64_bound: "unat (x :: u64) < 2 ^ 64"
  using unsigned_less[of x] by simp

lemma unat_saturating_add:
  "unat (u64_saturating_add x y) = min (unat x + unat y) (2 ^ 64 - 1)"
proof (cases "unat x + unat y < 2 ^ 64")
  case True
  then have "unat (x + y) = unat x + unat y"
    by (simp add: unat_word_ariths)
  with True show ?thesis by (simp add: u64_saturating_add_def)
next
  case False
  then show ?thesis by (simp add: u64_saturating_add_def unat_u64_max)
qed

lemma le_saturating_succ [u64_arith]:
  "a \<le> u64_saturating_add b 1 \<longleftrightarrow> unat a \<le> Suc (unat b)"
  using u64_bound[of a] by (auto simp: word_le_nat_alt unat_saturating_add)

lemma saturating_succ_less [u64_arith]:
  "u64_saturating_add b 1 < a \<longleftrightarrow> Suc (unat b) < unat a"
  using u64_bound[of a] by (auto simp: word_less_nat_alt unat_saturating_add)

lemma unat_pred [u64_arith]:
  assumes "(n :: u64) < a"
  shows "unat (a - 1) = unat a - 1"
proof -
  from assms have "a \<noteq> 0" by auto
  then show ?thesis by (rule unat_minus_one)
qed

lemma le_pred_iff: "(n :: u64) < a \<Longrightarrow> x \<le> a - 1 \<longleftrightarrow> x < a"
proof -
  assume "n < a"
  moreover from this have "0 < unat a" by (simp add: word_less_nat_alt)
  ultimately show ?thesis
    by (auto simp: word_le_nat_alt word_less_nat_alt unat_pred)
qed

lemma saturating_succ_le_iff:
  "b < c \<Longrightarrow> u64_saturating_add b 1 \<le> x \<longleftrightarrow> b < x"
  using u64_bound[of c]
  by (auto simp: word_le_nat_alt word_less_nat_alt unat_saturating_add)

lemma less_saturating_succ_iff:
  "b < c \<Longrightarrow> x < u64_saturating_add b 1 \<longleftrightarrow> x \<le> b"
  using saturating_succ_le_iff[of b c x] by (auto simp: not_le[symmetric])

lemma saturating_succ_max [simp]: "u64_saturating_add u64_max 1 = u64_max"
  by (simp add: u64_saturating_add_def unat_u64_max)

definition u64_saturating_sub :: "u64 \<Rightarrow> u64 \<Rightarrow> u64" where
  "u64_saturating_sub a b = (if b \<le> a then a - b else 0)"

text \<open>\<open>checked_add\<close> with a count of at most 64 bits.\<close>

definition u64_checked_add :: "u64 \<Rightarrow> nat \<Rightarrow> u64 option" where
  "u64_checked_add a n = (if unat a + n < 2 ^ 64 then Some (a + of_nat n) else None)"

lemma checked_add_Some: "u64_checked_add a n = Some v \<longleftrightarrow> unat a + n < 2 ^ 64 \<and> v = a + of_nat n"
  by (auto simp: u64_checked_add_def)

text \<open>The bounds checks evaluate on integers.\<close>

lemma unat_add_bound: "unat (a :: u64) + n < 2 ^ 64 \<longleftrightarrow> uint a + int n < 18446744073709551616"
proof -
  have "unat a + n < 2 ^ 64 \<longleftrightarrow> int (unat a + n) < int (2 ^ 64)" by (simp only: of_nat_less_iff)
  then show ?thesis by simp
qed

lemma u64_checked_add_code [code]:
  "u64_checked_add a n = (if uint a + int n < 18446744073709551616 then Some (a + of_nat n) else None)"
  unfolding u64_checked_add_def unat_add_bound ..

lemma u64_saturating_add_code [code]:
  "u64_saturating_add x y = (if uint x + uint y < 18446744073709551616 then x + y else u64_max)"
  unfolding u64_saturating_add_def unat_add_bound by simp

section \<open>Signed 64-bit integers\<close>

definition i64_min :: int where
  "i64_min = - (2 ^ 63)"

definition i64_max :: int where
  "i64_max = 2 ^ 63 - 1"

definition i64_saturating_add :: "int \<Rightarrow> int \<Rightarrow> int" where
  "i64_saturating_add a b = max i64_min (min i64_max (a + b))"

section \<open>Iterators\<close>

text \<open>\<open>Iterator::max_by_key\<close>: the last of the elements with the greatest key.\<close>

fun max_by_key :: "('a \<Rightarrow> 'k::linorder) \<Rightarrow> 'a list \<Rightarrow> 'a option" where
  "max_by_key f [] = None"
| "max_by_key f (x # xs) =
     (case max_by_key f xs of None \<Rightarrow> Some x | Some y \<Rightarrow> Some (if f x \<le> f y then y else x))"

lemma max_by_key_None [simp]: "max_by_key f xs = None \<longleftrightarrow> xs = []"
  by (cases xs) (auto split: option.splits)

lemma max_by_key_Some:
  "max_by_key f xs = Some x \<Longrightarrow> x \<in> set xs \<and> (\<forall>y\<in>set xs. f y \<le> f x)"
  by (induction xs arbitrary: x) (auto split: option.splits if_splits intro: order_trans)

text \<open>\<open>str::starts_with\<close> of a character, and \<open>str::lines\<close>: the text between line feeds, a carriage
  return before the line feed taken off, no empty last line.\<close>

fun starts_with_char :: "char \<Rightarrow> string \<Rightarrow> bool" where
  "starts_with_char c [] = False"
| "starts_with_char c (d # s) = (d = c)"

definition strip_cr :: "string \<Rightarrow> string" where
  "strip_cr s = (if s \<noteq> [] \<and> last s = char_of (13 :: nat) then butlast s else s)"

fun lines_loop :: "string \<Rightarrow> string \<Rightarrow> string list" where
  "lines_loop cur [] = (if cur = [] then [] else [cur])"
| "lines_loop cur (c # s) =
     (if c = char_of (10 :: nat) then strip_cr cur # lines_loop [] s else lines_loop (cur @ [c]) s)"

definition str_lines :: "string \<Rightarrow> string list" where
  "str_lines s = lines_loop [] s"

lemma set_map_filter: "set (List.map_filter f xs) = {y. \<exists>x\<in>set xs. f x = Some y}"
  by (force simp: List.map_filter_def)

text \<open>Collecting into a \<open>BTreeSet\<close>: the distinct elements in ascending order.\<close>

definition btset_of :: "'a::linorder list \<Rightarrow> 'a list" where
  "btset_of xs = sort (remdups xs)"

lemma set_btset_of [simp]: "set (btset_of xs) = set xs"
  by (simp add: btset_of_def)

text \<open>\<open>join\<close> of strings.\<close>

fun intercalate :: "string \<Rightarrow> string list \<Rightarrow> string" where
  "intercalate sep [] = []"
| "intercalate sep [x] = x"
| "intercalate sep (x # y # xs) = x @ sep @ intercalate sep (y # xs)"

section \<open>Strictly sorted lists\<close>

abbreviation ssorted :: "'a::linorder list \<Rightarrow> bool" where
  "ssorted \<equiv> sorted_wrt (<)"

lemma ssorted_distinct: "ssorted xs \<Longrightarrow> distinct xs"
  by (induction xs) auto

lemma ssorted_sorted: "ssorted xs \<Longrightarrow> sorted xs"
  by (simp add: strict_sorted_iff)

lemma ssorted_set_inject:
  assumes "ssorted xs" and "ssorted ys" and "set xs = set ys"
  shows "xs = ys"
  using assms by (metis ssorted_distinct ssorted_sorted sorted_distinct_set_unique)

end
