(* ===== verification/BTree_Map.thy ===== *)
theory BTree_Map
  imports Prelude
begin

text \<open>
  Rust's \<open>BTreeMap\<close>, as the sources use it: a finite map whose iteration order is the key
  order. It is modelled by the list of its entries in ascending key order, so that iteration,
  \<open>last_key_value\<close> and the structural equality that \<open>derive(PartialEq)\<close> gives are those of the
  list, and every operation computes. \<open>bt_wf\<close> is the representation invariant.

  The locale \<open>ordered_map\<close> is the interface the components program against (what a lookup
  returns after an insert, and that a map is determined by its lookups); its interpretation on
  the list model gives them those laws.
\<close>

section \<open>The entry-list model\<close>

type_synonym ('k, 'v) btree = "('k \<times> 'v) list"

definition bt_empty :: "('k, 'v) btree" where
  "bt_empty = []"

definition bt_get :: "('k, 'v) btree \<Rightarrow> 'k \<Rightarrow> 'v option" where
  "bt_get m k = map_of m k"

fun bt_insert :: "'k::linorder \<Rightarrow> 'v \<Rightarrow> ('k, 'v) btree \<Rightarrow> ('k, 'v) btree" where
  "bt_insert k v [] = [(k, v)]"
| "bt_insert k v ((k', v') # m) =
     (if k < k' then (k, v) # (k', v') # m
      else if k = k' then (k, v) # m
      else (k', v') # bt_insert k v m)"

text \<open>\<open>entry(k).or_insert_with(d)\<close> followed by an in-place update \<open>f\<close> of the entry.\<close>

definition bt_upsert :: "'k::linorder \<Rightarrow> 'v \<Rightarrow> ('v \<Rightarrow> 'v) \<Rightarrow> ('k, 'v) btree \<Rightarrow> ('k, 'v) btree" where
  "bt_upsert k d f m = bt_insert k (f (map_or d id (bt_get m k))) m"

text \<open>\<open>extend\<close>: insert every entry of the second map, in its order.\<close>

definition bt_extend :: "('k::linorder, 'v) btree \<Rightarrow> ('k, 'v) btree \<Rightarrow> ('k, 'v) btree" where
  "bt_extend m m' = fold (\<lambda>(k, v) acc. bt_insert k v acc) m' m"

definition bt_remove :: "'k \<Rightarrow> ('k, 'v) btree \<Rightarrow> ('k, 'v) btree" where
  "bt_remove k m = filter (\<lambda>(j, _). j \<noteq> k) m"

definition bt_last_key :: "('k, 'v) btree \<Rightarrow> 'k option" where
  "bt_last_key m = (if m = [] then None else Some (fst (last m)))"

definition bt_wf :: "('k::linorder, 'v) btree \<Rightarrow> bool" where
  "bt_wf m \<longleftrightarrow> ssorted (map fst m)"

section \<open>The interface\<close>

locale ordered_map =
  fixes empty :: "'m"
    and get :: "'m \<Rightarrow> 'k::linorder \<Rightarrow> 'v option"
    and insert :: "'k \<Rightarrow> 'v \<Rightarrow> 'm \<Rightarrow> 'm"
    and entries :: "'m \<Rightarrow> ('k \<times> 'v) list"
    and wf :: "'m \<Rightarrow> bool"
  assumes wf_empty: "wf empty"
    and wf_insert: "wf m \<Longrightarrow> wf (insert k v m)"
    and get_empty: "get empty k = None"
    and get_insert: "wf m \<Longrightarrow> get (insert k v m) j = (if j = k then Some v else get m j)"
    and get_entries: "wf m \<Longrightarrow> get m k = Some v \<longleftrightarrow> (k, v) \<in> set (entries m)"
    and ext: "wf m \<Longrightarrow> wf m' \<Longrightarrow> (\<And>k. get m k = get m' k) \<Longrightarrow> m = m'"
begin

lemma insert_same: "wf m \<Longrightarrow> insert k v (insert k u m) = insert k v m"
  by (rule ext) (simp_all add: wf_insert get_insert)

lemma insert_commute:
  "wf m \<Longrightarrow> j \<noteq> k \<Longrightarrow> insert j u (insert k v m) = insert k v (insert j u m)"
  by (rule ext) (simp_all add: wf_insert get_insert)

lemma insert_lookup: "wf m \<Longrightarrow> get m k = Some v \<Longrightarrow> insert k v m = m"
  by (rule ext) (simp_all add: wf_insert get_insert)

end

section \<open>The list model provides the interface\<close>

lemma bt_get_empty [simp]: "bt_get [] k = None"
  by (simp add: bt_get_def)

lemma bt_get_Cons [simp]:
  "bt_get ((k', v) # m) k = (if k = k' then Some v else bt_get m k)"
  by (simp add: bt_get_def)

lemma bt_wf_empty [simp]: "bt_wf []"
  by (simp add: bt_wf_def)

lemma bt_wf_Cons: "bt_wf ((k, v) # m) \<longleftrightarrow> (\<forall>j\<in>fst ` set m. k < j) \<and> bt_wf m"
  by (auto simp: bt_wf_def)

lemma keys_bt_insert: "fst ` set (bt_insert k v m) = insert k (fst ` set m)"
proof (induction m)
  case (Cons e m)
  then show ?case by (cases e) (simp add: insert_commute)
qed simp

lemma bt_wf_insert [simp]: "bt_wf m \<Longrightarrow> bt_wf (bt_insert k v m)"
proof (induction m)
  case Nil
  then show ?case by (simp add: bt_wf_Cons)
next
  case (Cons e m)
  then show ?case
    by (cases e) (simp add: bt_wf_Cons keys_bt_insert, force)
qed

lemma bt_get_insert [simp]:
  "bt_get (bt_insert k v m) j = (if j = k then Some v else bt_get m j)"
  by (induction m) (auto split: if_splits)

lemma bt_insert_fresh: "bt_get m k = None \<Longrightarrow> set (bt_insert k v m) = insert (k, v) (set m)"
  by (induction m) (auto split: if_splits)

lemma bt_get_None: "bt_get m k = None \<longleftrightarrow> k \<notin> fst ` set m"
  by (simp add: bt_get_def map_of_eq_None_iff)

lemma bt_get_SomeD: "bt_get m k = Some v \<Longrightarrow> (k, v) \<in> set m"
  by (simp add: bt_get_def map_of_SomeD)

lemma bt_get_Some: "bt_wf m \<Longrightarrow> bt_get m k = Some v \<longleftrightarrow> (k, v) \<in> set m"
  by (auto simp: bt_get_def bt_wf_def map_of_eq_Some_iff ssorted_distinct)

lemma bt_ext:
  assumes "bt_wf m" and "bt_wf m'" and "\<And>k. bt_get m k = bt_get m' k"
  shows "m = m'"
proof -
  have entries: "set m = set m'"
    using assms by (auto simp: bt_get_Some[symmetric])
  have d: "distinct (map fst m)" "distinct (map fst m')"
    using assms(1,2) by (auto simp: bt_wf_def dest: ssorted_distinct)
  have "inj_on fst (set m \<union> set m')"
    using d(1) entries by (simp add: distinct_map)
  then show ?thesis
    using assms(1,2) d entries
    by (auto simp: bt_wf_def intro: map_sorted_distinct_set_unique ssorted_sorted)
qed

interpretation bt: ordered_map bt_empty bt_get bt_insert id bt_wf
  by unfold_locales (auto simp: bt_empty_def bt_get_Some intro: bt_ext)

section \<open>Derived operations\<close>

lemma bt_wf_upsert [simp]: "bt_wf m \<Longrightarrow> bt_wf (bt_upsert k d f m)"
  by (simp add: bt_upsert_def)

lemma bt_get_upsert [simp]:
  "bt_get (bt_upsert k d f m) j =
     (if j = k then Some (f (map_or d id (bt_get m k))) else bt_get m j)"
  by (simp add: bt_upsert_def)

lemma bt_wf_extend [simp]: "bt_wf m \<Longrightarrow> bt_wf (bt_extend m m')"
proof (unfold bt_extend_def, induction m' arbitrary: m)
  case (Cons e m')
  then show ?case by (cases e) simp
qed simp

lemma bt_get_extend:
  assumes "bt_wf m'"
  shows "bt_get (bt_extend m m') k = (case bt_get m' k of None \<Rightarrow> bt_get m k | Some v \<Rightarrow> Some v)"
  using assms
proof (unfold bt_extend_def, induction m' arbitrary: m)
  case (Cons e m')
  obtain j v where e: "e = (j, v)" by (cases e)
  from Cons.prems e have "bt_get m' j = None"
    by (auto simp: bt_wf_Cons bt_get_None)
  with Cons e show ?case
    by (auto simp: bt_wf_Cons split: option.splits)
qed simp

lemma bt_last_key_None [simp]: "bt_last_key m = None \<longleftrightarrow> m = []"
  by (simp add: bt_last_key_def)

lemma bt_last_key_greatest:
  assumes "bt_wf m" and "bt_last_key m = Some k"
  shows "k \<in> fst ` set m" and "\<And>j. j \<in> fst ` set m \<Longrightarrow> j \<le> k"
proof -
  from assms(2) have ne: "m \<noteq> []" and k: "k = fst (last m)"
    by (auto simp: bt_last_key_def split: if_splits)
  show "k \<in> fst ` set m" using ne k by simp
  have "sorted (map fst m)" using assms(1) by (simp add: bt_wf_def ssorted_sorted)
  then show "j \<le> k" if "j \<in> fst ` set m" for j
    using that ne k
    by (auto simp: in_set_conv_nth last_conv_nth sorted_iff_nth_mono)
      (metis Suc_pred fst_conv length_greater_0_conv less_Suc_eq_le diff_less zero_less_one
        One_nat_def)
qed

lemma bt_UN_key:
  assumes "bt_wf m"
  shows "(\<Union>(j, v)\<in>set m. if j = k then f v else {}) = map_or {} f (bt_get m k)"
  using assms
proof (induction m)
  case (Cons e m)
  obtain j v where e: "e = (j, v)" by (cases e)
  have "bt_get m j = None" using Cons.prems e by (auto simp: bt_wf_Cons bt_get_None)
  with Cons e show ?case by (auto simp: bt_wf_Cons)
qed simp

lemma bt_get_map_entries:
  "bt_get (map (\<lambda>(k, v). (k, f k v)) m) k = map_option (f k) (bt_get m k)"
  by (induction m) auto

lemma bt_wf_filter [simp]: "bt_wf m \<Longrightarrow> bt_wf (filter f m)"
  by (simp add: bt_wf_def sorted_wrt_map sorted_wrt_filter)

lemma bt_get_filter:
  "bt_wf m \<Longrightarrow> bt_get (filter f m) k = (case bt_get m k of None \<Rightarrow> None | Some v \<Rightarrow> if f (k, v) then Some v else None)"
proof (cases "bt_get m k")
  case None
  then have "bt_get (filter f m) k = None" by (auto simp: bt_get_None)
  with None show ?thesis by simp
next
  case (Some v)
  assume wf: "bt_wf m"
  have "(k, u) \<in> set m \<longleftrightarrow> u = v" for u using bt_get_Some[OF wf, of k u] Some by auto
  then have "bt_get (filter f m) k = Some u \<longleftrightarrow> u = v \<and> f (k, v)" for u
    using wf by (auto simp: bt_get_Some)
  then show ?thesis using Some by (cases "bt_get (filter f m) k") auto
qed

lemma bt_wf_remove [simp]: "bt_wf m \<Longrightarrow> bt_wf (bt_remove k m)"
  by (simp add: bt_remove_def)

lemma bt_get_remove [simp]: "bt_wf m \<Longrightarrow> bt_get (bt_remove k m) j = (if j = k then None else bt_get m j)"
  by (simp add: bt_remove_def bt_get_filter split: option.splits)

section \<open>Grouping\<close>

text \<open>\<open>entry(k).or_default().push(v)\<close> over a sequence of pairs.\<close>

definition bt_group :: "('k::linorder \<times> 'v) list \<Rightarrow> ('k, 'v list) btree" where
  "bt_group entries = fold (\<lambda>(k, v). bt_upsert k [] (\<lambda>vs. vs @ [v])) entries bt_empty"

lemma bt_group_fold:
  "bt_wf m \<Longrightarrow> bt_wf (fold (\<lambda>(k, v). bt_upsert k [] (\<lambda>vs. vs @ [v])) entries m)
     \<and> bt_get (fold (\<lambda>(k, v). bt_upsert k [] (\<lambda>vs. vs @ [v])) entries m) k =
         (if k \<in> fst ` set entries
          then Some (map_or [] id (bt_get m k) @ map snd (filter (\<lambda>e. fst e = k) entries))
          else bt_get m k)"
proof (induction entries arbitrary: m)
  case (Cons e entries)
  obtain j v where e: "e = (j, v)" by (cases e)
  show ?case using Cons.IH[of "bt_upsert j [] (\<lambda>vs. vs @ [v]) m"] Cons.prems e
    by (auto simp: filter_empty_conv)
qed simp

lemma bt_wf_group [simp]: "bt_wf (bt_group entries)"
  using bt_group_fold[of bt_empty entries] by (simp add: bt_group_def bt_empty_def)

lemma bt_get_group:
  "bt_get (bt_group entries) k =
     (if k \<in> fst ` set entries then Some (map snd (filter (\<lambda>e. fst e = k) entries)) else None)"
  using bt_group_fold[of bt_empty entries k] by (simp add: bt_group_def bt_empty_def)

lemma in_bt_group:
  "(k, vs) \<in> set (bt_group entries) \<longleftrightarrow>
     k \<in> fst ` set entries \<and> vs = map snd (filter (\<lambda>e. fst e = k) entries)"
  unfolding bt_get_Some[of "bt_group entries" k vs, OF bt_wf_group, symmetric] bt_get_group by auto

lemma bt_group_pairs:
  "(\<exists>x\<in>set (bt_group entries). \<exists>a\<in>set (snd x). \<exists>b\<in>set (snd x). P a b) \<longleftrightarrow>
     (\<exists>k a b. (k, a) \<in> set entries \<and> (k, b) \<in> set entries \<and> P a b)"
proof -
  have "(\<exists>x\<in>set (bt_group entries). \<exists>a\<in>set (snd x). \<exists>b\<in>set (snd x). P a b) \<longleftrightarrow>
      (\<exists>k vs. (k, vs) \<in> set (bt_group entries) \<and> (\<exists>a\<in>set vs. \<exists>b\<in>set vs. P a b))"
    by force
  also have "\<dots> \<longleftrightarrow> (\<exists>k\<in>fst ` set entries. \<exists>a b. (k, a) \<in> set entries \<and> (k, b) \<in> set entries \<and> P a b)"
    unfolding in_bt_group by (auto simp: image_iff)
  finally show ?thesis by force
qed

end
