(* ===== verification/Text_Format.thy ===== *)
theory Text_Format
  imports Prelude
begin

text \<open>
  The standard-library text formatting the sources use to build names: decimal rendering of
  unsigned integers (\<open>{n}\<close>), two-digit lowercase hexadecimal rendering of a byte (\<open>{b:02x}\<close>), and
  the escaping of an opaque identifier into \<open>[a-z0-9_]\<close> that both \<open>duckspout-drain::naming\<close> and
  \<open>duckspout-staging::naming\<close> carry. A Rust string is its UTF-8 bytes, a \<open>string\<close> is a list of
  8-bit characters. The lemmas are the alphabets of the outputs and the injectivity of each
  rendering, and a cancellation rule for separators.
\<close>

section \<open>Decimal numbers\<close>

definition digit_char :: "nat \<Rightarrow> char" where
  "digit_char d = char_of (48 + d)"

fun show_nat :: "nat \<Rightarrow> string" where
  "show_nat n = (if n < 10 then [digit_char n] else show_nat (n div 10) @ [digit_char (n mod 10)])"

declare show_nat.simps [simp del]

definition digit_val :: "char \<Rightarrow> nat" where
  "digit_val c = of_char c - 48"

definition read_nat :: "string \<Rightarrow> nat" where
  "read_nat s = foldl (\<lambda>acc c. 10 * acc + digit_val c) 0 s"

lemma of_char_digit: "d < 10 \<Longrightarrow> (of_char (digit_char d) :: nat) = 48 + d"
  by (simp add: digit_char_def)

lemma digit_val_digit_char [simp]: "d < 10 \<Longrightarrow> digit_val (digit_char d) = d"
  by (simp add: digit_val_def of_char_digit)

lemma read_show_nat [simp]: "read_nat (show_nat n) = n"
proof (induction n rule: show_nat.induct)
  case (1 n)
  show ?case
  proof (cases "n < 10")
    case True
    then show ?thesis by (simp add: show_nat.simps[of n] read_nat_def)
  next
    case False
    with "1" have "read_nat (show_nat (n div 10)) = n div 10" by simp
    with False show ?thesis
      by (simp add: show_nat.simps[of n] read_nat_def)
  qed
qed

lemma show_nat_inject [simp]: "show_nat m = show_nat n \<longleftrightarrow> m = n"
  by (metis read_show_nat)

definition is_digit :: "char \<Rightarrow> bool" where
  "is_digit c \<longleftrightarrow> 48 \<le> (of_char c :: nat) \<and> (of_char c :: nat) \<le> 57"

lemma show_nat_digits: "c \<in> set (show_nat n) \<Longrightarrow> is_digit c"
proof (induction n rule: show_nat.induct)
  case (1 n)
  show ?case
  proof (cases "n < 10")
    case True
    with "1.prems" show ?thesis
      by (simp add: show_nat.simps[of n] is_digit_def of_char_digit)
  next
    case False
    with "1.prems" have "c \<in> set (show_nat (n div 10)) \<or> c = digit_char (n mod 10)"
      by (auto simp: show_nat.simps[of n])
    with "1.IH" False show ?thesis
      by (auto simp: is_digit_def of_char_digit)
  qed
qed

lemma show_nat_nonempty [simp]: "show_nat n \<noteq> []"
  by (simp add: show_nat.simps)

lemma sep_notin_show_nat:
  "\<not> is_digit c \<Longrightarrow> c \<notin> set (show_nat n)"
  using show_nat_digits by blast

section \<open>Letter case\<close>

text \<open>\<open>char::to_ascii_lowercase\<close>.\<close>

definition ascii_lower :: "char \<Rightarrow> char" where
  "ascii_lower c = (if CHR ''A'' \<le> c \<and> c \<le> CHR ''Z'' then char_of (of_char c + 32 :: nat) else c)"

section \<open>Hexadecimal bytes\<close>

definition hex_digit :: "nat \<Rightarrow> char" where
  "hex_digit d = (if d < 10 then char_of (48 + d) else char_of (87 + d))"

definition hex2 :: "char \<Rightarrow> string" where
  "hex2 c = [hex_digit (of_char c div 16), hex_digit (of_char c mod 16)]"

lemma of_char_hex_digit:
  "d < 16 \<Longrightarrow> (of_char (hex_digit d) :: nat) = (if d < 10 then 48 + d else 87 + d)"
  by (simp add: hex_digit_def)

lemma hex_digit_inject:
  assumes "d < 16" and "e < 16" and "hex_digit d = hex_digit e"
  shows "d = e"
proof -
  have "(of_char (hex_digit d) :: nat) = of_char (hex_digit e)" using assms(3) by simp
  then show ?thesis using assms(1,2) by (auto simp: of_char_hex_digit split: if_splits)
qed

lemma of_char_byte: "(of_char c :: nat) < 256"
  by simp

lemma hex2_inject [simp]: "hex2 c = hex2 d \<longleftrightarrow> c = d"
proof
  assume "hex2 c = hex2 d"
  moreover have "(of_char c :: nat) div 16 < 16" "(of_char d :: nat) div 16 < 16"
    using of_char_byte[of c] of_char_byte[of d] by (auto simp: less_mult_imp_div_less)
  ultimately have "(of_char c :: nat) div 16 = of_char d div 16"
    and "(of_char c :: nat) mod 16 = of_char d mod 16"
    by (auto simp: hex2_def intro!: hex_digit_inject)
  then have "(of_char c :: nat) = of_char d"
    by (metis div_mult_mod_eq)
  then show "c = d" by simp
qed simp

section \<open>Escaping an identifier\<close>

definition is_plain :: "char \<Rightarrow> bool" where
  "is_plain c \<longleftrightarrow> (CHR ''a'' \<le> c \<and> c \<le> CHR ''z'') \<or> (CHR ''0'' \<le> c \<and> c \<le> CHR ''9'')"

definition encode_byte :: "char \<Rightarrow> string" where
  "encode_byte c = (if is_plain c then [c] else CHR ''_'' # hex2 c)"

definition encode_component :: "string \<Rightarrow> string" where
  "encode_component raw = concat (map encode_byte raw)"

lemma char_le_nat: "c \<le> d \<longleftrightarrow> (of_char c :: nat) \<le> of_char d"
  by (simp add: less_eq_char_def)

lemma plain_hex_digit: "d < 16 \<Longrightarrow> is_plain (hex_digit d)"
  by (auto simp: is_plain_def char_le_nat of_char_hex_digit)

lemma underscore_not_plain [simp]: "\<not> is_plain (CHR ''_'')"
  by (simp add: is_plain_def char_le_nat)

lemma encode_component_alphabet:
  "c \<in> set (encode_component raw) \<Longrightarrow> is_plain c \<or> c = CHR ''_''"
proof (induction raw)
  case (Cons x raw)
  have "(of_char x :: nat) div 16 < 16"
    using of_char_byte[of x] by (simp add: less_mult_imp_div_less)
  with Cons show ?case
    by (auto simp: encode_component_def encode_byte_def hex2_def plain_hex_digit split: if_splits)
qed (simp add: encode_component_def)

lemma encode_component_inject [simp]: "encode_component a = encode_component b \<longleftrightarrow> a = b"
proof
  assume "encode_component a = encode_component b"
  then show "a = b"
  proof (induction a arbitrary: b)
    case Nil
    then show ?case
      by (cases b) (auto simp: encode_component_def encode_byte_def split: if_splits)
  next
    case (Cons x a)
    then obtain y b' where b: "b = y # b'"
      by (cases b) (auto simp: encode_component_def encode_byte_def split: if_splits)
    have eq: "encode_byte x @ encode_component a = encode_byte y @ encode_component b'"
      using Cons.prems b by (simp add: encode_component_def)
    have "x = y \<and> encode_component a = encode_component b'"
    proof (cases "is_plain x")
      case True
      with eq show ?thesis
        by (cases "is_plain y") (auto simp: encode_byte_def)
    next
      case False
      with eq have "\<not> is_plain y" by (auto simp: encode_byte_def)
      with False eq have "hex2 x @ encode_component a = hex2 y @ encode_component b'"
        by (simp add: encode_byte_def)
      then have "hex2 x = hex2 y \<and> encode_component a = encode_component b'"
        by (auto simp: hex2_def)
      then show ?thesis by simp
    qed
    with Cons.IH b show ?case by simp
  qed
qed simp

section \<open>Separators\<close>

lemma split_at_sep:
  assumes "x \<notin> set a" and "x \<notin> set b"
  shows "a @ x # r = b @ x # s \<longleftrightarrow> a = b \<and> r = s"
  using assms
proof (induction a arbitrary: b)
  case Nil
  then show ?case by (cases b) auto
next
  case (Cons y a)
  then show ?case by (cases b) auto
qed

lemma sep_notin_encode:
  "\<not> is_plain c \<Longrightarrow> c \<noteq> CHR ''_'' \<Longrightarrow> c \<notin> set (encode_component raw)"
  using encode_component_alphabet by blast

end
