(* ===== verification/Types.thy ===== *)
theory Types
  imports BTree_Map Text_Format
begin

text \<open>
  The domain types of \<open>duckspout-types\<close>: identifiers (\<open>ids.rs\<close>), dataset declarations
  (\<open>dataset.rs\<close>), the window manifest (\<open>manifest.rs\<close>), watermark, loss-ledger and replica-coverage
  rows (\<open>watermark.rs\<close>), and the data that crosses the port traits of \<open>ports.rs\<close>. A newtype around
  a string is a datatype with one constructor, ordered like its string; a struct is a record whose
  field names carry a prefix of the struct's name.

  Window ids are natural numbers: the only arithmetic the sources do on them is the successor of
  the last committed id of a dense sequence that starts at 0, so the 64-bit bound is reached only
  after \<open>2^64\<close> commits to one partition.
\<close>

section \<open>Identifiers\<close>

datatype dataset_id = DatasetId (dataset_str: string)
datatype tenant_id = TenantId (tenant_str: string)
datatype partition_id = PartitionId (partition_str: string)
datatype node_id = NodeId (node_str: string)
datatype part_name = PartName (part_str: string)

type_synonym window_id = nat
type_synonym storage_path = string

instantiation node_id :: linorder
begin

definition less_eq_node_id :: "node_id \<Rightarrow> node_id \<Rightarrow> bool" where
  "less_eq_node_id a b \<longleftrightarrow> node_str a \<le> node_str b"

definition less_node_id :: "node_id \<Rightarrow> node_id \<Rightarrow> bool" where
  "less_node_id a b \<longleftrightarrow> node_str a < node_str b"

instance
  by standard (auto simp: less_eq_node_id_def less_node_id_def node_id.expand)

end

instantiation partition_id :: linorder
begin

definition less_eq_partition_id :: "partition_id \<Rightarrow> partition_id \<Rightarrow> bool" where
  "less_eq_partition_id a b \<longleftrightarrow> partition_str a \<le> partition_str b"

definition less_partition_id :: "partition_id \<Rightarrow> partition_id \<Rightarrow> bool" where
  "less_partition_id a b \<longleftrightarrow> partition_str a < partition_str b"

instance
  by standard (auto simp: less_eq_partition_id_def less_partition_id_def partition_id.expand)

end

instantiation dataset_id :: linorder
begin

definition less_eq_dataset_id :: "dataset_id \<Rightarrow> dataset_id \<Rightarrow> bool" where
  "less_eq_dataset_id a b \<longleftrightarrow> dataset_str a \<le> dataset_str b"

definition less_dataset_id :: "dataset_id \<Rightarrow> dataset_id \<Rightarrow> bool" where
  "less_dataset_id a b \<longleftrightarrow> dataset_str a < dataset_str b"

instance
  by standard (auto simp: less_eq_dataset_id_def less_dataset_id_def dataset_id.expand)

end

instantiation tenant_id :: linorder
begin

definition less_eq_tenant_id :: "tenant_id \<Rightarrow> tenant_id \<Rightarrow> bool" where
  "less_eq_tenant_id a b \<longleftrightarrow> tenant_str a \<le> tenant_str b"

definition less_tenant_id :: "tenant_id \<Rightarrow> tenant_id \<Rightarrow> bool" where
  "less_tenant_id a b \<longleftrightarrow> tenant_str a < tenant_str b"

instance
  by standard (auto simp: less_eq_tenant_id_def less_tenant_id_def tenant_id.expand)

end

lemmas id_order_defs =
  less_eq_dataset_id_def less_dataset_id_def less_eq_tenant_id_def less_tenant_id_def
  less_eq_node_id_def less_node_id_def less_eq_partition_id_def less_partition_id_def

text \<open>The canonical partition identity of a tenant's shard; the shard is a \<open>u32\<close>.\<close>

definition from_tenant_shard :: "tenant_id \<Rightarrow> 32 word \<Rightarrow> partition_id" where
  "from_tenant_shard tenant shard =
     PartitionId (tenant_str tenant @ ''.'' @ show_nat (unat shard))"

section \<open>Dataset declarations\<close>

datatype dataset_kind = Event | Changelog

record dataset_declaration =
  decl_dataset :: dataset_id
  decl_kind :: dataset_kind
  decl_key_cols :: "string list"
  decl_sort_key :: "string list option"

section \<open>Manifests\<close>

datatype part_kind = Primary | Supplement | Snapshot

record origin_seq_range =
  osr_origin :: node_id
  osr_first_seq :: u64
  osr_last_seq :: u64

record window_manifest =
  wm_dataset :: dataset_id
  wm_partition :: partition_id
  wm_window_id :: window_id
  wm_origin_coverage :: "origin_seq_range list"
  wm_rows :: u64
  wm_event_time_min_ms :: int
  wm_event_time_max_ms :: int
  wm_dedup_removed :: u64
  wm_parts :: "part_name list"

section \<open>Watermark, apply and loss rows\<close>

record watermark_row =
  wr_partition :: partition_id
  wr_complete_through_ms :: int

record applied_watermark_row =
  aw_partition :: partition_id
  aw_origin :: node_id
  aw_applied_seq :: u64

record lost_range =
  lr_partition :: partition_id
  lr_origin :: node_id
  lr_first_seq :: u64
  lr_last_seq :: u64

record declare_loss_request =
  dl_ranges :: "lost_range list"
  dl_accept_data_loss :: bool

record loss_ledger_row =
  ll_range :: lost_range
  ll_declared_at_ms :: int

record replica_coverage =
  rc_node :: node_id
  rc_partition :: partition_id
  rc_origin :: node_id
  rc_replicated_thru :: u64

section \<open>Data of the ports\<close>

datatype storage_error =
    NotFound storage_path
  | FsyncFailed storage_path
  | TornWrite storage_path
  | StorageBackend string

record staged_coverage =
  sc_partition :: partition_id
  sc_range :: origin_seq_range

record drainable_window =
  dw_dataset :: dataset_id
  dw_partition :: partition_id
  dw_window :: window_id
  dw_closed_at_ms :: int

record seal_request =
  sr_dataset :: dataset_id
  sr_partition :: partition_id
  sr_window :: window_id
  sr_order_by :: "string list"
  sr_event_time_column :: string
  sr_dedup_key :: "string list option"

record sealed_part =
  sp_path :: storage_path
  sp_rows :: u64
  sp_event_time_min_ms :: int
  sp_event_time_max_ms :: int
  sp_dedup_removed :: u64
  sp_origin_coverage :: "origin_seq_range list"

datatype seal_error =
    UnknownWindow dataset_id partition_id window_id
  | SealBackend string

datatype drop_outcome = Dropped | ResidueKept u64 | AlreadyGone

datatype ledger_rejection =
    RejWindowNotNext partition_id (rej_expected: window_id) (rej_got: window_id)
  | Rejected string

datatype commit_outcome = Committed | Aborted | Indeterminate

datatype lake_error =
    NotImplemented string
  | Misconfigured string
  | LakeBackend string

section \<open>Trace events\<close>

text \<open>The journaled vocabulary of \<open>trace.rs\<close>, with a prefix that keeps its names apart.\<close>

datatype trace_event =
    TeAccept | TeDedupCheck | TeStageCommit | TeClientAck | TeThrottle | TeRefuse | TeForward
  | TePeerApply | TeReceipt | TeSealPart | TePutPart | TeLakeCommitOk | TeLakeCommitAbort
  | TeLakeCommitIndeterminate | TeReconcile | TeExpire | TeDemote | TeEvict | TeDropWindow
  | TeSnapshotSeal | TeClaimAdvertise | TeHeartbeat | TeFenceBoot | TeDegradedBoot
  | TeTakeoverDrain | TeDeclareLoss | TeEvolveSchema | TeClientTimeout

section \<open>A tenant's shards have distinct partitions\<close>

lemma dot_not_digit: "\<not> is_digit (CHR ''.'')"
  by (simp add: is_digit_def)

lemma from_tenant_shard_inject:
  "from_tenant_shard t s = from_tenant_shard t' s' \<longleftrightarrow> t = t' \<and> s = s'"
proof
  assume "from_tenant_shard t s = from_tenant_shard t' s'"
  then have "rev (show_nat (unat s)) @ CHR ''.'' # rev (tenant_str t)
           = rev (show_nat (unat s')) @ CHR ''.'' # rev (tenant_str t')"
    by (simp add: from_tenant_shard_def flip: rev_append rev.simps(2))
      (metis append.assoc append_Cons append_Nil rev.simps(2) rev_append)
  then have "rev (show_nat (unat s)) = rev (show_nat (unat s'))
      \<and> rev (tenant_str t) = rev (tenant_str t')"
    using sep_notin_show_nat[OF dot_not_digit] by (subst (asm) split_at_sep) auto
  then show "t = t' \<and> s = s'"
    by (auto simp: word_unat_eq_iff intro: tenant_id.expand)
qed simp

end
