(* ===== verification/Coverage.thy ===== *)
theory Coverage
  imports Types
begin

text \<open>
  \<open>crates/duckspout-watermark/src/coverage.rs\<close>: sets of sequence numbers kept as sorted lists of
  inclusive ranges, and the check for coverage gaps that no declared loss excuses.

  \<open>ss_wf\<close> is the comment on the \<open>ranges\<close> field (sorted, disjoint, non-adjacent) as a predicate, and
  \<open>ss_set\<close> the set of sequence numbers a list of ranges stands for. The locale \<open>range_set\<close> states
  what the ledger needs of such a representation; the interpretation \<open>ss\<close> shows that the code's
  functions provide it.
\<close>

section \<open>Operations\<close>

type_synonym seq_set = "(u64 \<times> u64) list"

definition ss_overlaps :: "seq_set \<Rightarrow> u64 \<Rightarrow> u64 \<Rightarrow> bool" where
  "ss_overlaps rs first lst = list_ex (\<lambda>(a, b). first \<le> b \<and> a \<le> lst) rs"

fun ss_insert_loop :: "u64 \<times> u64 \<Rightarrow> seq_set \<Rightarrow> seq_set \<Rightarrow> (u64 \<times> u64) \<times> seq_set" where
  "ss_insert_loop merged out [] = (merged, out)"
| "ss_insert_loop merged out ((a, b) # rs) =
     (if a \<le> u64_saturating_add (snd merged) 1 \<and> fst merged \<le> u64_saturating_add b 1
      then ss_insert_loop (min (fst merged) a, max (snd merged) b) out rs
      else ss_insert_loop merged (out @ [(a, b)]) rs)"

definition ss_insert :: "u64 \<Rightarrow> u64 \<Rightarrow> seq_set \<Rightarrow> seq_set" where
  "ss_insert first lst rs =
     (let (merged, out) = ss_insert_loop (first, lst) [] rs in sort (out @ [merged]))"

fun ss_gaps_loop :: "u64 \<Rightarrow> seq_set \<Rightarrow> (u64 \<times> u64) list" where
  "ss_gaps_loop nxt [] = []"
| "ss_gaps_loop nxt ((a, b) # rs) =
     (if nxt < a then [(nxt, a - 1)] else []) @ ss_gaps_loop (u64_saturating_add b 1) rs"

definition ss_gaps :: "seq_set \<Rightarrow> (u64 \<times> u64) list" where
  "ss_gaps rs = ss_gaps_loop 1 rs"

fun ss_uncovered_loop :: "u64 \<Rightarrow> u64 \<Rightarrow> seq_set \<Rightarrow> (u64 \<times> u64) list" where
  "ss_uncovered_loop nxt lst [] = (if nxt \<le> lst then [(nxt, lst)] else [])"
| "ss_uncovered_loop nxt lst ((a, b) # rs) =
     (if lst < nxt then (if nxt \<le> lst then [(nxt, lst)] else [])
      else if b < nxt then ss_uncovered_loop nxt lst rs
      else (if nxt < a then [(nxt, min (a - 1) lst)] else [])
             @ ss_uncovered_loop (u64_saturating_add b 1) lst rs)"

definition ss_uncovered :: "u64 \<Rightarrow> u64 \<Rightarrow> seq_set \<Rightarrow> (u64 \<times> u64) list" where
  "ss_uncovered first lst rs = ss_uncovered_loop first lst rs"

type_synonym origin_coverage = "(node_id, seq_set) btree"

text \<open>\<open>cov.entry(origin).or_default().insert(first, last)\<close>, the step every client folds with.\<close>

definition cov_insert :: "node_id \<Rightarrow> u64 \<Rightarrow> u64 \<Rightarrow> origin_coverage \<Rightarrow> origin_coverage" where
  "cov_insert origin first lst cov = bt_upsert origin [] (ss_insert first lst) cov"

definition unexcused_gaps :: "origin_coverage \<Rightarrow> origin_coverage \<Rightarrow> (node_id \<times> u64 \<times> u64) list" where
  "unexcused_gaps coverage losses =
     concat (map (\<lambda>(origin, rs).
       concat (map (\<lambda>(first, lst).
         case bt_get losses origin of
           Some excuse \<Rightarrow> map (\<lambda>(a, b). (origin, a, b)) (ss_uncovered first lst excuse)
         | None \<Rightarrow> [(origin, first, lst)]) (ss_gaps rs))) coverage)"

section \<open>Meaning and invariant\<close>

definition ss_set :: "(u64 \<times> u64) list \<Rightarrow> u64 set" where
  "ss_set rs = (\<Union>(a, b)\<in>set rs. {a..b})"

definition ss_before :: "u64 \<times> u64 \<Rightarrow> u64 \<times> u64 \<Rightarrow> bool" where
  "ss_before r s \<longleftrightarrow> Suc (unat (snd r)) < unat (fst s)"

definition ss_wf :: "seq_set \<Rightarrow> bool" where
  "ss_wf rs \<longleftrightarrow> (\<forall>r\<in>set rs. fst r \<le> snd r) \<and> sorted_wrt ss_before rs"

definition cov_of :: "origin_coverage \<Rightarrow> node_id \<Rightarrow> u64 set" where
  "cov_of cov origin = map_or {} ss_set (bt_get cov origin)"

definition cov_wf :: "origin_coverage \<Rightarrow> bool" where
  "cov_wf cov \<longleftrightarrow> bt_wf cov \<and> (\<forall>(origin, rs)\<in>set cov. rs \<noteq> [] \<and> ss_wf rs)"

text \<open>
  Below every covered sequence number of an origin, each number from 1 on is covered or excused.
\<close>

definition gap_free :: "(node_id \<Rightarrow> u64 set) \<Rightarrow> (node_id \<Rightarrow> u64 set) \<Rightarrow> bool" where
  "gap_free C L \<longleftrightarrow> (\<forall>origin s t. 1 \<le> s \<longrightarrow> s < t \<longrightarrow> t \<in> C origin \<longrightarrow> s \<in> C origin \<union> L origin)"

lemmas seq_nat = word_le_nat_alt word_less_nat_alt

lemma ss_set_simps [simp]:
  "ss_set [] = {}"
  "ss_set (r # rs) = {fst r..snd r} \<union> ss_set rs"
  "ss_set (rs @ ts) = ss_set rs \<union> ss_set ts"
  by (auto simp: ss_set_def split: prod.splits)

lemma ss_set_sort [simp]: "ss_set (sort rs) = ss_set rs"
  by (simp add: ss_set_def)

lemma ss_wf_Nil [simp]: "ss_wf []"
  by (simp add: ss_wf_def)

lemma ss_wf_Cons:
  "ss_wf (r # rs) \<longleftrightarrow> fst r \<le> snd r \<and> (\<forall>s\<in>set rs. ss_before r s) \<and> ss_wf rs"
  by (auto simp: ss_wf_def)

section \<open>Overlap\<close>

lemma ss_overlaps_iff:
  assumes "ss_wf rs" and "f \<le> l"
  shows "ss_overlaps rs f l \<longleftrightarrow> {f..l} \<inter> ss_set rs \<noteq> {}"
  using assms
proof (induction rs)
  case (Cons r rs)
  obtain a b where r: "r = (a, b)" by (cases r)
  have "f \<le> b \<and> a \<le> l \<longleftrightarrow> {f..l} \<inter> {a..b} \<noteq> {}"
    using Cons.prems r by (auto simp: ss_wf_Cons)
  with Cons r show ?case
    by (auto simp: ss_overlaps_def ss_wf_Cons Int_Un_distrib simp del: Int_atLeastAtMost)
qed (simp add: ss_overlaps_def)

section \<open>Insertion\<close>

definition ss_touch :: "u64 \<times> u64 \<Rightarrow> u64 \<times> u64 \<Rightarrow> bool" where
  "ss_touch r m \<longleftrightarrow> \<not> ss_before r m \<and> \<not> ss_before m r"

lemma ss_insert_loop_Cons:
  "ss_insert_loop m out (r # rs) =
     (if ss_touch r m then ss_insert_loop (min (fst m) (fst r), max (snd m) (snd r)) out rs
      else ss_insert_loop m (out @ [r]) rs)"
  by (cases r) (auto simp: ss_touch_def ss_before_def u64_arith)

lemma ss_insert_loop_far:
  assumes "ss_wf (r # rs)" and "fst m \<le> snd m" and "\<not> ss_touch r m"
  shows "\<not> ss_touch r (fst (ss_insert_loop m out rs))"
  using assms
proof (induction rs arbitrary: m out)
  case (Cons s rs)
  have wf: "ss_wf (r # rs)" using Cons.prems(1) by (auto simp: ss_wf_Cons)
  show ?case
  proof (cases "ss_touch s m")
    case True
    let ?m = "(min (fst m) (fst s), max (snd m) (snd s))"
    have "\<not> ss_touch r ?m"
      using Cons.prems True
      by (auto simp: ss_wf_Cons ss_touch_def ss_before_def seq_nat min_def max_def
          split: if_splits)
    moreover have "fst ?m \<le> snd ?m"
      using Cons.prems by (auto simp: ss_wf_Cons min_def max_def)
    ultimately show ?thesis
      using Cons.IH[OF wf, of ?m out] True by (simp add: ss_insert_loop_Cons)
  next
    case False
    then show ?thesis
      using Cons.IH[OF wf Cons.prems(2,3)] by (simp add: ss_insert_loop_Cons)
  qed
qed simp

lemma touch_union:
  assumes "fst r \<le> snd r" and "fst m \<le> snd m" and "ss_touch r m"
  shows "{fst r..snd r} \<union> {fst m..snd m} = {min (fst m) (fst r)..max (snd m) (snd r)}"
proof (rule set_eqI)
  fix x :: u64
  show "x \<in> {fst r..snd r} \<union> {fst m..snd m} \<longleftrightarrow> x \<in> {min (fst m) (fst r)..max (snd m) (snd r)}"
    using assms by (auto simp: ss_touch_def ss_before_def seq_nat min_def max_def split: if_splits)
qed

lemma ss_insert_loop_spec:
  assumes "ss_wf rs" and "fst m \<le> snd m" and "ss_insert_loop m out rs = (m', out')"
  shows "fst m' \<le> snd m'
    \<and> {fst m'..snd m'} \<union> ss_set out' = {fst m..snd m} \<union> ss_set rs \<union> ss_set out
    \<and> (\<exists>kept. out' = out @ kept \<and> ss_wf kept \<and> set kept \<subseteq> set rs
          \<and> (\<forall>r\<in>set kept. \<not> ss_touch r m'))"
  using assms
proof (induction rs arbitrary: m out)
  case Nil
  then show ?case by auto
next
  case (Cons r rs)
  have wf: "ss_wf rs" and r: "fst r \<le> snd r" using Cons.prems(1) by (auto simp: ss_wf_Cons)
  show ?case
  proof (cases "ss_touch r m")
    case True
    let ?m = "(min (fst m) (fst r), max (snd m) (snd r))"
    have "fst ?m \<le> snd ?m" using Cons.prems(2) r by (auto simp: min_def max_def)
    from Cons.IH[OF wf this, of out] Cons.prems(3) True touch_union[OF r Cons.prems(2) True]
    show ?thesis by (auto simp: ss_insert_loop_Cons)
  next
    case False
    then have run: "ss_insert_loop m (out @ [r]) rs = (m', out')"
      using Cons.prems(3) by (simp add: ss_insert_loop_Cons)
    from Cons.IH[OF wf Cons.prems(2) run]
    obtain kept where kept: "out' = (out @ [r]) @ kept" "ss_wf kept" "set kept \<subseteq> set rs"
        "\<forall>s\<in>set kept. \<not> ss_touch s m'"
      and m': "fst m' \<le> snd m'"
        "{fst m'..snd m'} \<union> ss_set out' = {fst m..snd m} \<union> ss_set rs \<union> ss_set (out @ [r])"
      by blast
    have far: "\<not> ss_touch r m'"
      using ss_insert_loop_far[OF Cons.prems(1,2) False, of "out @ [r]"] run by simp
    have "ss_wf (r # kept)"
      using Cons.prems(1) kept(2,3) by (auto simp: ss_wf_Cons)
    with kept far m' show ?thesis
      by (intro conjI exI[of _ "r # kept"]) auto
  qed
qed

lemma ss_wf_sort:
  assumes le: "\<forall>r\<in>set xs. fst r \<le> snd r" and d: "distinct xs"
    and sep: "\<And>r s. r \<in> set xs \<Longrightarrow> s \<in> set xs \<Longrightarrow> r \<noteq> s \<Longrightarrow> ss_before r s \<or> ss_before s r"
  shows "ss_wf (sort xs)"
proof -
  have "ss_before r s" if "r \<in> set xs" "s \<in> set xs" "r < s" for r s
  proof -
    have "\<not> ss_before s r"
      using that le by (auto simp: ss_before_def seq_nat less_prod_def)
    with sep[of r s] that show ?thesis by auto
  qed
  moreover have "sorted_wrt (<) (sort xs)"
    using d by (simp add: strict_sorted_iff)
  ultimately have "sorted_wrt ss_before (sort xs)"
    by (intro sorted_wrt_mono_rel[of "sort xs" "(<)" ss_before]) auto
  with le show ?thesis by (simp add: ss_wf_def)
qed

lemma ss_before_irrefl: "fst r \<le> snd r \<Longrightarrow> \<not> ss_before r r"
  by (auto simp: ss_before_def seq_nat)

lemma ss_wf_apart:
  assumes "ss_wf rs" and "r \<in> set rs" and "s \<in> set rs" and "r \<noteq> s"
  shows "ss_before r s \<or> ss_before s r"
  using assms by (induction rs) (auto simp: ss_wf_Cons)

lemma ss_wf_distinct: "ss_wf rs \<Longrightarrow> distinct rs"
  by (induction rs) (auto simp: ss_wf_Cons dest: ss_before_irrefl)

lemma ss_insert_correct:
  assumes "ss_wf rs" and "f \<le> l"
  shows "ss_wf (ss_insert f l rs)" and "ss_set (ss_insert f l rs) = ss_set rs \<union> {f..l}"
proof -
  obtain m out where run: "ss_insert_loop (f, l) [] rs = (m, out)"
    by (cases "ss_insert_loop (f, l) [] rs")
  with ss_insert_loop_spec[OF assms(1), of "(f, l)" "[]"] assms(2)
  have m: "fst m \<le> snd m" and sets: "{fst m..snd m} \<union> ss_set out = {f..l} \<union> ss_set rs"
    and out: "ss_wf out" "\<forall>r\<in>set out. \<not> ss_touch r m"
    by auto
  show "ss_wf (ss_insert f l rs)"
    unfolding ss_insert_def run Let_def prod.case
  proof (rule ss_wf_sort)
    show "\<forall>r\<in>set (out @ [m]). fst r \<le> snd r"
      using m out(1) by (auto simp: ss_wf_def)
    show "distinct (out @ [m])"
      using out(2) ss_wf_distinct[OF out(1)] ss_before_irrefl[OF m] by (auto simp: ss_touch_def)
    show "ss_before r s \<or> ss_before s r"
      if "r \<in> set (out @ [m])" "s \<in> set (out @ [m])" "r \<noteq> s" for r s
      using that out(2) ss_wf_apart[OF out(1), of r s] by (auto simp: ss_touch_def)
  qed
  show "ss_set (ss_insert f l rs) = ss_set rs \<union> {f..l}"
    using sets by (auto simp: ss_insert_def run)
qed

section \<open>The representation is canonical\<close>

lemma ss_tail_above:
  assumes "ss_wf (r # rs)" and "x \<in> ss_set rs"
  shows "Suc (unat (snd r)) < unat x"
proof -
  from assms(2) obtain s where "s \<in> set rs" and "fst s \<le> x"
    by (auto simp: ss_set_def)
  with assms(1) show ?thesis
    by (auto simp: ss_wf_Cons ss_before_def seq_nat dest!: bspec)
qed

lemma ss_first_least:
  assumes "ss_wf (r # rs)" and "x \<in> ss_set (r # rs)"
  shows "fst r \<le> x"
  using assms ss_tail_above[OF assms(1), of x] by (auto simp: ss_wf_Cons seq_nat)

lemma ss_first_end:
  assumes r: "ss_wf (r # rs)" and t: "ss_wf (t # ts)" and eq: "ss_set (r # rs) = ss_set (t # ts)"
    and start: "fst r = fst t"
  shows "snd t \<le> snd r"
proof (rule ccontr)
  assume "\<not> snd t \<le> snd r"
  then have lt: "snd r < snd t" by simp
  let ?x = "u64_saturating_add (snd r) 1"
  have x: "unat ?x = Suc (unat (snd r))"
    using lt u64_bound[of "snd t"] by (simp add: seq_nat unat_saturating_add)
  have "?x \<in> ss_set (t # ts)"
    using lt x start r by (auto simp: seq_nat ss_wf_Cons)
  then have "?x \<in> {fst r..snd r} \<union> ss_set rs"
    using eq by simp
  then have "?x \<in> ss_set rs"
    using x by (auto simp: seq_nat)
  from ss_tail_above[OF r this] x show False by simp
qed

lemma ss_tail_set: "ss_wf (r # rs) \<Longrightarrow> ss_set rs = ss_set (r # rs) - {fst r..snd r}"
  by (auto simp: seq_nat dest: ss_tail_above)

lemma ss_set_inject:
  assumes "ss_wf rs" and "ss_wf ts" and "ss_set rs = ss_set ts"
  shows "rs = ts"
  using assms
proof (induction rs arbitrary: ts)
  case Nil
  then show ?case by (cases ts) (auto simp: ss_wf_Cons)
next
  case (Cons r rs)
  then obtain t ts' where ts: "ts = t # ts'"
    by (cases ts) (auto simp: ss_wf_Cons)
  have r: "ss_wf (r # rs)" and t: "ss_wf (t # ts')" and eq: "ss_set (r # rs) = ss_set (t # ts')"
    using Cons.prems ts by auto
  have "fst r \<in> ss_set (t # ts')" "fst t \<in> ss_set (r # rs)"
    using r t eq by (auto simp: ss_wf_Cons)
  with ss_first_least[OF r] ss_first_least[OF t] have start: "fst r = fst t"
    by (meson order_antisym)
  then have same: "r = t"
    using ss_first_end[OF r t eq start] ss_first_end[OF t r eq[symmetric] start[symmetric]]
    by (simp add: prod_eq_iff)
  with ss_tail_set[OF r] ss_tail_set[OF t] eq have "ss_set rs = ss_set ts'" by simp
  with Cons.IH[of ts'] r t same ts show ?case by (simp add: ss_wf_Cons)
qed

locale range_set =
  fixes wf :: "'s \<Rightarrow> bool" and elems :: "'s \<Rightarrow> u64 set"
    and insert_range :: "u64 \<Rightarrow> u64 \<Rightarrow> 's \<Rightarrow> 's" and empty :: 's
  assumes wf_empty: "wf empty" and elems_empty: "elems empty = {}"
    and wf_insert_range: "wf s \<Longrightarrow> f \<le> l \<Longrightarrow> wf (insert_range f l s)"
    and elems_insert_range: "wf s \<Longrightarrow> f \<le> l \<Longrightarrow> elems (insert_range f l s) = elems s \<union> {f..l}"
    and canonical: "wf s \<Longrightarrow> wf t \<Longrightarrow> elems s = elems t \<Longrightarrow> s = t"
begin

lemma insert_range_commute:
  assumes "wf s" and "f \<le> l" and "f' \<le> l'"
  shows "insert_range f l (insert_range f' l' s) = insert_range f' l' (insert_range f l s)"
  using assms by (intro canonical) (auto simp: wf_insert_range elems_insert_range)

lemma insert_range_absorb:
  assumes "wf s" and "f \<le> l" and "{f..l} \<subseteq> elems s"
  shows "insert_range f l s = s"
  using assms by (intro canonical) (auto simp: wf_insert_range elems_insert_range)

end

interpretation ss: range_set ss_wf ss_set ss_insert "[]"
  by unfold_locales (auto simp: ss_insert_correct intro: ss_set_inject)

section \<open>Gaps\<close>

lemma ss_gaps_loop_spec:
  assumes "ss_wf rs" and "\<forall>r\<in>set rs. unat n \<le> Suc (unat (snd r))"
  shows "ss_set (ss_gaps_loop n rs) = {s. n \<le> s \<and> s \<notin> ss_set rs \<and> (\<exists>t\<in>ss_set rs. s < t)}"
  using assms
proof (induction rs arbitrary: n)
  case Nil
  then show ?case by simp
next
  case (Cons r rs)
  obtain a b where r: "r = (a, b)" by (cases r)
  let ?n = "u64_saturating_add b 1"
  have wf: "ss_wf rs" and ab: "a \<le> b" using Cons.prems(1) r by (auto simp: ss_wf_Cons)
  have "\<forall>s\<in>set rs. unat ?n \<le> Suc (unat (snd s))"
  proof
    fix s assume s: "s \<in> set rs"
    have "Suc (unat b) < unat (fst s)" and "unat (fst s) \<le> unat (snd s)"
      using Cons.prems(1) r s by (simp_all add: ss_wf_def ss_before_def seq_nat)
    then show "unat ?n \<le> Suc (unat (snd s))" by (simp add: unat_saturating_add)
  qed
  from Cons.IH[OF wf this]
  have IH: "ss_set (ss_gaps_loop ?n rs) = {s. ?n \<le> s \<and> s \<notin> ss_set rs \<and> (\<exists>t\<in>ss_set rs. s < t)}" .
  have tail: "Suc (unat b) < unat x" if "x \<in> ss_set rs" for x
    using ss_tail_above[OF Cons.prems(1) that] r by simp
  have above: "b < x" if "x \<in> ss_set rs" for x
    using tail[OF that] by (simp add: seq_nat)
  have n: "n \<le> s" if "b < s" for s
    using Cons.prems(2) r that by (auto simp: seq_nat)
  show ?case
  proof (rule set_eqI)
    fix s
    have "s \<in> ss_set (ss_gaps_loop n (r # rs)) \<longleftrightarrow>
        (n \<le> s \<and> s < a) \<or> (?n \<le> s \<and> s \<notin> ss_set rs \<and> (\<exists>t\<in>ss_set rs. s < t))"
      by (simp add: r IH le_pred_iff) (meson order_le_less_trans)
    also have "(?n \<le> s \<and> s \<notin> ss_set rs \<and> (\<exists>t\<in>ss_set rs. s < t)) \<longleftrightarrow>
        (b < s \<and> s \<notin> ss_set rs \<and> (\<exists>t\<in>ss_set rs. s < t))"
    proof -
      have "?n \<le> s \<longleftrightarrow> b < s" if "t \<in> ss_set rs" for t
        by (rule saturating_succ_le_iff[OF above[OF that]])
      then show ?thesis by blast
    qed
    also have "(n \<le> s \<and> s < a) \<or> (b < s \<and> s \<notin> ss_set rs \<and> (\<exists>t\<in>ss_set rs. s < t)) \<longleftrightarrow>
        n \<le> s \<and> s \<notin> ss_set (r # rs) \<and> (\<exists>t\<in>ss_set (r # rs). s < t)"
    proof (cases "b < s")
      case True
      with n[OF True] r ab show ?thesis by auto
    next
      case False
      with above have "s \<notin> ss_set rs" by auto
      with False r ab show ?thesis by (auto intro!: bexI[of _ b])
    qed
    finally show "s \<in> ss_set (ss_gaps_loop n (r # rs)) \<longleftrightarrow>
        s \<in> {s. n \<le> s \<and> s \<notin> ss_set (r # rs) \<and> (\<exists>t\<in>ss_set (r # rs). s < t)}"
      by simp
  qed
qed

lemma ss_gaps_spec:
  assumes "ss_wf rs"
  shows "ss_set (ss_gaps rs) = {s. 1 \<le> s \<and> s \<notin> ss_set rs \<and> (\<exists>t\<in>ss_set rs. s < t)}"
  using ss_gaps_loop_spec[OF assms, of 1] by (simp add: ss_gaps_def)

lemma ss_uncovered_loop_spec:
  assumes "ss_wf rs" and "lst < u64_max \<or> u64_max \<notin> ss_set rs"
  shows "ss_set (ss_uncovered_loop n lst rs) = {n..lst} - ss_set rs"
  using assms
proof (induction rs arbitrary: n)
  case Nil
  then show ?case by auto
next
  case (Cons r rs)
  obtain a b where r: "r = (a, b)" by (cases r)
  let ?n = "u64_saturating_add b 1"
  have wf: "ss_wf rs" and ab: "a \<le> b" using Cons.prems(1) r by (auto simp: ss_wf_Cons)
  have top: "lst < u64_max \<or> u64_max \<notin> ss_set rs" and "lst < u64_max \<or> b \<noteq> u64_max"
    using Cons.prems(2) r ab by auto
  then have b: "?n \<le> x \<longleftrightarrow> b < x" if "x \<le> lst" for x
  proof (cases "b = u64_max")
    case True
    then show ?thesis
      using \<open>lst < u64_max \<or> b \<noteq> u64_max\<close> that by (auto simp: leD dest: order_le_less_trans)
  next
    case False
    then have "b < u64_max" by (simp add: less_le)
    then show ?thesis by (rule saturating_succ_le_iff)
  qed
  note IH = Cons.IH[OF wf top]
  have above: "b < x" if "x \<in> ss_set rs" for x
    using ss_tail_above[OF Cons.prems(1) that] r by (simp add: seq_nat)
  consider "lst < n" | "n \<le> lst" "b < n" | "n \<le> lst" "n \<le> b"
    by (meson not_le)
  then show ?case
  proof cases
    case 1
    with r show ?thesis by auto
  next
    case 2
    with r IH[of n] show ?thesis by auto
  next
    case 3
    have "x \<in> ss_set (if n < a then [(n, min (a - 1) lst)] else []) \<longleftrightarrow> n \<le> x \<and> x < a \<and> x \<le> lst"
      for x by (simp add: le_pred_iff) (meson order_le_less_trans)
    moreover have "x \<in> ss_set (ss_uncovered_loop ?n lst rs) \<longleftrightarrow> b < x \<and> x \<le> lst \<and> x \<notin> ss_set rs"
      for x using IH[of ?n] b[of x] by auto
    ultimately have mem: "x \<in> ss_set (ss_uncovered_loop n lst (r # rs)) \<longleftrightarrow>
        (n \<le> x \<and> x < a \<and> x \<le> lst) \<or> (b < x \<and> x \<le> lst \<and> x \<notin> ss_set rs)" for x
      using 3 r by (simp add: leD)
    show ?thesis
    proof (rule set_eqI)
      fix x
      show "x \<in> ss_set (ss_uncovered_loop n lst (r # rs)) \<longleftrightarrow> x \<in> {n..lst} - ss_set (r # rs)"
      proof (cases "b < x")
        case True
        with 3 r ab show ?thesis unfolding mem by auto
      next
        case False
        with above have "x \<notin> ss_set rs" by auto
        with False r ab show ?thesis unfolding mem by auto
      qed
    qed
  qed
qed

lemma ss_uncovered_spec:
  assumes "ss_wf rs" and "lst < u64_max \<or> u64_max \<notin> ss_set rs"
  shows "ss_set (ss_uncovered f lst rs) = {f..lst} - ss_set rs"
  using ss_uncovered_loop_spec[OF assms] by (simp add: ss_uncovered_def)

text \<open>
  The side condition is needed: when the set reaches the largest sequence number, the saturating
  step leaves the cursor on a covered number and the final test reports it as uncovered.
\<close>

lemma ss_uncovered_at_max:
  "ss_wf [(5, u64_max)] \<and> ss_uncovered 1 u64_max [(5, u64_max)] = [(1, 4), (u64_max, u64_max)]"
  by (simp add: ss_wf_def ss_uncovered_def u64_saturating_add_def u64_max_def
      unsigned_minus_1_eq_mask mask_eq_exp_minus_1)

section \<open>Ranges reported by the loops are not empty\<close>

lemma ss_gaps_loop_ranges:
  "(f, l) \<in> set (ss_gaps_loop n rs) \<Longrightarrow> f \<le> l \<and> l < u64_max"
proof (induction rs arbitrary: n)
  case (Cons r rs)
  obtain a b where r: "r = (a, b)" by (cases r)
  have "a - 1 < u64_max" if "n < a"
    using that u64_bound[of a] by (auto simp: seq_nat unat_pred unat_u64_max)
  with Cons r show ?case by (auto simp: le_pred_iff split: if_splits)
qed simp

lemma ss_uncovered_loop_ranges:
  "(f, l) \<in> set (ss_uncovered_loop n lst rs) \<Longrightarrow> f \<le> l"
proof (induction rs arbitrary: n)
  case (Cons r rs)
  obtain a b where r: "r = (a, b)" by (cases r)
  with Cons show ?case by (auto simp: le_pred_iff split: if_splits)
qed (auto split: if_splits)

lemma ss_set_empty_iff: "(\<And>f l. (f, l) \<in> set rs \<Longrightarrow> f \<le> l) \<Longrightarrow> ss_set rs = {} \<longleftrightarrow> rs = []"
  by (cases rs) fastforce+

section \<open>Per-origin coverage\<close>

lemma cov_wf_empty [simp]: "cov_wf []"
  by (simp add: cov_wf_def)

lemma cov_of_empty [simp]: "cov_of [] = (\<lambda>_. {})"
  by (simp add: cov_of_def fun_eq_iff)

lemma cov_wf_bt: "cov_wf cov \<Longrightarrow> bt_wf cov"
  by (simp add: cov_wf_def)

lemma cov_wf_get: "cov_wf cov \<Longrightarrow> bt_get cov origin = Some rs \<Longrightarrow> rs \<noteq> [] \<and> ss_wf rs"
  by (auto simp: cov_wf_def dest!: bt_get_SomeD)

lemma cov_wf_get_or_nil: "cov_wf cov \<Longrightarrow> ss_wf (map_or [] id (bt_get cov origin))"
  by (cases "bt_get cov origin") (auto dest: cov_wf_get)

lemma cov_of_get_or_nil: "cov_of cov origin = ss_set (map_or [] id (bt_get cov origin))"
  by (cases "bt_get cov origin") (auto simp: cov_of_def)

lemma cov_wfI:
  assumes "bt_wf cov" and "\<And>origin rs. bt_get cov origin = Some rs \<Longrightarrow> rs \<noteq> [] \<and> ss_wf rs"
  shows "cov_wf cov"
  using assms by (force simp: cov_wf_def bt_get_Some)

lemma ss_insert_nonempty: "ss_insert f l rs \<noteq> []"
  by (auto simp: ss_insert_def split: prod.splits dest: arg_cong[of _ _ length])

lemma cov_wf_insert:
  assumes "cov_wf cov" and "f \<le> l"
  shows "cov_wf (cov_insert origin f l cov)"
  using assms cov_wf_get_or_nil[OF assms(1)]
  by (intro cov_wfI)
    (auto simp: cov_insert_def cov_wf_bt ss_insert_nonempty ss_insert_correct
      dest: cov_wf_get split: if_splits)

lemma cov_of_insert:
  assumes "cov_wf cov" and "f \<le> l"
  shows "cov_of (cov_insert origin f l cov) =
    (cov_of cov)(origin := cov_of cov origin \<union> {f..l})"
proof
  fix j
  show "cov_of (cov_insert origin f l cov) j =
    ((cov_of cov)(origin := cov_of cov origin \<union> {f..l})) j"
    using assms cov_wf_get_or_nil[OF assms(1), of origin]
    by (simp add: cov_of_get_or_nil cov_insert_def ss_insert_correct)
qed

lemma ss_set_nonempty: "ss_wf rs \<Longrightarrow> rs \<noteq> [] \<Longrightarrow> ss_set rs \<noteq> {}"
  by (cases rs) (auto simp: ss_wf_Cons)

lemma cov_ext:
  assumes "cov_wf c" and "cov_wf d" and "cov_of c = cov_of d"
  shows "c = d"
proof (rule bt_ext)
  show "bt_wf c" "bt_wf d" using assms(1,2) by (auto intro: cov_wf_bt)
  fix origin
  have "ss_set (map_or [] id (bt_get c origin)) = ss_set (map_or [] id (bt_get d origin))"
    using assms(3) by (simp add: cov_of_get_or_nil[symmetric])
  with cov_wf_get_or_nil[OF assms(1)] cov_wf_get_or_nil[OF assms(2)]
  have "map_or [] id (bt_get c origin) = map_or [] id (bt_get d origin)"
    by (rule ss.canonical)
  with assms(1,2) show "bt_get c origin = bt_get d origin"
    by (cases "bt_get c origin"; cases "bt_get d origin") (auto dest: cov_wf_get)
qed

section \<open>Unexcused gaps\<close>

definition missing_seqs :: "(node_id \<Rightarrow> u64 set) \<Rightarrow> (node_id \<Rightarrow> u64 set) \<Rightarrow> node_id \<Rightarrow> u64 set" where
  "missing_seqs C L origin =
     {s. 1 \<le> s \<and> s \<notin> C origin \<and> s \<notin> L origin \<and> (\<exists>t\<in>C origin. s < t)}"

definition gap_seqs :: "(node_id \<times> u64 \<times> u64) list \<Rightarrow> node_id \<Rightarrow> u64 set" where
  "gap_seqs gaps origin = (\<Union>(j, a, b)\<in>set gaps. if j = origin then {a..b} else {})"

definition excused_gaps :: "seq_set option \<Rightarrow> (u64 \<times> u64) list \<Rightarrow> (u64 \<times> u64) list" where
  "excused_gaps excuse gs =
     concat (map (\<lambda>(f, l). map_or [(f, l)] (ss_uncovered f l) excuse) gs)"

lemma unexcused_gaps_alt:
  "unexcused_gaps coverage losses =
     concat (map (\<lambda>(origin, rs).
       map (\<lambda>(a, b). (origin, a, b)) (excused_gaps (bt_get losses origin) (ss_gaps rs))) coverage)"
  by (auto simp: unexcused_gaps_def excused_gaps_def map_concat
      intro!: arg_cong[of _ _ concat] map_cong split: option.splits)

lemma excused_gaps_set:
  assumes "\<And>rs. excuse = Some rs \<Longrightarrow> ss_wf rs" and "\<And>f l. (f, l) \<in> set gs \<Longrightarrow> l < u64_max"
  shows "ss_set (excused_gaps excuse gs) = ss_set gs - map_or {} ss_set excuse"
  using assms(2)
proof (induction gs)
  case (Cons g gs)
  obtain f l where g: "g = (f, l)" by (cases g)
  have "l < u64_max" using Cons.prems g by auto
  then have "ss_set (map_or [(f, l)] (ss_uncovered f l) excuse) = {f..l} - map_or {} ss_set excuse"
    using assms(1)
    by (cases excuse) (simp_all add: ss_uncovered_spec)
  with Cons g show ?case by (auto simp: excused_gaps_def)
qed (simp add: excused_gaps_def)

lemma excused_gaps_ranges:
  assumes "\<And>f l. (f, l) \<in> set gs \<Longrightarrow> f \<le> l" and "(a, b) \<in> set (excused_gaps excuse gs)"
  shows "a \<le> b"
  using assms
  by (cases excuse) (auto simp: excused_gaps_def ss_uncovered_def dest: ss_uncovered_loop_ranges)

lemma gap_seqs_per_origin:
  "gap_seqs (concat (map (\<lambda>(j, rs). map (\<lambda>(a, b). (j, a, b)) (h j rs)) cov)) origin =
     (\<Union>(j, rs)\<in>set cov. if j = origin then ss_set (h j rs) else {})"
proof (induction cov)
  case (Cons e cov)
  obtain j rs where e: "e = (j, rs)" by (cases e)
  have "gap_seqs (map (\<lambda>(a, b). (j, a, b)) xs) origin = (if j = origin then ss_set xs else {})"
    for xs by (induction xs) (auto simp: gap_seqs_def)
  moreover have "gap_seqs (xs @ ys) origin = gap_seqs xs origin \<union> gap_seqs ys origin" for xs ys
    by (simp add: gap_seqs_def)
  ultimately show ?case using Cons e by simp
qed (simp add: gap_seqs_def)

lemma unexcused_gaps_spec:
  assumes "cov_wf coverage" and "cov_wf losses"
  shows "gap_seqs (unexcused_gaps coverage losses) = missing_seqs (cov_of coverage) (cov_of losses)"
proof
  fix origin
  let ?ex = "bt_get losses origin"
  have ex: "ss_set (excused_gaps ?ex (ss_gaps rs)) = ss_set (ss_gaps rs) - cov_of losses origin" for rs
    using assms(2)
    by (subst excused_gaps_set)
      (auto simp: ss_gaps_def cov_of_def dest: cov_wf_get ss_gaps_loop_ranges)
  have "gap_seqs (unexcused_gaps coverage losses) origin =
      (\<Union>(j, rs)\<in>set coverage. if j = origin then ss_set (excused_gaps ?ex (ss_gaps rs)) else {})"
    unfolding unexcused_gaps_alt gap_seqs_per_origin by (intro SUP_cong) (simp_all split: prod.splits)
  also have "\<dots> = map_or {} (\<lambda>rs. ss_set (ss_gaps rs) - cov_of losses origin) (bt_get coverage origin)"
    unfolding ex by (rule bt_UN_key) (rule cov_wf_bt[OF assms(1)])
  also have "\<dots> = missing_seqs (cov_of coverage) (cov_of losses) origin"
  proof (cases "bt_get coverage origin")
    case (Some rs)
    with cov_wf_get[OF assms(1)] have "ss_wf rs" by simp
    with Some show ?thesis
      by (auto simp: missing_seqs_def cov_of_def[of coverage] ss_gaps_spec)
  qed (simp add: missing_seqs_def cov_of_def)
  finally show "gap_seqs (unexcused_gaps coverage losses) origin
      = missing_seqs (cov_of coverage) (cov_of losses) origin" .
qed

lemma unexcused_gaps_ranges: "(j, a, b) \<in> set (unexcused_gaps coverage losses) \<Longrightarrow> a \<le> b"
  by (auto simp: unexcused_gaps_alt ss_gaps_def dest!: excused_gaps_ranges[rotated]
      dest: ss_gaps_loop_ranges)

lemma gap_free_missing: "gap_free C L \<longleftrightarrow> (\<forall>origin. missing_seqs C L origin = {})"
  by (auto simp: gap_free_def missing_seqs_def)

lemma unexcused_gaps_empty_iff:
  assumes "cov_wf coverage" and "cov_wf losses"
  shows "unexcused_gaps coverage losses = [] \<longleftrightarrow> gap_free (cov_of coverage) (cov_of losses)"
proof -
  have "unexcused_gaps coverage losses = [] \<longleftrightarrow>
      (\<forall>origin. gap_seqs (unexcused_gaps coverage losses) origin = {})"
  proof (cases "unexcused_gaps coverage losses")
    case (Cons g gs)
    obtain j a b where g: "g = (j, a, b)" by (cases g)
    with Cons have "a \<le> b"
      using unexcused_gaps_ranges[of j a b coverage losses] by simp
    then have "a \<in> gap_seqs (unexcused_gaps coverage losses) j"
      using Cons g by (simp add: gap_seqs_def)
    with Cons show ?thesis by auto
  qed (simp add: gap_seqs_def)
  then show ?thesis
    by (simp add: gap_free_missing unexcused_gaps_spec[OF assms])
qed

lemma gap_free_mono: "gap_free C L \<Longrightarrow> (\<And>origin. L origin \<subseteq> L' origin) \<Longrightarrow> gap_free C L'"
  by (fastforce simp: gap_free_def)

end
