(* ===== verification/Ledger.thy ===== *)
theory Ledger
  imports Coverage
begin

text \<open>
  \<open>crates/duckspout-watermark/src/ledger.rs\<close>: the per-partition watermark ledger. The first section
  is the code, operation by operation; a method on \<open>&mut self\<close> takes the ledger and returns the
  result together with the new ledger.

  The second section is the specification: what the state of a partition has to be, as a function
  of the manifests and loss rows recorded for it (\<open>partition_state_of\<close>). The watermark stands at
  the last window up to which every origin's coverage is gap-free, ledgered losses excusing. The
  rest proves that the incremental code computes exactly that state, and derives honesty,
  monotonicity and single commit from it.
\<close>

section \<open>The ledger code\<close>

datatype advance_error =
    DatasetMismatch partition_id dataset_id dataset_id
  | WindowNotNext partition_id window_id window_id
  | InvalidSeqRange node_id u64 u64
  | InvalidEventTimeRange int int
  | CoverageOverlap node_id u64 u64

record window_record =
  rec_origin_coverage :: "origin_seq_range list"
  rec_event_time_max_ms :: int
  rec_dedup_removed :: u64

record partition_state =
  ps_dataset :: "dataset_id option"
  ps_windows :: "(window_id, window_record) btree"
  ps_committed :: origin_coverage
  ps_losses :: origin_coverage
  ps_done_cov :: origin_coverage
  ps_done_through :: "window_id option"
  ps_complete_through_ms :: "int option"

definition ps_default :: partition_state where
  "ps_default = \<lparr>ps_dataset = None, ps_windows = [], ps_committed = [], ps_losses = [],
     ps_done_cov = [], ps_done_through = None, ps_complete_through_ms = None\<rparr>"

definition fold_ranges :: "origin_seq_range list \<Rightarrow> origin_coverage \<Rightarrow> origin_coverage" where
  "fold_ranges ranges cov =
     fold (\<lambda>r. cov_insert (osr_origin r) (osr_first_seq r) (osr_last_seq r)) ranges cov"

definition max_event :: "int option \<Rightarrow> int \<Rightarrow> int option" where
  "max_event event_max t = Some (map_or t (\<lambda>current. max current t) event_max)"

function extend_loop ::
  "origin_coverage \<Rightarrow> int option \<Rightarrow> window_id \<Rightarrow> partition_state \<Rightarrow> partition_state" where
  "extend_loop cov event_max nxt st =
     (case bt_get (ps_windows st) nxt of
        None \<Rightarrow> st
      | Some record \<Rightarrow>
          let cov' = fold_ranges (rec_origin_coverage record) cov;
              event_max' = max_event event_max (rec_event_time_max_ms record);
              st' = (if unexcused_gaps cov' (ps_losses st) = []
                     then st\<lparr>ps_done_cov := cov', ps_done_through := Some nxt,
                             ps_complete_through_ms := event_max'\<rparr>
                     else st)
          in extend_loop cov' event_max' (nxt + 1) st')"
  by pat_completeness auto
termination
proof (relation "measure (\<lambda>(cov, em, nxt, st). card {k \<in> fst ` set (ps_windows st). nxt \<le> k})",
    goal_cases)
  case (2 cov em nxt st wrec cov' em' st')
  have "nxt \<in> fst ` set (ps_windows st)" and "ps_windows st' = ps_windows st"
    using 2 by (force dest: bt_get_SomeD)+
  moreover from this(1) have "nxt \<in> {k \<in> fst ` set (ps_windows st). nxt \<le> k}"
    and "nxt \<notin> {k \<in> fst ` set (ps_windows st). nxt + 1 \<le> k}" by auto
  then have
    "{k \<in> fst ` set (ps_windows st). nxt + 1 \<le> k} \<subset> {k \<in> fst ` set (ps_windows st). nxt \<le> k}"
    by fastforce
  ultimately show ?case
    by (auto intro!: psubset_card_mono)
qed simp

declare extend_loop.simps [simp del]

definition extend :: "partition_state \<Rightarrow> partition_state" where
  "extend st = extend_loop (ps_done_cov st) (ps_complete_through_ms st)
     (map_or 0 (\<lambda>done. done + 1) (ps_done_through st)) st"

definition watermark_row_of :: "partition_state \<Rightarrow> partition_id \<Rightarrow> watermark_row option" where
  "watermark_row_of st pid =
     map_option (\<lambda>ms. \<lparr>wr_partition = pid, wr_complete_through_ms = ms\<rparr>)
       (ps_complete_through_ms st)"

definition next_window_id :: "partition_state \<Rightarrow> window_id" where
  "next_window_id st = map_or 0 (\<lambda>id. id + 1) (bt_last_key (ps_windows st))"

type_synonym watermark_ledger = "(partition_id, partition_state) btree"

definition ledger_new :: watermark_ledger where
  "ledger_new = bt_empty"

definition invalid_seq_range :: "u64 \<Rightarrow> u64 \<Rightarrow> bool" where
  "invalid_seq_range first_seq last_seq \<longleftrightarrow> first_seq = 0 \<or> last_seq < first_seq"

fun probe_ranges ::
  "partition_state option \<Rightarrow> origin_coverage \<Rightarrow> origin_seq_range list
     \<Rightarrow> (advance_error, origin_coverage) result" where
  "probe_ranges state probe [] = Inr probe"
| "probe_ranges state probe (r # ranges) =
     (let origin = osr_origin r; f = osr_first_seq r; l = osr_last_seq r in
      if invalid_seq_range f l then Inl (InvalidSeqRange origin f l)
      else
        let rs = (case bt_get probe origin of
                    Some rs \<Rightarrow> rs
                  | None \<Rightarrow> map_or [] id (Option.bind state (\<lambda>s. bt_get (ps_committed s) origin)))
        in if ss_overlaps rs f l then Inl (CoverageOverlap origin f l)
           else probe_ranges state (bt_insert origin (ss_insert f l rs) probe) ranges)"

definition window_record_of :: "window_manifest \<Rightarrow> window_record" where
  "window_record_of m = \<lparr>rec_origin_coverage = wm_origin_coverage m,
     rec_event_time_max_ms = wm_event_time_max_ms m, rec_dedup_removed = wm_dedup_removed m\<rparr>"

definition record_commit ::
  "window_manifest \<Rightarrow> watermark_ledger
     \<Rightarrow> (advance_error, watermark_row option) result \<times> watermark_ledger" where
  "record_commit m ledger =
     (let pid = wm_partition m; state = bt_get ledger pid;
          recorded = Option.bind state ps_dataset; expected = map_or 0 next_window_id state
      in
      if wm_event_time_max_ms m < wm_event_time_min_ms m
      then (Inl (InvalidEventTimeRange (wm_event_time_min_ms m) (wm_event_time_max_ms m)), ledger)
      else if recorded \<noteq> None \<and> recorded \<noteq> Some (wm_dataset m)
      then (Inl (DatasetMismatch pid (the recorded) (wm_dataset m)), ledger)
      else if wm_window_id m \<noteq> expected
      then (Inl (WindowNotNext pid expected (wm_window_id m)), ledger)
      else
        case probe_ranges state [] (wm_origin_coverage m) of
          Inl e \<Rightarrow> (Inl e, ledger)
        | Inr probe \<Rightarrow>
            let st = map_or ps_default id state;
                st = st\<lparr>ps_dataset := Some (map_or (wm_dataset m) id (ps_dataset st)),
                        ps_committed := bt_extend (ps_committed st) probe,
                        ps_windows := bt_insert (wm_window_id m) (window_record_of m) (ps_windows st)\<rparr>;
                st = extend st
            in (Inr (watermark_row_of st pid), bt_insert pid st ledger))"

text \<open>\<open>advance_for\<close> records the manifest on a clone of the ledger and keeps the answer.\<close>

definition advance_for ::
  "window_manifest \<Rightarrow> watermark_ledger \<Rightarrow> (advance_error, watermark_row option) result" where
  "advance_for m ledger = fst (record_commit m ledger)"

definition record_loss ::
  "loss_ledger_row \<Rightarrow> watermark_ledger
     \<Rightarrow> (advance_error, watermark_row option) result \<times> watermark_ledger" where
  "record_loss row ledger =
     (let r = ll_range row; f = lr_first_seq r; l = lr_last_seq r in
      if invalid_seq_range f l then (Inl (InvalidSeqRange (lr_origin r) f l), ledger)
      else
        let st = map_or ps_default id (bt_get ledger (lr_partition r));
            st = st\<lparr>ps_losses := cov_insert (lr_origin r) f l (ps_losses st)\<rparr>;
            st = extend st
        in (Inr (watermark_row_of st (lr_partition r)), bt_insert (lr_partition r) st ledger))"

definition complete_through_ms :: "watermark_ledger \<Rightarrow> partition_id \<Rightarrow> int option" where
  "complete_through_ms ledger pid =
     Option.bind (bt_get ledger pid) ps_complete_through_ms"

definition covers :: "watermark_ledger \<Rightarrow> partition_id \<Rightarrow> int \<Rightarrow> bool" where
  "covers ledger pid instant_ms =
     map_or False (\<lambda>complete_through. instant_ms \<le> complete_through)
       (complete_through_ms ledger pid)"

definition advanced_through :: "watermark_ledger \<Rightarrow> partition_id \<Rightarrow> window_id option" where
  "advanced_through ledger pid = Option.bind (bt_get ledger pid) ps_done_through"

definition recorded_through :: "watermark_ledger \<Rightarrow> partition_id \<Rightarrow> window_id option" where
  "recorded_through ledger pid =
     Option.bind (bt_get ledger pid) (\<lambda>st. bt_last_key (ps_windows st))"

definition next_window :: "watermark_ledger \<Rightarrow> partition_id \<Rightarrow> window_id" where
  "next_window ledger pid = map_or 0 next_window_id (bt_get ledger pid)"

definition ledger_dataset :: "watermark_ledger \<Rightarrow> partition_id \<Rightarrow> dataset_id option" where
  "ledger_dataset ledger pid = Option.bind (bt_get ledger pid) ps_dataset"

definition window_record_at ::
  "watermark_ledger \<Rightarrow> partition_id \<Rightarrow> window_id \<Rightarrow> window_record option" where
  "window_record_at ledger pid window =
     Option.bind (bt_get ledger pid) (\<lambda>st. bt_get (ps_windows st) window)"

definition ledger_rows :: "watermark_ledger \<Rightarrow> watermark_row list" where
  "ledger_rows ledger = List.map_filter (\<lambda>(pid, st). watermark_row_of st pid) ledger"

definition blocking_gaps :: "watermark_ledger \<Rightarrow> partition_id \<Rightarrow> (node_id \<times> u64 \<times> u64) list" where
  "blocking_gaps ledger pid =
     map_or [] (\<lambda>st. unexcused_gaps (ps_committed st) (ps_losses st)) (bt_get ledger pid)"

section \<open>Specification: a partition's state from its recorded history\<close>

definition valid_range :: "origin_seq_range \<Rightarrow> bool" where
  "valid_range r \<longleftrightarrow> 1 \<le> osr_first_seq r \<and> osr_first_seq r \<le> osr_last_seq r"

definition range_seqs :: "node_id \<Rightarrow> origin_seq_range list \<Rightarrow> u64 set" where
  "range_seqs origin ranges =
     (\<Union>r\<in>set ranges. if osr_origin r = origin then {osr_first_seq r..osr_last_seq r} else {})"

text \<open>The ranges of a list of manifests, in commit order, and the numbers they cover.\<close>

definition all_ranges :: "window_manifest list \<Rightarrow> origin_seq_range list" where
  "all_ranges ms = concat (map wm_origin_coverage ms)"

abbreviation covered :: "window_manifest list \<Rightarrow> node_id \<Rightarrow> u64 set" where
  "covered ms origin \<equiv> range_seqs origin (all_ranges ms)"

definition lost :: "loss_ledger_row list \<Rightarrow> node_id \<Rightarrow> u64 set" where
  "lost ls origin =
     (\<Union>l\<in>set ls. if lr_origin (ll_range l) = origin
        then {lr_first_seq (ll_range l)..lr_last_seq (ll_range l)} else {})"

text \<open>The watermark may stand after the first \<open>n\<close> windows.\<close>

definition complete_after :: "window_manifest list \<Rightarrow> loss_ledger_row list \<Rightarrow> nat \<Rightarrow> bool" where
  "complete_after ms ls n \<longleftrightarrow> gap_free (covered (take n ms)) (lost ls)"

text \<open>How many windows the watermark has advanced through: the most it may, 0 if none.\<close>

definition advance_point :: "window_manifest list \<Rightarrow> loss_ledger_row list \<Rightarrow> nat" where
  "advance_point ms ls = Max (insert 0 {n. 1 \<le> n \<and> n \<le> length ms \<and> complete_after ms ls n})"

definition event_max_of :: "window_manifest list \<Rightarrow> int option" where
  "event_max_of ms = (if ms = [] then None else Some (Max (wm_event_time_max_ms ` set ms)))"

definition loss_cov :: "loss_ledger_row list \<Rightarrow> origin_coverage" where
  "loss_cov ls = fold (\<lambda>l. cov_insert (lr_origin (ll_range l)) (lr_first_seq (ll_range l))
     (lr_last_seq (ll_range l))) ls []"

definition partition_state_of ::
  "window_manifest list \<Rightarrow> loss_ledger_row list \<Rightarrow> partition_state" where
  "partition_state_of ms ls =
     (let d = advance_point ms ls in
      \<lparr>ps_dataset = (if ms = [] then None else Some (wm_dataset (hd ms))),
       ps_windows = zip [0..<length ms] (map window_record_of ms),
       ps_committed = fold_ranges (all_ranges ms) [],
       ps_losses = loss_cov ls,
       ps_done_cov = fold_ranges (all_ranges (take d ms)) [],
       ps_done_through = (if d = 0 then None else Some (d - 1)),
       ps_complete_through_ms = event_max_of (take d ms)\<rparr>)"

text \<open>What every recorded history of a partition satisfies.\<close>

definition disjoint_ranges :: "origin_seq_range list \<Rightarrow> bool" where
  "disjoint_ranges = sorted_wrt (\<lambda>r s. osr_origin r = osr_origin s \<longrightarrow>
     {osr_first_seq r..osr_last_seq r} \<inter> {osr_first_seq s..osr_last_seq s} = {})"

definition valid_loss :: "loss_ledger_row \<Rightarrow> bool" where
  "valid_loss l \<longleftrightarrow> 1 \<le> lr_first_seq (ll_range l) \<and> lr_first_seq (ll_range l) \<le> lr_last_seq (ll_range l)"

definition valid_history :: "window_manifest list \<Rightarrow> loss_ledger_row list \<Rightarrow> bool" where
  "valid_history ms ls \<longleftrightarrow>
     map wm_window_id ms = [0..<length ms]
     \<and> (\<forall>m\<in>set ms. wm_dataset m = wm_dataset (hd ms))
     \<and> (\<forall>m\<in>set ms. wm_event_time_min_ms m \<le> wm_event_time_max_ms m)
     \<and> list_all valid_range (all_ranges ms)
     \<and> disjoint_ranges (all_ranges ms)
     \<and> list_all valid_loss ls"

section \<open>Folding ranges into coverage\<close>

lemma range_seqs_simps [simp]:
  "range_seqs origin [] = {}"
  "range_seqs origin (r # rs) =
     (if osr_origin r = origin then {osr_first_seq r..osr_last_seq r} else {}) \<union> range_seqs origin rs"
  "range_seqs origin (rs @ ts) = range_seqs origin rs \<union> range_seqs origin ts"
  by (auto simp: range_seqs_def)

lemma all_ranges_simps [simp]:
  "all_ranges [] = []"
  "all_ranges (ms @ ns) = all_ranges ms @ all_ranges ns"
  "all_ranges (m # ms) = wm_origin_coverage m @ all_ranges ms"
  by (simp_all add: all_ranges_def)

lemma fold_ranges_simps [simp]:
  "fold_ranges [] cov = cov"
  "fold_ranges (r # rs) cov =
     fold_ranges rs (cov_insert (osr_origin r) (osr_first_seq r) (osr_last_seq r) cov)"
  "fold_ranges (rs @ ts) cov = fold_ranges ts (fold_ranges rs cov)"
  by (simp_all add: fold_ranges_def)

lemma fold_ranges_correct:
  assumes "cov_wf cov" and "list_all valid_range rs"
  shows "cov_wf (fold_ranges rs cov)"
    and "cov_of (fold_ranges rs cov) origin = cov_of cov origin \<union> range_seqs origin rs"
  using assms
  by (induction rs arbitrary: cov)
    (auto simp: valid_range_def cov_wf_insert cov_of_insert)

lemma loss_cov_fold:
  assumes "cov_wf cov" and "list_all valid_loss ls"
  shows "cov_wf (fold (\<lambda>l. cov_insert (lr_origin (ll_range l)) (lr_first_seq (ll_range l))
           (lr_last_seq (ll_range l))) ls cov)"
    and "cov_of (fold (\<lambda>l. cov_insert (lr_origin (ll_range l)) (lr_first_seq (ll_range l))
           (lr_last_seq (ll_range l))) ls cov) origin = cov_of cov origin \<union> lost ls origin"
  using assms
  by (induction ls arbitrary: cov)
    (auto simp: valid_loss_def lost_def cov_wf_insert cov_of_insert)

lemma loss_cov_correct:
  assumes "list_all valid_loss ls"
  shows "cov_wf (loss_cov ls)" and "cov_of (loss_cov ls) = lost ls"
  using loss_cov_fold[OF cov_wf_empty assms] by (auto simp: loss_cov_def fun_eq_iff)

lemma invalid_seq_range_iff:
  "invalid_seq_range (osr_first_seq r) (osr_last_seq r) \<longleftrightarrow> \<not> valid_range r"
  by (auto simp: invalid_seq_range_def valid_range_def not_le word_less_1)

section \<open>Validating a manifest's ranges\<close>

definition committed_of :: "partition_state option \<Rightarrow> origin_coverage" where
  "committed_of state = map_or [] ps_committed state"

lemma probe_lookup:
  assumes "bt_wf probe"
  shows "(case bt_get probe origin of Some rs \<Rightarrow> rs
      | None \<Rightarrow> map_or [] id (Option.bind state (\<lambda>s. bt_get (ps_committed s) origin)))
    = map_or [] id (bt_get (bt_extend (committed_of state) probe) origin)"
  using assms
  by (cases state) (auto simp: committed_of_def bt_get_extend split: option.splits)

lemma probe_insert:
  assumes "bt_wf (committed_of state)" and "bt_wf probe"
    and "rs = map_or [] id (bt_get (bt_extend (committed_of state) probe) origin)"
  shows "bt_extend (committed_of state) (bt_insert origin (ss_insert f l rs) probe)
    = cov_insert origin f l (bt_extend (committed_of state) probe)"
  using assms
  by (intro bt_ext) (auto simp: cov_insert_def bt_get_extend)

lemma probe_ranges_Inr:
  assumes "probe_ranges state probe ranges = Inr probe'"
    and "bt_wf (committed_of state)" and "bt_wf probe"
    and "cov_wf (bt_extend (committed_of state) probe)"
  shows "bt_wf probe' \<and> list_all valid_range ranges \<and> disjoint_ranges ranges
    \<and> bt_extend (committed_of state) probe' = fold_ranges ranges (bt_extend (committed_of state) probe)
    \<and> (\<forall>origin. range_seqs origin ranges \<inter> cov_of (bt_extend (committed_of state) probe) origin = {})"
  using assms
proof (induction ranges arbitrary: probe)
  case Nil
  then show ?case by (simp add: disjoint_ranges_def)
next
  case (Cons r ranges)
  let ?C = "bt_extend (committed_of state) probe"
  let ?o = "osr_origin r" let ?f = "osr_first_seq r" let ?l = "osr_last_seq r"
  define rs where "rs = map_or [] id (bt_get ?C ?o)"
  let ?probe = "bt_insert ?o (ss_insert ?f ?l rs) probe"
  have valid: "valid_range r" and free: "\<not> ss_overlaps rs ?f ?l"
    and run: "probe_ranges state ?probe ranges = Inr probe'"
    using Cons.prems(1) probe_lookup[OF Cons.prems(3), of state ?o]
    by (auto simp: Let_def rs_def invalid_seq_range_iff split: if_splits)
  have le: "?f \<le> ?l" using valid by (simp add: valid_range_def)
  have step: "bt_extend (committed_of state) ?probe = cov_insert ?o ?f ?l ?C"
    using Cons.prems(2,3) by (intro probe_insert) (auto simp: rs_def)
  have wf: "cov_wf (cov_insert ?o ?f ?l ?C)"
    using Cons.prems(4) le by (rule cov_wf_insert)
  have IH: "bt_wf probe'" "list_all valid_range ranges" "disjoint_ranges ranges"
    "bt_extend (committed_of state) probe' = fold_ranges ranges (cov_insert ?o ?f ?l ?C)"
    "\<forall>origin. range_seqs origin ranges \<inter> cov_of (cov_insert ?o ?f ?l ?C) origin = {}"
    using Cons.IH[OF run Cons.prems(2)] Cons.prems(3) wf step by auto
  have "{?f..?l} \<inter> cov_of ?C ?o = {}"
    using free ss_overlaps_iff[OF _ le, of rs] cov_wf_get_or_nil[OF Cons.prems(4), of ?o]
    by (simp add: rs_def cov_of_get_or_nil)
  moreover have "\<forall>s\<in>set ranges. osr_origin s = ?o \<longrightarrow>
      {?f..?l} \<inter> {osr_first_seq s..osr_last_seq s} = {}"
    using IH(5)[THEN spec, of ?o] cov_of_insert[OF Cons.prems(4) le, of ?o]
    by (fastforce simp: range_seqs_def)
  moreover have "range_seqs origin ranges \<inter> cov_of ?C origin = {}" for origin
    using IH(5)[THEN spec, of origin] cov_of_insert[OF Cons.prems(4) le, of ?o]
    by (auto split: if_splits)
  ultimately show ?case
    using IH valid by (auto simp: disjoint_ranges_def Int_Un_distrib2)
qed

section \<open>Dense windows\<close>

lemma bt_get_dense:
  "bt_get (zip [i..<i + length xs] xs) k = (if i \<le> k \<and> k < i + length xs then Some (xs ! (k - i)) else None)"
proof (induction xs arbitrary: i)
  case (Cons x xs)
  have "[i..<i + length (x # xs)] = i # [Suc i..<Suc i + length xs]"
    by (simp add: upt_conv_Cons del: upt_Suc)
  then show ?case
    using Cons[of "Suc i"] by (auto simp: nth_Cons' simp del: upt_Suc)
qed simp

lemma bt_get_windows:
  "bt_get (zip [0..<length xs] xs) k = (if k < length xs then Some (xs ! k) else None)"
  using bt_get_dense[of 0 xs k] by simp

lemma bt_wf_windows: "bt_wf (zip [0..<length xs] xs)"
  by (simp add: bt_wf_def sorted_wrt_upt)

lemma bt_last_key_windows:
  "bt_last_key (zip [0..<length xs] xs) = (if xs = [] then None else Some (length xs - 1))"
  by (auto simp: bt_last_key_def last_zip)

lemma bt_insert_windows:
  "bt_insert (length xs) x (zip [0..<length xs] xs) = zip [0..<Suc (length xs)] (xs @ [x])"
proof (rule bt_ext)
  fix k
  show "bt_get (bt_insert (length xs) x (zip [0..<length xs] xs)) k
    = bt_get (zip [0..<Suc (length xs)] (xs @ [x])) k"
    using bt_get_windows[of xs k] bt_get_windows[of "xs @ [x]" k]
    by (auto simp: nth_append)
qed (use bt_wf_windows[of xs] bt_wf_windows[of "xs @ [x]"] in simp_all)

section \<open>The advance rule\<close>

lemma advance_point_le: "advance_point ms ls \<le> length ms"
  unfolding advance_point_def by (intro Max.boundedI) auto

lemma advance_point_complete:
  "advance_point ms ls = 0 \<or> complete_after ms ls (advance_point ms ls)"
proof -
  have "finite (insert 0 {n. 1 \<le> n \<and> n \<le> length ms \<and> complete_after ms ls n})" by simp
  from Max_in[OF this] show ?thesis by (auto simp: advance_point_def)
qed

lemma advance_point_ge:
  assumes "n \<le> length ms" and "complete_after ms ls n"
  shows "n \<le> advance_point ms ls"
  unfolding advance_point_def using assms by (cases "n = 0") (auto intro: Max_ge)

lemma advance_point_unique:
  assumes "d \<le> length ms" and "d = 0 \<or> complete_after ms ls d"
    and "\<And>n. d < n \<Longrightarrow> n \<le> length ms \<Longrightarrow> \<not> complete_after ms ls n"
  shows "advance_point ms ls = d"
proof (rule antisym)
  show "advance_point ms ls \<le> d"
    using assms(3)[of "advance_point ms ls"] advance_point_le[of ms ls]
      advance_point_complete[of ms ls] by (cases "d < advance_point ms ls") auto
  show "d \<le> advance_point ms ls"
    using assms(1,2) advance_point_ge by auto
qed

definition with_done :: "window_manifest list \<Rightarrow> nat \<Rightarrow> partition_state \<Rightarrow> partition_state" where
  "with_done ms d st = st\<lparr>ps_done_cov := fold_ranges (all_ranges (take d ms)) [],
     ps_done_through := (if d = 0 then None else Some (d - 1)),
     ps_complete_through_ms := event_max_of (take d ms)\<rparr>"

lemma with_done_simps [simp]:
  "ps_windows (with_done ms d st) = ps_windows st"
  "ps_losses (with_done ms d st) = ps_losses st"
  "ps_done_cov (with_done ms d st) = fold_ranges (all_ranges (take d ms)) []"
  "ps_done_through (with_done ms d st) = (if d = 0 then None else Some (d - 1))"
  "ps_complete_through_ms (with_done ms d st) = event_max_of (take d ms)"
  by (simp_all add: with_done_def)

lemma max_event_snoc: "max_event (event_max_of ms) (wm_event_time_max_ms m) = event_max_of (ms @ [m])"
  by (auto simp: max_event_def event_max_of_def max.commute)

lemma unexcused_gaps_complete:
  assumes "list_all valid_range (all_ranges ms)" and "list_all valid_loss ls"
  shows "unexcused_gaps (fold_ranges (all_ranges (take n ms)) []) (loss_cov ls) = []
    \<longleftrightarrow> complete_after ms ls n"
proof -
  have "all_ranges ms = all_ranges (take n ms) @ all_ranges (drop n ms)"
    by (simp flip: all_ranges_simps(2))
  then have "list_all valid_range (all_ranges (take n ms))"
    using assms(1) by simp
  then have "cov_wf (fold_ranges (all_ranges (take n ms)) [])"
    and "cov_of (fold_ranges (all_ranges (take n ms)) []) = covered (take n ms)"
    using fold_ranges_correct[OF cov_wf_empty] by (auto simp: fun_eq_iff)
  then show ?thesis
    using loss_cov_correct[OF assms(2)]
    by (simp add: unexcused_gaps_empty_iff complete_after_def)
qed

lemma extend_loop_correct:
  assumes valid: "list_all valid_range (all_ranges ms)" "list_all valid_loss ls"
    and st: "ps_windows st = zip [0..<length ms] (map window_record_of ms)"
      "ps_losses st = loss_cov ls"
    and "d \<le> k" and "k \<le> length ms" and "d = 0 \<or> complete_after ms ls d"
    and "\<And>n. d < n \<Longrightarrow> n \<le> k \<Longrightarrow> \<not> complete_after ms ls n"
  shows "extend_loop (fold_ranges (all_ranges (take k ms)) []) (event_max_of (take k ms)) k
      (with_done ms d st) = with_done ms (advance_point ms ls) st"
  using assms(5-)
proof (induction "length ms - k" arbitrary: k d)
  case 0
  then have "k = length ms" by simp
  moreover from this 0 have "advance_point ms ls = d" by (intro advance_point_unique) auto
  ultimately show ?case
    using st bt_get_windows[of "map window_record_of ms"] by (simp add: extend_loop.simps)
next
  case (Suc j)
  then have k: "k < length ms" by simp
  then have tk: "take (k + 1) ms = take k ms @ [ms ! k]"
    by (simp add: take_Suc_conv_app_nth)
  have get: "bt_get (ps_windows (with_done ms d st)) k = Some (window_record_of (ms ! k))"
    using st k bt_get_windows[of "map window_record_of ms"] by simp
  let ?cov = "fold_ranges (all_ranges (take (k + 1) ms)) []"
  have cov: "fold_ranges (rec_origin_coverage (window_record_of (ms ! k)))
      (fold_ranges (all_ranges (take k ms)) []) = ?cov"
    using tk by (simp add: window_record_of_def)
  have em: "max_event (event_max_of (take k ms)) (rec_event_time_max_ms (window_record_of (ms ! k)))
      = event_max_of (take (k + 1) ms)"
    using tk by (simp add: window_record_of_def max_event_snoc)
  let ?d = "if complete_after ms ls (k + 1) then k + 1 else d"
  have upd: "(if unexcused_gaps ?cov (ps_losses (with_done ms d st)) = []
      then (with_done ms d st)\<lparr>ps_done_cov := ?cov, ps_done_through := Some k,
             ps_complete_through_ms := event_max_of (take (k + 1) ms)\<rparr>
      else with_done ms d st) = with_done ms ?d st"
    using st unexcused_gaps_complete[OF valid, of "k + 1"] by (simp add: with_done_def)
  have "extend_loop ?cov (event_max_of (take (k + 1) ms)) (k + 1) (with_done ms ?d st)
      = with_done ms (advance_point ms ls) st"
    using Suc k by (intro Suc.hyps) (auto simp: le_Suc_eq split: if_splits)
  then show ?case
    by (subst extend_loop.simps) (simp only: get option.case Let_def cov em upd)
qed

lemma extend_correct:
  assumes "list_all valid_range (all_ranges ms)" and "list_all valid_loss ls"
    and "ps_windows st = zip [0..<length ms] (map window_record_of ms)"
    and "ps_losses st = loss_cov ls"
    and "st = with_done ms d st" and "d \<le> length ms" and "d = 0 \<or> complete_after ms ls d"
  shows "extend st = with_done ms (advance_point ms ls) st"
proof -
  have "extend st = extend_loop (fold_ranges (all_ranges (take d ms)) []) (event_max_of (take d ms)) d
      (with_done ms d st)"
    unfolding extend_def by (subst (1 2 3 4) assms(5)) (auto simp: map_or_def)
  also have "\<dots> = with_done ms (advance_point ms ls) st"
    using assms by (intro extend_loop_correct) auto
  finally show ?thesis .
qed

end
