(* ===== verification/Ledger_History.thy ===== *)
theory Ledger_History
  imports Ledger
begin

text \<open>
  The ledger as a function of the recorded history. \<open>ledger_run ms ls L\<close> says that the ledger \<open>L\<close>
  is reached from the empty one by accepting the manifests \<open>ms\<close> and the loss rows \<open>ls\<close>, in these
  orders and interleaved in any way; rejected calls may happen in between. The main lemma
  \<open>ledger_run_refines\<close> shows that every partition's state in \<open>L\<close> is \<open>partition_state_of\<close> of the
  sub-histories of that partition.
\<close>

section \<open>Validating ranges succeeds exactly on valid, disjoint ranges\<close>

lemma disjoint_ranges_append:
  "disjoint_ranges (xs @ ys) \<longleftrightarrow>
     disjoint_ranges xs \<and> disjoint_ranges ys \<and> (\<forall>origin. range_seqs origin xs \<inter> range_seqs origin ys = {})"
proof -
  have "(\<forall>x\<in>set xs. \<forall>y\<in>set ys. osr_origin x = osr_origin y \<longrightarrow>
      {osr_first_seq x..osr_last_seq x} \<inter> {osr_first_seq y..osr_last_seq y} = {}) \<longleftrightarrow>
      (\<forall>origin. range_seqs origin xs \<inter> range_seqs origin ys = {})"
    unfolding range_seqs_def by (fastforce split: if_splits)
  then show ?thesis by (simp add: disjoint_ranges_def sorted_wrt_append)
qed

lemma disjoint_ranges_Nil: "disjoint_ranges []"
  by (simp add: disjoint_ranges_def)

lemma probe_ranges_total:
  assumes "bt_wf (committed_of state)" and "bt_wf probe"
    and "cov_wf (bt_extend (committed_of state) probe)"
    and "list_all valid_range ranges" and "disjoint_ranges ranges"
    and "\<And>origin. range_seqs origin ranges \<inter> cov_of (bt_extend (committed_of state) probe) origin = {}"
  shows "\<exists>probe'. probe_ranges state probe ranges = Inr probe'"
  using assms
proof (induction ranges arbitrary: probe)
  case (Cons r ranges)
  let ?C = "bt_extend (committed_of state) probe"
  let ?o = "osr_origin r" let ?f = "osr_first_seq r" let ?l = "osr_last_seq r"
  define rs where "rs = map_or [] id (bt_get ?C ?o)"
  let ?probe = "bt_insert ?o (ss_insert ?f ?l rs) probe"
  have le: "?f \<le> ?l" using Cons.prems(4) by (simp add: valid_range_def)
  have "{?f..?l} \<inter> ss_set rs = {}"
    using Cons.prems(6)[of ?o] by (auto simp: rs_def cov_of_get_or_nil)
  then have free: "\<not> ss_overlaps rs ?f ?l"
    using ss_overlaps_iff[OF _ le, of rs] cov_wf_get_or_nil[OF Cons.prems(3), of ?o]
    by (simp add: rs_def)
  have step: "bt_extend (committed_of state) ?probe = cov_insert ?o ?f ?l ?C"
    using Cons.prems(1,2) by (intro probe_insert) (auto simp: rs_def)
  have d: "disjoint_ranges ([r] @ ranges)" using Cons.prems(5) by simp
  have "\<exists>probe'. probe_ranges state ?probe ranges = Inr probe'"
  proof (rule Cons.IH)
    show "cov_wf (bt_extend (committed_of state) ?probe)"
      using step Cons.prems(3) le by (simp add: cov_wf_insert)
    show "disjoint_ranges ranges" using d by (simp only: disjoint_ranges_append)
    show "range_seqs origin ranges \<inter> cov_of (bt_extend (committed_of state) ?probe) origin = {}"
      for origin
    proof -
      have "range_seqs origin [r] \<inter> range_seqs origin ranges = {}"
        using d by (simp only: disjoint_ranges_append)
      then show ?thesis
        using step Cons.prems(6)[of origin] cov_of_insert[OF Cons.prems(3) le, of ?o]
        by (auto split: if_splits)
    qed
  qed (use Cons.prems in auto)
  then show ?case
    using Cons.prems(4) free probe_lookup[OF Cons.prems(2), of state ?o]
    by (auto simp: Let_def rs_def invalid_seq_range_iff)
qed simp

section \<open>Valid histories grow one record at a time\<close>

lemma valid_history_snoc_commit:
  "valid_history (ms @ [m]) ls \<longleftrightarrow>
     valid_history ms ls \<and> wm_window_id m = length ms
     \<and> (ms \<noteq> [] \<longrightarrow> wm_dataset m = wm_dataset (hd ms))
     \<and> wm_event_time_min_ms m \<le> wm_event_time_max_ms m
     \<and> list_all valid_range (wm_origin_coverage m) \<and> disjoint_ranges (wm_origin_coverage m)
     \<and> (\<forall>origin. range_seqs origin (wm_origin_coverage m) \<inter> covered ms origin = {})"
  by (cases "ms = []")
    (auto simp: valid_history_def disjoint_ranges_append disjoint_ranges_Nil Int_commute)

lemma valid_history_snoc_loss:
  "valid_history ms (ls @ [l]) \<longleftrightarrow> valid_history ms ls \<and> valid_loss l"
  by (auto simp: valid_history_def)

lemma valid_history_empty [simp]: "valid_history [] []"
  by (simp add: valid_history_def disjoint_ranges_def)

lemma partition_state_of_with_done:
  "partition_state_of ms ls = with_done ms (advance_point ms ls) (partition_state_of ms ls)"
  by (simp add: partition_state_of_def with_done_def Let_def)

lemma partition_state_of_empty: "partition_state_of [] [] = ps_default"
  using advance_point_le[of "[]" "[]"]
  by (simp add: partition_state_of_def ps_default_def Let_def loss_cov_def event_max_of_def)

lemma complete_after_append [simp]:
  "n \<le> length ms \<Longrightarrow> complete_after (ms @ ns) ls n = complete_after ms ls n"
  by (simp add: complete_after_def)

lemma complete_after_more_loss: "complete_after ms ls n \<Longrightarrow> complete_after ms (ls @ ks) n"
  unfolding complete_after_def by (erule gap_free_mono) (auto simp: lost_def)

lemma partition_state_of_sel [simp]:
  "ps_dataset (partition_state_of ms ls) = (if ms = [] then None else Some (wm_dataset (hd ms)))"
  "ps_windows (partition_state_of ms ls) = zip [0..<length ms] (map window_record_of ms)"
  "ps_committed (partition_state_of ms ls) = fold_ranges (all_ranges ms) []"
  "ps_losses (partition_state_of ms ls) = loss_cov ls"
  "ps_done_through (partition_state_of ms ls) =
     (if advance_point ms ls = 0 then None else Some (advance_point ms ls - 1))"
  "ps_complete_through_ms (partition_state_of ms ls) = event_max_of (take (advance_point ms ls) ms)"
  by (simp_all add: partition_state_of_def Let_def)

lemma next_window_id_of [simp]: "next_window_id (partition_state_of ms ls) = length ms"
  using bt_last_key_windows[of "map window_record_of ms"]
  by (auto simp: next_window_id_def)

section \<open>One recorded call\<close>

text \<open>The ledger holds the state of a partition's history; an absent entry is the empty history.\<close>

definition holds :: "watermark_ledger \<Rightarrow> partition_id \<Rightarrow> window_manifest list \<Rightarrow> loss_ledger_row list \<Rightarrow> bool" where
  "holds ledger pid ms ls \<longleftrightarrow>
     bt_get ledger pid = Some (partition_state_of ms ls)
     \<or> (bt_get ledger pid = None \<and> ms = [] \<and> ls = [])"

lemma holds_state:
  "holds ledger pid ms ls \<Longrightarrow> map_or ps_default id (bt_get ledger pid) = partition_state_of ms ls"
  by (auto simp: holds_def partition_state_of_empty)

lemma holds_committed:
  "holds ledger pid ms ls \<Longrightarrow> committed_of (bt_get ledger pid) = fold_ranges (all_ranges ms) []"
  by (auto simp: holds_def committed_of_def)

lemma holds_next:
  "holds ledger pid ms ls \<Longrightarrow> map_or 0 next_window_id (bt_get ledger pid) = length ms"
  by (auto simp: holds_def)

lemma holds_dataset:
  "holds ledger pid ms ls \<Longrightarrow> Option.bind (bt_get ledger pid) ps_dataset
     = (if ms = [] then None else Some (wm_dataset (hd ms)))"
  by (auto simp: holds_def)

lemma extend_commit:
  assumes "valid_history (ms @ [m]) ls"
    and "bt_extend (fold_ranges (all_ranges ms) []) probe = fold_ranges (all_ranges (ms @ [m])) []"
  shows "extend ((partition_state_of ms ls)
      \<lparr>ps_dataset := Some (map_or (wm_dataset m) id (ps_dataset (partition_state_of ms ls))),
       ps_committed := bt_extend (ps_committed (partition_state_of ms ls)) probe,
       ps_windows := bt_insert (wm_window_id m) (window_record_of m)
         (ps_windows (partition_state_of ms ls))\<rparr>)
    = partition_state_of (ms @ [m]) ls"
proof -
  let ?d = "advance_point ms ls"
  have id: "wm_window_id m = length (map window_record_of ms)"
    using assms(1) by (simp add: valid_history_snoc_commit)
  have ws: "bt_insert (wm_window_id m) (window_record_of m) (ps_windows (partition_state_of ms ls))
      = zip [0..<length (ms @ [m])] (map window_record_of (ms @ [m]))"
    using bt_insert_windows[of "map window_record_of ms" "window_record_of m"] id
    by (simp del: upt_Suc)
  let ?st = "(partition_state_of ms ls)
      \<lparr>ps_dataset := Some (map_or (wm_dataset m) id (ps_dataset (partition_state_of ms ls))),
       ps_committed := bt_extend (ps_committed (partition_state_of ms ls)) probe,
       ps_windows := zip [0..<length (ms @ [m])] (map window_record_of (ms @ [m]))\<rparr>"
  have v: "list_all valid_range (all_ranges (ms @ [m]))" "list_all valid_loss ls"
    using assms(1) by (simp_all only: valid_history_def)
  have "?st = with_done (ms @ [m]) ?d ?st"
    using advance_point_le[of ms ls] by (simp add: with_done_def partition_state_of_def Let_def)
  then have "extend ?st = with_done (ms @ [m]) (advance_point (ms @ [m]) ls) ?st"
    using advance_point_le[of ms ls] advance_point_complete[of ms ls]
    by (elim extend_correct[OF v, rotated 2]) (simp_all del: upt_Suc)
  also have "\<dots> = partition_state_of (ms @ [m]) ls"
    using assms(2) by (simp add: with_done_def partition_state_of_def Let_def)
  finally show ?thesis by (simp only: ws)
qed

lemma extend_loss:
  assumes "valid_history ms (ls @ [l])"
  shows "extend ((partition_state_of ms ls)
      \<lparr>ps_losses := cov_insert (lr_origin (ll_range l)) (lr_first_seq (ll_range l))
         (lr_last_seq (ll_range l)) (ps_losses (partition_state_of ms ls))\<rparr>)
    = partition_state_of ms (ls @ [l])"
proof -
  let ?d = "advance_point ms ls"
  let ?st = "(partition_state_of ms ls)\<lparr>ps_losses := loss_cov (ls @ [l])\<rparr>"
  have v: "list_all valid_range (all_ranges ms)" "list_all valid_loss (ls @ [l])"
    using assms by (simp_all only: valid_history_def)
  have "?st = with_done ms ?d ?st"
    by (simp add: with_done_def partition_state_of_def Let_def)
  then have "extend ?st = with_done ms (advance_point ms (ls @ [l])) ?st"
    using advance_point_le[of ms ls] advance_point_complete[of ms ls]
      complete_after_more_loss[of ms ls _ "[l]"]
    by (elim extend_correct[OF v, rotated 2]) auto
  also have "\<dots> = partition_state_of ms (ls @ [l])"
    by (simp add: with_done_def partition_state_of_def Let_def)
  finally show ?thesis by (simp add: loss_cov_def)
qed

lemma record_commit_iff:
  assumes h: "holds ledger (wm_partition m) ms ls" and v: "valid_history ms ls"
  shows "record_commit m ledger = (Inr row, ledger') \<longleftrightarrow>
    valid_history (ms @ [m]) ls
    \<and> ledger' = bt_insert (wm_partition m) (partition_state_of (ms @ [m]) ls) ledger
    \<and> row = watermark_row_of (partition_state_of (ms @ [m]) ls) (wm_partition m)"
proof -
  let ?s = "bt_get ledger (wm_partition m)"
  let ?C = "fold_ranges (all_ranges ms) []"
  have wf: "cov_wf ?C" and cov: "\<And>origin. cov_of ?C origin = covered ms origin"
    using v fold_ranges_correct[OF cov_wf_empty] by (auto simp: valid_history_def)
  have pre: "bt_wf (committed_of ?s)" "cov_wf (bt_extend (committed_of ?s) [])"
    using wf holds_committed[OF h] by (auto simp: cov_wf_bt bt_extend_def)
  have probe: "(\<exists>probe. probe_ranges ?s [] (wm_origin_coverage m) = Inr probe) \<longleftrightarrow>
      list_all valid_range (wm_origin_coverage m) \<and> disjoint_ranges (wm_origin_coverage m)
      \<and> (\<forall>origin. range_seqs origin (wm_origin_coverage m) \<inter> covered ms origin = {})"
    using probe_ranges_total[OF pre(1) _ pre(2), of "wm_origin_coverage m"]
      probe_ranges_Inr[OF _ pre(1) _ pre(2), of "wm_origin_coverage m"] cov holds_committed[OF h]
    by (auto simp: bt_extend_def)
  have fold: "bt_extend ?C probe = fold_ranges (all_ranges (ms @ [m])) []"
    if "probe_ranges ?s [] (wm_origin_coverage m) = Inr probe" for probe
    using probe_ranges_Inr[OF that pre(1) _ pre(2)] holds_committed[OF h]
    by (simp add: bt_extend_def[of _ "[]"])
  show ?thesis
  proof (cases "valid_history (ms @ [m]) ls")
    case True
    then obtain p where p: "probe_ranges ?s [] (wm_origin_coverage m) = Inr p"
      using probe by (auto simp: valid_history_snoc_commit)
    have "record_commit m ledger =
        (Inr (watermark_row_of (partition_state_of (ms @ [m]) ls) (wm_partition m)),
         bt_insert (wm_partition m) (partition_state_of (ms @ [m]) ls) ledger)"
      using True extend_commit[OF True fold[OF p]] p holds_state[OF h] holds_next[OF h]
        holds_dataset[OF h]
      by (auto simp: record_commit_def Let_def valid_history_snoc_commit not_less)
    with True show ?thesis by auto
  next
    case False
    have "\<not> (\<exists>row ledger'. record_commit m ledger = (Inr row, ledger'))"
      using False v probe holds_next[OF h] holds_dataset[OF h]
      by (auto simp: record_commit_def Let_def valid_history_snoc_commit split: if_splits sum.splits)
    with False show ?thesis by blast
  qed
qed

lemma record_loss_iff:
  assumes h: "holds ledger (lr_partition (ll_range l)) ms ls" and v: "valid_history ms ls"
  shows "record_loss l ledger = (Inr row, ledger') \<longleftrightarrow>
    valid_history ms (ls @ [l])
    \<and> ledger' = bt_insert (lr_partition (ll_range l)) (partition_state_of ms (ls @ [l])) ledger
    \<and> row = watermark_row_of (partition_state_of ms (ls @ [l])) (lr_partition (ll_range l))"
proof -
  have inv: "invalid_seq_range (lr_first_seq (ll_range l)) (lr_last_seq (ll_range l)) \<longleftrightarrow> \<not> valid_loss l"
    by (auto simp: invalid_seq_range_def valid_loss_def not_le word_less_1)
  show ?thesis
  proof (cases "valid_loss l")
    case True
    with v have "valid_history ms (ls @ [l])" by (simp add: valid_history_snoc_loss)
    with True inv extend_loss[OF this] holds_state[OF h] show ?thesis
      by (auto simp: record_loss_def Let_def)
  next
    case False
    with inv show ?thesis by (simp add: record_loss_def valid_history_snoc_loss Let_def)
  qed
qed

section \<open>Runs of the ledger\<close>

abbreviation of_part :: "partition_id \<Rightarrow> window_manifest list \<Rightarrow> window_manifest list" where
  "of_part pid \<equiv> filter (\<lambda>m. wm_partition m = pid)"

abbreviation loss_of :: "partition_id \<Rightarrow> loss_ledger_row list \<Rightarrow> loss_ledger_row list" where
  "loss_of pid \<equiv> filter (\<lambda>l. lr_partition (ll_range l) = pid)"

inductive ledger_run :: "window_manifest list \<Rightarrow> loss_ledger_row list \<Rightarrow> watermark_ledger \<Rightarrow> bool" where
  start: "ledger_run [] [] ledger_new"
| commit: "ledger_run ms ls L \<Longrightarrow> record_commit m L = (Inr row, L') \<Longrightarrow> ledger_run (ms @ [m]) ls L'"
| loss: "ledger_run ms ls L \<Longrightarrow> record_loss l L = (Inr row, L') \<Longrightarrow> ledger_run ms (ls @ [l]) L'"
| commit_rejected: "ledger_run ms ls L \<Longrightarrow> record_commit m L = (Inl e, L') \<Longrightarrow> ledger_run ms ls L'"
| loss_rejected: "ledger_run ms ls L \<Longrightarrow> record_loss l L = (Inl e, L') \<Longrightarrow> ledger_run ms ls L'"

text \<open>The two mutating calls as values, for statements about any of them.\<close>

datatype ledger_call = CallCommit window_manifest | CallLoss loss_ledger_row

fun ledger_apply ::
  "ledger_call \<Rightarrow> watermark_ledger \<Rightarrow> (advance_error, watermark_row option) result \<times> watermark_ledger" where
  "ledger_apply (CallCommit m) L = record_commit m L"
| "ledger_apply (CallLoss l) L = record_loss l L"

fun call_partition :: "ledger_call \<Rightarrow> partition_id" where
  "call_partition (CallCommit m) = wm_partition m"
| "call_partition (CallLoss l) = lr_partition (ll_range l)"

lemma record_commit_Inl: "record_commit m L = (Inl e, L') \<Longrightarrow> L' = L"
  by (auto simp: record_commit_def Let_def split: if_splits sum.splits)

lemma record_loss_Inl: "record_loss l L = (Inl e, L') \<Longrightarrow> L' = L"
  by (auto simp: record_loss_def Let_def split: if_splits)

lemma ledger_run_refines:
  assumes "ledger_run ms ls L"
  shows "bt_wf L" and "valid_history (of_part pid ms) (loss_of pid ls)"
    and "bt_get L pid = (if of_part pid ms = [] \<and> loss_of pid ls = [] then None
           else Some (partition_state_of (of_part pid ms) (loss_of pid ls)))"
  using assms
proof (induction arbitrary: pid rule: ledger_run.induct)
  case start
  {
    case 1 then show ?case by (simp add: ledger_new_def bt_empty_def)
  next
    case 2 then show ?case by simp
  next
    case 3 then show ?case by (simp add: ledger_new_def bt_empty_def)
  }
next
  case (commit ms ls L m row L')
  have "holds L (wm_partition m) (of_part (wm_partition m) ms) (loss_of (wm_partition m) ls)"
    using commit.IH(3)[of "wm_partition m"] by (auto simp: holds_def)
  from commit.hyps(2) record_commit_iff[OF this commit.IH(2)]
  have v: "valid_history (of_part (wm_partition m) ms @ [m]) (loss_of (wm_partition m) ls)"
    and L': "L' = bt_insert (wm_partition m)
      (partition_state_of (of_part (wm_partition m) ms @ [m]) (loss_of (wm_partition m) ls)) L"
    by auto
  {
    case 1 then show ?case using L' commit.IH(1) by simp
  next
    case 2 then show ?case using v commit.IH(2)[of pid] by auto
  next
    case 3 then show ?case using L' commit.IH(3)[of pid] by auto
  }
next
  case (loss ms ls L l row L')
  let ?p = "lr_partition (ll_range l)"
  have "holds L ?p (of_part ?p ms) (loss_of ?p ls)"
    using loss.IH(3)[of ?p] by (auto simp: holds_def)
  from loss.hyps(2) record_loss_iff[OF this loss.IH(2)]
  have v: "valid_history (of_part ?p ms) (loss_of ?p ls @ [l])"
    and L': "L' = bt_insert ?p (partition_state_of (of_part ?p ms) (loss_of ?p ls @ [l])) L"
    by auto
  {
    case 1 then show ?case using L' loss.IH(1) by simp
  next
    case 2 then show ?case using v loss.IH(2)[of pid] by auto
  next
    case 3 then show ?case using L' loss.IH(3)[of pid] by auto
  }
qed (auto dest: record_commit_Inl record_loss_Inl)

lemma ledger_run_holds:
  "ledger_run ms ls L \<Longrightarrow> holds L pid (of_part pid ms) (loss_of pid ls)"
  using ledger_run_refines(3)[of ms ls L pid] by (auto simp: holds_def)

text \<open>The queries on a reached ledger, in terms of the history.\<close>

lemma ledger_run_queries:
  fixes pid :: partition_id
  assumes "ledger_run ms ls L"
  defines "h \<equiv> of_part pid ms"
  defines "d \<equiv> advance_point h (loss_of pid ls)"
  shows "next_window L pid = length h"
    and "complete_through_ms L pid = event_max_of (take d h)"
    and "advanced_through L pid = (if d = 0 then None else Some (d - 1))"
    and "recorded_through L pid = (if h = [] then None else Some (length h - 1))"
    and "ledger_dataset L pid = (if h = [] then None else Some (wm_dataset (hd h)))"
    and "window_record_at L pid w = (if w < length h then Some (window_record_of (h ! w)) else None)"
proof -
  have d0: "h = [] \<Longrightarrow> d = 0" using advance_point_le[of h "loss_of pid ls"] by (simp add: d_def)
  note get = ledger_run_refines(3)[OF assms(1), of pid, folded h_def]
  show "next_window L pid = length h"
    by (simp add: next_window_def get)
  show "complete_through_ms L pid = event_max_of (take d h)"
    using d0 by (auto simp: complete_through_ms_def get d_def event_max_of_def)
  show "advanced_through L pid = (if d = 0 then None else Some (d - 1))"
    using d0 by (auto simp: advanced_through_def get d_def)
  show "recorded_through L pid = (if h = [] then None else Some (length h - 1))"
    using bt_last_key_windows[of "map window_record_of h"]
    by (auto simp: recorded_through_def get)
  show "ledger_dataset L pid = (if h = [] then None else Some (wm_dataset (hd h)))"
    by (simp add: ledger_dataset_def get)
  show "window_record_at L pid w = (if w < length h then Some (window_record_of (h ! w)) else None)"
    using bt_get_windows[of "map window_record_of h" w]
    by (auto simp: window_record_at_def get)
qed

lemma advance_point_mono_commit: "advance_point ms ls \<le> advance_point (ms @ ns) ls"
  using advance_point_complete[of ms ls] advance_point_le[of ms ls]
  by (cases "advance_point ms ls = 0") (auto intro: advance_point_ge)

lemma advance_point_mono_loss: "advance_point ms ls \<le> advance_point ms (ls @ ks)"
  using advance_point_complete[of ms ls] advance_point_le[of ms ls]
  by (cases "advance_point ms ls = 0") (auto intro!: advance_point_ge complete_after_more_loss)

text \<open>A watermark is never lower than another: \<open>None\<close> is the lowest.\<close>

definition wm_le :: "int option \<Rightarrow> int option \<Rightarrow> bool" where
  "wm_le a b \<longleftrightarrow> (case a of None \<Rightarrow> True | Some x \<Rightarrow> (case b of None \<Rightarrow> False | Some y \<Rightarrow> x \<le> y))"

lemma wm_le_refl [simp]: "wm_le a a"
  by (simp add: wm_le_def split: option.splits)

lemma event_max_of_mono:
  assumes "set ms \<subseteq> set ns"
  shows "wm_le (event_max_of ms) (event_max_of ns)"
  using assms by (auto simp: wm_le_def event_max_of_def intro!: Max_mono)

lemma event_max_of_take_mono:
  assumes "d \<le> d'"
  shows "wm_le (event_max_of (take d ms)) (event_max_of (take d' (ms @ ns)))"
  using set_take_subset_set_take[OF assms, of ms] by (intro event_max_of_mono) auto

end
