(* ===== verification/Watermark.thy ===== *)
theory Watermark
  imports Ledger_History
begin

text \<open>
  What the watermark ledger promises: the reached watermark is honest and as high as it can be,
  it never regresses, a manifest is accepted exactly when it extends the recorded history, and a
  recorded window is never recorded twice.
\<close>

section \<open>A concrete run for the witnesses\<close>

definition ex_range :: "string \<Rightarrow> u64 \<Rightarrow> u64 \<Rightarrow> origin_seq_range" where
  "ex_range origin f l = \<lparr>osr_origin = NodeId origin, osr_first_seq = f, osr_last_seq = l\<rparr>"

definition ex_manifest :: "nat \<Rightarrow> origin_seq_range list \<Rightarrow> int \<Rightarrow> window_manifest" where
  "ex_manifest w cov t = \<lparr>wm_dataset = DatasetId ''d'', wm_partition = PartitionId ''p'',
     wm_window_id = w, wm_origin_coverage = cov, wm_rows = 1, wm_event_time_min_ms = 0,
     wm_event_time_max_ms = t, wm_dedup_removed = 0, wm_parts = []\<rparr>"

definition ex_loss :: "string \<Rightarrow> u64 \<Rightarrow> u64 \<Rightarrow> loss_ledger_row" where
  "ex_loss origin f l = \<lparr>ll_range = \<lparr>lr_partition = PartitionId ''p'', lr_origin = NodeId origin,
     lr_first_seq = f, lr_last_seq = l\<rparr>, ll_declared_at_ms = 9\<rparr>"

text \<open>Window 0 covers 1-2 of origin \<open>a\<close>, window 1 covers 5-6, the ledger excuses 3-4.\<close>

definition ex_m0 :: window_manifest where "ex_m0 = ex_manifest 0 [ex_range ''a'' 1 2] 100"
definition ex_m1 :: window_manifest where "ex_m1 = ex_manifest 1 [ex_range ''a'' 5 6] 200"
definition ex_l :: loss_ledger_row where "ex_l = ex_loss ''a'' 3 4"

definition ex_L1 :: watermark_ledger where "ex_L1 = snd (record_commit ex_m0 ledger_new)"
definition ex_L2 :: watermark_ledger where "ex_L2 = snd (record_commit ex_m1 ex_L1)"
definition ex_L3 :: watermark_ledger where "ex_L3 = snd (record_loss ex_l ex_L2)"

lemmas ledger_eval =
  ledger_new_def bt_empty_def record_commit_def record_loss_def Let_def invalid_seq_range_def
  probe_ranges.simps ss_overlaps_def ss_insert_def ss_insert_loop.simps u64_saturating_add_def
  bt_extend_def bt_upsert_def cov_insert_def fold_ranges_def window_record_of_def ps_default_def
  extend_def extend_loop.simps max_event_def unexcused_gaps_def ss_gaps_def ss_uncovered_def
  watermark_row_of_def next_window_id_def bt_last_key_def id_order_defs
  complete_through_ms_def covers_def next_window_def

lemmas ex_defs = ex_m0_def ex_m1_def ex_l_def ex_manifest_def ex_range_def ex_loss_def

lemma ex_L1: "record_commit ex_m0 ledger_new = (Inr (Some \<lparr>wr_partition = PartitionId ''p'', wr_complete_through_ms = 100\<rparr>), ex_L1)"
  by (simp add: ex_L1_def ledger_eval ex_defs)

lemma ex_L2: "record_commit ex_m1 ex_L1 = (Inr (Some \<lparr>wr_partition = PartitionId ''p'', wr_complete_through_ms = 100\<rparr>), ex_L2)"
  by (simp add: ex_L1_def ex_L2_def ledger_eval ex_defs)

lemma ex_L3: "record_loss ex_l ex_L2 = (Inr (Some \<lparr>wr_partition = PartitionId ''p'', wr_complete_through_ms = 200\<rparr>), ex_L3)"
  by (simp add: ex_L1_def ex_L2_def ex_L3_def ledger_eval ex_defs)

lemma ex_run2: "ledger_run [ex_m0, ex_m1] [] ex_L2"
  using ledger_run.commit[OF ledger_run.commit[OF ledger_run.start ex_L1] ex_L2] by simp

lemma ex_run3: "ledger_run [ex_m0, ex_m1] [ex_l] ex_L3"
  using ledger_run.loss[OF ex_run2 ex_L3] by simp

section \<open>Honesty\<close>

text \<open>
  C1 (WatermarkHonesty). When a reached ledger says that a \<open>complete\<close> read through the instant \<open>t\<close>
  is covered, the windows the watermark advanced through account for it: one of them reaches \<open>t\<close> in
  event time, and for every origin each sequence number from 1 up to the highest one these windows
  hold is either committed in one of them or declared lost in the loss ledger.
\<close>
theorem watermark_honesty:
  assumes "ledger_run ms ls L" and "covers L pid t"
  shows "\<exists>d. advanced_through L pid = Some d \<and> d < length (of_part pid ms)
    \<and> (\<exists>m\<in>set (take (Suc d) (of_part pid ms)). t \<le> wm_event_time_max_ms m)
    \<and> (\<forall>origin s u. 1 \<le> s \<and> s \<le> u \<and> u \<in> covered (take (Suc d) (of_part pid ms)) origin \<longrightarrow>
          s \<in> covered (take (Suc d) (of_part pid ms)) origin \<union> lost (loss_of pid ls) origin)"
proof -
  let ?h = "of_part pid ms" and ?l = "loss_of pid ls"
  let ?n = "advance_point ?h ?l"
  note q = ledger_run_queries[OF assms(1), of pid]
  obtain e where "event_max_of (take ?n ?h) = Some e" and "t \<le> e"
    using assms(2) q(2) by (cases "event_max_of (take ?n ?h)") (auto simp: covers_def)
  then have ne: "take ?n ?h \<noteq> []" and e: "e = Max (wm_event_time_max_ms ` set (take ?n ?h))"
    by (auto simp: event_max_of_def split: if_splits)
  then have n: "?n \<noteq> 0" by auto
  have "e \<in> wm_event_time_max_ms ` set (take ?n ?h)"
    unfolding e using ne by (intro Max_in) auto
  with \<open>t \<le> e\<close> have "\<exists>m\<in>set (take ?n ?h). t \<le> wm_event_time_max_ms m" by auto
  moreover have "complete_after ?h ?l ?n" using advance_point_complete[of ?h ?l] n by blast
  ultimately show ?thesis
    using q(3) n advance_point_le[of ?h ?l]
    by (intro exI[of _ "?n - 1"])
      (auto simp: complete_after_def gap_free_def order_le_less)
qed

theorem watermark_honesty_witness:
  "covers ex_L3 (PartitionId ''p'') 200 \<and>
   (\<exists>d. advanced_through ex_L3 (PartitionId ''p'') = Some d \<and> d < 2)"
proof -
  have c: "covers ex_L3 (PartitionId ''p'') 200"
    by (simp add: ex_L1_def ex_L2_def ex_L3_def ledger_eval ex_defs)
  from watermark_honesty[OF ex_run3 c] c show ?thesis
    by (auto simp: ex_defs)
qed

text \<open>
  C5. The watermark is exactly the highest provable one: it has advanced through window \<open>w\<close> if and
  only if the coverage of windows 0 to \<open>w\<close> is gap-free up to ledgered losses and that of no longer
  prefix of the recorded windows is; its instant is the event-time maximum of those windows.
\<close>
theorem watermark_exact:
  assumes "ledger_run ms ls L"
  shows "(advanced_through L pid = Some w \<longleftrightarrow>
        w < length (of_part pid ms) \<and> complete_after (of_part pid ms) (loss_of pid ls) (Suc w)
        \<and> (\<forall>n. Suc w < n \<and> n \<le> length (of_part pid ms) \<longrightarrow>
              \<not> complete_after (of_part pid ms) (loss_of pid ls) n))
    \<and> (advanced_through L pid = Some w \<longrightarrow>
        complete_through_ms L pid = event_max_of (take (Suc w) (of_part pid ms)))"
proof -
  let ?h = "of_part pid ms" and ?l = "loss_of pid ls"
  note q = ledger_run_queries[OF assms(1), of pid]
  have "advance_point ?h ?l = Suc w \<longleftrightarrow> w < length ?h \<and> complete_after ?h ?l (Suc w)
      \<and> (\<forall>n. Suc w < n \<and> n \<le> length ?h \<longrightarrow> \<not> complete_after ?h ?l n)"
    using advance_point_complete[of ?h ?l] advance_point_le[of ?h ?l]
      advance_point_ge[of _ ?h ?l] advance_point_unique[of "Suc w" ?h ?l]
    by (metis Suc_le_eq leD nat.distinct(1))
  moreover have "advanced_through L pid = Some w \<longleftrightarrow> advance_point ?h ?l = Suc w"
    using q(3) by auto
  ultimately show ?thesis using q(2) by auto
qed

theorem watermark_exact_witness:
  "advanced_through ex_L2 (PartitionId ''p'') = Some 0
   \<and> complete_through_ms ex_L2 (PartitionId ''p'') = Some 100
   \<and> \<not> complete_after [ex_m0, ex_m1] [] 2"
proof -
  have h: "of_part (PartitionId ''p'') [ex_m0, ex_m1] = [ex_m0, ex_m1]"
    by (simp add: ex_defs)
  have a: "advanced_through ex_L2 (PartitionId ''p'') = Some 0"
    by (simp add: ex_L1_def ex_L2_def advanced_through_def ledger_eval ex_defs)
  from watermark_exact[OF ex_run2, of "PartitionId ''p''" 0] a h
  show ?thesis by (simp add: event_max_of_def ex_defs)
qed

section \<open>Monotonicity\<close>

text \<open>
  C13. No call makes a watermark regress: after \<open>record_commit\<close> or \<open>record_loss\<close>, accepted or
  rejected, every partition's watermark is at least what it was, partitions other than the one
  addressed are untouched, and a rejected call leaves the whole ledger as it was.
\<close>
theorem watermark_monotone:
  assumes "ledger_run ms ls L" and "ledger_apply c L = (res, L')"
  shows "wm_le (complete_through_ms L pid) (complete_through_ms L' pid)
    \<and> (pid \<noteq> call_partition c \<longrightarrow> bt_get L' pid = bt_get L pid)
    \<and> (\<forall>e. res = Inl e \<longrightarrow> L' = L)"
proof (cases res)
  case (Inl e)
  with assms(2) have "L' = L" by (cases c) (auto dest: record_commit_Inl record_loss_Inl)
  then show ?thesis by simp
next
  case (Inr row)
  let ?h = "of_part pid ms" and ?l = "loss_of pid ls"
  note q = ledger_run_queries(2)[OF assms(1), of pid]
  note get = ledger_run_refines(3)[OF assms(1), of pid]
  show ?thesis
  proof (cases c)
    case (CallCommit m)
    with Inr assms have run: "ledger_run (ms @ [m]) ls L'" by (auto intro: ledger_run.commit)
    show ?thesis
      using event_max_of_take_mono[OF advance_point_mono_commit[of ?h ?l "of_part pid [m]"]]
        ledger_run_refines(3)[OF run, of pid] get CallCommit Inr
      by (simp add: q ledger_run_queries(2)[OF run])
  next
    case (CallLoss l)
    with Inr assms have run: "ledger_run ms (ls @ [l]) L'" by (auto intro: ledger_run.loss)
    show ?thesis
      using event_max_of_take_mono[OF advance_point_mono_loss[of ?h ?l "loss_of pid [l]"], of ?h "[]"]
        ledger_run_refines(3)[OF run, of pid] get CallLoss Inr
      by (simp add: q ledger_run_queries(2)[OF run])
  qed
qed

theorem watermark_monotone_witness:
  "wm_le (complete_through_ms ex_L2 (PartitionId ''p'')) (complete_through_ms ex_L3 (PartitionId ''p''))
   \<and> complete_through_ms ex_L3 (PartitionId ''p'') = Some 200"
proof -
  have "ledger_apply (CallLoss ex_l) ex_L2 = (fst (record_loss ex_l ex_L2), ex_L3)"
    by (simp add: ex_L3)
  from watermark_monotone[OF ex_run2 this, of "PartitionId ''p''"] show ?thesis
    by (simp add: ex_L1_def ex_L2_def ex_L3_def ledger_eval ex_defs)
qed

section \<open>What is accepted\<close>

text \<open>
  On a reached ledger \<open>record_commit\<close> accepts a manifest exactly when it is the dense-next window
  of its partition, names the partition's dataset, has an ordered event-time range, and its ranges
  are well-formed, pairwise disjoint and disjoint from everything already committed for the
  partition.
\<close>
theorem record_commit_accepts:
  assumes "ledger_run ms ls L"
  shows "(\<exists>row L'. record_commit m L = (Inr row, L')) \<longleftrightarrow>
      wm_event_time_min_ms m \<le> wm_event_time_max_ms m
      \<and> wm_window_id m = next_window L (wm_partition m)
      \<and> ledger_dataset L (wm_partition m) \<in> {None, Some (wm_dataset m)}
      \<and> list_all valid_range (wm_origin_coverage m) \<and> disjoint_ranges (wm_origin_coverage m)
      \<and> (\<forall>origin. range_seqs origin (wm_origin_coverage m)
            \<inter> covered (of_part (wm_partition m) ms) origin = {})"
    (is "?acc \<longleftrightarrow> ?ok")
proof -
  let ?p = "wm_partition m"
  have "?acc \<longleftrightarrow> valid_history (of_part ?p ms @ [m]) (loss_of ?p ls)"
    using record_commit_iff[OF ledger_run_holds[OF assms] ledger_run_refines(2)[OF assms], of m]
    by blast
  also have "\<dots> \<longleftrightarrow> ?ok"
    using ledger_run_refines(2)[OF assms, of ?p] ledger_run_queries(1,5)[OF assms, of ?p]
    by (auto simp: valid_history_snoc_commit)
  finally show ?thesis .
qed

theorem record_commit_accepts_witness:
  "(\<exists>row L'. record_commit ex_m1 ex_L1 = (Inr row, L'))
   \<and> \<not> (\<exists>row L'. record_commit (ex_manifest 1 [ex_range ''a'' 2 3] 200) ex_L1 = (Inr row, L'))"
proof -
  let ?m = "ex_manifest 1 [ex_range ''a'' 2 3] 200"
  have run: "ledger_run [ex_m0] [] ex_L1"
    using ledger_run.commit[OF ledger_run.start ex_L1] by simp
  have overlap: "range_seqs (NodeId ''a'') [ex_range ''a'' 2 3] \<inter> covered [ex_m0] (NodeId ''a'') \<noteq> {}"
    by (auto simp: ex_defs intro!: exI[of _ 2])
  have part: "of_part (PartitionId ''p'') [ex_m0] = [ex_m0]" by (simp add: ex_defs)
  have acc: "\<exists>row L'. record_commit ex_m1 ex_L1 = (Inr row, L')" using ex_L2 by blast
  have "\<not> (\<exists>row L'. record_commit ?m ex_L1 = (Inr row, L'))"
  proof
    assume "\<exists>row L'. record_commit ?m ex_L1 = (Inr row, L')"
    then have "range_seqs (NodeId ''a'') (wm_origin_coverage ?m)
        \<inter> covered (of_part (wm_partition ?m) [ex_m0]) (NodeId ''a'') = {}"
      using record_commit_accepts[OF run, of ?m] by blast
    moreover have "wm_origin_coverage ?m = [ex_range ''a'' 2 3]"
      and "wm_partition ?m = PartitionId ''p''" by (simp_all add: ex_manifest_def)
    ultimately show False using overlap part by (simp only: not_True_eq_False)
  qed
  with acc show ?thesis by blast
qed

text \<open>
  C7 (SingleDrainCommit). A window that was recorded is never recorded again: offering any of the
  recorded manifests a second time is rejected as \<open>WindowNotNext\<close> with the offered id below the
  expected one (the evidence the drain reads as \<open>already committed\<close>), and the committed windows of
  a partition carry the ids 0, 1, 2, ... and pairwise disjoint ranges.
\<close>
theorem single_drain_commit:
  assumes "ledger_run ms ls L" and "m \<in> set ms"
  shows "record_commit m L =
      (Inl (WindowNotNext (wm_partition m) (next_window L (wm_partition m)) (wm_window_id m)), L)
    \<and> wm_window_id m < next_window L (wm_partition m)
    \<and> map wm_window_id (of_part (wm_partition m) ms) = [0..<next_window L (wm_partition m)]
    \<and> disjoint_ranges (all_ranges (of_part (wm_partition m) ms))"
proof -
  let ?p = "wm_partition m" let ?h = "of_part ?p ms"
  note v = ledger_run_refines(2)[OF assms(1), of ?p]
  have m: "m \<in> set ?h" using assms(2) by simp
  have "wm_window_id m \<in> set (map wm_window_id ?h)" using m by simp
  with v have lt: "wm_window_id m < length ?h" by (simp add: valid_history_def)
  have "?h \<noteq> []" using m by (metis empty_iff list.set(1))
  then have "ledger_dataset L ?p = Some (wm_dataset m)"
    using v m ledger_run_queries(5)[OF assms(1), of ?p] by (simp add: valid_history_def)
  moreover have "wm_event_time_min_ms m \<le> wm_event_time_max_ms m"
    using v m by (simp add: valid_history_def)
  moreover have n: "next_window L ?p = length ?h" by (rule ledger_run_queries(1)[OF assms(1)])
  ultimately show ?thesis
    using v lt
    by (simp add: record_commit_def Let_def ledger_dataset_def next_window_def valid_history_def)
qed

theorem single_drain_commit_witness:
  "record_commit ex_m0 ex_L3 = (Inl (WindowNotNext (PartitionId ''p'') 2 0), ex_L3)"
proof -
  have "next_window ex_L3 (PartitionId ''p'') = 2"
    by (simp add: ex_L1_def ex_L2_def ex_L3_def ledger_eval ex_defs)
  then show ?thesis
    using single_drain_commit[OF ex_run3, of ex_m0] by (simp add: ex_defs)
qed

end
