(* ===== verification/Reconstruct.thy ===== *)
theory Reconstruct
  imports Watermark "HOL-Library.Multiset"
begin

text \<open>
  \<open>crates/duckspout-watermark/src/reconstruct.rs\<close>: the watermark state recomputed from the lake's
  manifests, the loss ledger and the staged rows. The manifests may come in any order and some may
  be missing; they are replayed per partition in window order through \<open>record_commit\<close>, up to the
  first window that is missing, and the rest is handed back as \<open>deferred\<close>.

  Shown here: from any part of a reached ledger's record, in any order, the reconstruction
  succeeds, keeps every manifest (replayed or deferred) and gives watermarks that are at most the
  true ones; from the whole record it gives back the ledger itself.
\<close>

section \<open>The code\<close>

datatype reconstruct_error =
    ReManifest partition_id window_id advance_error
  | ReLoss partition_id advance_error

record coverage_hole =
  ch_origin :: node_id
  ch_first_seq :: u64
  ch_last_seq :: u64
  ch_in_hot :: bool

datatype stall_reason =
    MissingWindow window_id
  | CoverageHoles "coverage_hole list"

record stall =
  st_partition :: partition_id
  st_reason :: stall_reason

record reconstruction =
  re_ledger :: watermark_ledger
  re_stalls :: "stall list"
  re_deferred :: "window_manifest list"

text \<open>The derived order of \<open>Option<WindowId>\<close>: \<open>None\<close> is below every \<open>Some\<close>.\<close>

fun option_lt :: "window_id option \<Rightarrow> window_id option \<Rightarrow> bool" where
  "option_lt None None = False"
| "option_lt None (Some _) = True"
| "option_lt (Some _) None = False"
| "option_lt (Some a) (Some b) = (a < b)"

fun replay_losses ::
  "loss_ledger_row list \<Rightarrow> watermark_ledger \<Rightarrow> (reconstruct_error, watermark_ledger) result" where
  "replay_losses [] ledger = Inr ledger"
| "replay_losses (row # rows) ledger =
     (case record_loss row ledger of
        (Inl e, _) \<Rightarrow> Inl (ReLoss (lr_partition (ll_range row)) e)
      | (Inr _, ledger') \<Rightarrow> replay_losses rows ledger')"

definition by_partition :: "window_manifest list \<Rightarrow> (partition_id, window_manifest list) btree" where
  "by_partition manifests =
     fold (\<lambda>m. bt_upsert (wm_partition m) [] (\<lambda>ms. ms @ [m])) manifests bt_empty"

text \<open>The loop over one partition's manifests in window order; the flag is \<open>gap_hit\<close>.\<close>

fun replay_windows ::
  "partition_id \<Rightarrow> bool \<Rightarrow> window_manifest list \<Rightarrow> reconstruction
     \<Rightarrow> (reconstruct_error, reconstruction) result" where
  "replay_windows pid gap_hit [] r = Inr r"
| "replay_windows pid gap_hit (m # wins) r =
     (if gap_hit
      then replay_windows pid True wins (r\<lparr>re_deferred := re_deferred r @ [m]\<rparr>)
      else
        let expected = next_window (re_ledger r) pid in
        if expected < wm_window_id m
        then replay_windows pid True wins
               (r\<lparr>re_stalls := re_stalls r @
                    [\<lparr>st_partition = pid, st_reason = MissingWindow expected\<rparr>],
                  re_deferred := re_deferred r @ [m]\<rparr>)
        else
          case record_commit m (re_ledger r) of
            (Inl e, _) \<Rightarrow> Inl (ReManifest pid (wm_window_id m) e)
          | (Inr _, ledger') \<Rightarrow> replay_windows pid False wins (r\<lparr>re_ledger := ledger'\<rparr>))"

definition classify_hole ::
  "applied_watermark_row list \<Rightarrow> partition_id \<Rightarrow> node_id \<times> u64 \<times> u64 \<Rightarrow> coverage_hole" where
  "classify_hole staging pid g =
     (case g of (origin, first_seq, last_seq) \<Rightarrow>
       \<lparr>ch_origin = origin, ch_first_seq = first_seq, ch_last_seq = last_seq,
        ch_in_hot = list_ex (\<lambda>row. aw_partition row = pid \<and> aw_origin row = origin
                                  \<and> last_seq \<le> aw_applied_seq row) staging\<rparr>)"

definition stall_check ::
  "applied_watermark_row list \<Rightarrow> partition_id \<Rightarrow> reconstruction \<Rightarrow> reconstruction" where
  "stall_check staging pid r =
     (if option_lt (advanced_through (re_ledger r) pid) (recorded_through (re_ledger r) pid)
      then r\<lparr>re_stalls := re_stalls r @ [\<lparr>st_partition = pid,
             st_reason = CoverageHoles (map (classify_hole staging pid) (blocking_gaps (re_ledger r) pid))\<rparr>]\<rparr>
      else r)"

fun replay_partitions ::
  "applied_watermark_row list \<Rightarrow> (partition_id \<times> window_manifest list) list \<Rightarrow> reconstruction
     \<Rightarrow> (reconstruct_error, reconstruction) result" where
  "replay_partitions staging [] r = Inr r"
| "replay_partitions staging ((pid, wins) # ps) r =
     (case replay_windows pid False (sort_key wm_window_id wins) r of
        Inl e \<Rightarrow> Inl e
      | Inr r' \<Rightarrow> replay_partitions staging ps (stall_check staging pid r'))"

definition reconstruct ::
  "window_manifest list \<Rightarrow> loss_ledger_row list \<Rightarrow> applied_watermark_row list
     \<Rightarrow> (reconstruct_error, reconstruction) result" where
  "reconstruct manifests losses staging =
     (case replay_losses losses ledger_new of
        Inl e \<Rightarrow> Inl e
      | Inr ledger \<Rightarrow> replay_partitions staging (by_partition manifests)
          \<lparr>re_ledger = ledger, re_stalls = [], re_deferred = []\<rparr>)"

section \<open>Grouping by partition\<close>

lemma by_partition_fold:
  assumes "bt_wf M"
  shows "bt_wf (fold (\<lambda>m. bt_upsert (wm_partition m) [] (\<lambda>ms. ms @ [m])) manifests M)
    \<and> map_or [] id (bt_get (fold (\<lambda>m. bt_upsert (wm_partition m) [] (\<lambda>ms. ms @ [m])) manifests M) pid)
      = map_or [] id (bt_get M pid) @ of_part pid manifests
    \<and> (bt_get (fold (\<lambda>m. bt_upsert (wm_partition m) [] (\<lambda>ms. ms @ [m])) manifests M) pid = None
       \<longleftrightarrow> bt_get M pid = None \<and> of_part pid manifests = [])"
  using assms
proof (induction manifests arbitrary: M)
  case (Cons m manifests)
  have "bt_wf (bt_upsert (wm_partition m) [] (\<lambda>ms. ms @ [m]) M)" using Cons.prems by simp
  from Cons.IH[OF this] show ?case by (auto simp: id_def)
qed simp

lemma by_partition_get:
  "bt_get (by_partition manifests) pid =
     (if of_part pid manifests = [] then None else Some (of_part pid manifests))"
  using by_partition_fold[OF bt_wf_empty, of manifests pid]
  by (cases "bt_get (by_partition manifests) pid") (auto simp: by_partition_def bt_empty_def)

lemma by_partition_wf: "bt_wf (by_partition manifests)"
  using by_partition_fold[OF bt_wf_empty] by (simp add: by_partition_def bt_empty_def)

lemma by_partition_entries:
  "(pid, wins) \<in> set (by_partition manifests) \<longleftrightarrow>
     wins = of_part pid manifests \<and> wins \<noteq> []"
  using bt_get_Some[OF by_partition_wf, of manifests pid wins] by_partition_get[of manifests pid]
  by (auto split: if_splits)

section \<open>What is replayed and what is deferred\<close>

text \<open>The longest prefix whose window ids are \<open>i, i + 1, ...\<close>, and what is beyond it.\<close>

fun dense_part :: "window_id \<Rightarrow> window_manifest list \<Rightarrow> window_manifest list" where
  "dense_part i [] = []"
| "dense_part i (m # ms) = (if wm_window_id m = i then m # dense_part (Suc i) ms else [])"

fun beyond_part :: "window_id \<Rightarrow> window_manifest list \<Rightarrow> window_manifest list" where
  "beyond_part i [] = []"
| "beyond_part i (m # ms) = (if wm_window_id m = i then beyond_part (Suc i) ms else m # ms)"

lemma dense_beyond: "dense_part i ms @ beyond_part i ms = ms"
  by (induction ms arbitrary: i) auto

lemma dense_part_prefix:
  assumes "ssorted (map wm_window_id wins)" and "map wm_window_id h = [0..<length h]"
    and "set wins \<subseteq> set (drop i h)"
  shows "dense_part i wins = take (length (dense_part i wins)) (drop i h)
    \<and> (beyond_part i wins \<noteq> [] \<longrightarrow> i + length (dense_part i wins) < wm_window_id (hd (beyond_part i wins)))"
  using assms(1,3)
proof (induction wins arbitrary: i)
  case (Cons w wins)
  have id: "wm_window_id (h ! j) = j" if "j < length h" for j
    using assms(2) that by (metis add_0 length_map nth_map nth_upt)
  have at: "m \<in> set (drop j h) \<longleftrightarrow> j \<le> wm_window_id m \<and> wm_window_id m < length h
      \<and> h ! wm_window_id m = m" for m j
    using id by (auto simp: in_set_conv_nth le_add_diff_inverse intro!: exI[of _ "wm_window_id m - j"])
  show ?case
  proof (cases "wm_window_id w = i")
    case True
    with Cons.prems(2) at[of w i] have i: "i < length h" "h ! i = w" by auto
    have "set wins \<subseteq> set (drop (Suc i) h)"
      using Cons.prems True at by (auto simp: Suc_le_eq)
    with Cons.prems Cons.IH[of "Suc i"] i True show ?thesis
      by (auto simp: Cons_nth_drop_Suc[symmetric])
  next
    case False
    with Cons.prems(2) at[of w i] show ?thesis by simp
  qed
qed simp

lemma valid_history_prefix: "valid_history (a @ b) ls \<Longrightarrow> valid_history a ls"
proof (induction b rule: rev_induct)
  case (snoc x xs)
  then show ?case using valid_history_snoc_commit[of "a @ xs" x ls] by simp
qed simp

lemma valid_history_losses:
  "valid_history h ls \<Longrightarrow> set ls' \<subseteq> set ls \<Longrightarrow> valid_history h ls'"
  by (auto simp: valid_history_def list_all_iff)

lemma replay_deferred:
  "replay_windows pid True wins r = Inr (r\<lparr>re_deferred := re_deferred r @ wins\<rparr>)"
  by (induction wins arbitrary: r) auto

lemma replay_windows_run:
  assumes "ledger_run ms ls (re_ledger r)" and "\<forall>m\<in>set xs. wm_partition m = pid"
    and "valid_history (of_part pid ms @ xs) (loss_of pid ls)"
  shows "\<exists>L'. ledger_run (ms @ xs) ls L' \<and>
    replay_windows pid False (xs @ rest) r = replay_windows pid False rest (r\<lparr>re_ledger := L'\<rparr>)"
  using assms
proof (induction xs arbitrary: ms r)
  case Nil
  then show ?case by (auto intro!: exI[of _ "re_ledger r"])
next
  case (Cons x xs)
  let ?L = "re_ledger r"
  have x: "wm_partition x = pid" using Cons.prems(2) by simp
  have v: "valid_history (of_part pid ms @ [x]) (loss_of pid ls)"
    using Cons.prems(3) valid_history_prefix[of "of_part pid ms @ [x]" xs] by simp
  have "holds ?L (wm_partition x) (of_part pid ms) (loss_of pid ls)"
    using ledger_run_holds[OF Cons.prems(1)] x by simp
  from record_commit_iff[OF this] v
  obtain row L1 where L1: "record_commit x ?L = (Inr row, L1)"
    using valid_history_prefix by blast
  have "wm_window_id x = next_window ?L pid"
    using v ledger_run_queries(1)[OF Cons.prems(1)] by (simp add: valid_history_snoc_commit)
  with L1 have "replay_windows pid False (x # xs @ rest) r
      = replay_windows pid False (xs @ rest) (r\<lparr>re_ledger := L1\<rparr>)"
    by simp
  moreover have "ledger_run (ms @ [x]) ls L1"
    using ledger_run.commit[OF Cons.prems(1) L1] .
  ultimately show ?case
    using Cons.IH[of "ms @ [x]" "r\<lparr>re_ledger := L1\<rparr>"] Cons.prems x by simp
qed

text \<open>The stalls a partition contributes, read off the ledger it leaves.\<close>

definition missing_stall :: "partition_id \<Rightarrow> window_manifest list \<Rightarrow> stall list" where
  "missing_stall pid wins = (if beyond_part 0 wins = [] then []
     else [\<lparr>st_partition = pid, st_reason = MissingWindow (length (dense_part 0 wins))\<rparr>])"

definition hole_stall ::
  "applied_watermark_row list \<Rightarrow> partition_id \<Rightarrow> watermark_ledger \<Rightarrow> stall list" where
  "hole_stall staging pid L =
     (if option_lt (advanced_through L pid) (recorded_through L pid)
      then [\<lparr>st_partition = pid,
             st_reason = CoverageHoles (map (classify_hole staging pid) (blocking_gaps L pid))\<rparr>]
      else [])"

lemma stall_check_alt:
  "stall_check staging pid r = r\<lparr>re_stalls := re_stalls r @ hole_stall staging pid (re_ledger r)\<rparr>"
  by (simp add: stall_check_def hole_stall_def)

lemma hole_stall_cong:
  "bt_get L pid = bt_get L' pid \<Longrightarrow> hole_stall staging pid L = hole_stall staging pid L'"
  by (simp add: hole_stall_def advanced_through_def recorded_through_def blocking_gaps_def)

lemma replay_windows_result:
  assumes "ledger_run ms ls (re_ledger r)" and "of_part pid ms = []"
    and "\<forall>m\<in>set wins. wm_partition m = pid"
    and "valid_history (dense_part 0 wins) (loss_of pid ls)"
    and "beyond_part 0 wins \<noteq> [] \<Longrightarrow>
      length (dense_part 0 wins) < wm_window_id (hd (beyond_part 0 wins))"
  shows "\<exists>L'. ledger_run (ms @ dense_part 0 wins) ls L' \<and>
    replay_windows pid False wins r =
      Inr (r\<lparr>re_ledger := L', re_stalls := re_stalls r @ missing_stall pid wins,
             re_deferred := re_deferred r @ beyond_part 0 wins\<rparr>)"
proof -
  let ?d = "dense_part 0 wins" and ?b = "beyond_part 0 wins"
  have wins: "?d @ ?b = wins" by (rule dense_beyond)
  then have part: "\<forall>m\<in>set ?d. wm_partition m = pid" using assms(3) by (metis UnCI set_append)
  obtain L' where run: "ledger_run (ms @ ?d) ls L'"
    and eq: "replay_windows pid False wins r = replay_windows pid False ?b (r\<lparr>re_ledger := L'\<rparr>)"
    using replay_windows_run[OF assms(1) part, of ?b] assms(2,4) wins by auto
  have "next_window L' pid = length ?d"
    using ledger_run_queries(1)[OF run, of pid] assms(2) part by (simp add: filter_id_conv)
  with eq assms(5) have "replay_windows pid False wins r =
      Inr (r\<lparr>re_ledger := L', re_stalls := re_stalls r @ missing_stall pid wins,
             re_deferred := re_deferred r @ ?b\<rparr>)"
    by (cases ?b) (auto simp: replay_deferred missing_stall_def)
  with run show ?thesis by blast
qed

lemma dense_part_all:
  "map wm_window_id h = [i..<i + length h] \<Longrightarrow> dense_part i h = h \<and> beyond_part i h = []"
proof (induction h arbitrary: i)
  case (Cons m h)
  then show ?case using Cons.IH[of "Suc i"] by (auto simp: upt_conv_Cons simp del: upt_Suc)
qed simp

section \<open>The loop over the partitions\<close>

abbreviation wins_of :: "window_manifest list \<Rightarrow> window_manifest list" where
  "wins_of \<equiv> sort_key wm_window_id"

definition replayable :: "loss_ledger_row list \<Rightarrow> partition_id \<times> window_manifest list \<Rightarrow> bool" where
  "replayable ls = (\<lambda>(pid, wins).
     (\<forall>m\<in>set wins. wm_partition m = pid)
     \<and> valid_history (dense_part 0 (wins_of wins)) (loss_of pid ls)
     \<and> (beyond_part 0 (wins_of wins) \<noteq> [] \<longrightarrow>
          length (dense_part 0 (wins_of wins)) < wm_window_id (hd (beyond_part 0 (wins_of wins)))))"

abbreviation dense_all :: "(partition_id \<times> window_manifest list) list \<Rightarrow> window_manifest list" where
  "dense_all ps \<equiv> concat (map (\<lambda>(pid, wins). dense_part 0 (wins_of wins)) ps)"

lemma dense_part_subset: "set (dense_part 0 wins) \<subseteq> set wins"
  using dense_beyond[of 0 wins] by (metis Un_upper1 set_append)

lemma of_part_dense_other:
  assumes "\<forall>p\<in>set ps. replayable ls p" and "pid \<notin> fst ` set ps"
  shows "of_part pid (dense_all ps) = []"
  using assms
proof (induction ps)
  case (Cons p ps)
  obtain q wins where p: "p = (q, wins)" by (cases p)
  have "of_part pid (dense_part 0 (wins_of wins)) = []"
    using Cons.prems p dense_part_subset[of "wins_of wins"]
    by (auto simp: filter_empty_conv replayable_def)
  with Cons p show ?case by simp
qed simp

lemma of_part_dense:
  assumes "\<forall>p\<in>set ps. replayable ls p" and "distinct (map fst ps)" and "(pid, wins) \<in> set ps"
  shows "of_part pid (dense_all ps) = dense_part 0 (wins_of wins)"
  using assms
proof (induction ps)
  case (Cons p ps)
  obtain q ws where p: "p = (q, ws)" by (cases p)
  show ?case
  proof (cases "p = (pid, wins)")
    case True
    moreover have "of_part pid (dense_part 0 (wins_of wins)) = dense_part 0 (wins_of wins)"
      using Cons.prems True dense_part_subset[of "wins_of wins"]
      by (auto simp: filter_id_conv replayable_def)
    moreover have "of_part pid (dense_all ps) = []"
      using Cons.prems True by (intro of_part_dense_other) auto
    ultimately show ?thesis by simp
  next
    case False
    then have "(pid, wins) \<in> set ps" and "q \<noteq> pid"
      using Cons.prems p by (auto simp: rev_image_eqI)
    moreover have "of_part pid (dense_part 0 (wins_of ws)) = []"
      using Cons.prems(1) p dense_part_subset[of "wins_of ws"] \<open>q \<noteq> pid\<close>
      by (auto simp: filter_empty_conv replayable_def)
    ultimately show ?thesis using Cons p by simp
  qed
qed simp

definition stalls_of ::
  "applied_watermark_row list \<Rightarrow> watermark_ledger \<Rightarrow> partition_id \<times> window_manifest list \<Rightarrow> stall list" where
  "stalls_of staging L = (\<lambda>(pid, wins). missing_stall pid (wins_of wins) @ hole_stall staging pid L)"

lemma replay_partitions_result:
  assumes "ledger_run ms ls (re_ledger r)" and "distinct (map fst ps)"
    and "\<forall>p\<in>set ps. replayable ls p" and "\<forall>pid\<in>fst ` set ps. of_part pid ms = []"
  shows "\<exists>L'. ledger_run (ms @ dense_all ps) ls L' \<and>
    replay_partitions staging ps r =
      Inr (r\<lparr>re_ledger := L', re_stalls := re_stalls r @ concat (map (stalls_of staging L') ps),
             re_deferred := re_deferred r @ concat (map (\<lambda>(pid, wins). beyond_part 0 (wins_of wins)) ps)\<rparr>)"
  using assms
proof (induction ps arbitrary: ms r)
  case Nil
  then show ?case by (auto intro!: exI[of _ "re_ledger r"])
next
  case (Cons p ps)
  obtain pid wins where p: "p = (pid, wins)" by (cases p)
  let ?w = "wins_of wins"
  have rp: "replayable ls (pid, wins)" and none: "of_part pid ms = []"
    using Cons.prems p by auto
  obtain L1 where L1: "ledger_run (ms @ dense_part 0 ?w) ls L1"
    and eq: "replay_windows pid False ?w r =
      Inr (r\<lparr>re_ledger := L1, re_stalls := re_stalls r @ missing_stall pid ?w,
             re_deferred := re_deferred r @ beyond_part 0 ?w\<rparr>)"
    using replay_windows_result[OF Cons.prems(1) none, of ?w] rp by (auto simp: replayable_def)
  have "\<forall>q\<in>fst ` set ps. of_part q (ms @ dense_part 0 ?w) = []"
    using Cons.prems p rp dense_part_subset[of ?w]
    by (auto simp: filter_empty_conv replayable_def rev_image_eqI)
  with Cons.IH[of "ms @ dense_part 0 ?w" "stall_check staging pid
      (r\<lparr>re_ledger := L1, re_stalls := re_stalls r @ missing_stall pid ?w,
         re_deferred := re_deferred r @ beyond_part 0 ?w\<rparr>)"] L1 Cons.prems
  obtain L' where run: "ledger_run (ms @ dense_all (p # ps)) ls L'"
    and eq2: "replay_partitions staging (p # ps) r =
      Inr (r\<lparr>re_ledger := L',
        re_stalls := re_stalls r @ missing_stall pid ?w @ hole_stall staging pid L1
          @ concat (map (stalls_of staging L') ps),
        re_deferred := re_deferred r @ beyond_part 0 ?w
          @ concat (map (\<lambda>(pid, wins). beyond_part 0 (wins_of wins)) ps)\<rparr>)"
    using eq p by (auto simp: stall_check_alt)
  have "of_part pid (dense_all ps) = []"
    using Cons.prems p by (intro of_part_dense_other) auto
  then have "bt_get L1 pid = bt_get L' pid"
    using ledger_run_refines(3)[OF L1] ledger_run_refines(3)[OF run] p by simp
  from hole_stall_cong[OF this] run eq2 p show ?case
    by (auto simp: stalls_of_def)
qed

section \<open>Reconstructing from a part of the record\<close>

lemma replay_losses_run:
  assumes "ledger_run ms ls L" and "list_all valid_loss rows"
  shows "\<exists>L'. replay_losses rows L = Inr L' \<and> ledger_run ms (ls @ rows) L'"
  using assms
proof (induction rows arbitrary: ls L)
  case (Cons row rows)
  let ?p = "lr_partition (ll_range row)"
  have "valid_history (of_part ?p ms) (loss_of ?p ls @ [row])"
    using Cons.prems ledger_run_refines(2)[OF Cons.prems(1)]
    by (simp add: valid_history_snoc_loss)
  with record_loss_iff[OF ledger_run_holds[OF Cons.prems(1)] ledger_run_refines(2)[OF Cons.prems(1)], of row]
  obtain r L1 where L1: "record_loss row L = (Inr r, L1)" by blast
  from Cons.IH[OF ledger_run.loss[OF Cons.prems(1) L1]] Cons.prems(2) L1 show ?case by simp
qed simp

lemma record_valid_loss:
  assumes "ledger_run ms ls L" and "l \<in> set ls"
  shows "valid_loss l"
  using ledger_run_refines(2)[OF assms(1), of "lr_partition (ll_range l)"] assms(2)
  by (auto simp: valid_history_def list_all_iff)

lemma sub_record_wins:
  assumes "ledger_run ms ls L" and "mset ms' \<subseteq># mset ms"
  shows "ssorted (map wm_window_id (wins_of (of_part pid ms')))"
    and "set (wins_of (of_part pid ms')) \<subseteq> set (of_part pid ms)"
proof -
  let ?w = "wins_of (of_part pid ms')" and ?h = "of_part pid ms"
  have sub: "mset (of_part pid ms') \<subseteq># mset ?h"
    using multiset_filter_mono[OF assms(2)] by simp
  then show "set ?w \<subseteq> set ?h" using set_mset_mono by fastforce
  have "mset (map wm_window_id (of_part pid ms')) \<subseteq># mset (map wm_window_id ?h)"
    using image_mset_subseteq_mono[OF sub] by simp
  moreover have "distinct (map wm_window_id ?h)"
    using ledger_run_refines(2)[OF assms(1), of pid] by (simp add: valid_history_def)
  ultimately have "distinct (map wm_window_id (of_part pid ms'))"
    by (metis distinct_append mset_append mset_eq_imp_distinct_iff subset_mset.le_iff_add ex_mset)
  moreover have "mset (map wm_window_id ?w) = mset (map wm_window_id (of_part pid ms'))" by simp
  ultimately have "distinct (map wm_window_id ?w)" by (metis mset_eq_imp_distinct_iff)
  then show "ssorted (map wm_window_id ?w)" by (simp add: strict_sorted_iff)
qed

lemma reconstruct_result:
  assumes "ledger_run ms ls L" and "mset ms' \<subseteq># mset ms" and "set ls' \<subseteq> set ls"
  shows "\<exists>L' us. ledger_run us ls' L'
    \<and> (\<forall>pid. of_part pid us = dense_part 0 (wins_of (of_part pid ms')))
    \<and> (\<forall>pid. \<exists>k. dense_part 0 (wins_of (of_part pid ms')) = take k (of_part pid ms))
    \<and> reconstruct ms' ls' staging = Inr \<lparr>re_ledger = L',
         re_stalls = concat (map (stalls_of staging L') (by_partition ms')),
         re_deferred = concat (map (\<lambda>(pid, wins). beyond_part 0 (wins_of wins)) (by_partition ms'))\<rparr>"
proof -
  let ?ps = "by_partition ms'"
  have "list_all valid_loss ls'"
    using assms(3) record_valid_loss[OF assms(1)] by (auto simp: list_all_iff)
  from replay_losses_run[OF ledger_run.start this]
  obtain L0 where L0: "replay_losses ls' ledger_new = Inr L0" "ledger_run [] ls' L0" by auto
  have pre: "dense_part 0 (wins_of (of_part pid ms'))
        = take (length (dense_part 0 (wins_of (of_part pid ms')))) (of_part pid ms)
      \<and> (beyond_part 0 (wins_of (of_part pid ms')) \<noteq> [] \<longrightarrow>
          length (dense_part 0 (wins_of (of_part pid ms')))
            < wm_window_id (hd (beyond_part 0 (wins_of (of_part pid ms')))))" for pid
    using dense_part_prefix[of "wins_of (of_part pid ms')" "of_part pid ms" 0]
      sub_record_wins[OF assms(1,2), of pid] ledger_run_refines(2)[OF assms(1), of pid]
    by (simp add: valid_history_def)
  have v: "valid_history (dense_part 0 (wins_of (of_part pid ms'))) (loss_of pid ls')" for pid
  proof -
    have "valid_history (of_part pid ms) (loss_of pid ls')"
      using assms(3) by (intro valid_history_losses[OF ledger_run_refines(2)[OF assms(1)]]) auto
    then show ?thesis using pre[of pid] by (metis append_take_drop_id valid_history_prefix)
  qed
  have rp: "\<forall>p\<in>set ?ps. replayable ls' p"
    using by_partition_entries[of _ _ ms'] v pre by (auto simp: replayable_def)
  have d: "distinct (map fst ?ps)"
    using by_partition_wf[of ms'] by (simp add: bt_wf_def ssorted_distinct)
  from replay_partitions_result[of "[]" ls' "\<lparr>re_ledger = L0, re_stalls = [], re_deferred = []\<rparr>"
      ?ps staging] L0 d rp
  obtain L' where L': "ledger_run (dense_all ?ps) ls' L'"
    and "reconstruct ms' ls' staging = Inr \<lparr>re_ledger = L',
         re_stalls = concat (map (stalls_of staging L') ?ps),
         re_deferred = concat (map (\<lambda>(pid, wins). beyond_part 0 (wins_of wins)) ?ps)\<rparr>"
    by (auto simp: reconstruct_def)
  moreover have "of_part pid (dense_all ?ps) = dense_part 0 (wins_of (of_part pid ms'))" for pid
  proof (cases "of_part pid ms' = []")
    case True
    then have "pid \<notin> fst ` set ?ps" using by_partition_get[of ms' pid] by (simp add: bt_get_None)
    with True of_part_dense_other[OF rp] show ?thesis by simp
  next
    case False
    then have "(pid, of_part pid ms') \<in> set ?ps" by (simp add: by_partition_entries)
    from of_part_dense[OF rp d this] show ?thesis .
  qed
  ultimately show ?thesis using pre by blast
qed

lemma lost_mono: "set ls' \<subseteq> set ls \<Longrightarrow> lost (loss_of pid ls') origin \<subseteq> lost (loss_of pid ls) origin"
  by (auto simp: lost_def)

lemma advance_point_mono:
  assumes "\<And>origin. lost ls' origin \<subseteq> lost ls origin"
  shows "advance_point (take k h) ls' \<le> advance_point h ls"
proof (cases "advance_point (take k h) ls' = 0")
  case False
  let ?d = "advance_point (take k h) ls'"
  have "complete_after (take k h) ls' ?d" and le: "?d \<le> length (take k h)"
    using advance_point_complete[of "take k h" ls'] advance_point_le[of "take k h" ls'] False by auto
  then have "complete_after h ls ?d"
    using gap_free_mono[OF _ assms] by (simp add: complete_after_def min_absorb1)
  with le show ?thesis by (intro advance_point_ge) auto
qed simp

lemma window_record_dense:
  assumes "ledger_run us ls' L'" and "m \<in> set us"
  shows "window_record_at L' (wm_partition m) (wm_window_id m) = Some (window_record_of m)"
proof -
  let ?h = "of_part (wm_partition m) us"
  have v: "map wm_window_id ?h = [0..<length ?h]"
    using ledger_run_refines(2)[OF assms(1), of "wm_partition m"] by (simp add: valid_history_def)
  have "m \<in> set ?h" using assms(2) by simp
  then have "\<exists>i<length ?h. ?h ! i = m" by (simp only: in_set_conv_nth)
  then obtain i where i: "i < length ?h" "?h ! i = m" by blast
  then have "wm_window_id m = i" using arg_cong[OF v, of "\<lambda>xs. xs ! i"] by simp
  with i show ?thesis using ledger_run_queries(6)[OF assms(1), of "wm_partition m" i] by simp
qed

text \<open>
  C31. Reconstruction is conservative and loses nothing. From any part of the record of a reached
  ledger, its manifests and loss rows taken in any order and some of them missing, \<open>reconstruct\<close>
  succeeds; every watermark it recomputes is at most the true one; and every manifest given to it
  is either in the recomputed ledger or handed back as deferred.
\<close>
theorem reconstruct_conservative:
  assumes "ledger_run ms ls L" and "mset ms' \<subseteq># mset ms" and "set ls' \<subseteq> set ls"
  shows "\<exists>r. reconstruct ms' ls' staging = Inr r
    \<and> (\<forall>pid. wm_le (complete_through_ms (re_ledger r) pid) (complete_through_ms L pid))
    \<and> set (re_deferred r) \<subseteq> set ms'
    \<and> (\<forall>m\<in>set ms'. m \<in> set (re_deferred r) \<or>
          window_record_at (re_ledger r) (wm_partition m) (wm_window_id m) = Some (window_record_of m))"
proof -
  obtain L' us where run: "ledger_run us ls' L'"
    and us: "\<And>pid. of_part pid us = dense_part 0 (wins_of (of_part pid ms'))"
    and pre: "\<And>pid. \<exists>k. of_part pid us = take k (of_part pid ms)"
    and r: "reconstruct ms' ls' staging = Inr \<lparr>re_ledger = L',
         re_stalls = concat (map (stalls_of staging L') (by_partition ms')),
         re_deferred = concat (map (\<lambda>(pid, wins). beyond_part 0 (wins_of wins)) (by_partition ms'))\<rparr>"
    using reconstruct_result[OF assms, of staging] by metis
  have le: "wm_le (complete_through_ms L' pid) (complete_through_ms L pid)" for pid
  proof -
    obtain k where k: "of_part pid us = take k (of_part pid ms)" using pre by blast
    have "advance_point (take k (of_part pid ms)) (loss_of pid ls')
        \<le> advance_point (of_part pid ms) (loss_of pid ls)"
      by (rule advance_point_mono[OF lost_mono[OF assms(3)]])
    then have "set (take (advance_point (take k (of_part pid ms)) (loss_of pid ls')) (take k (of_part pid ms)))
        \<subseteq> set (take (advance_point (of_part pid ms) (loss_of pid ls)) (of_part pid ms))"
      by (simp add: set_take_subset_set_take)
    then show ?thesis
      using k by (simp add: ledger_run_queries(2)[OF run] ledger_run_queries(2)[OF assms(1)] event_max_of_mono)
  qed
  have split: "m \<in> set us \<or> m \<in> set (beyond_part 0 (wins_of (of_part (wm_partition m) ms')))
      \<longleftrightarrow> m \<in> set ms'" for m
  proof -
    have "set (wins_of (of_part (wm_partition m) ms'))
        = set (of_part (wm_partition m) us) \<union> set (beyond_part 0 (wins_of (of_part (wm_partition m) ms')))"
      using dense_beyond[of 0 "wins_of (of_part (wm_partition m) ms')"] us by (metis set_append)
    then show ?thesis by (auto simp: set_eq_iff)
  qed
  let ?D = "concat (map (\<lambda>(pid, wins). beyond_part 0 (wins_of wins)) (by_partition ms'))"
  have D: "m \<in> set ?D \<longleftrightarrow> m \<in> set (beyond_part 0 (wins_of (of_part (wm_partition m) ms')))" for m
  proof -
    have sub: "set (beyond_part 0 (wins_of ws)) \<subseteq> set ws" for ws
      using dense_beyond[of 0 "wins_of ws"] by (metis Un_upper2 set_append set_sort)
    have ne: "of_part (wm_partition m) ms' \<noteq> []"
      if "m \<in> set (beyond_part 0 (wins_of (of_part (wm_partition m) ms')))" using that by auto
    show ?thesis using sub ne by (force simp: by_partition_entries)
  qed
  have "set ?D \<subseteq> set ms'" using D split by blast
  moreover have "\<forall>m\<in>set ms'. m \<in> set ?D \<or>
      window_record_at L' (wm_partition m) (wm_window_id m) = Some (window_record_of m)"
    using D split window_record_dense[OF run] by blast
  ultimately show ?thesis using r le by simp
qed

theorem reconstruct_conservative_witness:
  "\<exists>r. reconstruct [ex_m1] [] [] = Inr r \<and> re_deferred r = [ex_m1]"
proof -
  from reconstruct_conservative[OF ex_run3, of "[ex_m1]" "[]" "[]"]
  obtain r where "reconstruct [ex_m1] [] [] = Inr r" by auto
  moreover from this have "re_deferred r = [ex_m1]"
    by (auto simp: reconstruct_def by_partition_def stall_check_def advanced_through_def
        recorded_through_def ledger_eval ex_defs)
  ultimately show ?thesis by blast
qed

lemma wins_of_record:
  assumes "ledger_run ms ls L" and "mset ms' = mset ms"
  shows "wins_of (of_part pid ms') = of_part pid ms"
proof -
  have v: "map wm_window_id (of_part pid ms) = [0..<length (of_part pid ms)]"
    using ledger_run_refines(2)[OF assms(1), of pid] by (simp add: valid_history_def)
  have m: "mset (of_part pid ms') = mset (of_part pid ms)"
    using assms(2) by (metis mset_filter)
  have d: "distinct (map wm_window_id (of_part pid ms))" using v by simp
  have sub: "mset ms' \<subseteq># mset ms" using assms(2) by simp
  have "distinct (map wm_window_id (wins_of (of_part pid ms')))"
    using sub_record_wins(1)[OF assms(1) sub] by (rule ssorted_distinct)
  moreover have s: "set (wins_of (of_part pid ms')) = set (of_part pid ms)"
    using mset_eq_setD[OF m] by (simp only: set_sort)
  moreover have "inj_on wm_window_id (set (of_part pid ms))"
    using d by (simp only: distinct_map)
  moreover have "sorted (map wm_window_id (of_part pid ms))" using v by simp
  ultimately show ?thesis
    using d by (intro map_sorted_distinct_set_unique[of wm_window_id]) (simp_all only: s Un_absorb sorted_sort_key)
qed

lemma partition_state_of_cong:
  assumes "set ls' = set ls" and "list_all valid_loss ls'" and "list_all valid_loss ls"
  shows "partition_state_of h ls' = partition_state_of h ls"
proof -
  have l: "lost ls' = lost ls" using assms(1) by (simp add: lost_def fun_eq_iff)
  then have "loss_cov ls' = loss_cov ls"
    using loss_cov_correct[OF assms(2)] loss_cov_correct[OF assms(3)] by (intro cov_ext) auto
  moreover have "advance_point h ls' = advance_point h ls"
    using l by (simp add: advance_point_def complete_after_def)
  ultimately show ?thesis by (simp add: partition_state_of_def)
qed

lemma dense_record:
  assumes "ledger_run ms ls L"
  shows "dense_part 0 (of_part pid ms) = of_part pid ms \<and> beyond_part 0 (of_part pid ms) = []"
  using dense_part_all[of "of_part pid ms" 0] ledger_run_refines(2)[OF assms, of pid]
  by (simp add: valid_history_def)

text \<open>The whole record rebuilds the ledger itself.\<close>

lemma reconstruct_whole:
  assumes "ledger_run ms ls L" and "mset ms' = mset ms" and "set ls' = set ls"
  shows "reconstruct ms' ls' staging = Inr \<lparr>re_ledger = L,
    re_stalls = concat (map (stalls_of staging L) (by_partition ms')), re_deferred = []\<rparr>"
proof -
  obtain L' us where run: "ledger_run us ls' L'"
    and us: "\<And>pid. of_part pid us = dense_part 0 (wins_of (of_part pid ms'))"
    and r: "reconstruct ms' ls' staging = Inr \<lparr>re_ledger = L',
         re_stalls = concat (map (stalls_of staging L') (by_partition ms')),
         re_deferred = concat (map (\<lambda>(pid, wins). beyond_part 0 (wins_of wins)) (by_partition ms'))\<rparr>"
    using reconstruct_result[OF assms(1), of ms' ls' staging] assms(2,3) by auto
  note wins = wins_of_record[OF assms(1,2)] and dense = dense_record[OF assms(1)]
  have "L' = L"
  proof (rule bt_ext)
    fix pid
    have "loss_of pid ls' = [] \<longleftrightarrow> loss_of pid ls = []"
      using assms(3) by (auto simp: filter_empty_conv)
    moreover have "partition_state_of (of_part pid ms) (loss_of pid ls')
        = partition_state_of (of_part pid ms) (loss_of pid ls)"
      using assms(3) ledger_run_refines(2)[OF run, of pid] ledger_run_refines(2)[OF assms(1), of pid]
      by (intro partition_state_of_cong) (auto simp: valid_history_def)
    ultimately show "bt_get L' pid = bt_get L pid"
      using ledger_run_refines(3)[OF run, of pid] ledger_run_refines(3)[OF assms(1), of pid] us wins dense
      by simp
  qed (use ledger_run_refines(1) run assms(1) in auto)
  moreover have "concat (map (\<lambda>(pid, wins). beyond_part 0 (wins_of wins)) (by_partition ms')) = []"
    using wins dense by (auto simp: by_partition_entries)
  ultimately show ?thesis using r by simp
qed

text \<open>
  C11. From the whole record, in any order and with repeated loss rows, \<open>reconstruct\<close> gives back the
  ledger itself and defers nothing; the stalls it reports are exactly the partitions whose watermark
  stands below their last recorded window, each with its blocking gaps classified against staging.
\<close>
theorem reconstruct_exact:
  assumes "ledger_run ms ls L" and "mset ms' = mset ms" and "set ls' = set ls"
  shows "\<exists>stalls. reconstruct ms' ls' staging = Inr \<lparr>re_ledger = L, re_stalls = stalls, re_deferred = []\<rparr>
    \<and> (\<forall>s. s \<in> set stalls \<longleftrightarrow> (\<exists>pid. option_lt (advanced_through L pid) (recorded_through L pid)
          \<and> s = \<lparr>st_partition = pid, st_reason = CoverageHoles
                  (map (classify_hole staging pid) (blocking_gaps L pid))\<rparr>))"
proof -
  note wins = wins_of_record[OF assms(1,2)] and dense = dense_record[OF assms(1)]
  have stalls: "stalls_of staging L (pid, of_part pid ms') = hole_stall staging pid L" for pid
    using wins dense by (simp add: stalls_of_def missing_stall_def)
  have "s \<in> set (concat (map (stalls_of staging L) (by_partition ms'))) \<longleftrightarrow>
      (\<exists>pid. s \<in> set (hole_stall staging pid L))" for s
  proof -
    have "of_part pid ms' \<noteq> []" if "s \<in> set (hole_stall staging pid L)" for pid
      using that ledger_run_queries(4)[OF assms(1), of pid] wins[of pid]
      by (cases "advanced_through L pid") (auto simp: hole_stall_def split: if_splits)
    then have "(\<exists>pid. s \<in> set (hole_stall staging pid L)) \<longleftrightarrow>
        (\<exists>p\<in>set (by_partition ms'). s \<in> set (stalls_of staging L p))"
      using stalls by (auto simp: by_partition_entries Bex_def)
    then show ?thesis by simp
  qed
  then show ?thesis
    using reconstruct_whole[OF assms] by (auto simp: hole_stall_def split: if_splits)
qed

theorem reconstruct_exact_witness:
  "\<exists>stalls. reconstruct [ex_m1, ex_m0] [] [] = Inr \<lparr>re_ledger = ex_L2, re_stalls = stalls, re_deferred = []\<rparr>
    \<and> \<lparr>st_partition = PartitionId ''p'', st_reason = CoverageHoles
         [\<lparr>ch_origin = NodeId ''a'', ch_first_seq = 3, ch_last_seq = 4, ch_in_hot = False\<rparr>]\<rparr> \<in> set stalls"
proof -
  have gap: "advanced_through ex_L2 (PartitionId ''p'') = Some 0"
    "recorded_through ex_L2 (PartitionId ''p'') = Some 1"
    "map (classify_hole [] (PartitionId ''p'')) (blocking_gaps ex_L2 (PartitionId ''p''))
      = [\<lparr>ch_origin = NodeId ''a'', ch_first_seq = 3, ch_last_seq = 4, ch_in_hot = False\<rparr>]"
    by (simp_all add: ex_L1_def ex_L2_def advanced_through_def recorded_through_def
        blocking_gaps_def classify_hole_def ledger_eval ex_defs)
  have perm: "mset [ex_m1, ex_m0] = mset [ex_m0, ex_m1]" and none: "set [] = set []" by simp_all
  obtain stalls where "reconstruct [ex_m1, ex_m0] [] [] = Inr \<lparr>re_ledger = ex_L2, re_stalls = stalls, re_deferred = []\<rparr>"
    and "\<And>s. s \<in> set stalls \<longleftrightarrow> (\<exists>pid. option_lt (advanced_through ex_L2 pid) (recorded_through ex_L2 pid)
          \<and> s = \<lparr>st_partition = pid, st_reason = CoverageHoles
                  (map (classify_hole [] pid) (blocking_gaps ex_L2 pid))\<rparr>)"
    using reconstruct_exact[OF ex_run2 perm none, of "[]"] by blast
  with gap show ?thesis by (intro exI[of _ stalls]) (auto intro!: exI[of _ "PartitionId ''p''"])
qed

end
