(* ===== verification/Loss.thy ===== *)
theory Loss
  imports Ledger_History
begin

text \<open>
  \<open>crates/duckspout-watermark/src/loss.rs\<close>: the guard of the \<open>DeclareLoss\<close> ceremony. A request is
  checked against the live replicas' advertised coverage before any loss row is written.
\<close>

section \<open>The code\<close>

datatype loss_refusal =
    ConsentNotGiven
  | EmptyRequest
  | InvalidRange nat partition_id node_id u64 u64
  | StillRecoverable nat partition_id node_id u64 u64 node_id u64

fun check_ranges :: "nat \<Rightarrow> lost_range list \<Rightarrow> replica_coverage list \<Rightarrow> (loss_refusal, unit) result" where
  "check_ranges index [] live_coverage = Inr ()"
| "check_ranges index (rng # ranges) live_coverage =
     (if lr_first_seq rng = 0 \<or> lr_last_seq rng < lr_first_seq rng
      then Inl (InvalidRange index (lr_partition rng) (lr_origin rng)
                  (lr_first_seq rng) (lr_last_seq rng))
      else
        case max_by_key rc_replicated_thru
               (filter (\<lambda>c. rc_partition c = lr_partition rng \<and> rc_origin c = lr_origin rng)
                  live_coverage) of
          None \<Rightarrow> check_ranges (index + 1) ranges live_coverage
        | Some covering \<Rightarrow>
            if lr_first_seq rng \<le> rc_replicated_thru covering
            then Inl (StillRecoverable index (lr_partition rng) (lr_origin rng)
                        (lr_first_seq rng) (lr_last_seq rng)
                        (rc_node covering) (rc_replicated_thru covering))
            else check_ranges (index + 1) ranges live_coverage)"

definition check_declare_loss ::
  "declare_loss_request \<Rightarrow> replica_coverage list \<Rightarrow> (loss_refusal, unit) result" where
  "check_declare_loss request live_coverage =
     (if \<not> dl_accept_data_loss request then Inl ConsentNotGiven
      else if dl_ranges request = [] then Inl EmptyRequest
      else check_ranges 0 (dl_ranges request) live_coverage)"

section \<open>What a live replica still holds\<close>

text \<open>A replica's coverage is the prefix \<open>1..=replicated_thru\<close> of one origin of one partition.\<close>

definition live_seqs :: "replica_coverage list \<Rightarrow> partition_id \<Rightarrow> node_id \<Rightarrow> u64 set" where
  "live_seqs live_coverage pid origin =
     (\<Union>c\<in>{c \<in> set live_coverage. rc_partition c = pid \<and> rc_origin c = origin}. {1..rc_replicated_thru c})"

definition recoverable :: "replica_coverage list \<Rightarrow> lost_range \<Rightarrow> bool" where
  "recoverable live_coverage rng \<longleftrightarrow>
     live_seqs live_coverage (lr_partition rng) (lr_origin rng)
       \<inter> {lr_first_seq rng..lr_last_seq rng} \<noteq> {}"

definition well_formed_range :: "lost_range \<Rightarrow> bool" where
  "well_formed_range rng \<longleftrightarrow> 1 \<le> lr_first_seq rng \<and> lr_first_seq rng \<le> lr_last_seq rng"

lemma malformed_iff:
  "lr_first_seq rng = 0 \<or> lr_last_seq rng < lr_first_seq rng \<longleftrightarrow> \<not> well_formed_range rng"
  by (auto simp: well_formed_range_def not_le word_less_1)

lemma recoverable_iff:
  assumes "well_formed_range rng"
  shows "recoverable live rng \<longleftrightarrow> (\<exists>c\<in>set live. rc_partition c = lr_partition rng
    \<and> rc_origin c = lr_origin rng \<and> lr_first_seq rng \<le> rc_replicated_thru c)"
proof -
  have "lr_first_seq rng \<in> {1..rc_replicated_thru c} \<inter> {lr_first_seq rng..lr_last_seq rng}"
    if "lr_first_seq rng \<le> rc_replicated_thru c" for c
    using assms that by (simp add: well_formed_range_def)
  then show ?thesis
    by (fastforce simp: recoverable_def live_seqs_def)
qed

abbreviation covering :: "replica_coverage list \<Rightarrow> lost_range \<Rightarrow> replica_coverage option" where
  "covering live rng \<equiv> max_by_key rc_replicated_thru
     (filter (\<lambda>c. rc_partition c = lr_partition rng \<and> rc_origin c = lr_origin rng) live)"

lemma covering_reaches:
  assumes "well_formed_range rng"
  shows "(\<exists>c. covering live rng = Some c \<and> lr_first_seq rng \<le> rc_replicated_thru c)
    \<longleftrightarrow> recoverable live rng"
proof (cases "covering live rng")
  case None
  then show ?thesis by (auto simp: recoverable_iff[OF assms] filter_empty_conv)
next
  case (Some c)
  from max_by_key_Some[OF this] show ?thesis
    by (auto simp: recoverable_iff[OF assms] Some intro: order_trans)
qed

lemma check_ranges_ok:
  "check_ranges i ranges live = Inr () \<longleftrightarrow>
     (\<forall>r\<in>set ranges. well_formed_range r \<and> \<not> recoverable live r)"
proof (induction ranges arbitrary: i)
  case (Cons r ranges)
  show ?case
    using Cons covering_reaches[of r live] malformed_iff[of r]
    by (cases "covering live r") auto
qed simp

text \<open>
  \<open>check_declare_loss\<close> accepts a request exactly when the operator consented, it names at least
  one range, every range is well-formed, and no sequence number of any of them is still held by a
  live replica of that partition and origin.
\<close>
theorem declare_loss_accepts:
  "check_declare_loss request live = Inr () \<longleftrightarrow>
     dl_accept_data_loss request \<and> dl_ranges request \<noteq> []
     \<and> list_all (\<lambda>r. well_formed_range r \<and> \<not> recoverable live r) (dl_ranges request)"
  by (simp add: check_declare_loss_def check_ranges_ok list_all_iff)

lemma check_ranges_refused:
  assumes "check_ranges i ranges live = Inl e"
  shows "\<exists>j r. j < length ranges \<and> r = ranges ! j
    \<and> (\<forall>k<j. well_formed_range (ranges ! k) \<and> \<not> recoverable live (ranges ! k))
    \<and> ((\<not> well_formed_range r
          \<and> e = InvalidRange (i + j) (lr_partition r) (lr_origin r) (lr_first_seq r) (lr_last_seq r))
       \<or> (\<exists>c\<in>set live. well_formed_range r \<and> rc_partition c = lr_partition r \<and> rc_origin c = lr_origin r
          \<and> lr_first_seq r \<le> rc_replicated_thru c
          \<and> e = StillRecoverable (i + j) (lr_partition r) (lr_origin r) (lr_first_seq r)
                  (lr_last_seq r) (rc_node c) (rc_replicated_thru c)))"
  using assms
proof (induction ranges arbitrary: i)
  case (Cons r ranges)
  show ?case
  proof (cases "well_formed_range r \<and> \<not> recoverable live r")
    case True
    then have "check_ranges (i + 1) ranges live = Inl e"
      using Cons.prems covering_reaches[of r live] malformed_iff[of r]
      by (cases "covering live r") auto
    from Cons.IH[OF this] obtain j where "j < length ranges" and
      "\<forall>k<j. well_formed_range (ranges ! k) \<and> \<not> recoverable live (ranges ! k)" and
      "(\<not> well_formed_range (ranges ! j) \<and> e = InvalidRange (i + Suc j) (lr_partition (ranges ! j))
           (lr_origin (ranges ! j)) (lr_first_seq (ranges ! j)) (lr_last_seq (ranges ! j)))
       \<or> (\<exists>c\<in>set live. well_formed_range (ranges ! j) \<and> rc_partition c = lr_partition (ranges ! j)
          \<and> rc_origin c = lr_origin (ranges ! j) \<and> lr_first_seq (ranges ! j) \<le> rc_replicated_thru c
          \<and> e = StillRecoverable (i + Suc j) (lr_partition (ranges ! j)) (lr_origin (ranges ! j))
                  (lr_first_seq (ranges ! j)) (lr_last_seq (ranges ! j)) (rc_node c) (rc_replicated_thru c))"
      by auto
    with True show ?thesis
      by (intro exI[of _ "Suc j"] exI[of _ "ranges ! j"]) (auto simp: less_Suc_eq_0_disj)
  next
    case False
    then consider "\<not> well_formed_range r" | c where "well_formed_range r" "covering live r = Some c"
        "lr_first_seq r \<le> rc_replicated_thru c"
      using covering_reaches[of r live] by blast
    then show ?thesis
    proof cases
      case 1
      with Cons.prems malformed_iff[of r] show ?thesis by (intro exI[of _ 0]) auto
    next
      case 2
      with Cons.prems malformed_iff[of r] max_by_key_Some[OF 2(2)] show ?thesis
        by (intro exI[of _ 0]) auto
    qed
  qed
qed simp

text \<open>
  A refusal names the first offending range of the request: with consent and at least one range,
  the refused index points at a range that is malformed or still recoverable, every range before it
  was fine, and a \<open>StillRecoverable\<close> refusal names a live replica that holds its first number.
\<close>
theorem declare_loss_refusal:
  assumes "check_declare_loss request live = Inl e" and "dl_accept_data_loss request"
    and "dl_ranges request \<noteq> []"
  shows "\<exists>j r. j < length (dl_ranges request) \<and> r = dl_ranges request ! j
    \<and> (\<forall>k<j. well_formed_range (dl_ranges request ! k) \<and> \<not> recoverable live (dl_ranges request ! k))
    \<and> ((\<not> well_formed_range r
          \<and> e = InvalidRange j (lr_partition r) (lr_origin r) (lr_first_seq r) (lr_last_seq r))
       \<or> (\<exists>c\<in>set live. well_formed_range r \<and> rc_partition c = lr_partition r \<and> rc_origin c = lr_origin r
          \<and> lr_first_seq r \<le> rc_replicated_thru c
          \<and> e = StillRecoverable j (lr_partition r) (lr_origin r) (lr_first_seq r)
                  (lr_last_seq r) (rc_node c) (rc_replicated_thru c)))"
  using check_ranges_refused[of 0 "dl_ranges request" live e] assms
  by (simp add: check_declare_loss_def)

definition ex_lost :: "u64 \<Rightarrow> u64 \<Rightarrow> lost_range" where
  "ex_lost f l = \<lparr>lr_partition = PartitionId ''p'', lr_origin = NodeId ''a'', lr_first_seq = f, lr_last_seq = l\<rparr>"

definition ex_live :: "string \<Rightarrow> u64 \<Rightarrow> replica_coverage" where
  "ex_live n thru = \<lparr>rc_node = NodeId n, rc_partition = PartitionId ''p'', rc_origin = NodeId ''a'', rc_replicated_thru = thru\<rparr>"

theorem declare_loss_refusal_witness:
  "\<exists>j. j < 2 \<and> check_declare_loss \<lparr>dl_ranges = [ex_lost 9 12, ex_lost 6 10], dl_accept_data_loss = True\<rparr>
       [ex_live ''b'' 3, ex_live ''c'' 8]
     = Inl (StillRecoverable j (PartitionId ''p'') (NodeId ''a'') 6 10 (NodeId ''c'') 8)"
proof -
  let ?req = "\<lparr>dl_ranges = [ex_lost 9 12, ex_lost 6 10], dl_accept_data_loss = True\<rparr>"
  let ?live = "[ex_live ''b'' 3, ex_live ''c'' 8]"
  have e: "check_declare_loss ?req ?live
      = Inl (StillRecoverable 1 (PartitionId ''p'') (NodeId ''a'') 6 10 (NodeId ''c'') 8)"
    by (simp add: check_declare_loss_def ex_lost_def ex_live_def)
  from declare_loss_refusal[OF e] e show ?thesis by auto
qed

text \<open>
  The ceremony's hand-over to the ledger: every range of an accepted request is recorded by
  \<open>record_loss\<close> without a rejection, on any ledger.
\<close>
lemma declared_loss_recorded:
  assumes "check_declare_loss request live = Inr ()" and "r \<in> set (dl_ranges request)"
  shows "\<exists>row L'. record_loss \<lparr>ll_range = r, ll_declared_at_ms = t\<rparr> L = (Inr row, L')"
proof -
  have "well_formed_range r"
    using assms by (auto simp: check_declare_loss_def check_ranges_ok split: if_splits)
  then have "\<not> invalid_seq_range (lr_first_seq r) (lr_last_seq r)"
    using malformed_iff[of r] by (simp add: invalid_seq_range_def)
  then show ?thesis by (simp add: record_loss_def Let_def)
qed

end
