(* ===== verification/Part_Naming.thy ===== *)
theory Part_Naming
  imports Types
begin

text \<open>
  \<open>crates/duckspout-drain/src/naming.rs\<close>: the deterministic object name of a part. The escaping of
  a component is \<open>encode_component\<close> of \<open>Text_Format\<close>. Equal inputs give equal names because the
  model is a function; shown here is the converse, that different parts never share a name.
\<close>

datatype part_discriminator =
    WindowPart
  | SupplementPart node_id u64 u64
  | SnapshotPart u64

fun discriminator_kind :: "part_discriminator \<Rightarrow> part_kind" where
  "discriminator_kind WindowPart = Primary"
| "discriminator_kind (SupplementPart _ _ _) = Supplement"
| "discriminator_kind (SnapshotPart _) = Snapshot"

fun part_suffix :: "part_discriminator \<Rightarrow> string" where
  "part_suffix WindowPart = ''primary''"
| "part_suffix (SupplementPart origin first_seq last_seq) =
     ''supplement-'' @ encode_component (node_str origin) @ ''-'' @ show_nat (unat first_seq)
       @ ''-'' @ show_nat (unat last_seq)"
| "part_suffix (SnapshotPart as_of_seq) = ''snapshot-'' @ show_nat (unat as_of_seq)"

definition part_name ::
  "dataset_id \<Rightarrow> partition_id \<Rightarrow> window_id \<Rightarrow> part_discriminator \<Rightarrow> part_name" where
  "part_name dataset pid window discriminator =
     PartName (encode_component (dataset_str dataset) @ ''/''
       @ encode_component (partition_str pid) @ ''/w'' @ show_nat window @ ''-''
       @ part_suffix discriminator @ ''.parquet'')"

section \<open>Injectivity\<close>

lemma sep_chars:
  "CHR ''/'' \<notin> set (encode_component s)" "CHR ''-'' \<notin> set (encode_component s)"
  "CHR ''-'' \<notin> set (show_nat n)"
  using sep_notin_encode[of "CHR ''/''" s] sep_notin_encode[of "CHR ''-''" s]
    sep_notin_show_nat[of "CHR ''-''" n]
  by (simp_all add: is_plain_def char_le_nat is_digit_def)

lemma part_suffix_inject: "part_suffix d = part_suffix d' \<longleftrightarrow> d = d'"
proof
  assume eq: "part_suffix d = part_suffix d'"
  show "d = d'"
  proof (cases d; cases d')
    fix a f l a' f' l'
    assume d: "d = SupplementPart a f l" "d' = SupplementPart a' f' l'"
    with eq have "encode_component (node_str a) @ CHR ''-'' # show_nat (unat f) @ CHR ''-'' # show_nat (unat l)
        = encode_component (node_str a') @ CHR ''-'' # show_nat (unat f') @ CHR ''-'' # show_nat (unat l')"
      by simp
    with d show ?thesis
      by (simp add: split_at_sep sep_chars word_unat_eq_iff node_id.expand)
  qed (use eq in \<open>auto simp: word_unat_eq_iff\<close>)
qed simp

text \<open>
  Part names are injective: two parts share an object name exactly when they agree in dataset,
  partition, window and discriminator, so a PUT can only overwrite a retry of the same part.
\<close>
theorem part_name_inject:
  "part_name ds pid w disc = part_name ds' pid' w' disc' \<longleftrightarrow>
     ds = ds' \<and> pid = pid' \<and> w = w' \<and> disc = disc'"
proof
  assume "part_name ds pid w disc = part_name ds' pid' w' disc'"
  then have "encode_component (dataset_str ds) @ CHR ''/'' # encode_component (partition_str pid)
        @ CHR ''/'' # CHR ''w'' # show_nat w @ CHR ''-'' # part_suffix disc @ ''.parquet''
      = encode_component (dataset_str ds') @ CHR ''/'' # encode_component (partition_str pid')
        @ CHR ''/'' # CHR ''w'' # show_nat w' @ CHR ''-'' # part_suffix disc' @ ''.parquet''"
    by (simp add: part_name_def)
  then show "ds = ds' \<and> pid = pid' \<and> w = w' \<and> disc = disc'"
    by (simp add: split_at_sep sep_chars part_suffix_inject dataset_id.expand partition_id.expand)
qed simp

end
