(* ===== verification/Schedule.thy ===== *)
theory Schedule
  imports Types
begin

text \<open>
  \<open>crates/duckspout-drain/src/schedule.rs\<close>: which closed windows may be drained now. The lateness
  hold is added to the close instant with the saturating addition of \<open>i64\<close>.
\<close>

record drain_config =
  dc_allowed_lateness_ms :: int

definition default_allowed_lateness_ms :: int where
  "default_allowed_lateness_ms = 15 * 60 * 1000"

definition drain_config_default :: drain_config where
  "drain_config_default = \<lparr>dc_allowed_lateness_ms = default_allowed_lateness_ms\<rparr>"

definition hold_elapsed :: "int \<Rightarrow> int \<Rightarrow> int \<Rightarrow> bool" where
  "hold_elapsed now_ms allowed_lateness_ms closed_at_ms \<longleftrightarrow>
     i64_saturating_add closed_at_ms allowed_lateness_ms \<le> now_ms"

definition eligible :: "int \<Rightarrow> drain_config \<Rightarrow> drainable_window list \<Rightarrow> drainable_window list" where
  "eligible now_ms config windows =
     filter (\<lambda>w. hold_elapsed now_ms (dc_allowed_lateness_ms config) (dw_closed_at_ms w)) windows"

text \<open>
  For instants of the \<open>i64\<close> range the saturation is harmless: before the largest instant a
  window is eligible exactly when the clock has reached close plus hold, computed without bound.
  Eligibility persists as the clock advances.
\<close>
theorem hold_elapsed_iff:
  assumes "i64_min \<le> now" "now < i64_max" and "i64_min \<le> closed + hold"
  shows "(hold_elapsed now hold closed \<longleftrightarrow> closed + hold \<le> now)
    \<and> (\<forall>later\<ge>now. hold_elapsed now hold closed \<longrightarrow> hold_elapsed later hold closed)"
  using assms by (auto simp: hold_elapsed_def i64_saturating_add_def)

theorem hold_elapsed_iff_witness:
  "hold_elapsed 900100 default_allowed_lateness_ms 100
   \<and> \<not> hold_elapsed 900099 default_allowed_lateness_ms 100"
proof -
  have "i64_min \<le> 900100" "900100 < i64_max" "i64_min \<le> 900099" "900099 < i64_max"
    "i64_min \<le> 100 + default_allowed_lateness_ms"
    by (simp_all add: i64_min_def i64_max_def default_allowed_lateness_ms_def)
  then show ?thesis
    using hold_elapsed_iff[of 900100 100 default_allowed_lateness_ms]
      hold_elapsed_iff[of 900099 100 default_allowed_lateness_ms]
    by (simp add: default_allowed_lateness_ms_def)
qed

end
