(* ===== verification/Coordinator.thy ===== *)
theory Coordinator
  imports Part_Naming Schedule
begin

text \<open>
  \<open>crates/duckspout-drain/src/coordinator.rs\<close>: the drain of one window, from the fence pre-check to
  the drop of the staged rows. The coordinator reaches everything through ports, so the model takes
  a record of port functions over an abstract state \<open>'s\<close> of the world outside; a port call returns
  its response and the state after it. Whatever other tasks and nodes do meanwhile is part of what
  a port call does to that state. A port that is a trait of \<open>duckspout-types\<close> has the trait's
  signature; \<open>p_put\<close> stands for the object store's \<open>put\<close> at the path of the given name.

  The lemmas are about every possible behaviour of the ports: \<open>logged\<close> wraps a port record so that
  each call and its response is appended to a log, and the properties say which calls the
  coordinator makes, in which circumstances, and with which arguments.
\<close>

section \<open>The ports\<close>

record 's drain_ports =
  p_next_window :: "partition_id \<Rightarrow> 's \<Rightarrow> window_id \<times> 's"
  p_complete_through_ms :: "partition_id \<Rightarrow> 's \<Rightarrow> int option \<times> 's"
  p_advance_for :: "window_manifest \<Rightarrow> 's \<Rightarrow> (ledger_rejection, watermark_row option) result \<times> 's"
  p_record_commit :: "window_manifest \<Rightarrow> 's \<Rightarrow> (ledger_rejection, watermark_row option) result \<times> 's"
  p_recorded_coverage :: "partition_id \<Rightarrow> window_id \<Rightarrow> 's \<Rightarrow> origin_seq_range list option \<times> 's"
  p_drainable_windows :: "'s \<Rightarrow> (seal_error, drainable_window list) result \<times> 's"
  p_seal_window :: "seal_request \<Rightarrow> 's \<Rightarrow> (seal_error, sealed_part) result \<times> 's"
  p_drop_window :: "dataset_id \<Rightarrow> partition_id \<Rightarrow> window_id \<Rightarrow> origin_seq_range list
     \<Rightarrow> 's \<Rightarrow> (seal_error, drop_outcome) result \<times> 's"
  p_commit_files :: "window_manifest \<Rightarrow> watermark_row list \<Rightarrow> 's \<Rightarrow> (lake_error, commit_outcome) result \<times> 's"
  p_read_watermarks :: "partition_id list \<Rightarrow> 's \<Rightarrow> (lake_error, watermark_row list) result \<times> 's"
  p_scratch_get :: "storage_path \<Rightarrow> 's \<Rightarrow> (storage_error, string) result \<times> 's"
  p_scratch_delete :: "storage_path \<Rightarrow> 's \<Rightarrow> (storage_error, unit) result \<times> 's"
  p_put :: "part_name \<Rightarrow> string \<Rightarrow> 's \<Rightarrow> (string, unit) result \<times> 's"
  p_wall_unix_ms :: "'s \<Rightarrow> int \<times> 's"
  p_journal :: "trace_event \<Rightarrow> 's \<Rightarrow> unit \<times> 's"

section \<open>The coordinator\<close>

datatype requeue_reason = RejectedByBackend | CommitLost | Unproven | CatalogUnavailable

datatype drain_outcome =
    DrainCommitted "watermark_row option"
  | AlreadyCommitted
  | Requeue requeue_reason

datatype drain_error =
    WindowAhead partition_id window_id window_id
  | DrainSeal seal_error
  | DrainLedger ledger_rejection
  | DrainScratch storage_error
  | DrainPut string
  | DrainLake lake_error

record dataset_drain_plan =
  pl_order_by :: "string list"
  pl_event_time_column :: string
  pl_dedup_key :: "string list option"

definition from_declaration :: "dataset_declaration \<Rightarrow> string \<Rightarrow> dataset_drain_plan" where
  "from_declaration decl event_time_column =
     (let (default_order_by, dedup_key) =
            (case decl_kind decl of
               Event \<Rightarrow> ([event_time_column], None)
             | Changelog \<Rightarrow> (decl_key_cols decl @ [''origin'', ''seq''], Some (decl_key_cols decl)))
      in \<lparr>pl_order_by = map_or default_order_by id (decl_sort_key decl),
          pl_event_time_column = event_time_column, pl_dedup_key = dedup_key\<rparr>)"

datatype unsettled = UnsettledAborted | UnsettledIndeterminate

definition journal :: "'s drain_ports \<Rightarrow> trace_event \<Rightarrow> 's \<Rightarrow> 's" where
  "journal P ev s = snd (p_journal P ev s)"

definition eligible_windows ::
  "'s drain_ports \<Rightarrow> drain_config \<Rightarrow> 's \<Rightarrow> (drain_error, drainable_window list) result \<times> 's" where
  "eligible_windows P config s =
     and_then (err_into DrainSeal (p_drainable_windows P s)) (\<lambda>offered s.
       (case p_wall_unix_ms P s of (now_ms, s) \<Rightarrow> (Inr (eligible now_ms config offered), s)))"

definition discard_scratch :: "'s drain_ports \<Rightarrow> storage_path \<Rightarrow> 's \<Rightarrow> 's" where
  "discard_scratch P path s = snd (p_scratch_delete P path s)"

text \<open>The guard of the match arms that read \<open>WindowNotNext\<close> as "already recorded".\<close>

fun already_recorded :: "ledger_rejection \<Rightarrow> bool" where
  "already_recorded (RejWindowNotNext _ expected got) = (got < expected)"
| "already_recorded (Rejected _) = False"

definition journal_drop ::
  "'s drain_ports \<Rightarrow> origin_seq_range list \<Rightarrow> drop_outcome \<Rightarrow> 's \<Rightarrow> 's" where
  "journal_drop P coverage dropped s =
     (if coverage \<noteq> [] \<and> dropped \<noteq> AlreadyGone then journal P TeDropWindow s else s)"

definition finish_committed ::
  "'s drain_ports \<Rightarrow> window_manifest \<Rightarrow> storage_path \<Rightarrow> 's
     \<Rightarrow> (drain_error, watermark_row option) result \<times> 's" where
  "finish_committed P manifest scratch s =
     and_then
       (case p_record_commit P manifest s of
          (Inr row, s) \<Rightarrow> (Inr row, s)
        | (Inl rej, s) \<Rightarrow>
            if already_recorded rej
            then (case p_complete_through_ms P (wm_partition manifest) s of (through, s) \<Rightarrow>
                   (Inr (map_option (\<lambda>t. \<lparr>wr_partition = wm_partition manifest,
                                         wr_complete_through_ms = t\<rparr>) through), s))
            else (Inl (DrainLedger rej), s))
       (\<lambda>watermark s.
          and_then (err_into DrainSeal
              (p_drop_window P (wm_dataset manifest) (wm_partition manifest) (wm_window_id manifest)
                 (wm_origin_coverage manifest) (discard_scratch P scratch s)))
            (\<lambda>dropped s. (Inr watermark, journal_drop P (wm_origin_coverage manifest) dropped s)))"

definition finish_already_committed ::
  "'s drain_ports \<Rightarrow> dataset_id \<Rightarrow> partition_id \<Rightarrow> window_id \<Rightarrow> storage_path option \<Rightarrow> 's
     \<Rightarrow> (drain_error, drain_outcome) result \<times> 's" where
  "finish_already_committed P dataset pid window scratch s =
     (let s = map_or s (\<lambda>path. discard_scratch P path s) scratch in
      case p_recorded_coverage P pid window s of (recorded, s) \<Rightarrow>
        let covered = map_or [] id recorded in
        and_then (err_into DrainSeal (p_drop_window P dataset pid window covered s))
          (\<lambda>dropped s. (Inr AlreadyCommitted, journal_drop P covered dropped s)))"

definition strict_advance :: "watermark_row option \<Rightarrow> int option \<Rightarrow> int option" where
  "strict_advance previewed prior =
     (case previewed of
        None \<Rightarrow> None
      | Some row \<Rightarrow> if map_or True (\<lambda>p. p < wr_complete_through_ms row) prior
                   then Some (wr_complete_through_ms row) else None)"

definition read_back_of :: "partition_id \<Rightarrow> watermark_row list \<Rightarrow> int option" where
  "read_back_of pid rows =
     map_option wr_complete_through_ms (find (\<lambda>row. wr_partition row = pid) rows)"

definition reconcile ::
  "'s drain_ports \<Rightarrow> unsettled \<Rightarrow> window_manifest \<Rightarrow> sealed_part \<Rightarrow> watermark_row option
     \<Rightarrow> int option \<Rightarrow> 's \<Rightarrow> (drain_error, drain_outcome) result \<times> 's" where
  "reconcile P unsettled manifest sealed previewed prior s =
     (case p_read_watermarks P [wm_partition manifest] s of
        (Inl _, s) \<Rightarrow> (Inr (Requeue CatalogUnavailable), discard_scratch P (sp_path sealed) s)
      | (Inr rows, s) \<Rightarrow>
          let read_back = read_back_of (wm_partition manifest) rows;
              s = (if unsettled = UnsettledIndeterminate then journal P TeReconcile s else s)
          in case strict_advance previewed prior of
               Some advanced \<Rightarrow>
                 if map_or False (\<lambda>v. advanced \<le> v) read_back
                 then and_then (finish_committed P manifest (sp_path sealed) s) (\<lambda>watermark s.
                        (Inr (case unsettled of
                           UnsettledIndeterminate \<Rightarrow> DrainCommitted watermark
                         | UnsettledAborted \<Rightarrow> AlreadyCommitted), s))
                 else (Inr (Requeue (case unsettled of
                           UnsettledAborted \<Rightarrow> RejectedByBackend
                         | UnsettledIndeterminate \<Rightarrow> CommitLost)),
                       discard_scratch P (sp_path sealed) s)
             | None \<Rightarrow> (Inr (Requeue Unproven), discard_scratch P (sp_path sealed) s))"

definition seal_request_for ::
  "dataset_id \<Rightarrow> partition_id \<Rightarrow> window_id \<Rightarrow> dataset_drain_plan \<Rightarrow> seal_request" where
  "seal_request_for dataset pid window plan =
     \<lparr>sr_dataset = dataset, sr_partition = pid, sr_window = window,
      sr_order_by = pl_order_by plan, sr_event_time_column = pl_event_time_column plan,
      sr_dedup_key = pl_dedup_key plan\<rparr>"

definition manifest_for ::
  "dataset_id \<Rightarrow> partition_id \<Rightarrow> window_id \<Rightarrow> sealed_part \<Rightarrow> window_manifest" where
  "manifest_for dataset pid window sealed =
     \<lparr>wm_dataset = dataset, wm_partition = pid, wm_window_id = window,
      wm_origin_coverage = sp_origin_coverage sealed, wm_rows = sp_rows sealed,
      wm_event_time_min_ms = sp_event_time_min_ms sealed,
      wm_event_time_max_ms = sp_event_time_max_ms sealed,
      wm_dedup_removed = sp_dedup_removed sealed,
      wm_parts = [part_name dataset pid window WindowPart]\<rparr>"

text \<open>Steps 4 and 5 of \<open>drain_window\<close>: the PUT and the commit with its three outcomes.\<close>

definition put_and_commit ::
  "'s drain_ports \<Rightarrow> window_manifest \<Rightarrow> sealed_part \<Rightarrow> watermark_row option \<Rightarrow> int option \<Rightarrow> 's
     \<Rightarrow> (drain_error, drain_outcome) result \<times> 's" where
  "put_and_commit P manifest sealed previewed prior s =
     and_then (err_into DrainScratch (p_scratch_get P (sp_path sealed) s)) (\<lambda>data s.
     and_then (err_into DrainPut (p_put P (hd (wm_parts manifest)) data s)) (\<lambda>_ s.
     and_then (err_into DrainLake
         (p_commit_files P manifest (case previewed of None \<Rightarrow> [] | Some row \<Rightarrow> [row])
            (journal P TePutPart s))) (\<lambda>outcome s.
       case outcome of
         Committed \<Rightarrow>
           and_then (finish_committed P manifest (sp_path sealed) (journal P TeLakeCommitOk s))
             (\<lambda>watermark s. (Inr (DrainCommitted watermark), s))
       | Aborted \<Rightarrow>
           reconcile P UnsettledAborted manifest sealed previewed prior (journal P TeLakeCommitAbort s)
       | Indeterminate \<Rightarrow>
           reconcile P UnsettledIndeterminate manifest sealed previewed prior
             (journal P TeLakeCommitIndeterminate s))))"

definition drain_window ::
  "'s drain_ports \<Rightarrow> dataset_id \<Rightarrow> partition_id \<Rightarrow> window_id \<Rightarrow> dataset_drain_plan \<Rightarrow> 's
     \<Rightarrow> (drain_error, drain_outcome) result \<times> 's" where
  "drain_window P dataset pid window plan s =
     (case p_next_window P pid s of (expected, s) \<Rightarrow>
      if window < expected then finish_already_committed P dataset pid window None s
      else if expected < window then (Inl (WindowAhead pid expected window), s)
      else
        case p_complete_through_ms P pid s of (prior, s) \<Rightarrow>
        and_then (err_into DrainSeal (p_seal_window P (seal_request_for dataset pid window plan) s))
          (\<lambda>sealed s.
             let manifest = manifest_for dataset pid window sealed in
             case p_advance_for P manifest (journal P TeSealPart s) of
               (Inr previewed, s) \<Rightarrow> put_and_commit P manifest sealed previewed prior s
             | (Inl rej, s) \<Rightarrow>
                 if already_recorded rej
                 then finish_already_committed P dataset pid window (Some (sp_path sealed)) s
                 else (Inl (DrainLedger rej), s)))"

end
