(* ===== verification/Drain_Protocol.thy ===== *)
theory Drain_Protocol
  imports Coordinator
begin

text \<open>
  What a drain attempt does to the world. \<open>logged P\<close> is the port record \<open>P\<close> with every call and its
  response appended to a log; it behaves as \<open>P\<close> does (\<open>logged_drain_window\<close>), so a statement about
  the logs of all logged runs is a statement about the calls of all runs. The properties hold for
  every port record: whatever the ports answer, and whatever happens concurrently between calls.
\<close>

section \<open>Logging port calls\<close>

datatype drain_event =
    EvNext partition_id window_id
  | EvThrough partition_id "int option"
  | EvPreview window_manifest "(ledger_rejection, watermark_row option) result"
  | EvRecord window_manifest "(ledger_rejection, watermark_row option) result"
  | EvCoverage partition_id window_id "origin_seq_range list option"
  | EvOffered "(seal_error, drainable_window list) result"
  | EvSeal seal_request "(seal_error, sealed_part) result"
  | EvDrop dataset_id partition_id window_id "origin_seq_range list" "(seal_error, drop_outcome) result"
  | EvCommit window_manifest "watermark_row list" "(lake_error, commit_outcome) result"
  | EvRead "partition_id list" "(lake_error, watermark_row list) result"
  | EvGet storage_path "(storage_error, string) result"
  | EvDelete storage_path "(storage_error, unit) result"
  | EvPut part_name string "(string, unit) result"
  | EvClock int
  | EvJournal trace_event

type_synonym 's logging = "'s \<times> drain_event list"

definition log_call :: "('s \<Rightarrow> 'r \<times> 's) \<Rightarrow> ('r \<Rightarrow> drain_event) \<Rightarrow> 's logging \<Rightarrow> 'r \<times> 's logging" where
  "log_call f ev sl = (case f (fst sl) of (r, s') \<Rightarrow> (r, (s', snd sl @ [ev r])))"

definition logged :: "'s drain_ports \<Rightarrow> 's logging drain_ports" where
  "logged P = \<lparr>
     p_next_window = \<lambda>pid. log_call (p_next_window P pid) (EvNext pid),
     p_complete_through_ms = \<lambda>pid. log_call (p_complete_through_ms P pid) (EvThrough pid),
     p_advance_for = \<lambda>m. log_call (p_advance_for P m) (EvPreview m),
     p_record_commit = \<lambda>m. log_call (p_record_commit P m) (EvRecord m),
     p_recorded_coverage = \<lambda>pid w. log_call (p_recorded_coverage P pid w) (EvCoverage pid w),
     p_drainable_windows = log_call (p_drainable_windows P) EvOffered,
     p_seal_window = \<lambda>req. log_call (p_seal_window P req) (EvSeal req),
     p_drop_window = \<lambda>ds pid w cov. log_call (p_drop_window P ds pid w cov) (EvDrop ds pid w cov),
     p_commit_files = \<lambda>m rows. log_call (p_commit_files P m rows) (EvCommit m rows),
     p_read_watermarks = \<lambda>pids. log_call (p_read_watermarks P pids) (EvRead pids),
     p_scratch_get = \<lambda>path. log_call (p_scratch_get P path) (EvGet path),
     p_scratch_delete = \<lambda>path. log_call (p_scratch_delete P path) (EvDelete path),
     p_put = \<lambda>name data. log_call (p_put P name data) (EvPut name data),
     p_wall_unix_ms = log_call (p_wall_unix_ms P) EvClock,
     p_journal = \<lambda>ev. log_call (p_journal P ev) (\<lambda>_. EvJournal ev)\<rparr>"

lemma logged_sel [simp]:
  "p_next_window (logged P) pid = log_call (p_next_window P pid) (EvNext pid)"
  "p_complete_through_ms (logged P) pid = log_call (p_complete_through_ms P pid) (EvThrough pid)"
  "p_advance_for (logged P) m = log_call (p_advance_for P m) (EvPreview m)"
  "p_record_commit (logged P) m = log_call (p_record_commit P m) (EvRecord m)"
  "p_recorded_coverage (logged P) pid w = log_call (p_recorded_coverage P pid w) (EvCoverage pid w)"
  "p_seal_window (logged P) req = log_call (p_seal_window P req) (EvSeal req)"
  "p_drop_window (logged P) ds pid w cov = log_call (p_drop_window P ds pid w cov) (EvDrop ds pid w cov)"
  "p_commit_files (logged P) m rows = log_call (p_commit_files P m rows) (EvCommit m rows)"
  "p_read_watermarks (logged P) pids = log_call (p_read_watermarks P pids) (EvRead pids)"
  "p_scratch_get (logged P) path = log_call (p_scratch_get P path) (EvGet path)"
  "p_scratch_delete (logged P) path = log_call (p_scratch_delete P path) (EvDelete path)"
  "p_put (logged P) name data = log_call (p_put P name data) (EvPut name data)"
  "p_journal (logged P) ev = log_call (p_journal P ev) (\<lambda>_. EvJournal ev)"
  by (simp_all add: logged_def)

lemma log_call_apply [simp]:
  "log_call f ev (s, log) = (case f s of (r, s') \<Rightarrow> (r, (s', log @ [ev r])))"
  by (simp add: log_call_def)

section \<open>Logging changes nothing\<close>

abbreviation erase :: "'r \<times> 's logging \<Rightarrow> 'r \<times> 's" where
  "erase \<equiv> map_prod id fst"

lemma erase_and_then:
  assumes "erase r = r'" and "\<And>x s log. erase (f x (s, log)) = f' x s"
  shows "erase (and_then r f) = and_then r' f'"
  using assms by (cases r; cases "fst r") (auto simp: and_then_def split: sum.splits)

lemma erase_err_into: "erase (err_into g r) = err_into g (erase r)"
  by (cases r; cases "fst r") (auto simp: err_into_def split: sum.splits)

lemma erase_log_call [simp]: "erase (log_call f ev sl) = f (fst sl)"
  by (simp add: log_call_def split: prod.splits)

lemma logged_journal [simp]:
  "journal (logged P) ev (s, log) = (journal P ev s, log @ [EvJournal ev])"
  by (simp add: journal_def split: prod.splits)

lemma logged_discard [simp]:
  "discard_scratch (logged P) path (s, log) =
     (discard_scratch P path s, log @ [EvDelete path (fst (p_scratch_delete P path s))])"
  by (simp add: discard_scratch_def split: prod.splits)

definition drop_note :: "origin_seq_range list \<Rightarrow> drop_outcome \<Rightarrow> drain_event list" where
  "drop_note coverage dropped =
     (if coverage \<noteq> [] \<and> dropped \<noteq> AlreadyGone then [EvJournal TeDropWindow] else [])"

lemma logged_journal_drop [simp]:
  "journal_drop (logged P) cov dropped (s, log) = (journal_drop P cov dropped s, log @ drop_note cov dropped)"
  by (simp add: journal_drop_def drop_note_def)

lemma logged_finish_committed:
  "erase (finish_committed (logged P) m path (s, log)) = finish_committed P m path s"
  unfolding finish_committed_def
  by (rule erase_and_then) (auto simp: erase_err_into split: prod.splits sum.splits intro!: erase_and_then)

lemma logged_finish_already:
  "erase (finish_already_committed (logged P) ds pid w scratch (s, log))
     = finish_already_committed P ds pid w scratch s"
  by (cases scratch)
    (auto simp: finish_already_committed_def erase_err_into Let_def split: prod.splits intro!: erase_and_then)

lemma logged_reconcile:
  "erase (reconcile (logged P) u m sealed previewed prior (s, log)) = reconcile P u m sealed previewed prior s"
  by (auto simp: reconcile_def logged_finish_committed Let_def
      split: prod.splits sum.splits option.splits intro!: erase_and_then)

lemma logged_put_and_commit:
  "erase (put_and_commit (logged P) m sealed previewed prior (s, log)) = put_and_commit P m sealed previewed prior s"
  unfolding put_and_commit_def
  by (intro erase_and_then)
    (auto simp: erase_err_into logged_finish_committed logged_reconcile
      split: commit_outcome.splits prod.splits intro!: erase_and_then)

lemma logged_drain_window:
  "erase (drain_window (logged P) ds pid w plan (s, log)) = drain_window P ds pid w plan s"
  by (auto simp: drain_window_def Let_def erase_err_into logged_put_and_commit logged_finish_already
      split: prod.splits sum.splits intro!: erase_and_then)

section \<open>The protocol as a monitor of the calls\<close>

text \<open>
  The evidence that the commit of a manifest stands: it was answered \<open>Committed\<close>, or it was answered
  \<open>Aborted\<close> or \<open>Indeterminate\<close> and the read-back shows a watermark at or past the strict advance the
  commit carried.
\<close>

definition commit_stands :: "drain_event list \<Rightarrow> window_manifest \<Rightarrow> bool" where
  "commit_stands log m \<longleftrightarrow>
     (\<exists>rows. EvCommit m rows (Inr Committed) \<in> set log)
     \<or> (\<exists>rows out prior previewed advanced rs v.
          EvCommit m rows (Inr out) \<in> set log \<and> out \<in> {Aborted, Indeterminate}
          \<and> EvThrough (wm_partition m) prior \<in> set log \<and> EvPreview m (Inr previewed) \<in> set log
          \<and> strict_advance previewed prior = Some advanced
          \<and> EvRead [wm_partition m] (Inr rs) \<in> set log
          \<and> read_back_of (wm_partition m) rs = Some v \<and> advanced \<le> v)"

definition unsettled_commit :: "drain_event list \<Rightarrow> bool" where
  "unsettled_commit log \<longleftrightarrow>
     (\<exists>m rows out. EvCommit m rows (Inr out) \<in> set log \<and> out \<in> {Aborted, Indeterminate})"

fun is_commit :: "drain_event \<Rightarrow> bool" where
  "is_commit (EvCommit _ _ _) = True" | "is_commit _ = False"

fun is_read :: "drain_event \<Rightarrow> bool" where
  "is_read (EvRead _ _) = True" | "is_read _ = False"

fun is_drop :: "drain_event \<Rightarrow> bool" where
  "is_drop (EvDrop _ _ _ _ _) = True" | "is_drop _ = False"

fun is_record :: "drain_event \<Rightarrow> bool" where
  "is_record (EvRecord _ _) = True" | "is_record _ = False"

text \<open>
  When each call is allowed, given the calls before it, in an attempt on window \<open>w\<close> of partition
  \<open>pid\<close> of dataset \<open>ds\<close>.
\<close>

fun call_ok :: "dataset_id \<Rightarrow> partition_id \<Rightarrow> window_id \<Rightarrow> drain_event list \<Rightarrow> drain_event \<Rightarrow> bool" where
  "call_ok ds pid w log (EvSeal req r) \<longleftrightarrow>
     EvNext pid w \<in> set log \<and> sr_dataset req = ds \<and> sr_partition req = pid \<and> sr_window req = w"
| "call_ok ds pid w log (EvPreview m r) \<longleftrightarrow>
     (\<exists>req sealed. EvSeal req (Inr sealed) \<in> set log \<and> m = manifest_for ds pid w sealed)"
| "call_ok ds pid w log (EvPut name data r) \<longleftrightarrow>
     name = part_name ds pid w WindowPart \<and> (\<exists>path. EvGet path (Inr data) \<in> set log)
     \<and> (\<exists>m row. EvPreview m (Inr row) \<in> set log)"
| "call_ok ds pid w log (EvCommit m rows r) \<longleftrightarrow>
     list_all (\<lambda>e. \<not> is_commit e) log
     \<and> (\<exists>previewed. EvPreview m (Inr previewed) \<in> set log \<and> rows = (case previewed of None \<Rightarrow> [] | Some row \<Rightarrow> [row]))
     \<and> (\<exists>data. EvPut (part_name ds pid w WindowPart) data (Inr ()) \<in> set log)"
| "call_ok ds pid w log (EvRead pids r) \<longleftrightarrow>
     list_all (\<lambda>e. \<not> is_read e) log \<and> pids = [pid]
     \<and> unsettled_commit log"
| "call_ok ds pid w log (EvRecord m r) \<longleftrightarrow> commit_stands log m \<and> list_all (\<lambda>e. \<not> is_record e) log"
| "call_ok ds pid w log (EvDrop ds' pid' w' cov r) \<longleftrightarrow>
     ds' = ds \<and> pid' = pid \<and> w' = w \<and> list_all (\<lambda>e. \<not> is_drop e) log
     \<and> ((\<exists>recorded. EvCoverage pid w recorded \<in> set log \<and> cov = map_or [] id recorded)
        \<or> (\<exists>m rec. commit_stands log m \<and> cov = wm_origin_coverage m \<and> EvRecord m rec \<in> set log
             \<and> (case rec of Inr _ \<Rightarrow> True | Inl rej \<Rightarrow> already_recorded rej)))"
| "call_ok ds pid w log (EvJournal ev) \<longleftrightarrow>
     (ev = TeSealPart \<longrightarrow> (\<exists>req sealed. EvSeal req (Inr sealed) \<in> set log))
     \<and> (ev = TePutPart \<longrightarrow> (\<exists>name data. EvPut name data (Inr ()) \<in> set log))
     \<and> (ev = TeLakeCommitOk \<longrightarrow> (\<exists>m rows. EvCommit m rows (Inr Committed) \<in> set log))
     \<and> (ev = TeLakeCommitAbort \<longrightarrow> (\<exists>m rows. EvCommit m rows (Inr Aborted) \<in> set log))
     \<and> (ev = TeLakeCommitIndeterminate \<longrightarrow> (\<exists>m rows. EvCommit m rows (Inr Indeterminate) \<in> set log))
     \<and> (ev = TeReconcile \<longrightarrow> (\<exists>m rows rs. EvCommit m rows (Inr Indeterminate) \<in> set log
            \<and> EvRead [pid] (Inr rs) \<in> set log))
     \<and> (ev = TeDropWindow \<longrightarrow> (\<exists>cov dropped. EvDrop ds pid w cov (Inr dropped) \<in> set log
            \<and> cov \<noteq> [] \<and> dropped \<noteq> AlreadyGone))"
| "call_ok ds pid w log _ = True"

fun protocol_from ::
  "dataset_id \<Rightarrow> partition_id \<Rightarrow> window_id \<Rightarrow> drain_event list \<Rightarrow> drain_event list \<Rightarrow> bool" where
  "protocol_from ds pid w log [] = True"
| "protocol_from ds pid w log (e # es) =
     (call_ok ds pid w log e \<and> protocol_from ds pid w (log @ [e]) es)"

lemma protocol_from_append [simp]:
  "protocol_from ds pid w log (a @ b) \<longleftrightarrow>
     protocol_from ds pid w log a \<and> protocol_from ds pid w (log @ a) b"
  by (induction a arbitrary: log) auto

text \<open>A step of the coordinator extends a log that keeps the protocol by calls that keep it.\<close>

definition keeps ::
  "dataset_id \<Rightarrow> partition_id \<Rightarrow> window_id \<Rightarrow> drain_event list \<Rightarrow> drain_event list \<Rightarrow> bool" where
  "keeps ds pid w log log' \<longleftrightarrow> (\<exists>tail. log' = log @ tail \<and> protocol_from ds pid w log tail)"

lemma keeps_refl [simp]: "keeps ds pid w log log"
  by (simp add: keeps_def)

lemma keeps_trans: "keeps ds pid w a b \<Longrightarrow> keeps ds pid w b c \<Longrightarrow> keeps ds pid w a c"
  by (auto simp: keeps_def)

lemma keeps_snoc: "keeps ds pid w a b \<Longrightarrow> call_ok ds pid w b e \<Longrightarrow> keeps ds pid w a (b @ [e])"
  by (auto simp: keeps_def)

lemma keeps_snoc_iff [simp]: "keeps ds pid w a (a @ [e]) \<longleftrightarrow> call_ok ds pid w a e"
  by (auto simp: keeps_def)

section \<open>The finishing steps keep the protocol\<close>

lemma commit_stands_subset: "commit_stands log m \<Longrightarrow> set log \<subseteq> set log' \<Longrightarrow> commit_stands log' m"
  unfolding commit_stands_def by (meson subsetD)

lemma commit_stands_mono: "commit_stands log m \<Longrightarrow> commit_stands (log @ rest) m"
  by (erule commit_stands_subset) simp

lemma finish_committed_keeps:
  assumes run: "finish_committed (logged P) m path (s, log) = (res, (s', log'))"
    and m: "wm_dataset m = ds" "wm_partition m = pid" "wm_window_id m = w"
    and stands: "commit_stands log m"
    and fresh: "list_all (\<lambda>e. \<not> is_drop e \<and> \<not> is_record e) log"
  shows "keeps ds pid w log log'
    \<and> (\<forall>wmk. res = Inr wmk \<longrightarrow> (\<exists>rec dropped. EvRecord m rec \<in> set log'
          \<and> EvDrop ds pid w (wm_origin_coverage m) (Inr dropped) \<in> set log'
          \<and> (\<forall>row. rec = Inr row \<longrightarrow> wmk = row)))"
proof -
  obtain r s1 where rc: "p_record_commit P m s = (r, s1)" by fastforce
  let ?rec = "log @ [EvRecord m r]"
  have k1: "keeps ds pid w log ?rec"
    using stands fresh by (auto simp: list_all_iff)
  have drop: "call_ok ds pid w (?rec @ rest) (EvDrop ds pid w (wm_origin_coverage m) x)"
    if "case r of Inr _ \<Rightarrow> True | Inl rej \<Rightarrow> already_recorded rej" "list_all (\<lambda>e. \<not> is_drop e) rest" for rest x
    using that fresh commit_stands_mono[OF stands, of "EvRecord m r # rest"]
    by (auto simp: list_all_iff)
  have tail: "keeps ds pid w log l2 \<and> (\<forall>wmk'. res2 = Inr wmk' \<longrightarrow> wmk' = wmk \<and>
        (\<exists>dropped. EvDrop ds pid w (wm_origin_coverage m) (Inr dropped) \<in> set l2) \<and> EvRecord m r \<in> set l2)"
    if ok: "case r of Inr _ \<Rightarrow> True | Inl rej \<Rightarrow> already_recorded rej"
      and rest: "list_all (\<lambda>e. \<not> is_drop e) rest" "keeps ds pid w log (?rec @ rest)"
      and run2: "and_then (err_into DrainSeal
              (p_drop_window (logged P) (wm_dataset m) (wm_partition m) (wm_window_id m)
                 (wm_origin_coverage m) (discard_scratch (logged P) path (s2, ?rec @ rest))))
            (\<lambda>dropped s. (Inr wmk, journal_drop (logged P) (wm_origin_coverage m) dropped s)) = (res2, (s3, l2))"
    for rest s2 wmk res2 s3 l2
  proof -
    obtain dr s4 where d: "p_drop_window P ds pid w (wm_origin_coverage m) (discard_scratch P path s2) = (dr, s4)"
      by fastforce
    let ?del = "EvDelete path (fst (p_scratch_delete P path s2))"
    let ?dr = "?rec @ rest @ [?del, EvDrop ds pid w (wm_origin_coverage m) dr]"
    have k: "keeps ds pid w log ?dr"
      using keeps_snoc[OF keeps_snoc[OF rest(2), of ?del], of "EvDrop ds pid w (wm_origin_coverage m) dr"]
        drop[OF ok, of "rest @ [?del]" dr] rest(1)
      by simp
    show ?thesis
    proof (cases dr)
      case (Inl e)
      with run2 d m k show ?thesis by auto
    next
      case (Inr dropped)
      then have l2: "l2 = ?dr @ drop_note (wm_origin_coverage m) dropped" "res2 = Inr wmk"
        using run2 d m by auto
      have "call_ok ds pid w ?dr e" if "e \<in> set (drop_note (wm_origin_coverage m) dropped)" for e
        using that Inr by (auto simp: drop_note_def split: if_splits)
      then have "keeps ds pid w log l2"
        using keeps_snoc[OF k, of "EvJournal TeDropWindow"] k l2 by (auto simp: drop_note_def)
      with l2 Inr show ?thesis by auto
    qed
  qed
  show ?thesis
  proof (cases r)
    case (Inr row)
    with run rc have "and_then (err_into DrainSeal
              (p_drop_window (logged P) (wm_dataset m) (wm_partition m) (wm_window_id m)
                 (wm_origin_coverage m) (discard_scratch (logged P) path (s1, ?rec @ []))))
            (\<lambda>dropped s. (Inr row, journal_drop (logged P) (wm_origin_coverage m) dropped s)) = (res, (s', log'))"
      by (simp add: finish_committed_def)
    from tail[OF _ _ _ this] k1 Inr show ?thesis by auto
  next
    case (Inl rej)
    show ?thesis
    proof (cases "already_recorded rej")
      case True
      obtain t s2 where th: "p_complete_through_ms P (wm_partition m) s1 = (t, s2)" by fastforce
      let ?w = "map_option (\<lambda>t. \<lparr>wr_partition = wm_partition m, wr_complete_through_ms = t\<rparr>) t"
      have "and_then (err_into DrainSeal
              (p_drop_window (logged P) (wm_dataset m) (wm_partition m) (wm_window_id m)
                 (wm_origin_coverage m) (discard_scratch (logged P) path (s2, ?rec @ [EvThrough (wm_partition m) t]))))
            (\<lambda>dropped s. (Inr ?w, journal_drop (logged P) (wm_origin_coverage m) dropped s)) = (res, (s', log'))"
        using run rc Inl True th by (simp add: finish_committed_def)
      from tail[OF _ _ _ this] keeps_snoc[OF k1, of "EvThrough (wm_partition m) t"] Inl True
      show ?thesis by auto
    next
      case False
      with run rc Inl k1 show ?thesis by (auto simp: finish_committed_def)
    qed
  qed
qed

lemma keeps_set: "keeps ds pid w a b \<Longrightarrow> set a \<subseteq> set b"
  by (auto simp: keeps_def)

lemma keeps_stands: "keeps ds pid w a b \<Longrightarrow> commit_stands a m \<Longrightarrow> commit_stands b m"
  by (metis commit_stands_subset keeps_set)

lemma finish_committed_errors:
  assumes "finish_committed P m path s = (r, s')" and "r = Inl e"
  shows "(\<exists>rej. e = DrainLedger rej) \<or> (\<exists>se. e = DrainSeal se)"
  using assms
  by (auto simp: finish_committed_def and_then_def err_into_def split: prod.splits sum.splits if_splits)

lemma finish_already_keeps:
  assumes run: "finish_already_committed (logged P) ds pid w scratch (s, log) = (res, (s', log'))"
    and fresh: "list_all (\<lambda>e. \<not> is_drop e) log"
  shows "keeps ds pid w log log'
    \<and> (\<forall>out. res = Inr out \<longrightarrow> out = AlreadyCommitted
          \<and> (\<exists>cov dropped. EvDrop ds pid w cov (Inr dropped) \<in> set log'))"
proof -
  let ?s = "map_or s (\<lambda>path. discard_scratch P path s) scratch"
  let ?dl = "map_or [] (\<lambda>path. [EvDelete path (fst (p_scratch_delete P path s))]) scratch"
  obtain recorded s1 where rc: "p_recorded_coverage P pid w ?s = (recorded, s1)" by fastforce
  let ?cov = "map_or [] id recorded"
  obtain dr s2 where d: "p_drop_window P ds pid w ?cov s1 = (dr, s2)" by fastforce
  let ?log = "log @ ?dl @ [EvCoverage pid w recorded]"
  have start: "map_or (s, log) (\<lambda>path. discard_scratch (logged P) path (s, log)) scratch = (?s, log @ ?dl)"
    by (cases scratch) auto
  have k0: "keeps ds pid w log (log @ ?dl)" by (cases scratch) auto
  have k1: "keeps ds pid w log ?log"
    using keeps_snoc[OF k0, of "EvCoverage pid w recorded"] by simp
  have "call_ok ds pid w ?log (EvDrop ds pid w ?cov dr)"
    using fresh by (cases scratch) auto
  from keeps_snoc[OF k1 this] have k2: "keeps ds pid w log (?log @ [EvDrop ds pid w ?cov dr])" .
  show ?thesis
  proof (cases dr)
    case (Inl e)
    with run start rc d k2 show ?thesis by (auto simp: finish_already_committed_def Let_def)
  next
    case (Inr dropped)
    then have l: "log' = (?log @ [EvDrop ds pid w ?cov dr]) @ drop_note ?cov dropped" "res = Inr AlreadyCommitted"
      using run start rc d by (auto simp: finish_already_committed_def Let_def)
    have "keeps ds pid w log log'"
      using keeps_snoc[OF k2, of "EvJournal TeDropWindow"] k2 l Inr by (auto simp: drop_note_def)
    with l Inr show ?thesis by auto
  qed
qed

section \<open>The whole attempt keeps the protocol\<close>

text \<open>What the answer of an attempt says about the calls it made.\<close>

fun answer_ok ::
  "dataset_id \<Rightarrow> partition_id \<Rightarrow> window_id \<Rightarrow> drain_event list \<Rightarrow> (drain_error, drain_outcome) result \<Rightarrow> bool" where
  "answer_ok ds pid w log (Inr (DrainCommitted watermark)) \<longleftrightarrow>
     (\<exists>m rec dropped. wm_dataset m = ds \<and> wm_partition m = pid \<and> wm_window_id m = w
        \<and> commit_stands log m \<and> EvRecord m rec \<in> set log
        \<and> EvDrop ds pid w (wm_origin_coverage m) (Inr dropped) \<in> set log
        \<and> (\<forall>row. rec = Inr row \<longrightarrow> watermark = row))"
| "answer_ok ds pid w log (Inr AlreadyCommitted) \<longleftrightarrow>
     (\<exists>cov dropped. EvDrop ds pid w cov (Inr dropped) \<in> set log)"
| "answer_ok ds pid w log (Inr (Requeue reason)) \<longleftrightarrow>
     list_all (\<lambda>e. \<not> is_drop e \<and> \<not> is_record e) log
     \<and> unsettled_commit log"
| "answer_ok ds pid w log (Inl (WindowAhead p expected got)) \<longleftrightarrow>
     p = pid \<and> got = w \<and> expected < w \<and> log = [EvNext pid expected]"
| "answer_ok ds pid w log (Inl _) = True"

definition outcome_of :: "unsettled \<Rightarrow> commit_outcome" where
  "outcome_of u = (case u of UnsettledAborted \<Rightarrow> Aborted | UnsettledIndeterminate \<Rightarrow> Indeterminate)"

lemma finish_already_errors:
  assumes "finish_already_committed P ds pid w scratch s = (r, s')" and "r = Inl e"
  shows "\<exists>se. e = DrainSeal se"
  using assms
  by (auto simp: finish_already_committed_def Let_def and_then_def err_into_def split: prod.splits sum.splits)

lemma answer_ok_Inl: "(\<nexists>p a b. e = WindowAhead p a b) \<Longrightarrow> answer_ok ds pid w log (Inl e)"
  by (cases e) auto

lemma reconcile_keeps:
  assumes run: "reconcile (logged P) u m sealed previewed prior (s, log) = (res, (s', log'))"
    and m: "wm_dataset m = ds" "wm_partition m = pid" "wm_window_id m = w"
    and log: "EvCommit m rows (Inr (outcome_of u)) \<in> set log" "EvThrough pid prior \<in> set log"
      "EvPreview m (Inr previewed) \<in> set log"
    and fresh: "list_all (\<lambda>e. \<not> is_drop e \<and> \<not> is_record e \<and> \<not> is_read e) log"
  shows "keeps ds pid w log log' \<and> (\<forall>x. res = Inr x \<longrightarrow> answer_ok ds pid w log' res)
    \<and> (\<forall>e. res = Inl e \<longrightarrow> (\<nexists>p a b. e = WindowAhead p a b))"
proof -
  have u: "outcome_of u \<in> {Aborted, Indeterminate}" by (cases u) (auto simp: outcome_of_def)
  have uc: "unsettled_commit (log @ rest)" for rest
    using log(1) u by (auto simp: unsettled_commit_def)
  obtain r s1 where rd: "p_read_watermarks P [pid] s = (r, s1)" by fastforce
  let ?log = "log @ [EvRead [pid] r]"
  have k1: "keeps ds pid w log ?log" using fresh uc[of "[]"] by (auto simp: list_all_iff)
  have fresh1: "list_all (\<lambda>e. \<not> is_drop e \<and> \<not> is_record e) ?log" using fresh by (auto simp: list_all_iff)
  show ?thesis
  proof (cases r)
    case (Inl e)
    with run rd m have "log' = ?log @ [EvDelete (sp_path sealed) (fst (p_scratch_delete P (sp_path sealed) s1))]"
      and "res = Inr (Requeue CatalogUnavailable)"
      by (auto simp: reconcile_def)
    with keeps_snoc[OF k1] fresh1 uc show ?thesis by auto
  next
    case (Inr rs)
    let ?jl = "if u = UnsettledIndeterminate then [EvJournal TeReconcile] else []"
    let ?s = "if u = UnsettledIndeterminate then journal P TeReconcile s1 else s1"
    let ?l2 = "?log @ ?jl"
    have "call_ok ds pid w ?log (EvJournal TeReconcile)" if "u = UnsettledIndeterminate"
      using that log(1) Inr by (auto simp: outcome_of_def)
    then have k2: "keeps ds pid w log ?l2" using keeps_snoc[OF k1, of "EvJournal TeReconcile"] k1 by auto
    have fresh2: "list_all (\<lambda>e. \<not> is_drop e \<and> \<not> is_record e) ?l2" using fresh1 by auto
    let ?rb = "read_back_of pid rs"
    show ?thesis
    proof (cases "\<exists>advanced v. strict_advance previewed prior = Some advanced \<and> ?rb = Some v \<and> advanced \<le> v")
      case True
      then obtain advanced v where adv: "strict_advance previewed prior = Some advanced"
        "?rb = Some v" "advanced \<le> v" by blast
      have "commit_stands ?l2 m"
        unfolding commit_stands_def using log u adv Inr m(2) by (intro disjI2) force
      obtain fr s2 l3 where f: "finish_committed (logged P) m (sp_path sealed) (?s, ?l2) = (fr, (s2, l3))"
        by (metis prod.exhaust)
      note fk = finish_committed_keeps[OF f m \<open>commit_stands ?l2 m\<close> fresh2]
      then have k3: "keeps ds pid w log l3" using keeps_trans[OF k2] by blast
      have st3: "commit_stands l3 m"
        using fk \<open>commit_stands ?l2 m\<close> keeps_stands by blast
      have "(res, (s', log')) = and_then (fr, (s2, l3)) (\<lambda>watermark s.
             (Inr (case u of UnsettledIndeterminate \<Rightarrow> DrainCommitted watermark
                   | UnsettledAborted \<Rightarrow> AlreadyCommitted), s))"
        using run rd m Inr adv f by (auto simp: reconcile_def Let_def split: if_splits)
      then show ?thesis
      proof (cases fr)
        case (Inl e)
        then show ?thesis
          using \<open>(res, (s', log')) = _\<close> k3 finish_committed_errors[OF f] by auto
      next
        case (Inr wmk)
        then show ?thesis
          using \<open>(res, (s', log')) = _\<close> k3 fk st3 m by (cases u) auto
      qed
    next
      case False
      then have "log' = ?l2 @ [EvDelete (sp_path sealed) (fst (p_scratch_delete P (sp_path sealed) ?s))]"
        and "\<exists>reason. res = Inr (Requeue reason)"
        using run rd m Inr
        by (auto simp: reconcile_def Let_def map_or_def split: option.splits if_splits)
      with keeps_snoc[OF k2] fresh2 uc show ?thesis by auto
    qed
  qed
qed

lemma put_and_commit_keeps:
  assumes run: "put_and_commit (logged P) m sealed previewed prior (s, log) = (res, (s', log'))"
    and m: "m = manifest_for ds pid w sealed"
    and log: "EvThrough pid prior \<in> set log" "EvPreview m (Inr previewed) \<in> set log"
    and fresh: "list_all (\<lambda>e. \<not> is_drop e \<and> \<not> is_record e \<and> \<not> is_read e \<and> \<not> is_commit e) log"
  shows "keeps ds pid w log log' \<and> (\<forall>x. res = Inr x \<longrightarrow> answer_ok ds pid w log' res)
    \<and> (\<forall>e. res = Inl e \<longrightarrow> (\<nexists>p a b. e = WindowAhead p a b))"
proof -
  have mf: "wm_dataset m = ds" "wm_partition m = pid" "wm_window_id m = w"
    "hd (wm_parts m) = part_name ds pid w WindowPart"
    using m by (simp_all add: manifest_for_def)
  obtain gr s1 where g: "p_scratch_get P (sp_path sealed) s = (gr, s1)" by fastforce
  let ?l1 = "log @ [EvGet (sp_path sealed) gr]"
  have k1: "keeps ds pid w log ?l1" by simp
  show ?thesis
  proof (cases gr)
    case (Inl e)
    with run g k1 show ?thesis by (auto simp: put_and_commit_def)
  next
    case gr: (Inr data)
    obtain pr s2 where p: "p_put P (hd (wm_parts m)) data s1 = (pr, s2)" by fastforce
    let ?l2 = "?l1 @ [EvPut (hd (wm_parts m)) data pr]"
    have "call_ok ds pid w ?l1 (EvPut (hd (wm_parts m)) data pr)"
      using mf log(2) gr by auto
    from keeps_snoc[OF k1 this] have k2: "keeps ds pid w log ?l2" .
    show ?thesis
    proof (cases pr)
      case (Inl e)
      with run g gr p k2 show ?thesis by (auto simp: put_and_commit_def)
    next
      case pr: (Inr u)
      let ?l3 = "?l2 @ [EvJournal TePutPart]"
      have "call_ok ds pid w ?l2 (EvJournal TePutPart)" using pr by auto
      from keeps_snoc[OF k2 this] have k3: "keeps ds pid w log ?l3" .
      let ?rows = "case previewed of None \<Rightarrow> [] | Some row \<Rightarrow> [row]"
      obtain cr s4 where c: "p_commit_files P m ?rows (journal P TePutPart s2) = (cr, s4)" by fastforce
      let ?l4 = "?l3 @ [EvCommit m ?rows cr]"
      have "call_ok ds pid w ?l3 (EvCommit m ?rows cr)"
        using fresh log(2) mf(4) pr by (auto simp: list_all_iff)
      from keeps_snoc[OF k3 this] have k4: "keeps ds pid w log ?l4" .
      have fresh4: "list_all (\<lambda>e. \<not> is_drop e \<and> \<not> is_record e \<and> \<not> is_read e) ?l4"
        using fresh by (auto simp: list_all_iff)
      show ?thesis
      proof (cases cr)
        case (Inl e)
        with run g gr p pr c k4 show ?thesis by (auto simp: put_and_commit_def)
      next
        case cr: (Inr out)
        define ev where "ev = (case out of Committed \<Rightarrow> TeLakeCommitOk | Aborted \<Rightarrow> TeLakeCommitAbort
            | Indeterminate \<Rightarrow> TeLakeCommitIndeterminate)"
        let ?l5 = "?l4 @ [EvJournal ev]" and ?s5 = "journal P ev s4"
        have "call_ok ds pid w ?l4 (EvJournal ev)" using cr by (cases out) (auto simp: ev_def)
        from keeps_snoc[OF k4 this] have k5: "keeps ds pid w log ?l5" .
        have fresh5: "list_all (\<lambda>e. \<not> is_drop e \<and> \<not> is_record e \<and> \<not> is_read e) ?l5"
          using fresh4 by simp
        note steps = g gr p pr c cr
        show ?thesis
        proof (cases "out = Committed")
          case True
          obtain fr s6 l6 where f: "finish_committed (logged P) m (sp_path sealed) (?s5, ?l5) = (fr, (s6, l6))"
            by (metis prod.exhaust)
          have st: "commit_stands ?l5 m" using True cr by (auto simp: commit_stands_def)
          have fresh6: "list_all (\<lambda>e. \<not> is_drop e \<and> \<not> is_record e) ?l5"
            using fresh5 by (auto simp: list_all_iff)
          note fk = finish_committed_keeps[OF f mf(1-3) st fresh6]
          then have k6: "keeps ds pid w log l6" and st6: "commit_stands l6 m"
            using keeps_trans[OF k5] keeps_stands st by blast+
          have "(res, (s', log')) = and_then (fr, (s6, l6)) (\<lambda>watermark s. (Inr (DrainCommitted watermark), s))"
            using run steps True f by (simp add: put_and_commit_def ev_def)
          then show ?thesis
            using k6 st6 fk mf finish_committed_errors[OF f] by (cases fr) auto
        next
          case False
          define u where "u = (if out = Aborted then UnsettledAborted else UnsettledIndeterminate)"
          have out: "out = outcome_of u" using False by (cases out) (auto simp: u_def outcome_of_def)
          have run5: "reconcile (logged P) u m sealed previewed prior (?s5, ?l5) = (res, (s', log'))"
            using run steps False by (cases out) (simp_all add: put_and_commit_def ev_def u_def)
          have "EvCommit m ?rows (Inr (outcome_of u)) \<in> set ?l5" using cr out by simp
          from reconcile_keeps[OF run5 mf(1-3) this _ _ fresh5] log
          show ?thesis using keeps_trans[OF k5] by auto
        qed
      qed
    qed
  qed
qed

lemma drain_window_keeps:
  assumes run: "drain_window (logged P) ds pid w plan (s, []) = (res, (s', log'))"
  shows "keeps ds pid w [] log' \<and> answer_ok ds pid w log' res"
proof -
  obtain expected s1 where n: "p_next_window P pid s = (expected, s1)" by fastforce
  let ?l1 = "[EvNext pid expected]"
  have k1: "keeps ds pid w [] ?l1" by (simp add: keeps_def)
  consider "w < expected" | "expected < w" | "expected = w" by linarith
  then show ?thesis
  proof cases
    case 1
    with run n have f: "finish_already_committed (logged P) ds pid w None (s1, ?l1) = (res, (s', log'))"
      by (simp add: drain_window_def)
    from finish_already_keeps[OF f] finish_already_errors[OF f] show ?thesis
      using keeps_trans[OF k1] by (cases res) auto
  next
    case 2
    with run n k1 show ?thesis by (auto simp: drain_window_def)
  next
    case 3
    obtain prior s2 where t: "p_complete_through_ms P pid s1 = (prior, s2)" by fastforce
    let ?req = "seal_request_for ds pid w plan"
    obtain sr s3 where sl: "p_seal_window P ?req s2 = (sr, s3)" by fastforce
    let ?l2 = "[EvNext pid w, EvThrough pid prior, EvSeal ?req sr]"
    have k2: "keeps ds pid w [] ?l2" by (simp add: keeps_def seal_request_for_def)
    show ?thesis
    proof (cases sr)
      case (Inl e)
      with run n 3 t sl k2 show ?thesis by (auto simp: drain_window_def)
    next
      case sr: (Inr sealed)
      let ?m = "manifest_for ds pid w sealed"
      obtain ar s4 where a: "p_advance_for P ?m (journal P TeSealPart s3) = (ar, s4)" by fastforce
      let ?l3 = "?l2 @ [EvJournal TeSealPart, EvPreview ?m ar]"
      have k3: "keeps ds pid w [] ?l3"
        using sr by (auto simp: keeps_def seal_request_for_def)
      note steps = n 3 t sl sr a
      show ?thesis
      proof (cases ar)
        case (Inr previewed)
        then have pc: "put_and_commit (logged P) ?m sealed previewed prior (s4, ?l3) = (res, (s', log'))"
          using run steps by (simp add: drain_window_def Let_def)
        from put_and_commit_keeps[OF pc refl] Inr keeps_trans[OF k3] show ?thesis
          by (cases res) (auto intro: answer_ok_Inl)
      next
        case (Inl rej)
        show ?thesis
        proof (cases "already_recorded rej")
          case True
          with Inl have f: "finish_already_committed (logged P) ds pid w (Some (sp_path sealed)) (s4, ?l3)
              = (res, (s', log'))"
            using run steps by (simp add: drain_window_def Let_def)
          from finish_already_keeps[OF f] finish_already_errors[OF f] show ?thesis
            using keeps_trans[OF k3] by (cases res) auto
        next
          case False
          with Inl run steps k3 show ?thesis by (auto simp: drain_window_def Let_def)
        qed
      qed
    qed
  qed
qed

section \<open>The properties\<close>

definition drain_log ::
  "'s drain_ports \<Rightarrow> dataset_id \<Rightarrow> partition_id \<Rightarrow> window_id \<Rightarrow> dataset_drain_plan \<Rightarrow> 's \<Rightarrow> drain_event list" where
  "drain_log P ds pid w plan s = snd (snd (drain_window (logged P) ds pid w plan (s, [])))"

lemma drain_log_run:
  "drain_window (logged P) ds pid w plan (s, []) =
     (fst (drain_window P ds pid w plan s), (snd (drain_window P ds pid w plan s), drain_log P ds pid w plan s))"
  using logged_drain_window[of P ds pid w plan s "[]"]
  by (cases "drain_window (logged P) ds pid w plan (s, [])"; cases "drain_window P ds pid w plan s")
    (auto simp: drain_log_def)

text \<open>
  C4. Every drain attempt keeps the drain protocol, whatever the ports answer: a part is sealed only
  when the window is the dense-next one; the manifest offered to the ledger describes the sealed
  part; the part is PUT under its deterministic name before the commit; the lake commit carries
  exactly the previewed watermark row and is made at most once; the one read-back happens only after
  an \<open>Aborted\<close> or \<open>Indeterminate\<close> outcome; the manifest is recorded only when its commit stands; staged
  rows are dropped only under the coverage of a commit that stands and has been recorded, or under the
  coverage the ledger already holds for the window; each journaled event follows what it names.
\<close>
theorem drain_protocol:
  "protocol_from ds pid w [] (drain_log P ds pid w plan s)"
  using drain_window_keeps[OF drain_log_run[of P ds pid w plan s]] by (auto simp: keeps_def)

text \<open>
  What a drain attempt answers is what it did: \<open>Committed\<close> means that the commit stands, was
  recorded and the staged rows under its coverage were dropped, with the ledger's row as the answer;
  \<open>Requeue\<close> means that nothing was recorded and nothing dropped, so the window is intact in staging;
  \<open>AlreadyCommitted\<close> means that the pending drop was done; a window ahead of the fence causes no call
  but the fence check.
\<close>
theorem drain_answer:
  "answer_ok ds pid w (drain_log P ds pid w plan s) (fst (drain_window P ds pid w plan s))"
  using drain_window_keeps[OF drain_log_run[of P ds pid w plan s]] by blast

lemma protocol_no_more:
  assumes "protocol_from ds pid w log es" and "\<not> list_all (\<lambda>e. \<not> p e) log"
    and "\<And>log e. p e \<Longrightarrow> call_ok ds pid w log e \<Longrightarrow> list_all (\<lambda>e. \<not> p e) log"
  shows "filter p es = []"
  using assms(1,2)
proof (induction es arbitrary: log)
  case (Cons e es)
  then have "\<not> p e" using assms(3) by auto
  moreover have "filter p es = []" using Cons.IH[of "log @ [e]"] Cons.prems by auto
  ultimately show ?case by simp
qed simp

lemma protocol_at_most_one:
  assumes "protocol_from ds pid w log es"
    and "\<And>log e. p e \<Longrightarrow> call_ok ds pid w log e \<Longrightarrow> list_all (\<lambda>e. \<not> p e) log"
  shows "length (filter p es) \<le> 1"
  using assms(1)
proof (induction es arbitrary: log)
  case (Cons e es)
  show ?case
  proof (cases "p e")
    case True
    with Cons.prems have "filter p es = []"
      by (intro protocol_no_more[of ds pid w "log @ [e]"] assms(2)) auto
    then show ?thesis by simp
  qed (use Cons in auto)
qed simp

text \<open>
  A drain attempt makes at most one lake commit, at most one read-back, at most one ledger record
  and at most one drop, whatever the ports answer.
\<close>
theorem drain_at_most_once:
  "length (filter is_commit (drain_log P ds pid w plan s)) \<le> 1
   \<and> length (filter is_read (drain_log P ds pid w plan s)) \<le> 1
   \<and> length (filter is_record (drain_log P ds pid w plan s)) \<le> 1
   \<and> length (filter is_drop (drain_log P ds pid w plan s)) \<le> 1"
proof -
  have k: "protocol_from ds pid w [] (drain_log P ds pid w plan s)"
    using drain_window_keeps[OF drain_log_run[of P ds pid w plan s]] by (auto simp: keeps_def)
  show ?thesis
    by (intro conjI; rule protocol_at_most_one[OF k]; erule is_commit.elims is_read.elims is_record.elims is_drop.elims; simp)
qed

end
