(* ===== verification/Ledger_Port.thy ===== *)
theory Ledger_Port
  imports Watermark
begin

text \<open>
  \<open>crates/duckspout-watermark/src/port.rs\<close>: the ledger behind the \<open>WatermarkBookkeeping\<close> port of
  \<open>duckspout-types\<close>, the only way the drain reaches it. The mutex of \<open>SharedLedger\<close> makes every
  method one atomic step on the wrapped ledger, so a method is a function of that ledger.

  The locale \<open>bookkeeping\<close> is the port's contract: what the drain relies on, and nothing of the
  ledger's representation. Its interpretation on \<open>SharedLedger\<close> discharges the contract.
\<close>

section \<open>Rendering and projecting a rejection\<close>

definition show_u64 :: "u64 \<Rightarrow> string" where
  "show_u64 n = show_nat (unat n)"

definition show_int :: "int \<Rightarrow> string" where
  "show_int i = (if i < 0 then CHR ''-'' # show_nat (nat (- i)) else show_nat (nat i))"

text \<open>The \<open>Display\<close> text of an \<open>AdvanceError\<close>; the three bytes are the UTF-8 less-or-equal sign.\<close>

fun show_advance_error :: "advance_error \<Rightarrow> string" where
  "show_advance_error (DatasetMismatch pid recorded got) =
     ''dataset mismatch for partition '' @ partition_str pid @ '': ledger has ''
       @ dataset_str recorded @ '', manifest has '' @ dataset_str got"
| "show_advance_error (WindowNotNext pid expected got) =
     ''window '' @ show_nat got @ '' is not the dense-next window of partition ''
       @ partition_str pid @ '' (expected '' @ show_nat expected @ '')''"
| "show_advance_error (InvalidSeqRange origin f l) =
     ''invalid seq range '' @ show_u64 f @ ''..='' @ show_u64 l @ '' for origin '' @ node_str origin
       @ '' (seqs are 1-based, first '' @ [CHR 0xE2, CHR 0x89, CHR 0xA4] @ '' last)''"
| "show_advance_error (InvalidEventTimeRange min_ms max_ms) =
     ''invalid event-time range: min '' @ show_int min_ms @ '' > max '' @ show_int max_ms"
| "show_advance_error (CoverageOverlap origin f l) =
     ''coverage '' @ show_u64 f @ ''..='' @ show_u64 l @ '' for origin '' @ node_str origin
       @ '' intersects already-committed coverage''"

definition rejection :: "advance_error \<Rightarrow> ledger_rejection" where
  "rejection e = (case e of
      WindowNotNext pid expected got \<Rightarrow> RejWindowNotNext pid expected got
    | other \<Rightarrow> Rejected (show_advance_error other))"

section \<open>The port\<close>

definition sl_next_window :: "watermark_ledger \<Rightarrow> partition_id \<Rightarrow> window_id" where
  "sl_next_window = next_window"

definition sl_complete_through_ms :: "watermark_ledger \<Rightarrow> partition_id \<Rightarrow> int option" where
  "sl_complete_through_ms = complete_through_ms"

definition sl_advance_for ::
  "window_manifest \<Rightarrow> watermark_ledger \<Rightarrow> (ledger_rejection, watermark_row option) result" where
  "sl_advance_for m L = map_err rejection (advance_for m L)"

definition sl_record_commit ::
  "window_manifest \<Rightarrow> watermark_ledger
     \<Rightarrow> (ledger_rejection, watermark_row option) result \<times> watermark_ledger" where
  "sl_record_commit m L = (case record_commit m L of (r, L') \<Rightarrow> (map_err rejection r, L'))"

definition sl_recorded_coverage ::
  "watermark_ledger \<Rightarrow> partition_id \<Rightarrow> window_id \<Rightarrow> origin_seq_range list option" where
  "sl_recorded_coverage L pid w = map_option rec_origin_coverage (window_record_at L pid w)"

section \<open>The contract of the port\<close>

locale bookkeeping =
  fixes ok :: "'l \<Rightarrow> bool"
    and next_win :: "'l \<Rightarrow> partition_id \<Rightarrow> window_id"
    and through :: "'l \<Rightarrow> partition_id \<Rightarrow> int option"
    and preview :: "window_manifest \<Rightarrow> 'l \<Rightarrow> (ledger_rejection, watermark_row option) result"
    and commit :: "window_manifest \<Rightarrow> 'l \<Rightarrow> (ledger_rejection, watermark_row option) result \<times> 'l"
    and coverage :: "'l \<Rightarrow> partition_id \<Rightarrow> window_id \<Rightarrow> origin_seq_range list option"
  assumes ok_commit: "ok l \<Longrightarrow> commit m l = (r, l') \<Longrightarrow> ok l'"
    and preview_commit: "preview m l = fst (commit m l)"
    and rejected_same: "commit m l = (Inl e, l') \<Longrightarrow> l' = l"
    and accepted_next: "ok l \<Longrightarrow> commit m l = (Inr row, l') \<Longrightarrow>
      next_win l (wm_partition m) = wm_window_id m
      \<and> next_win l' pid = (if pid = wm_partition m then Suc (wm_window_id m) else next_win l pid)"
    and accepted_row: "ok l \<Longrightarrow> commit m l = (Inr row, l') \<Longrightarrow>
      row = map_option (\<lambda>t. \<lparr>wr_partition = wm_partition m, wr_complete_through_ms = t\<rparr>)
              (through l' (wm_partition m))"
    and accepted_coverage: "ok l \<Longrightarrow> commit m l = (Inr row, l') \<Longrightarrow>
      coverage l' pid w = (if pid = wm_partition m \<and> w = wm_window_id m
        then Some (wm_origin_coverage m) else coverage l pid w)"
    and through_mono: "ok l \<Longrightarrow> commit m l = (r, l') \<Longrightarrow> wm_le (through l pid) (through l' pid)"
    and coverage_below: "ok l \<Longrightarrow> coverage l pid w \<noteq> None \<longleftrightarrow> w < next_win l pid"
    and fence: "ok l \<Longrightarrow> commit m l = (Inl (RejWindowNotNext pid expected g), l') \<Longrightarrow>
      pid = wm_partition m \<and> expected = next_win l pid \<and> g = wm_window_id m \<and> g \<noteq> expected"
begin

text \<open>A window the fence pre-check lets through is recorded at most once from there on.\<close>

lemma recorded_stays:
  assumes "ok l" and "w < next_win l pid" and "commit m l = (r, l')"
  shows "w < next_win l' pid \<and> coverage l' pid w = coverage l pid w"
proof (cases r)
  case (Inl e)
  with assms(2,3) rejected_same show ?thesis by blast
next
  case (Inr row)
  with assms accepted_next[of l m row l' pid] accepted_coverage[of l m row l' pid w]
  show ?thesis by (auto split: if_splits)
qed

lemma replay_refused:
  assumes "ok l" and "wm_window_id m < next_win l (wm_partition m)"
  shows "\<exists>e. commit m l = (Inl e, l)"
proof (cases "commit m l")
  case (Pair r l')
  then show ?thesis
    using assms accepted_next[of l m _ l' "wm_partition m"] rejected_same[of m l _ l']
    by (cases r) auto
qed

end

section \<open>The shared ledger meets the contract\<close>

definition ledger_ok :: "watermark_ledger \<Rightarrow> bool" where
  "ledger_ok L \<longleftrightarrow> (\<exists>ms ls. ledger_run ms ls L)"

lemma ledger_ok_run: "ledger_run ms ls L \<Longrightarrow> ledger_ok L"
  by (auto simp: ledger_ok_def)

lemma sl_record_commit_cases:
  assumes "sl_record_commit m L = (r, L')"
  obtains (accepted) row where "r = Inr row" and "record_commit m L = (Inr row, L')"
  | (rejected) e where "r = Inl (rejection e)" and "record_commit m L = (Inl e, L')" and "L' = L"
proof -
  obtain r0 L0 where rc: "record_commit m L = (r0, L0)" by fastforce
  with assms have r: "r = map_err rejection r0" "L' = L0" by (auto simp: sl_record_commit_def)
  show thesis
  proof (cases r0)
    case (Inl e)
    with rc r show thesis by (intro rejected) (auto dest: record_commit_Inl)
  next
    case (Inr row)
    with rc r show thesis by (intro accepted) auto
  qed
qed

lemma probe_ranges_not_fence: "probe_ranges state probe ranges \<noteq> Inl (WindowNotNext pid e g)"
  by (induction ranges arbitrary: probe) (auto simp: Let_def)

lemma record_commit_fence:
  "record_commit m L = (Inl (WindowNotNext pid e g), L') \<Longrightarrow>
     pid = wm_partition m \<and> e = next_window L pid \<and> g = wm_window_id m \<and> g \<noteq> e"
  using probe_ranges_not_fence[of "bt_get L (wm_partition m)" "[]" "wm_origin_coverage m"]
  by (auto simp: record_commit_def next_window_def Let_def split: if_splits sum.splits)

lemma commit_run:
  "ledger_run ms ls L \<Longrightarrow> record_commit m L = (r, L') \<Longrightarrow>
     ledger_run (case r of Inl _ \<Rightarrow> ms | Inr _ \<Rightarrow> ms @ [m]) ls L'"
  by (cases r) (auto intro: ledger_run.intros)

lemma accepted_history:
  assumes "ledger_run ms ls L" and "record_commit m L = (Inr row, L')"
  shows "wm_window_id m = length (of_part (wm_partition m) ms)"
    and "row = map_option (\<lambda>t. \<lparr>wr_partition = wm_partition m, wr_complete_through_ms = t\<rparr>)
               (complete_through_ms L' (wm_partition m))"
  using record_commit_iff[OF ledger_run_holds[OF assms(1)] ledger_run_refines(2)[OF assms(1)], of m row L'] assms(2)
  by (auto simp: valid_history_snoc_commit complete_through_ms_def watermark_row_of_def)

lemma through_monotone:
  assumes "ledger_run ms ls L" and "record_commit m L = (r, L')"
  shows "wm_le (complete_through_ms L pid) (complete_through_ms L' pid)"
proof (cases r)
  case (Inl e)
  with assms(2) record_commit_Inl show ?thesis by fastforce
next
  case (Inr row)
  with commit_run[OF assms] have run: "ledger_run (ms @ [m]) ls L'" by simp
  show ?thesis
    using event_max_of_take_mono[OF advance_point_mono_commit[of "of_part pid ms" "loss_of pid ls" "of_part pid [m]"]]
    by (simp add: ledger_run_queries(2)[OF run] ledger_run_queries(2)[OF assms(1)])
qed

interpretation sl: bookkeeping ledger_ok sl_next_window sl_complete_through_ms sl_advance_for
  sl_record_commit sl_recorded_coverage
proof unfold_locales
  fix l m r l' row pid w e expected g
  show "ledger_ok l'" if "ledger_ok l" "sl_record_commit m l = (r, l')"
    using that(2) by (cases rule: sl_record_commit_cases)
      (use that(1) in \<open>auto simp: ledger_ok_def intro: ledger_run.commit\<close>)
  show "sl_advance_for m l = fst (sl_record_commit m l)"
    by (simp add: sl_advance_for_def sl_record_commit_def advance_for_def split: prod.splits)
  show "l' = l" if "sl_record_commit m l = (Inl e, l')"
    using that by (cases rule: sl_record_commit_cases) auto
  show "sl_next_window l (wm_partition m) = wm_window_id m \<and>
      sl_next_window l' pid = (if pid = wm_partition m then Suc (wm_window_id m) else sl_next_window l pid)"
    if "ledger_ok l" "sl_record_commit m l = (Inr row, l')"
    using that(2)
  proof (cases rule: sl_record_commit_cases)
    case (accepted row')
    from that(1) obtain ms ls where run: "ledger_run ms ls l" by (auto simp: ledger_ok_def)
    from ledger_run_queries(1)[OF ledger_run.commit[OF run accepted(2)], of pid]
      ledger_run_queries(1)[OF run] accepted_history(1)[OF run accepted(2)]
    show ?thesis by (auto simp: sl_next_window_def)
  qed simp
  show "row = map_option (\<lambda>t. \<lparr>wr_partition = wm_partition m, wr_complete_through_ms = t\<rparr>)
      (sl_complete_through_ms l' (wm_partition m))"
    if "ledger_ok l" "sl_record_commit m l = (Inr row, l')"
    using that(2) by (cases rule: sl_record_commit_cases)
      (use that(1) accepted_history(2) in \<open>auto simp: ledger_ok_def sl_complete_through_ms_def\<close>)
  show "sl_recorded_coverage l' pid w = (if pid = wm_partition m \<and> w = wm_window_id m
      then Some (wm_origin_coverage m) else sl_recorded_coverage l pid w)"
    if "ledger_ok l" "sl_record_commit m l = (Inr row, l')"
    using that(2)
  proof (cases rule: sl_record_commit_cases)
    case (accepted row')
    from that(1) obtain ms ls where run: "ledger_run ms ls l" by (auto simp: ledger_ok_def)
    from ledger_run_queries(6)[OF ledger_run.commit[OF run accepted(2)], of pid w]
      ledger_run_queries(6)[OF run, of pid w] accepted_history(1)[OF run accepted(2)]
    show ?thesis
      by (auto simp: sl_recorded_coverage_def window_record_of_def nth_append less_Suc_eq)
  qed simp
  show "wm_le (sl_complete_through_ms l pid) (sl_complete_through_ms l' pid)"
    if "ledger_ok l" "sl_record_commit m l = (r, l')"
    using that(2) by (cases rule: sl_record_commit_cases)
      (use that(1) through_monotone in \<open>auto simp: ledger_ok_def sl_complete_through_ms_def\<close>)
  show "(sl_recorded_coverage l pid w \<noteq> None) = (w < sl_next_window l pid)" if "ledger_ok l"
    using that ledger_run_queries(1,6)
    by (auto simp: ledger_ok_def sl_recorded_coverage_def sl_next_window_def split: if_splits)
  show "pid = wm_partition m \<and> expected = sl_next_window l pid \<and> g = wm_window_id m \<and> g \<noteq> expected"
    if "ledger_ok l" "sl_record_commit m l = (Inl (RejWindowNotNext pid expected g), l')"
    using that(2)
  proof (cases rule: sl_record_commit_cases)
    case (rejected e')
    then have "e' = WindowNotNext pid expected g"
      by (cases e') (auto simp: rejection_def)
    with rejected record_commit_fence show ?thesis by (simp add: sl_next_window_def)
  qed simp
qed

end
