(* ===== verification/Drain_Ledger.thy ===== *)
theory Drain_Ledger
  imports Drain_Protocol Ledger_Port
begin

text \<open>
  The drain composed with the watermark ledger, the way the daemon wires them: the bookkeeping port
  of the coordinator is the shared ledger, every other port acts on the rest of the world. The
  client lemma is proved once for any provider of the \<open>bookkeeping\<close> contract and instantiated at the
  shared ledger.
\<close>

section \<open>Ports with a ledger\<close>

definition beside :: "('s \<Rightarrow> 'r \<times> 's) \<Rightarrow> 'l \<times> 's \<Rightarrow> 'r \<times> 'l \<times> 's" where
  "beside f ls = (case f (snd ls) of (r, s) \<Rightarrow> (r, (fst ls, s)))"

definition with_books ::
  "('l \<Rightarrow> partition_id \<Rightarrow> window_id) \<Rightarrow> ('l \<Rightarrow> partition_id \<Rightarrow> int option)
   \<Rightarrow> (window_manifest \<Rightarrow> 'l \<Rightarrow> (ledger_rejection, watermark_row option) result)
   \<Rightarrow> (window_manifest \<Rightarrow> 'l \<Rightarrow> (ledger_rejection, watermark_row option) result \<times> 'l)
   \<Rightarrow> ('l \<Rightarrow> partition_id \<Rightarrow> window_id \<Rightarrow> origin_seq_range list option)
   \<Rightarrow> 's drain_ports \<Rightarrow> ('l \<times> 's) drain_ports" where
  "with_books nw th pv cm cv Q = \<lparr>
     p_next_window = \<lambda>pid ls. (nw (fst ls) pid, ls),
     p_complete_through_ms = \<lambda>pid ls. (th (fst ls) pid, ls),
     p_advance_for = \<lambda>m ls. (pv m (fst ls), ls),
     p_record_commit = \<lambda>m ls. (case cm m (fst ls) of (r, l) \<Rightarrow> (r, (l, snd ls))),
     p_recorded_coverage = \<lambda>pid w ls. (cv (fst ls) pid w, ls),
     p_drainable_windows = beside (p_drainable_windows Q),
     p_seal_window = \<lambda>req. beside (p_seal_window Q req),
     p_drop_window = \<lambda>ds pid w cov. beside (p_drop_window Q ds pid w cov),
     p_commit_files = \<lambda>m rows. beside (p_commit_files Q m rows),
     p_read_watermarks = \<lambda>pids. beside (p_read_watermarks Q pids),
     p_scratch_get = \<lambda>path. beside (p_scratch_get Q path),
     p_scratch_delete = \<lambda>path. beside (p_scratch_delete Q path),
     p_put = \<lambda>name data. beside (p_put Q name data),
     p_wall_unix_ms = beside (p_wall_unix_ms Q),
     p_journal = \<lambda>ev. beside (p_journal Q ev)\<rparr>"

lemma with_books_sel [simp]:
  "p_next_window (with_books nw th pv cm cv Q) pid ls = (nw (fst ls) pid, ls)"
  "p_complete_through_ms (with_books nw th pv cm cv Q) pid ls = (th (fst ls) pid, ls)"
  "p_advance_for (with_books nw th pv cm cv Q) m ls = (pv m (fst ls), ls)"
  "p_record_commit (with_books nw th pv cm cv Q) m ls = (case cm m (fst ls) of (r, l) \<Rightarrow> (r, (l, snd ls)))"
  "p_recorded_coverage (with_books nw th pv cm cv Q) pid w ls = (cv (fst ls) pid w, ls)"
  "p_seal_window (with_books nw th pv cm cv Q) req = beside (p_seal_window Q req)"
  "p_drop_window (with_books nw th pv cm cv Q) ds pid w cov = beside (p_drop_window Q ds pid w cov)"
  "p_commit_files (with_books nw th pv cm cv Q) m rows = beside (p_commit_files Q m rows)"
  "p_read_watermarks (with_books nw th pv cm cv Q) pids = beside (p_read_watermarks Q pids)"
  "p_scratch_get (with_books nw th pv cm cv Q) path = beside (p_scratch_get Q path)"
  "p_scratch_delete (with_books nw th pv cm cv Q) path = beside (p_scratch_delete Q path)"
  "p_put (with_books nw th pv cm cv Q) name data = beside (p_put Q name data)"
  "p_journal (with_books nw th pv cm cv Q) ev = beside (p_journal Q ev)"
  by (simp_all add: with_books_def)

lemma beside_ledger [simp]: "fst (snd (beside f ls)) = fst ls"
  by (simp add: beside_def split: prod.splits)

lemma beside_eq: "beside f ls = (r, ls') \<Longrightarrow> fst ls' = fst ls"
  by (auto simp: beside_def split: prod.splits)

lemma books_journal [simp]: "fst (journal (with_books nw th pv cm cv Q) ev ls) = fst ls"
  by (simp add: journal_def)

lemma books_discard [simp]: "fst (discard_scratch (with_books nw th pv cm cv Q) path ls) = fst ls"
  by (simp add: discard_scratch_def)

lemma books_journal_drop [simp]: "fst (journal_drop (with_books nw th pv cm cv Q) cov d ls) = fst ls"
  by (simp add: journal_drop_def)

lemma finish_already_answers:
  assumes "finish_already_committed P ds pid w scratch s = (res, s')"
  shows "\<nexists>row. res = Inr (DrainCommitted row)"
  using assms
  by (auto simp: finish_already_committed_def Let_def and_then_def err_into_def split: prod.splits sum.splits)

context bookkeeping
begin

abbreviation ports :: "'s drain_ports \<Rightarrow> ('l \<times> 's) drain_ports" where
  "ports \<equiv> with_books next_win through preview commit coverage"

lemma finish_already_inert:
  assumes "finish_already_committed (ports Q) ds pid w scratch ls = (res, ls')"
  shows "fst ls' = fst ls"
proof -
  let ?ls = "map_or ls (\<lambda>path. discard_scratch (ports Q) path ls) scratch"
  let ?cov = "map_or [] id (coverage (fst ?ls) pid w)"
  have l: "fst ?ls = fst ls" by (cases scratch) auto
  from assms have "and_then (err_into DrainSeal (beside (p_drop_window Q ds pid w ?cov) ?ls))
      (\<lambda>dropped s. (Inr AlreadyCommitted, journal_drop (ports Q) ?cov dropped s)) = (res, ls')"
    by (simp add: finish_already_committed_def Let_def)
  then show ?thesis
  proof (cases rule: and_then_cases)
    case (err e)
    with l show ?thesis by (metis beside_ledger err_into_snd snd_conv)
  next
    case (ok x s)
    then have "fst s = fst ls" using l by (metis beside_ledger err_into_snd snd_conv)
    with ok show ?thesis by auto
  qed
qed

lemma finish_committed_ledger:
  assumes "finish_committed (ports Q) m path ls = (res, ls')"
  shows "fst ls' = snd (commit m (fst ls))
    \<and> (\<forall>row wmk. fst (commit m (fst ls)) = Inr row \<and> res = Inr wmk \<longrightarrow> wmk = row)"
proof -
  obtain r l where c: "commit m (fst ls) = (r, l)" by fastforce
  let ?drop = "\<lambda>wmk s. and_then (err_into DrainSeal (beside (p_drop_window Q (wm_dataset m) (wm_partition m)
        (wm_window_id m) (wm_origin_coverage m)) (discard_scratch (ports Q) path s)))
      (\<lambda>dropped s. (Inr wmk, journal_drop (ports Q) (wm_origin_coverage m) dropped s))"
  have drop: "fst ls2 = fst s \<and> (\<forall>x. res2 = Inr x \<longrightarrow> x = wmk)"
    if "?drop wmk s = (res2, ls2)" for wmk s res2 ls2
    using that
  proof (cases rule: and_then_cases)
    case (err e)
    then show ?thesis by (metis Inl_Inr_False beside_ledger books_discard err_into_snd snd_conv)
  next
    case (ok x s1)
    then have "fst s1 = fst s" by (metis beside_ledger books_discard err_into_snd snd_conv)
    with ok show ?thesis by auto
  qed
  show ?thesis
  proof (cases r)
    case (Inr row)
    with assms c have "?drop row (l, snd ls) = (res, ls')" by (simp add: finish_committed_def)
    from drop[OF this] c Inr show ?thesis by auto
  next
    case (Inl rej)
    show ?thesis
    proof (cases "already_recorded rej")
      case True
      with assms c Inl obtain wmk where "?drop wmk (l, snd ls) = (res, ls')"
        by (auto simp: finish_committed_def)
      from drop[OF this] c Inl show ?thesis by auto
    next
      case False
      with assms c Inl show ?thesis by (auto simp: finish_committed_def)
    qed
  qed
qed

text \<open>
  What an attempt may do to the ledger, given that the manifest was previewed as acceptable: nothing,
  or record it; a commit answer records it and carries the previewed row, a requeue does nothing.
\<close>

definition ledger_effect ::
  "window_manifest \<Rightarrow> 'l \<Rightarrow> (drain_error, drain_outcome) result \<Rightarrow> 'l \<Rightarrow> bool" where
  "ledger_effect m l res l' \<longleftrightarrow>
     (l' = l \<or> (\<exists>row. commit m l = (Inr row, l')))
     \<and> (\<forall>row. res = Inr (DrainCommitted row) \<longrightarrow> commit m l = (Inr row, l'))
     \<and> (\<forall>reason. res = Inr (Requeue reason) \<longrightarrow> l' = l)"

lemma finish_committed_effect:
  assumes "finish_committed (ports Q) m path ls = (res, ls')"
    and "preview m (fst ls) = Inr row"
    and "res' = (case res of Inl e \<Rightarrow> Inl e | Inr wmk \<Rightarrow> Inr (f wmk))"
    and "f row = DrainCommitted row \<or> f row = AlreadyCommitted"
  shows "ledger_effect m (fst ls) res' (fst ls')"
proof -
  have c: "commit m (fst ls) = (Inr row, fst ls')"
    using finish_committed_ledger[OF assms(1)] assms(2) preview_commit[of m "fst ls"]
    by (metis prod.collapse)
  with finish_committed_ledger[OF assms(1)] assms(3,4) show ?thesis
    by (cases res) (auto simp: ledger_effect_def)
qed

lemma reconcile_effect:
  assumes run: "reconcile (ports Q) u m sealed previewed prior ls = (res, ls')"
    and pv: "preview m (fst ls) = Inr previewed"
  shows "ledger_effect m (fst ls) res (fst ls')"
proof -
  obtain r ls1 where rd: "beside (p_read_watermarks Q [wm_partition m]) ls = (r, ls1)" by (metis surj_pair)
  then have l1: "fst ls1 = fst ls" by (rule beside_eq)
  show ?thesis
  proof (cases r)
    case (Inl e)
    with run rd l1 show ?thesis by (auto simp: reconcile_def ledger_effect_def)
  next
    case (Inr rows)
    let ?ls2 = "if u = UnsettledIndeterminate then journal (ports Q) TeReconcile ls1 else ls1"
    have l2: "fst ?ls2 = fst ls" using l1 by simp
    show ?thesis
    proof (cases "\<exists>advanced. strict_advance previewed prior = Some advanced
        \<and> map_or False (\<lambda>v. advanced \<le> v) (read_back_of (wm_partition m) rows)")
      case True
      obtain fr ls3 where f: "finish_committed (ports Q) m (sp_path sealed) ?ls2 = (fr, ls3)" by (metis surj_pair)
      from True run rd Inr f have "(res, ls') = and_then (fr, ls3) (\<lambda>watermark s.
          (Inr (case u of UnsettledIndeterminate \<Rightarrow> DrainCommitted watermark
                | UnsettledAborted \<Rightarrow> AlreadyCommitted), s))"
        by (auto simp: reconcile_def Let_def)
      then have "res = (case fr of Inl e \<Rightarrow> Inl e | Inr wmk \<Rightarrow> Inr ((\<lambda>wmk. case u of
          UnsettledIndeterminate \<Rightarrow> DrainCommitted wmk | UnsettledAborted \<Rightarrow> AlreadyCommitted) wmk))"
        and "ls' = ls3"
        by (cases fr; simp)+
      from finish_committed_effect[OF f _ this(1), of previewed] pv l2 this(2) show ?thesis
        by (cases u) auto
    next
      case False
      then have "fst ls' = fst ls" and "\<exists>reason. res = Inr (Requeue reason)"
        using run rd Inr l2
        by (auto simp: reconcile_def Let_def split: option.splits if_splits)
      then show ?thesis by (auto simp: ledger_effect_def)
    qed
  qed
qed

lemma put_and_commit_effect:
  assumes run: "put_and_commit (ports Q) m sealed previewed prior ls = (res, ls')"
    and pv: "preview m (fst ls) = Inr previewed"
  shows "ledger_effect m (fst ls) res (fst ls')"
  using run[unfolded put_and_commit_def]
proof (cases rule: and_then_cases)
  case (err e)
  then have "fst ls' = fst ls" by (metis beside_ledger err_into_snd snd_conv with_books_sel(10))
  with err show ?thesis by (simp add: ledger_effect_def)
next
  case (ok data s1)
  then have l1: "fst s1 = fst ls" by (metis beside_ledger err_into_snd snd_conv with_books_sel(10))
  from ok(2) show ?thesis
  proof (cases rule: and_then_cases)
    case (err e)
    then have "fst ls' = fst ls" using l1 by (metis beside_ledger err_into_snd snd_conv with_books_sel(12))
    with err show ?thesis by (simp add: ledger_effect_def)
  next
    case (ok u s2)
    then have l2: "fst (journal (ports Q) TePutPart s2) = fst ls"
      using l1 by (metis beside_ledger books_journal err_into_snd snd_conv with_books_sel(12))
    from ok(2) show ?thesis
    proof (cases rule: and_then_cases)
      case (err e)
      then have "fst ls' = fst ls" using l2 by (metis beside_ledger err_into_snd snd_conv with_books_sel(8))
      with err show ?thesis by (simp add: ledger_effect_def)
    next
      case (ok out s3)
      then have l3: "fst s3 = fst ls" using l2 by (metis beside_ledger err_into_snd snd_conv with_books_sel(8))
      show ?thesis
      proof (cases out)
        case Committed
        let ?s = "journal (ports Q) TeLakeCommitOk s3"
        obtain fr ls3 where f: "finish_committed (ports Q) m (sp_path sealed) ?s = (fr, ls3)" by (metis surj_pair)
        from ok(2) Committed f have "res = (case fr of Inl e \<Rightarrow> Inl e | Inr wmk \<Rightarrow> Inr (DrainCommitted wmk))"
          and "ls' = ls3"
          by (cases fr; simp)+
        from finish_committed_effect[OF f _ this(1), of previewed] pv l3 this(2) show ?thesis by simp
      next
        case Aborted
        with ok(2) reconcile_effect[of Q UnsettledAborted m sealed previewed prior
            "journal (ports Q) TeLakeCommitAbort s3" res ls'] pv l3 show ?thesis by simp
      next
        case Indeterminate
        with ok(2) reconcile_effect[of Q UnsettledIndeterminate m sealed previewed prior
            "journal (ports Q) TeLakeCommitIndeterminate s3" res ls'] pv l3 show ?thesis by simp
      qed
    qed
  qed
qed

lemma drain_window_effect:
  assumes run: "drain_window (ports Q) ds pid w plan ls = (res, ls')"
  shows "fst ls' = fst ls \<and> (\<nexists>row. res = Inr (DrainCommitted row))
    \<or> (\<exists>sealed. w = next_win (fst ls) pid \<and> ledger_effect (manifest_for ds pid w sealed) (fst ls) res (fst ls'))"
proof -
  consider "w < next_win (fst ls) pid" | "next_win (fst ls) pid < w" | "w = next_win (fst ls) pid"
    by linarith
  then show ?thesis
  proof cases
    case 1
    with run have f: "finish_already_committed (ports Q) ds pid w None ls = (res, ls')"
      by (simp add: drain_window_def)
    from finish_already_inert[OF f] finish_already_answers[OF f] show ?thesis by auto
  next
    case 2
    with run show ?thesis by (auto simp: drain_window_def)
  next
    case 3
    let ?k = "\<lambda>sealed s.
       (case p_advance_for (ports Q) (manifest_for ds pid w sealed) (journal (ports Q) TeSealPart s) of
          (Inr previewed, s) \<Rightarrow> put_and_commit (ports Q) (manifest_for ds pid w sealed) sealed previewed
             (through (fst ls) pid) s
        | (Inl rej, s) \<Rightarrow> if already_recorded rej
            then finish_already_committed (ports Q) ds pid w (Some (sp_path sealed)) s
            else (Inl (DrainLedger rej), s))"
    from run 3[symmetric] have "and_then (err_into DrainSeal (p_seal_window (ports Q) (seal_request_for ds pid w plan) ls)) ?k
        = (res, ls')"
      by (simp add: drain_window_def Let_def)
    then show ?thesis
    proof (cases rule: and_then_cases)
      case (err e)
      then have "fst ls' = fst ls" by (metis beside_ledger err_into_snd snd_conv with_books_sel(6))
      with err show ?thesis by simp
    next
      case (ok sealed s1)
      then have l1: "fst (journal (ports Q) TeSealPart s1) = fst ls"
        by (metis beside_ledger books_journal err_into_snd snd_conv with_books_sel(6))
      let ?m = "manifest_for ds pid w sealed"
      show ?thesis
      proof (cases "preview ?m (fst ls)")
        case (Inr previewed)
        with ok l1 put_and_commit_effect[of Q ?m sealed previewed "through (fst ls) pid"
            "journal (ports Q) TeSealPart s1" res ls'] 3 show ?thesis by auto
      next
        case (Inl rej)
        with ok l1 show ?thesis
          using finish_already_inert[of Q ds pid w "Some (sp_path sealed)" "journal (ports Q) TeSealPart s1" res ls']
            finish_already_answers[of "ports Q" ds pid w "Some (sp_path sealed)"
              "journal (ports Q) TeSealPart s1" res ls']
          by (cases "already_recorded rej") auto
      qed
    qed
  qed
qed

end

section \<open>The shared ledger under the drain\<close>

abbreviation ledger_ports :: "'s drain_ports \<Rightarrow> (watermark_ledger \<times> 's) drain_ports" where
  "ledger_ports \<equiv> with_books sl_next_window sl_complete_through_ms sl_advance_for sl_record_commit sl_recorded_coverage"

text \<open>
  C6. The drain and the ledger together. An attempt on a reached ledger leaves a reached ledger whose
  watermarks have not regressed; it changes the ledger at most by recording the manifest of the
  window it was asked to drain, as the dense-next window; a \<open>Committed\<close> answer means exactly that and
  carries the partition's watermark row after the commit; a requeue leaves the ledger as it was.
\<close>
theorem drain_updates_ledger:
  assumes "ledger_ok L" and "drain_window (ledger_ports Q) ds pid w plan (L, s) = (res, (L', s'))"
  shows "ledger_ok L' \<and> (\<forall>p. wm_le (complete_through_ms L p) (complete_through_ms L' p))
    \<and> (L' = L \<or> (\<exists>sealed row. record_commit (manifest_for ds pid w sealed) L = (Inr row, L')))
    \<and> (\<forall>row. res = Inr (DrainCommitted row) \<longrightarrow>
         next_window L pid = w \<and> next_window L' pid = Suc w
         \<and> row = map_option (\<lambda>t. \<lparr>wr_partition = pid, wr_complete_through_ms = t\<rparr>) (complete_through_ms L' pid))
    \<and> (\<forall>reason. res = Inr (Requeue reason) \<longrightarrow> L' = L)"
proof -
  have mf: "wm_partition (manifest_for ds pid w sealed) = pid" "wm_window_id (manifest_for ds pid w sealed) = w"
    for sealed by (simp_all add: manifest_for_def)
  from sl.drain_window_effect[OF assms(2)] consider
    (same) "L' = L" "\<nexists>row. res = Inr (DrainCommitted row)"
  | (effect) sealed where "sl.ledger_effect (manifest_for ds pid w sealed) L res L'"
    by auto
  then show ?thesis
  proof cases
    case same
    with assms(1) show ?thesis by auto
  next
    case effect
    let ?m = "manifest_for ds pid w sealed"
    note e = effect[unfolded sl.ledger_effect_def]
    from e have "L' = L \<or> (\<exists>row. sl_record_commit ?m L = (Inr row, L'))" by blast
    then have ok: "ledger_ok L' \<and> (\<forall>p. wm_le (complete_through_ms L p) (complete_through_ms L' p))
        \<and> (L' = L \<or> (\<exists>row. record_commit ?m L = (Inr row, L')))"
      using assms(1) sl.ok_commit[OF assms(1)] sl.through_mono[OF assms(1)]
      by (auto simp: sl_complete_through_ms_def elim: sl_record_commit_cases)
    moreover have "next_window L pid = w \<and> next_window L' pid = Suc w
         \<and> row = map_option (\<lambda>t. \<lparr>wr_partition = pid, wr_complete_through_ms = t\<rparr>) (complete_through_ms L' pid)"
      if "res = Inr (DrainCommitted row)" for row
    proof -
      from e that have "sl_record_commit ?m L = (Inr row, L')" by blast
      from sl.accepted_next[OF assms(1) this, of pid] sl.accepted_row[OF assms(1) this]
      show ?thesis by (simp add: mf sl_next_window_def sl_complete_through_ms_def)
    qed
    ultimately show ?thesis using e by blast
  qed
qed

text \<open>A world in which every port answers at once, for the example: one part is sealed and committed.\<close>

definition ex_sealed :: sealed_part where
  "ex_sealed = \<lparr>sp_path = ''scratch'', sp_rows = 2, sp_event_time_min_ms = 0, sp_event_time_max_ms = 100,
     sp_dedup_removed = 0, sp_origin_coverage = [ex_range ''a'' 1 2]\<rparr>"

definition ex_ports :: "commit_outcome \<Rightarrow> unit drain_ports" where
  "ex_ports out = \<lparr>
     p_next_window = \<lambda>pid s. (0, s), p_complete_through_ms = \<lambda>pid s. (None, s),
     p_advance_for = \<lambda>m s. (Inr None, s), p_record_commit = \<lambda>m s. (Inr None, s),
     p_recorded_coverage = \<lambda>pid w s. (None, s), p_drainable_windows = \<lambda>s. (Inr [], s),
     p_seal_window = \<lambda>req s. (Inr ex_sealed, s), p_drop_window = \<lambda>ds pid w cov s. (Inr Dropped, s),
     p_commit_files = \<lambda>m rows s. (Inr out, s), p_read_watermarks = \<lambda>pids s. (Inr [], s),
     p_scratch_get = \<lambda>path s. (Inr ''bytes'', s), p_scratch_delete = \<lambda>path s. (Inr (), s),
     p_put = \<lambda>name data s. (Inr (), s), p_wall_unix_ms = \<lambda>s. (0, s), p_journal = \<lambda>ev s. ((), s)\<rparr>"

definition ex_plan :: dataset_drain_plan where
  "ex_plan = \<lparr>pl_order_by = [''ts''], pl_event_time_column = ''ts'', pl_dedup_key = None\<rparr>"

theorem drain_updates_ledger_witness:
  "\<exists>row L'. drain_window (ledger_ports (ex_ports Committed)) (DatasetId ''d'') (PartitionId ''p'') 0 ex_plan
       (ledger_new, ()) = (Inr (DrainCommitted row), (L', ()))
     \<and> next_window L' (PartitionId ''p'') = 1"
proof -
  have ok: "ledger_ok ledger_new" using ledger_run.start by (rule ledger_ok_run)
  let ?run = "drain_window (ledger_ports (ex_ports Committed)) (DatasetId ''d'') (PartitionId ''p'') 0 ex_plan
       (ledger_new, ())"
  have "\<exists>row L'. ?run = (Inr (DrainCommitted row), (L', ()))"
    by (simp add: drain_window_def Let_def put_and_commit_def finish_committed_def ex_ports_def ex_plan_def
        beside_def journal_def discard_scratch_def journal_drop_def manifest_for_def ex_sealed_def ex_range_def
        sl_next_window_def sl_complete_through_ms_def sl_advance_for_def sl_record_commit_def
        advance_for_def ledger_eval)
  then obtain row L' where run: "?run = (Inr (DrainCommitted row), (L', ()))" by blast
  from drain_updates_ledger[OF ok run] run show ?thesis by auto
qed

end
