(* ===== verification/Fencing.thy ===== *)
theory Fencing
  imports Types
begin

text \<open>
  \<open>crates/duckspout-replication/src/fencing.rs\<close> and \<open>claims.rs\<close>: the receiver-held table of the
  highest incarnation seen per sender, and the tracker that decides whether a claim row is
  advertised. A hash map is modelled by its entries in key order; the code never iterates over one
  in a way that shows its order.
\<close>

section \<open>Incarnation fencing\<close>

type_synonym incarnation = u64

text \<open>\<open>Incarnation::next\<close>; the addition wraps in a release build and panics in a debug build.\<close>

definition incarnation_next :: "incarnation \<Rightarrow> incarnation" where
  "incarnation_next i = i + 1"

record fence_identity =
  fi_node :: node_id
  fi_incarnation :: incarnation

datatype fence_outcome = Admitted | Zombie incarnation

type_synonym fence_table = "(node_id, incarnation) btree"

definition fence_new :: fence_table where
  "fence_new = bt_empty"

definition highest_seen :: "fence_table \<Rightarrow> node_id \<Rightarrow> incarnation" where
  "highest_seen table node = map_or 0 id (bt_get table node)"

definition admit :: "fence_identity \<Rightarrow> fence_table \<Rightarrow> fence_outcome \<times> fence_table" where
  "admit identity table =
     (let highest = map_or 0 id (bt_get table (fi_node identity)) in
      if fi_incarnation identity < highest then (Zombie highest, table)
      else (Admitted, bt_insert (fi_node identity) (fi_incarnation identity) table))"

text \<open>A sequence of messages against one table.\<close>

fun admit_all :: "fence_identity list \<Rightarrow> fence_table \<Rightarrow> fence_outcome list \<times> fence_table" where
  "admit_all [] table = ([], table)"
| "admit_all (i # ids) table =
     (case admit i table of (out, table') \<Rightarrow>
      case admit_all ids table' of (outs, table'') \<Rightarrow> (out # outs, table''))"

lemma admit_cases:
  assumes "admit identity table = (out, table')"
  obtains (admitted) "out = Admitted" "highest_seen table (fi_node identity) \<le> fi_incarnation identity"
    "table' = bt_insert (fi_node identity) (fi_incarnation identity) table"
  | (zombie) "out = Zombie (highest_seen table (fi_node identity))" "table' = table"
    "fi_incarnation identity < highest_seen table (fi_node identity)"
proof (cases "fi_incarnation identity < highest_seen table (fi_node identity)")
  case True
  with assms have "Zombie (highest_seen table (fi_node identity)) = out" "table = table'"
    by (auto simp: admit_def highest_seen_def)
  with True show thesis by (intro zombie) auto
next
  case False
  with assms show thesis by (intro admitted) (simp_all add: admit_def highest_seen_def)
qed

lemma highest_seen_insert [simp]:
  "highest_seen (bt_insert n i table) m = (if m = n then i else highest_seen table m)"
  by (simp add: highest_seen_def)

lemma admit_mono: "admit identity table = (out, table') \<Longrightarrow> highest_seen table n \<le> highest_seen table' n"
  by (erule admit_cases) auto

lemma admit_admits: "admit identity table = (Admitted, table') \<Longrightarrow> highest_seen table' (fi_node identity) = fi_incarnation identity"
  by (erule admit_cases) auto

lemma admit_all_mono: "admit_all ids table = (outs, table') \<Longrightarrow> highest_seen table n \<le> highest_seen table' n"
proof (induction ids arbitrary: table outs)
  case (Cons i ids)
  then show ?case
    by (auto split: prod.splits dest!: admit_mono[of i _ _ _ n] intro: order_trans)
qed simp


definition ex_id :: "string \<Rightarrow> u64 \<Rightarrow> fence_identity" where
  "ex_id n i = \<lparr>fi_node = NodeId n, fi_incarnation = i\<rparr>"


section \<open>Claims\<close>

datatype claim_role = OwnerRole | ReplicaRole

type_synonym claim_tracker = "(partition_id, claim_role) btree"

definition claims_new :: claim_tracker where
  "claims_new = bt_empty"

definition should_advertise :: "claim_tracker \<Rightarrow> partition_id \<Rightarrow> claim_role \<Rightarrow> bool" where
  "should_advertise claims pid role \<longleftrightarrow>
     \<not> (case bt_get claims pid of Some existing \<Rightarrow> existing = role | None \<Rightarrow> False)"

definition mark_advertised :: "partition_id \<Rightarrow> claim_role \<Rightarrow> claim_tracker \<Rightarrow> claim_tracker" where
  "mark_advertised pid role claims = bt_insert pid role claims"

definition current_role :: "claim_tracker \<Rightarrow> partition_id \<Rightarrow> claim_role option" where
  "current_role claims pid = bt_get claims pid"

text \<open>
  ClaimAdvertiseOnce. After a claim was marked as advertised, the same claim is not advertised
  again, a change of role is, and no other partition's answer changes; without the mark, as after a
  failed registry call, the claim stays due.
\<close>
theorem claim_advertised_once:
  "should_advertise (mark_advertised pid role claims) q r \<longleftrightarrow>
     (if q = pid then r \<noteq> role else should_advertise claims q r)"
  by (auto simp: should_advertise_def mark_advertised_def)

end
