(* ===== verification/Replication.thy ===== *)
theory Replication
  imports Fencing
begin

text \<open>
  \<open>crates/duckspout-replication/src/wire.rs\<close>, \<open>forward.rs\<close>, \<open>peer_apply.rs\<close> and \<open>receipt.rs\<close>: the
  messages, the origin's forward of a staged range, a peer's handling of it, and the origin's
  receipt bookkeeping with the total-inclusive acknowledgment rule.

  The replica log is a port without an implementation in the sources, so it is a record of functions
  over an abstract state; what its documentation promises is the predicate \<open>conformant_log\<close>, a
  hypothesis of the properties that need it. The JSON codec of \<open>serde_json\<close> is a parameter of the
  two functions that use it. \<open>rf\<close> is a natural number: the code only decrements it, saturating.
\<close>

section \<open>Messages\<close>

record forward_message =
  fm_incarnation :: incarnation
  fm_partition :: partition_id
  fm_range :: origin_seq_range
  fm_window :: window_id
  fm_dataset :: dataset_id
  fm_records :: string

record receipt_message =
  rm_incarnation :: incarnation
  rm_holder :: node_id
  rm_origin :: node_id
  rm_partition :: partition_id
  rm_applied_thru :: u64

datatype envelope = ForwardEnv forward_message | ReceiptEnv receipt_message

datatype wire_decode_error = WireDecodeError string

datatype wire_envelope =
    WireForward incarnation partition_id node_id u64 u64 window_id dataset_id string
  | WireReceipt incarnation node_id node_id partition_id u64

fun envelope_to_wire :: "envelope \<Rightarrow> wire_envelope" where
  "envelope_to_wire (ForwardEnv msg) =
     WireForward (fm_incarnation msg) (fm_partition msg) (osr_origin (fm_range msg))
       (osr_first_seq (fm_range msg)) (osr_last_seq (fm_range msg)) (fm_window msg)
       (fm_dataset msg) (fm_records msg)"
| "envelope_to_wire (ReceiptEnv msg) =
     WireReceipt (rm_incarnation msg) (rm_holder msg) (rm_origin msg) (rm_partition msg)
       (rm_applied_thru msg)"

fun envelope_of_wire :: "wire_envelope \<Rightarrow> envelope" where
  "envelope_of_wire (WireForward inc pid origin first_seq last_seq window dataset records) =
     ForwardEnv \<lparr>fm_incarnation = inc, fm_partition = pid,
       fm_range = \<lparr>osr_origin = origin, osr_first_seq = first_seq, osr_last_seq = last_seq\<rparr>,
       fm_window = window, fm_dataset = dataset, fm_records = records\<rparr>"
| "envelope_of_wire (WireReceipt inc holder origin pid applied_thru) =
     ReceiptEnv \<lparr>rm_incarnation = inc, rm_holder = holder, rm_origin = origin, rm_partition = pid,
       rm_applied_thru = applied_thru\<rparr>"

definition to_bytes :: "(wire_envelope \<Rightarrow> string) \<Rightarrow> envelope \<Rightarrow> string" where
  "to_bytes json_to_vec e = json_to_vec (envelope_to_wire e)"

definition from_bytes ::
  "(string \<Rightarrow> (string, wire_envelope) result) \<Rightarrow> string \<Rightarrow> (wire_decode_error, envelope) result" where
  "from_bytes json_from_slice payload =
     (case json_from_slice payload of
        Inl e \<Rightarrow> Inl (WireDecodeError e)
      | Inr wire \<Rightarrow> Inr (envelope_of_wire wire))"

lemma envelope_wire_roundtrip: "envelope_of_wire (envelope_to_wire e) = e"
  by (cases e) simp_all

section \<open>Forward\<close>

record forward_batch =
  fb_coverage :: staged_coverage
  fb_window :: window_id
  fb_dataset :: dataset_id
  fb_records :: string

datatype transport_error = UnknownPeer node_id | TransportClosed

record 's transport =
  t_send :: "node_id \<Rightarrow> string \<Rightarrow> 's \<Rightarrow> (transport_error, unit) result \<times> 's"
  t_record :: "trace_event \<Rightarrow> 's \<Rightarrow> unit \<times> 's"

definition forward_message_of :: "incarnation \<Rightarrow> forward_batch \<Rightarrow> forward_message" where
  "forward_message_of self_incarnation batch =
     \<lparr>fm_incarnation = self_incarnation, fm_partition = sc_partition (fb_coverage batch),
      fm_range = sc_range (fb_coverage batch),
      fm_window = fb_window batch, fm_dataset = fb_dataset batch, fm_records = fb_records batch\<rparr>"

fun forward_loop ::
  "'s transport \<Rightarrow> node_id \<Rightarrow> string \<Rightarrow> node_id list \<Rightarrow> 's
     \<Rightarrow> (node_id \<times> (transport_error, unit) result) list \<times> 's" where
  "forward_loop T self_node payload [] s = ([], s)"
| "forward_loop T self_node payload (peer # peers) s =
     (if peer = self_node then forward_loop T self_node payload peers s
      else
        case t_send T peer payload s of (result, s) \<Rightarrow>
        case t_record T TeForward s of (_, s) \<Rightarrow>
        case forward_loop T self_node payload peers s of (results, s) \<Rightarrow>
          ((peer, result) # results, s))"

definition forward_to_peers ::
  "(wire_envelope \<Rightarrow> string) \<Rightarrow> 's transport \<Rightarrow> node_id \<Rightarrow> incarnation \<Rightarrow> node_id list
     \<Rightarrow> forward_batch \<Rightarrow> 's \<Rightarrow> (node_id \<times> (transport_error, unit) result) list \<times> 's" where
  "forward_to_peers json_to_vec T self_node self_incarnation peers batch s =
     forward_loop T self_node
       (to_bytes json_to_vec (ForwardEnv (forward_message_of self_incarnation batch))) peers s"

lemma forward_peers: "map fst (fst (forward_loop T self payload peers s)) = filter (\<lambda>p. p \<noteq> self) peers"
  by (induction peers arbitrary: s) (auto split: prod.splits, (metis fst_conv)+)

section \<open>PeerApply\<close>

record forwarded_record =
  fr_partition :: partition_id
  fr_range :: origin_seq_range
  fr_window :: window_id
  fr_dataset :: dataset_id
  fr_records :: string

record 'l replica_log =
  rl_applied_thru :: "'l \<Rightarrow> node_id \<Rightarrow> partition_id \<Rightarrow> u64"
  rl_has_applied :: "'l \<Rightarrow> node_id \<Rightarrow> partition_id \<Rightarrow> u64 \<Rightarrow> bool"
  rl_apply :: "forwarded_record \<Rightarrow> 'l \<Rightarrow> (string, unit) result \<times> 'l"

datatype peer_apply_outcome =
    PaInvalidRange
  | PaSelfOriginRefused
  | PaApplied receipt_message
  | PaDuplicateAcked receipt_message
  | PaGapRefused
  | PaFenced
  | PaSuspectDuplicate
  | PaApplyFailed

definition build_receipt ::
  "node_id \<Rightarrow> incarnation \<Rightarrow> node_id \<Rightarrow> partition_id \<Rightarrow> u64 \<Rightarrow> receipt_message" where
  "build_receipt self_node inc origin pid applied_thru =
     \<lparr>rm_incarnation = inc, rm_holder = self_node, rm_origin = origin, rm_partition = pid,
      rm_applied_thru = applied_thru\<rparr>"

text \<open>The handler; the last component of the result are the journaled events, in order.\<close>

definition apply_forward ::
  "'l replica_log \<Rightarrow> node_id \<Rightarrow> incarnation \<Rightarrow> forward_message \<Rightarrow> fence_table \<Rightarrow> 'l
     \<Rightarrow> peer_apply_outcome \<times> fence_table \<times> 'l \<times> trace_event list" where
  "apply_forward R self_node self_incarnation forward fence log =
     (let origin = osr_origin (fm_range forward); pid = fm_partition forward;
          first_seq = osr_first_seq (fm_range forward); last_seq = osr_last_seq (fm_range forward) in
      if last_seq < first_seq then (PaInvalidRange, fence, log, [])
      else if origin = self_node then (PaSelfOriginRefused, fence, log, [])
      else
        case admit \<lparr>fi_node = origin, fi_incarnation = fm_incarnation forward\<rparr> fence of
          (Zombie _, fence) \<Rightarrow> (PaFenced, fence, log, [])
        | (Admitted, fence) \<Rightarrow>
            let applied_thru = rl_applied_thru R log origin pid in
            if last_seq \<le> applied_thru
            then if rl_has_applied R log origin pid last_seq
                 then (PaDuplicateAcked (build_receipt self_node self_incarnation origin pid applied_thru),
                       fence, log, [TeReceipt])
                 else (PaSuspectDuplicate, fence, log, [])
            else if first_seq \<noteq> applied_thru + 1 then (PaGapRefused, fence, log, [])
            else
              case rl_apply R \<lparr>fr_partition = pid, fr_range = fm_range forward, fr_window = fm_window forward,
                               fr_dataset = fm_dataset forward, fr_records = fm_records forward\<rparr> log of
                (Inr _, log) \<Rightarrow>
                  (PaApplied (build_receipt self_node self_incarnation origin pid last_seq),
                   fence, log, [TePeerApply, TeReceipt])
              | (Inl _, log) \<Rightarrow> (PaApplyFailed, fence, log, []))"

section \<open>Receipts\<close>

datatype receipt_outcome = Recorded | ReceiptFenced | SelfReceiptRejected

type_synonym receipt_tracker = "(node_id \<times> node_id \<times> partition_id, u64) btree"

definition receipts_new :: receipt_tracker where
  "receipts_new = bt_empty"

definition record_receipt ::
  "receipt_message \<Rightarrow> fence_table \<Rightarrow> receipt_tracker
     \<Rightarrow> receipt_outcome \<times> fence_table \<times> receipt_tracker" where
  "record_receipt receipt fence tracker =
     (if rm_holder receipt = rm_origin receipt then (SelfReceiptRejected, fence, tracker)
      else
        case admit \<lparr>fi_node = rm_holder receipt, fi_incarnation = rm_incarnation receipt\<rparr> fence of
          (Zombie _, fence) \<Rightarrow> (ReceiptFenced, fence, tracker)
        | (Admitted, fence) \<Rightarrow>
            (Recorded, fence,
             bt_upsert (rm_holder receipt, rm_origin receipt, rm_partition receipt) 0
               (\<lambda>watermark. max watermark (rm_applied_thru receipt)) tracker))"

definition holder_applied_thru ::
  "receipt_tracker \<Rightarrow> node_id \<Rightarrow> node_id \<Rightarrow> partition_id \<Rightarrow> u64" where
  "holder_applied_thru tracker holder origin pid = map_or 0 id (bt_get tracker (holder, origin, pid))"

definition receipted_peer_count ::
  "receipt_tracker \<Rightarrow> node_id \<Rightarrow> partition_id \<Rightarrow> u64 \<Rightarrow> nat" where
  "receipted_peer_count tracker origin pid thru_seq =
     length (filter (\<lambda>((h, o', p), watermark). o' = origin \<and> p = pid \<and> thru_seq \<le> watermark) tracker)"

definition client_ack_ready ::
  "receipt_tracker \<Rightarrow> node_id \<Rightarrow> partition_id \<Rightarrow> u64 \<Rightarrow> nat \<Rightarrow> bool" where
  "client_ack_ready receipts origin pid last_seq rf \<longleftrightarrow>
     rf - 1 \<le> receipted_peer_count receipts origin pid last_seq"

end
