(* ===== verification/Repl_System.thy ===== *)
theory Repl_System
  imports Replication
begin

text \<open>
  The replication protocol as a system of nodes and a network. A node is its fencing table (one for
  both message kinds), its replica log and its receipt tracker. The network is the set of messages
  ever sent: a message may be delivered any number of times, to any node, in any order, or never, and
  any forward at all may appear in it. A reboot loses the volatile tables and keeps the log; a log may
  change on its own (rows drain out of staging) as long as it keeps its applied prefix.

  Shown: a receipt never claims more than its holder has durably applied, and an acknowledgment the
  rule of \<open>client_ack_ready\<close> allows is backed by the required number of copies.
\<close>

section \<open>What the replica log promises\<close>

text \<open>
  The documented contract of the port: \<open>applied_thru\<close> is a prefix of what \<open>has_applied\<close> answers for, no
  call shrinks it, and an apply that succeeds on the next range extends it through that range.
\<close>

definition conformant_log :: "'l replica_log \<Rightarrow> bool" where
  "conformant_log R \<longleftrightarrow>
     (\<forall>l origin pid s. 1 \<le> s \<and> s \<le> rl_applied_thru R l origin pid \<longrightarrow> rl_has_applied R l origin pid s)
     \<and> (\<forall>rec l r l' origin pid. rl_apply R rec l = (r, l') \<longrightarrow>
          rl_applied_thru R l origin pid \<le> rl_applied_thru R l' origin pid)
     \<and> (\<forall>rec l l'. rl_apply R rec l = (Inr (), l')
          \<and> osr_first_seq (fr_range rec) = rl_applied_thru R l (osr_origin (fr_range rec)) (fr_partition rec) + 1 \<longrightarrow>
          osr_last_seq (fr_range rec) \<le> rl_applied_thru R l' (osr_origin (fr_range rec)) (fr_partition rec))"

lemma conformant_mono:
  "conformant_log R \<Longrightarrow> rl_apply R rec l = (r, l') \<Longrightarrow> rl_applied_thru R l origin pid \<le> rl_applied_thru R l' origin pid"
  unfolding conformant_log_def by blast

lemma conformant_apply:
  "conformant_log R \<Longrightarrow> rl_apply R rec l = (Inr (), l') \<Longrightarrow>
   osr_first_seq (fr_range rec) = rl_applied_thru R l (osr_origin (fr_range rec)) (fr_partition rec) + 1 \<Longrightarrow>
   osr_last_seq (fr_range rec) \<le> rl_applied_thru R l' (osr_origin (fr_range rec)) (fr_partition rec)"
  unfolding conformant_log_def by blast

lemma conformant_has:
  "conformant_log R \<Longrightarrow> 1 \<le> s \<Longrightarrow> s \<le> rl_applied_thru R l origin pid \<Longrightarrow> rl_has_applied R l origin pid s"
  unfolding conformant_log_def by blast

section \<open>One forward at a peer\<close>

fun receipts_of :: "peer_apply_outcome \<Rightarrow> receipt_message set" where
  "receipts_of (PaApplied r) = {r}"
| "receipts_of (PaDuplicateAcked r) = {r}"
| "receipts_of _ = {}"

lemma build_receipt_sel [simp]:
  "rm_holder (build_receipt n inc origin pid thru) = n"
  "rm_origin (build_receipt n inc origin pid thru) = origin"
  "rm_partition (build_receipt n inc origin pid thru) = pid"
  "rm_applied_thru (build_receipt n inc origin pid thru) = thru"
  "rm_incarnation (build_receipt n inc origin pid thru) = inc"
  by (simp_all add: build_receipt_def)

lemma apply_forward_log_mono:
  assumes "conformant_log R" and "apply_forward R n inc f fence log = (out, fence', log', evs)"
  shows "rl_applied_thru R log origin pid \<le> rl_applied_thru R log' origin pid"
  using assms(2) conformant_mono[OF assms(1)]
  by (auto simp: apply_forward_def Let_def split: if_splits prod.splits fence_outcome.splits sum.splits)

lemma apply_forward_receipt:
  assumes "conformant_log R" and "apply_forward R n inc f fence log = (out, fence', log', evs)"
    and "r \<in> receipts_of out"
  shows "rm_holder r = n \<and> rm_origin r = osr_origin (fm_range f) \<and> rm_partition r = fm_partition f
    \<and> rm_origin r \<noteq> n \<and> osr_last_seq (fm_range f) \<le> rm_applied_thru r
    \<and> rm_applied_thru r \<le> rl_applied_thru R log' (rm_origin r) (rm_partition r)"
proof -
  let ?rec = "\<lparr>fr_partition = fm_partition f, fr_range = fm_range f, fr_window = fm_window f,
     fr_dataset = fm_dataset f, fr_records = fm_records f\<rparr>"
  have "osr_last_seq (fm_range f) \<le> rl_applied_thru R log' (osr_origin (fm_range f)) (fm_partition f)"
    if "rl_apply R ?rec log = (Inr (), log')"
      "osr_first_seq (fm_range f) = rl_applied_thru R log (osr_origin (fm_range f)) (fm_partition f) + 1"
    using conformant_apply[OF assms(1) that(1)] that(2) by simp
  with assms(2,3) have "\<exists>thru. r = build_receipt n inc (osr_origin (fm_range f)) (fm_partition f) thru
      \<and> osr_origin (fm_range f) \<noteq> n \<and> osr_last_seq (fm_range f) \<le> thru
      \<and> thru \<le> rl_applied_thru R log' (osr_origin (fm_range f)) (fm_partition f)"
    by (auto simp: apply_forward_def Let_def
        split: if_splits prod.splits fence_outcome.splits sum.splits)
  then show ?thesis by auto
qed

text \<open>
  C32 (GapFreedom). What a peer does with a forwarded range, on a conformant log: it applies only the
  range that starts right after its applied prefix, from an origin other than itself whose incarnation
  is not stale; any other forward leaves its log alone; it answers with a receipt only for a range that
  is then within its applied prefix, and the receipt claims no more than that prefix.
\<close>
theorem peer_apply_gap_free:
  assumes "conformant_log R" and "apply_forward R n inc f fence log = (out, fence', log', evs)"
  shows "(\<forall>r\<in>receipts_of out. rm_holder r = n \<and> rm_origin r = osr_origin (fm_range f) \<and> rm_partition r = fm_partition f
       \<and> osr_last_seq (fm_range f) \<le> rm_applied_thru r
       \<and> rm_applied_thru r \<le> rl_applied_thru R log' (rm_origin r) (rm_partition r))
    \<and> (log' \<noteq> log \<longrightarrow>
        osr_first_seq (fm_range f) = rl_applied_thru R log (osr_origin (fm_range f)) (fm_partition f) + 1
        \<and> osr_first_seq (fm_range f) \<le> osr_last_seq (fm_range f)
        \<and> osr_origin (fm_range f) \<noteq> n
        \<and> highest_seen fence (osr_origin (fm_range f)) \<le> fm_incarnation f)
    \<and> (1 \<le> osr_first_seq (fm_range f) \<longrightarrow> out \<noteq> PaSuspectDuplicate)"
proof -
  have "osr_first_seq (fm_range f) = rl_applied_thru R log (osr_origin (fm_range f)) (fm_partition f) + 1
        \<and> osr_first_seq (fm_range f) \<le> osr_last_seq (fm_range f) \<and> osr_origin (fm_range f) \<noteq> n
        \<and> highest_seen fence (osr_origin (fm_range f)) \<le> fm_incarnation f" if "log' \<noteq> log"
    using assms(2) that
    by (auto simp: apply_forward_def Let_def admit_def highest_seen_def not_less
        split: if_splits prod.splits fence_outcome.splits sum.splits)
  moreover have "out \<noteq> PaSuspectDuplicate" if "1 \<le> osr_first_seq (fm_range f)"
  proof
    assume "out = PaSuspectDuplicate"
    with assms(2) have "osr_first_seq (fm_range f) \<le> osr_last_seq (fm_range f)"
      and "osr_last_seq (fm_range f) \<le> rl_applied_thru R log (osr_origin (fm_range f)) (fm_partition f)"
      and no: "\<not> rl_has_applied R log (osr_origin (fm_range f)) (fm_partition f) (osr_last_seq (fm_range f))"
      by (auto simp: apply_forward_def Let_def not_less split: if_splits prod.splits fence_outcome.splits sum.splits)
    with conformant_has[OF assms(1)] order_trans[OF that] show False by blast
  qed
  ultimately show ?thesis using apply_forward_receipt[OF assms] by blast
qed

section \<open>Receipts at the origin\<close>

lemma record_receipt_cases:
  assumes "record_receipt r fence tr = (out, fence', tr')"
  obtains (self) "rm_holder r = rm_origin r" "out = SelfReceiptRejected" "tr' = tr" "fence' = fence"
  | (fenced) "rm_holder r \<noteq> rm_origin r" "out = ReceiptFenced" "tr' = tr" "fence' = fence"
      "rm_incarnation r < highest_seen fence (rm_holder r)"
  | (recorded) "rm_holder r \<noteq> rm_origin r" "out = Recorded"
      "highest_seen fence (rm_holder r) \<le> rm_incarnation r"
      "tr' = bt_upsert (rm_holder r, rm_origin r, rm_partition r) 0 (\<lambda>w. max w (rm_applied_thru r)) tr"
      "fence' = bt_insert (rm_holder r) (rm_incarnation r) fence"
proof (cases "rm_holder r = rm_origin r")
  case True
  with assms self show thesis by (simp add: record_receipt_def)
next
  case False
  let ?i = "\<lparr>fi_node = rm_holder r, fi_incarnation = rm_incarnation r\<rparr>"
  obtain o' f' where a: "admit ?i fence = (o', f')" by fastforce
  then show thesis
  proof (cases rule: admit_cases)
    case admitted
    with a False assms recorded show thesis by (simp add: record_receipt_def)
  next
    case zombie
    with a False assms fenced show thesis by (simp add: record_receipt_def)
  qed
qed

text \<open>
  Receipts are cumulative and fenced: recording a receipt never lowers any recorded watermark; it
  raises only the one of its holder, origin and partition, to at least what the receipt claims; a
  self-receipt and a stale holder's receipt change nothing.
\<close>
theorem receipt_cumulative:
  assumes "record_receipt r fence tr = (out, fence', tr')"
  shows "holder_applied_thru tr h orig pid \<le> holder_applied_thru tr' h orig pid
    \<and> ((h, orig, pid) \<noteq> (rm_holder r, rm_origin r, rm_partition r) \<longrightarrow>
         holder_applied_thru tr' h orig pid = holder_applied_thru tr h orig pid)
    \<and> (out = Recorded \<longrightarrow> rm_applied_thru r \<le> holder_applied_thru tr' (rm_holder r) (rm_origin r) (rm_partition r))
    \<and> (out \<noteq> Recorded \<longrightarrow> tr' = tr \<and> fence' = fence)
    \<and> (out = Recorded \<longleftrightarrow> rm_holder r \<noteq> rm_origin r \<and> highest_seen fence (rm_holder r) \<le> rm_incarnation r)"
  using assms by (cases rule: record_receipt_cases) (auto simp: holder_applied_thru_def)

text \<open>
  One fence for both message kinds: after a peer has handled a forward of a sender that it
  admitted, a receipt of that sender under a lower incarnation is refused and changes nothing.
\<close>
theorem fenced_across_kinds:
  assumes "apply_forward R n inc f fence log = (out, fence', log', evs)"
    and "out \<notin> {PaInvalidRange, PaSelfOriginRefused, PaFenced}"
    and "rm_holder r = osr_origin (fm_range f)" and "rm_incarnation r < fm_incarnation f"
  shows "record_receipt r fence' tr = (if rm_holder r = rm_origin r then SelfReceiptRejected else ReceiptFenced, fence', tr)"
proof -
  let ?i = "\<lparr>fi_node = osr_origin (fm_range f), fi_incarnation = fm_incarnation f\<rparr>"
  have "admit ?i fence = (Admitted, fence')"
    using assms(1,2)
    by (auto simp: apply_forward_def Let_def split: if_splits prod.splits fence_outcome.splits sum.splits)
  then have "highest_seen fence' (rm_holder r) = fm_incarnation f"
    using admit_admits assms(3) by fastforce
  with assms(4) show ?thesis
    by (simp add: record_receipt_def admit_def highest_seen_def)
qed

section \<open>The system\<close>

record 'l repl_node =
  rn_fence :: fence_table
  rn_log :: 'l
  rn_receipts :: receipt_tracker
  rn_incarnation :: incarnation

record 'l repl_system =
  sys_node :: "node_id \<Rightarrow> 'l repl_node"
  sys_sent :: "envelope set"

definition repl_init :: "'l repl_system \<Rightarrow> bool" where
  "repl_init sys \<longleftrightarrow> sys_sent sys = {} \<and> (\<forall>n. rn_fence (sys_node sys n) = fence_new
     \<and> rn_receipts (sys_node sys n) = receipts_new)"

inductive repl_step :: "'l replica_log \<Rightarrow> 'l repl_system \<Rightarrow> 'l repl_system \<Rightarrow> bool" for R where
  send: "repl_step R sys (sys\<lparr>sys_sent := insert (ForwardEnv f) (sys_sent sys)\<rparr>)"
| deliver_forward:
    "ForwardEnv f \<in> sys_sent sys \<Longrightarrow> node = sys_node sys n \<Longrightarrow>
     apply_forward R n (rn_incarnation node) f (rn_fence node) (rn_log node) = (out, fence', log', evs) \<Longrightarrow>
     repl_step R sys (sys\<lparr>sys_node := (sys_node sys)(n := node\<lparr>rn_fence := fence', rn_log := log'\<rparr>),
       sys_sent := ReceiptEnv ` receipts_of out \<union> sys_sent sys\<rparr>)"
| deliver_receipt:
    "ReceiptEnv r \<in> sys_sent sys \<Longrightarrow> node = sys_node sys n \<Longrightarrow>
     record_receipt r (rn_fence node) (rn_receipts node) = (out, fence', receipts') \<Longrightarrow>
     repl_step R sys (sys\<lparr>sys_node := (sys_node sys)(n := node\<lparr>rn_fence := fence', rn_receipts := receipts'\<rparr>)\<rparr>)"
| reboot:
    "node = sys_node sys n \<Longrightarrow>
     repl_step R sys (sys\<lparr>sys_node := (sys_node sys)(n := node\<lparr>rn_fence := fence_new,
       rn_receipts := receipts_new, rn_incarnation := inc\<rparr>)\<rparr>)"
| log_evolves:
    "node = sys_node sys n \<Longrightarrow>
     (\<And>origin pid. rl_applied_thru R (rn_log node) origin pid \<le> rl_applied_thru R log' origin pid) \<Longrightarrow>
     repl_step R sys (sys\<lparr>sys_node := (sys_node sys)(n := node\<lparr>rn_log := log'\<rparr>)\<rparr>)"

inductive repl_reachable :: "'l replica_log \<Rightarrow> 'l repl_system \<Rightarrow> bool" for R where
  init: "repl_init sys \<Longrightarrow> repl_reachable R sys"
| step: "repl_reachable R sys \<Longrightarrow> repl_step R sys sys' \<Longrightarrow> repl_reachable R sys'"

abbreviation applied_at :: "'l replica_log \<Rightarrow> 'l repl_system \<Rightarrow> node_id \<Rightarrow> node_id \<Rightarrow> partition_id \<Rightarrow> u64" where
  "applied_at R sys h \<equiv> rl_applied_thru R (rn_log (sys_node sys h))"

definition repl_inv :: "'l replica_log \<Rightarrow> 'l repl_system \<Rightarrow> bool" where
  "repl_inv R sys \<longleftrightarrow>
     (\<forall>r. ReceiptEnv r \<in> sys_sent sys \<longrightarrow>
        rm_applied_thru r \<le> applied_at R sys (rm_holder r) (rm_origin r) (rm_partition r))
     \<and> (\<forall>n. bt_wf (rn_receipts (sys_node sys n)))
     \<and> (\<forall>n h origin pid thru. bt_get (rn_receipts (sys_node sys n)) (h, origin, pid) = Some thru \<longrightarrow>
          h \<noteq> origin \<and> thru \<le> applied_at R sys h origin pid)"

lemma repl_inv_grow:
  assumes "repl_inv R sys" and "\<And>h origin pid. applied_at R sys h origin pid \<le> applied_at R sys' h origin pid"
    and "\<And>r. ReceiptEnv r \<in> sys_sent sys' \<Longrightarrow> ReceiptEnv r \<in> sys_sent sys \<or>
      rm_applied_thru r \<le> applied_at R sys' (rm_holder r) (rm_origin r) (rm_partition r)"
    and "\<And>n. bt_wf (rn_receipts (sys_node sys' n))"
    and "\<And>n h origin pid thru. bt_get (rn_receipts (sys_node sys' n)) (h, origin, pid) = Some thru \<Longrightarrow>
      bt_get (rn_receipts (sys_node sys n)) (h, origin, pid) = Some thru
      \<or> h \<noteq> origin \<and> thru \<le> applied_at R sys' h origin pid"
  shows "repl_inv R sys'"
proof -
  have "rm_applied_thru r \<le> applied_at R sys' (rm_holder r) (rm_origin r) (rm_partition r)"
    if "ReceiptEnv r \<in> sys_sent sys'" for r
    using assms(3)[OF that] order_trans[OF _ assms(2)] assms(1) unfolding repl_inv_def by blast
  moreover have "h \<noteq> origin \<and> thru \<le> applied_at R sys' h origin pid"
    if "bt_get (rn_receipts (sys_node sys' n)) (h, origin, pid) = Some thru" for n h origin pid thru
    using assms(5)[OF that]
  proof
    assume "bt_get (rn_receipts (sys_node sys n)) (h, origin, pid) = Some thru"
    then have "h \<noteq> origin" "thru \<le> applied_at R sys h origin pid"
      using assms(1) unfolding repl_inv_def by blast+
    with assms(2) show ?thesis by (blast intro: order_trans)
  qed
  ultimately show ?thesis using assms(4) unfolding repl_inv_def by blast
qed

lemma repl_inv_step:
  assumes R: "conformant_log R" and "repl_inv R sys" and "repl_step R sys sys'"
  shows "repl_inv R sys'"
  using assms(3)
proof cases
  case (send f)
  with assms(2) show ?thesis by (auto simp: repl_inv_def)
next
  case (deliver_forward f node n out fence' log' evs)
  have mono: "applied_at R sys h origin pid \<le> applied_at R sys' h origin pid" for h origin pid
    using apply_forward_log_mono[OF R deliver_forward(4)] deliver_forward by simp
  have new: "rm_applied_thru r \<le> applied_at R sys' (rm_holder r) (rm_origin r) (rm_partition r)"
    if "r \<in> receipts_of out" for r
    using apply_forward_receipt[OF R deliver_forward(4) that] deliver_forward by auto
  from assms(2) mono show ?thesis
  proof (rule repl_inv_grow)
    fix r assume "ReceiptEnv r \<in> sys_sent sys'"
    then have "ReceiptEnv r \<in> sys_sent sys \<or> r \<in> receipts_of out" using deliver_forward(1) by auto
    with new show "ReceiptEnv r \<in> sys_sent sys \<or>
        rm_applied_thru r \<le> applied_at R sys' (rm_holder r) (rm_origin r) (rm_partition r)" by blast
  qed (use deliver_forward assms(2) in \<open>auto simp: repl_inv_def split: if_splits\<close>)
next
  case (deliver_receipt r node n out fence' receipts')
  have r: "rm_applied_thru r \<le> applied_at R sys (rm_holder r) (rm_origin r) (rm_partition r)"
    using assms(2) deliver_receipt(2) by (simp add: repl_inv_def)
  have logs: "applied_at R sys' = applied_at R sys" using deliver_receipt by (auto simp: fun_eq_iff)
  have wf: "bt_wf (rn_receipts node)" using assms(2) deliver_receipt by (simp add: repl_inv_def)
  from deliver_receipt(4) have tr: "bt_wf receipts' \<and>
      (\<forall>h origin pid thru. bt_get receipts' (h, origin, pid) = Some thru \<longrightarrow>
        bt_get (rn_receipts node) (h, origin, pid) = Some thru
        \<or> h \<noteq> origin \<and> thru \<le> applied_at R sys h origin pid)"
  proof (cases rule: record_receipt_cases)
    case recorded
    have "max (map_or 0 id (bt_get (rn_receipts node) (rm_holder r, rm_origin r, rm_partition r)))
        (rm_applied_thru r) \<le> applied_at R sys (rm_holder r) (rm_origin r) (rm_partition r)"
      using assms(2) deliver_receipt(3) r
      by (cases "bt_get (rn_receipts node) (rm_holder r, rm_origin r, rm_partition r)")
        (auto simp: repl_inv_def)
    with recorded wf show ?thesis by auto
  qed (use wf in auto)
  from assms(2) show ?thesis
    by (rule repl_inv_grow) (use deliver_receipt tr logs assms(2) in \<open>auto simp: repl_inv_def split: if_splits\<close>)
next
  case (reboot node n inc)
  from assms(2) show ?thesis
    by (rule repl_inv_grow)
      (use reboot assms(2) in \<open>auto simp: repl_inv_def receipts_new_def bt_empty_def split: if_splits\<close>)
next
  case (log_evolves node n log')
  from assms(2) show ?thesis
    by (rule repl_inv_grow) (use log_evolves assms(2) in \<open>auto simp: repl_inv_def split: if_splits\<close>)
qed

lemma repl_reachable_inv:
  assumes "repl_reachable R sys" and "conformant_log R"
  shows "repl_inv R sys"
  using assms
proof (induction rule: repl_reachable.induct)
  case (init sys)
  then show ?case by (simp add: repl_init_def repl_inv_def receipts_new_def bt_empty_def)
qed (auto intro: repl_inv_step)

lemma receipted_holders:
  assumes "bt_wf tr"
  shows "card {h. \<exists>thru. bt_get tr (h, origin, pid) = Some thru \<and> s \<le> thru} = receipted_peer_count tr origin pid s"
    and "finite {h. \<exists>thru. bt_get tr (h, origin, pid) = Some thru \<and> s \<le> thru}"
proof -
  let ?P = "\<lambda>((h, o', p), watermark). o' = origin \<and> p = pid \<and> s \<le> watermark"
  let ?H = "{h. \<exists>thru. bt_get tr (h, origin, pid) = Some thru \<and> s \<le> thru}"
  have d: "distinct (map fst tr)" using assms by (simp add: bt_wf_def ssorted_distinct)
  have H: "?H = (\<lambda>((h, o', p), w). h) ` set (filter ?P tr)"
    using bt_get_Some[OF assms] by (auto simp: image_iff)
  have "inj_on (\<lambda>((h, o', p), w). h) (set (filter ?P tr))"
    using d by (auto simp: inj_on_def dest: map_of_eq_Some_iff[THEN iffD2] eq_key_imp_eq_value)
  moreover have "distinct (filter ?P tr)" using d by (simp add: distinct_map)
  ultimately show "card ?H = receipted_peer_count tr origin pid s"
    unfolding H receipted_peer_count_def by (simp only: card_image distinct_card)
  show "finite ?H" unfolding H by simp
qed

text \<open>
  C3 (DurableAck). In every reachable state of the system, when a node's receipts allow a client
  acknowledgment through \<open>last_seq\<close> at replication factor \<open>rf\<close>, there are at least \<open>rf - 1\<close> nodes
  other than the origin each of which holds every one of the sequence numbers up to \<open>last_seq\<close>
  durably: with the origin's own copy, \<open>rf\<close> copies. Message loss, duplication and reordering, forged
  forwards, stale senders and reboots included.
\<close>
theorem durable_ack:
  assumes "repl_reachable R sys" and "conformant_log R"
    and "client_ack_ready (rn_receipts (sys_node sys n)) origin pid last_seq rf"
  shows "\<exists>H. finite H \<and> rf - 1 \<le> card H \<and> origin \<notin> H
    \<and> (\<forall>h\<in>H. \<forall>s. 1 \<le> s \<and> s \<le> last_seq \<longrightarrow> rl_has_applied R (rn_log (sys_node sys h)) origin pid s)"
proof -
  let ?tr = "rn_receipts (sys_node sys n)"
  let ?H = "{h. \<exists>thru. bt_get ?tr (h, origin, pid) = Some thru \<and> last_seq \<le> thru}"
  have inv: "repl_inv R sys" using repl_reachable_inv[OF assms(1,2)] .
  then have wf: "bt_wf ?tr" by (simp add: repl_inv_def)
  have hold: "h \<noteq> origin \<and> last_seq \<le> applied_at R sys h origin pid" if "h \<in> ?H" for h
    using that inv unfolding repl_inv_def by (blast intro: order_trans)
  have "rf - 1 \<le> card ?H" "finite ?H"
    using receipted_holders[OF wf, of origin pid last_seq] assms(3) by (simp_all add: client_ack_ready_def)
  moreover have "origin \<notin> ?H" using hold by blast
  moreover have "rl_has_applied R (rn_log (sys_node sys h)) origin pid s"
    if "h \<in> ?H" "1 \<le> s" "s \<le> last_seq" for h s
    using hold[OF that(1)] that(2,3) by (intro conformant_has[OF assms(2)]) (auto intro: order_trans)
  ultimately show ?thesis by blast
qed

section \<open>A concrete log and a concrete run\<close>

text \<open>A log that only remembers its prefixes: it meets the contract.\<close>

definition ex_log :: "(node_id \<Rightarrow> partition_id \<Rightarrow> u64) replica_log" where
  "ex_log = \<lparr>
     rl_applied_thru = \<lambda>l. l,
     rl_has_applied = \<lambda>l origin pid s. 1 \<le> s \<and> s \<le> l origin pid,
     rl_apply = \<lambda>rec l.
       let origin = osr_origin (fr_range rec); pid = fr_partition rec in
       if l origin pid \<le> osr_last_seq (fr_range rec)
       then (Inr (), l(origin := (l origin)(pid := osr_last_seq (fr_range rec))))
       else (Inl ''behind'', l)\<rparr>"

lemma ex_log_conformant: "conformant_log ex_log"
  by (auto simp: conformant_log_def ex_log_def Let_def split: if_splits)

definition ex_forward :: "u64 \<Rightarrow> u64 \<Rightarrow> u64 \<Rightarrow> forward_message" where
  "ex_forward inc f l = \<lparr>fm_incarnation = inc, fm_partition = PartitionId ''p'',
     fm_range = \<lparr>osr_origin = NodeId ''a'', osr_first_seq = f, osr_last_seq = l\<rparr>,
     fm_window = 0, fm_dataset = DatasetId ''d'', fm_records = ''rows''\<rparr>"

lemmas repl_eval =
  apply_forward_def admit_def fence_new_def bt_empty_def ex_log_def ex_forward_def Let_def
  record_receipt_def build_receipt_def receipts_new_def bt_upsert_def

lemma ex_applied:
  "\<exists>fence' log' evs. apply_forward ex_log (NodeId ''b'') 1 (ex_forward 5 1 2) fence_new (\<lambda>_ _. 0)
     = (PaApplied (build_receipt (NodeId ''b'') 1 (NodeId ''a'') (PartitionId ''p'') 2), fence', log', evs)"
  by (simp add: repl_eval)

theorem peer_apply_gap_free_witness:
  "\<exists>fence' log' evs. apply_forward ex_log (NodeId ''b'') 1 (ex_forward 5 1 2) fence_new (\<lambda>_ _. 0)
     = (PaApplied (build_receipt (NodeId ''b'') 1 (NodeId ''a'') (PartitionId ''p'') 2), fence', log', evs)
     \<and> 2 \<le> rl_applied_thru ex_log log' (NodeId ''a'') (PartitionId ''p'')"
proof -
  obtain fence' log' evs where run: "apply_forward ex_log (NodeId ''b'') 1 (ex_forward 5 1 2) fence_new (\<lambda>_ _. 0)
     = (PaApplied (build_receipt (NodeId ''b'') 1 (NodeId ''a'') (PartitionId ''p'') 2), fence', log', evs)"
    using ex_applied by blast
  from peer_apply_gap_free[OF ex_log_conformant run] run show ?thesis by auto
qed

theorem fenced_across_kinds_witness:
  "\<exists>out fence' log' evs. apply_forward ex_log (NodeId ''b'') 1 (ex_forward 5 1 2) fence_new (\<lambda>_ _. 0) = (out, fence', log', evs)
     \<and> record_receipt (build_receipt (NodeId ''a'') 4 (NodeId ''b'') (PartitionId ''p'') 9) fence' receipts_new
        = (ReceiptFenced, fence', receipts_new)"
proof -
  obtain fence' log' evs where run: "apply_forward ex_log (NodeId ''b'') 1 (ex_forward 5 1 2) fence_new (\<lambda>_ _. 0)
     = (PaApplied (build_receipt (NodeId ''b'') 1 (NodeId ''a'') (PartitionId ''p'') 2), fence', log', evs)"
    using ex_applied by blast
  have "record_receipt (build_receipt (NodeId ''a'') 4 (NodeId ''b'') (PartitionId ''p'') 9) fence' receipts_new
        = (ReceiptFenced, fence', receipts_new)"
    using fenced_across_kinds[OF run, of "build_receipt (NodeId ''a'') 4 (NodeId ''b'') (PartitionId ''p'') 9" receipts_new]
    by (simp add: ex_forward_def)
  with run show ?thesis by blast
qed

theorem receipt_cumulative_witness:
  "\<exists>out fence' tr. record_receipt (build_receipt (NodeId ''b'') 1 (NodeId ''a'') (PartitionId ''p'') 2) fence_new receipts_new
     = (out, fence', tr) \<and> 2 \<le> holder_applied_thru tr (NodeId ''b'') (NodeId ''a'') (PartitionId ''p'')"
proof -
  let ?r = "build_receipt (NodeId ''b'') 1 (NodeId ''a'') (PartitionId ''p'') 2"
  obtain out fence' tr where run: "record_receipt ?r fence_new receipts_new = (out, fence', tr)"
    by (metis prod_cases3)
  moreover have "out = Recorded" using run by (auto simp: repl_eval)
  ultimately show ?thesis using receipt_cumulative[OF run] by auto
qed

definition ex_node :: "(node_id \<Rightarrow> partition_id \<Rightarrow> u64) repl_node" where
  "ex_node = \<lparr>rn_fence = fence_new, rn_log = \<lambda>_ _. 0, rn_receipts = receipts_new, rn_incarnation = 1\<rparr>"

definition ex_sys :: "(node_id \<Rightarrow> partition_id \<Rightarrow> u64) repl_system" where
  "ex_sys = \<lparr>sys_node = \<lambda>_. ex_node, sys_sent = {}\<rparr>"

lemma ex_sys_run:
  "\<exists>sys. repl_reachable ex_log sys
     \<and> client_ack_ready (rn_receipts (sys_node sys (NodeId ''a''))) (NodeId ''a'') (PartitionId ''p'') 2 2"
proof -
  let ?r = "build_receipt (NodeId ''b'') 1 (NodeId ''a'') (PartitionId ''p'') 2"
  obtain fence' log' evs where app: "apply_forward ex_log (NodeId ''b'') 1 (ex_forward 5 1 2) fence_new (\<lambda>_ _. 0)
     = (PaApplied ?r, fence', log', evs)"
    using ex_applied by blast
  let ?s1 = "ex_sys\<lparr>sys_sent := insert (ForwardEnv (ex_forward 5 1 2)) (sys_sent ex_sys)\<rparr>"
  have "repl_init ex_sys" by (simp add: repl_init_def ex_sys_def ex_node_def)
  then have r1: "repl_reachable ex_log ?s1"
    by (rule repl_reachable.step[OF repl_reachable.init repl_step.send])
  let ?s2 = "?s1\<lparr>sys_node := (sys_node ?s1)(NodeId ''b'' := (sys_node ?s1 (NodeId ''b''))\<lparr>rn_fence := fence', rn_log := log'\<rparr>),
      sys_sent := ReceiptEnv ` receipts_of (PaApplied ?r) \<union> sys_sent ?s1\<rparr>"
  have r2: "repl_reachable ex_log ?s2"
    by (rule repl_reachable.step[OF r1 repl_step.deliver_forward[OF _ refl]])
      (use app in \<open>simp_all add: ex_sys_def ex_node_def\<close>)
  obtain fence2 tr where rec: "record_receipt ?r fence_new receipts_new = (Recorded, fence2, tr)"
    and ready: "client_ack_ready tr (NodeId ''a'') (PartitionId ''p'') 2 2"
    by (simp add: repl_eval client_ack_ready_def receipted_peer_count_def)
  let ?s3 = "?s2\<lparr>sys_node := (sys_node ?s2)(NodeId ''a'' := (sys_node ?s2 (NodeId ''a''))\<lparr>rn_fence := fence2, rn_receipts := tr\<rparr>)\<rparr>"
  have "repl_reachable ex_log ?s3"
    by (rule repl_reachable.step[OF r2 repl_step.deliver_receipt[OF _ refl]])
      (use rec in \<open>simp_all add: ex_sys_def ex_node_def\<close>)
  moreover have "rn_receipts (sys_node ?s3 (NodeId ''a'')) = tr" by simp
  ultimately show ?thesis using ready by metis
qed

theorem durable_ack_witness:
  "\<exists>sys. repl_reachable ex_log sys
     \<and> client_ack_ready (rn_receipts (sys_node sys (NodeId ''a''))) (NodeId ''a'') (PartitionId ''p'') 2 2
     \<and> (\<exists>h. h \<noteq> NodeId ''a'' \<and> rl_has_applied ex_log (rn_log (sys_node sys h)) (NodeId ''a'') (PartitionId ''p'') 2)"
proof -
  obtain sys where sys: "repl_reachable ex_log sys"
    "client_ack_ready (rn_receipts (sys_node sys (NodeId ''a''))) (NodeId ''a'') (PartitionId ''p'') 2 2"
    using ex_sys_run by blast
  from durable_ack[OF sys(1) ex_log_conformant sys(2)]
  obtain H where H: "finite H" "1 \<le> card H" "NodeId ''a'' \<notin> H"
    "\<forall>h\<in>H. \<forall>s. 1 \<le> s \<and> s \<le> 2 \<longrightarrow> rl_has_applied ex_log (rn_log (sys_node sys h)) (NodeId ''a'') (PartitionId ''p'') s"
    by auto
  then obtain h where "h \<in> H" by fastforce
  moreover from this H(3) have "h \<noteq> NodeId ''a''" by blast
  moreover have "rl_has_applied ex_log (rn_log (sys_node sys h)) (NodeId ''a'') (PartitionId ''p'') 2"
    using H(4) \<open>h \<in> H\<close> by simp
  ultimately show ?thesis using sys by blast
qed

end
