(* ===== verification/Placement.thy ===== *)
theory Placement
  imports Types "HOL-Library.Multiset"
begin

unbundle bit_operations_syntax

text \<open>
  \<open>crates/duckspout-replication/src/hrw.rs\<close> and \<open>routing.rs\<close>: rendezvous placement of a partition
  over the candidate nodes, and the routing plan of one write. \<open>rf\<close> is a 16-bit number in the code;
  the only arithmetic on it is \<open>max(1)\<close> and a saturating decrement, so it is a natural number here.
\<close>

section \<open>Rendezvous hashing\<close>

definition fnv_offset_basis :: u64 where
  "fnv_offset_basis = 0xcbf29ce484222325"

definition fnv_prime :: u64 where
  "fnv_prime = 0x00000100000001b3"

definition byte_u64 :: "char \<Rightarrow> u64" where
  "byte_u64 c = of_nat (of_char c)"

fun fnv1a :: "u64 \<Rightarrow> string \<Rightarrow> u64" where
  "fnv1a state [] = state"
| "fnv1a state (b # bytes) = fnv1a ((state XOR byte_u64 b) * fnv_prime) bytes"

definition hrw_score :: "partition_id \<Rightarrow> node_id \<Rightarrow> u64" where
  "hrw_score pid node =
     fnv1a (fnv1a (fnv1a fnv_offset_basis (partition_str pid)) [CHR 0xFF]) (node_str node)"

abbreviation hrw_key :: "partition_id \<Rightarrow> node_id \<Rightarrow> u64 \<times> node_id" where
  "hrw_key pid node \<equiv> (hrw_score pid node, node)"

definition hrw_owner :: "partition_id \<Rightarrow> node_id list \<Rightarrow> node_id option" where
  "hrw_owner pid nodes = max_by_key (hrw_key pid) nodes"

text \<open>A stable sort by the reversed key: equal keys keep their order.\<close>

definition hrw_ranked :: "partition_id \<Rightarrow> node_id list \<Rightarrow> node_id list" where
  "hrw_ranked pid nodes = rev (sort_key (hrw_key pid) (rev nodes))"

section \<open>Routing\<close>

record membership_view =
  mv_candidates :: "node_id list"

fun dedup_from :: "node_id set \<Rightarrow> node_id list \<Rightarrow> node_id list" where
  "dedup_from seen [] = []"
| "dedup_from seen (n # ns) =
     (if n \<in> seen then dedup_from seen ns else n # dedup_from (insert n seen) ns)"

definition membership_new :: "node_id list \<Rightarrow> membership_view" where
  "membership_new candidates = \<lparr>mv_candidates = dedup_from {} candidates\<rparr>"

record routing_plan =
  rp_owner :: node_id
  rp_replicas :: "node_id list"
  rp_is_local_owner :: bool
  rp_rf :: nat

definition forward_targets :: "routing_plan \<Rightarrow> node_id \<Rightarrow> node_id list" where
  "forward_targets plan self_node =
     take (rp_rf plan - 1) (filter (\<lambda>node. node \<noteq> self_node) (rp_replicas plan))"

definition is_below_floor :: "routing_plan \<Rightarrow> bool" where
  "is_below_floor plan \<longleftrightarrow> length (rp_replicas plan) < rp_rf plan"

definition route_write ::
  "partition_id \<Rightarrow> node_id \<Rightarrow> membership_view \<Rightarrow> nat \<Rightarrow> routing_plan option" where
  "route_write pid self_node membership rf =
     (case hrw_ranked pid (mv_candidates membership) of
        [] \<Rightarrow> None
      | owner # rest \<Rightarrow>
          let rf = max rf 1 in
          Some \<lparr>rp_owner = owner, rp_replicas = take rf (owner # rest),
                rp_is_local_owner = (owner = self_node), rp_rf = rf\<rparr>)"

section \<open>The owner is the unique maximum\<close>

lemma hrw_owner_iff:
  "hrw_owner pid nodes = Some n \<longleftrightarrow> n \<in> set nodes \<and> (\<forall>m\<in>set nodes. hrw_key pid m \<le> hrw_key pid n)"
proof
  assume "hrw_owner pid nodes = Some n"
  then show "n \<in> set nodes \<and> (\<forall>m\<in>set nodes. hrw_key pid m \<le> hrw_key pid n)"
    unfolding hrw_owner_def by (rule max_by_key_Some)
next
  assume n: "n \<in> set nodes \<and> (\<forall>m\<in>set nodes. hrw_key pid m \<le> hrw_key pid n)"
  then obtain m where m: "hrw_owner pid nodes = Some m"
    by (cases "hrw_owner pid nodes") (auto simp: hrw_owner_def)
  from max_by_key_Some[OF this[unfolded hrw_owner_def]] n have "hrw_key pid m = hrw_key pid n"
    by (intro antisym) auto
  with m show "hrw_owner pid nodes = Some n" by simp
qed

lemma hrw_owner_None [simp]: "hrw_owner pid nodes = None \<longleftrightarrow> nodes = []"
  by (simp add: hrw_owner_def)

lemma hrw_owner_cong: "set nodes = set nodes' \<Longrightarrow> hrw_owner pid nodes = hrw_owner pid nodes'"
  by (metis hrw_owner_iff hrw_owner_None option.exhaust set_empty)

text \<open>
  Minimal disruption. The owner depends only on the set of candidates. When candidates leave and
  the owner stays, it keeps the partition; when one candidate joins, the partition stays with its
  owner or moves to the newcomer, never between two old nodes.
\<close>
theorem hrw_minimal_disruption:
  assumes "hrw_owner pid nodes = Some own"
  shows "(set nodes' \<subseteq> set nodes \<and> own \<in> set nodes' \<longrightarrow> hrw_owner pid nodes' = Some own)
    \<and> (set nodes' = insert n (set nodes) \<longrightarrow> hrw_owner pid nodes' \<in> {Some own, Some n})
    \<and> (set nodes' = set nodes \<longrightarrow> hrw_owner pid nodes' = hrw_owner pid nodes)"
proof -
  have own: "own \<in> set nodes" "\<And>m. m \<in> set nodes \<Longrightarrow> hrw_key pid m \<le> hrw_key pid own"
    using assms by (auto simp: hrw_owner_iff)
  have "hrw_owner pid nodes' \<in> {Some own, Some n}" if "set nodes' = insert n (set nodes)"
  proof (cases "hrw_key pid n \<le> hrw_key pid own")
    case True
    with own that have "hrw_owner pid nodes' = Some own" by (auto simp: hrw_owner_iff)
    then show ?thesis by simp
  next
    case False
    then have "hrw_key pid own \<le> hrw_key pid n" by (meson linear)
    then have "hrw_key pid m \<le> hrw_key pid n" if "m \<in> set nodes" for m
      using order_trans[OF own(2)[OF that]] by blast
    then have "m \<in> set nodes' \<Longrightarrow> hrw_key pid m \<le> hrw_key pid n" for m
      using that by (cases "m = n") (simp_all only: order_refl insert_iff simp_thms)
    with that have "hrw_owner pid nodes' = Some n" unfolding hrw_owner_iff by blast
    then show ?thesis by simp
  qed
  moreover have "hrw_owner pid nodes' = Some own" if "set nodes' \<subseteq> set nodes" "own \<in> set nodes'"
    unfolding hrw_owner_iff using own that by blast
  ultimately show ?thesis using hrw_owner_cong by blast
qed

theorem hrw_minimal_disruption_witness:
  "hrw_owner (PartitionId ''t.0'') [NodeId ''a''] = Some (NodeId ''a'')
   \<and> hrw_owner (PartitionId ''t.0'') [NodeId ''b'', NodeId ''a''] \<in> {Some (NodeId ''a''), Some (NodeId ''b'')}"
proof -
  have a: "hrw_owner (PartitionId ''t.0'') [NodeId ''a''] = Some (NodeId ''a'')"
    by (simp add: hrw_owner_def)
  have "set [NodeId ''b'', NodeId ''a''] = insert (NodeId ''b'') (set [NodeId ''a''])" by simp
  with hrw_minimal_disruption[OF a, of "[NodeId ''b'', NodeId ''a'']" "NodeId ''b''"] a show ?thesis by blast
qed

section \<open>Ranking\<close>

lemma mset_hrw_ranked [simp]: "mset (hrw_ranked pid nodes) = mset nodes"
  by (simp add: hrw_ranked_def)

lemma set_hrw_ranked [simp]: "set (hrw_ranked pid nodes) = set nodes"
  by (metis mset_hrw_ranked set_mset_mset)

lemma length_hrw_ranked [simp]: "length (hrw_ranked pid nodes) = length nodes"
  by (metis mset_hrw_ranked size_mset)

lemma hrw_ranked_Nil [simp]: "hrw_ranked pid nodes = [] \<longleftrightarrow> nodes = []"
  by (metis length_0_conv length_hrw_ranked)

lemma hrw_ranked_empty [simp]: "hrw_ranked pid [] = []"
  by (simp add: hrw_ranked_def)

lemma distinct_hrw_ranked [simp]: "distinct (hrw_ranked pid nodes) = distinct nodes"
  by (metis mset_eq_imp_distinct_iff mset_hrw_ranked)

lemma sorted_hrw_ranked: "sorted_wrt (\<lambda>a b. hrw_key pid b \<le> hrw_key pid a) (hrw_ranked pid nodes)"
proof -
  have "sorted (map (hrw_key pid) (sort_key (hrw_key pid) (rev nodes)))" by simp
  then show ?thesis by (simp add: hrw_ranked_def sorted_wrt_rev sorted_wrt_map)
qed

lemma hrw_ranked_hd: "hrw_ranked pid nodes = n # rest \<Longrightarrow> hrw_owner pid nodes = Some n"
  using sorted_hrw_ranked[of pid nodes] set_hrw_ranked[of pid nodes]
  by (auto simp: hrw_owner_iff)

text \<open>Restricting the candidates keeps the order of those that stay.\<close>

lemma hrw_ranked_filter: "hrw_ranked pid (filter P nodes) = filter P (hrw_ranked pid nodes)"
  by (simp add: hrw_ranked_def filter_sort flip: rev_filter)

lemma dedup_from_props:
  "set (dedup_from seen ns) = set ns - seen" "distinct (dedup_from seen ns)"
  by (induction seen ns rule: dedup_from.induct) auto

lemma membership_new_props [simp]:
  "set (mv_candidates (membership_new ns)) = set ns" "distinct (mv_candidates (membership_new ns))"
  by (simp_all add: membership_new_def dedup_from_props)

lemma dedup_from_distinct: "distinct ns \<Longrightarrow> set ns \<inter> seen = {} \<Longrightarrow> dedup_from seen ns = ns"
  by (induction ns arbitrary: seen) auto

lemma route_write_Some:
  "route_write pid self m rf = Some plan \<longleftrightarrow>
     mv_candidates m \<noteq> [] \<and> plan = \<lparr>rp_owner = hd (hrw_ranked pid (mv_candidates m)),
       rp_replicas = take (max rf 1) (hrw_ranked pid (mv_candidates m)),
       rp_is_local_owner = (hd (hrw_ranked pid (mv_candidates m)) = self), rp_rf = max rf 1\<rparr>"
proof (cases "hrw_ranked pid (mv_candidates m)")
  case Nil
  then have "mv_candidates m = []" by simp
  with Nil show ?thesis by (simp add: route_write_def)
next
  case (Cons x xs)
  then have "mv_candidates m \<noteq> []" using hrw_ranked_Nil by (metis list.distinct(1))
  with Cons show ?thesis by (auto simp: route_write_def Let_def)
qed

lemma filter_other:
  "distinct xs \<Longrightarrow> length (filter (\<lambda>x. x \<noteq> a) xs) = (if a \<in> set xs then length xs - 1 else length xs)"
  by (induction xs) (auto simp: Suc_diff_le length_greater_0_conv dest: length_pos_if_in_set)

lemma in_set_takeI: "i < n \<Longrightarrow> i < length xs \<Longrightarrow> xs ! i \<in> set (take n xs)"
  by (metis in_set_conv_nth length_take min_less_iff_conj nth_take)

text \<open>
  The routing plan of a write: its owner is the placement's owner over the membership, the
  replicas are distinct candidates that start with the owner, there are \<open>rf\<close> of them unless the
  membership is smaller, which is exactly what \<open>is_below_floor\<close> reports, and a plan exists unless
  there is no candidate at all.
\<close>
theorem route_write_plan:
  "(route_write pid self (membership_new ns) rf = None \<longleftrightarrow> ns = [])
   \<and> (\<forall>plan. route_write pid self (membership_new ns) rf = Some plan \<longrightarrow>
        hrw_owner pid ns = Some (rp_owner plan)
        \<and> rp_replicas plan \<noteq> [] \<and> hd (rp_replicas plan) = rp_owner plan
        \<and> distinct (rp_replicas plan) \<and> set (rp_replicas plan) \<subseteq> set ns
        \<and> length (rp_replicas plan) = min (max rf 1) (card (set ns))
        \<and> (is_below_floor plan \<longleftrightarrow> card (set ns) < max rf 1)
        \<and> (rp_is_local_owner plan \<longleftrightarrow> rp_owner plan = self))"
proof -
  let ?c = "mv_candidates (membership_new ns)" and ?m = "membership_new ns"
  let ?r = "hrw_ranked pid ?c"
  have card: "card (set ns) = length ?c" by (metis distinct_card membership_new_props)
  have none: "?c = [] \<longleftrightarrow> ns = []" by (metis membership_new_props(1) set_empty)
  have "route_write pid self ?m rf = None \<longleftrightarrow> ns = []"
    using route_write_Some[of pid self ?m rf] none by (cases "route_write pid self ?m rf") auto
  moreover have "hrw_owner pid ns = Some (rp_owner plan)
        \<and> rp_replicas plan \<noteq> [] \<and> hd (rp_replicas plan) = rp_owner plan
        \<and> distinct (rp_replicas plan) \<and> set (rp_replicas plan) \<subseteq> set ns
        \<and> length (rp_replicas plan) = min (max rf 1) (card (set ns))
        \<and> (is_below_floor plan \<longleftrightarrow> card (set ns) < max rf 1)
        \<and> (rp_is_local_owner plan \<longleftrightarrow> rp_owner plan = self)"
    if "route_write pid self ?m rf = Some plan" for plan
  proof -
    from that have c: "?c \<noteq> []" and plan: "plan = \<lparr>rp_owner = hd ?r, rp_replicas = take (max rf 1) ?r,
        rp_is_local_owner = (hd ?r = self), rp_rf = max rf 1\<rparr>"
      by (auto simp: route_write_Some)
    from c have r: "?r \<noteq> []" by (metis length_0_conv length_hrw_ranked)
    then have "hrw_owner pid ?c = Some (hd ?r)" using hrw_ranked_hd[of pid ?c "hd ?r" "tl ?r"] by simp
    then have "hrw_owner pid ns = Some (hd ?r)" using hrw_owner_cong[of ?c ns pid] by simp
    moreover have "set (take (max rf 1) ?r) \<subseteq> set ns" using set_take_subset[of "max rf 1" ?r] by simp
    ultimately show ?thesis
      using plan r card by (auto simp: is_below_floor_def hd_take)
  qed
  ultimately show ?thesis by blast
qed

text \<open>A membership with two nodes, for the witnesses: no score is needed to know what they share.\<close>

theorem route_write_plan_witness:
  "\<exists>plan. route_write (PartitionId ''t.0'') (NodeId ''a'') (membership_new [NodeId ''a'', NodeId ''b'']) 3 = Some plan
     \<and> length (rp_replicas plan) = 2 \<and> is_below_floor plan"
proof -
  let ?run = "route_write (PartitionId ''t.0'') (NodeId ''a'') (membership_new [NodeId ''a'', NodeId ''b'']) 3"
  note p = route_write_plan[of "PartitionId ''t.0''" "NodeId ''a''" "[NodeId ''a'', NodeId ''b'']" 3]
  then obtain plan where plan: "?run = Some plan" by auto
  from p[THEN conjunct2, rule_format, OF this] have "length (rp_replicas plan) = min (max 3 1) 2"
    and "is_below_floor plan \<longleftrightarrow> (2 :: nat) < max 3 1" by auto
  with plan show ?thesis by simp
qed

text \<open>
  Total-inclusive replication. When the membership has at least \<open>rf\<close> nodes, the peers a batch is
  forwarded to are distinct, do not include the accepting node, and make with the accepting node's own
  copy exactly \<open>rf\<close> copies; for \<open>rf\<close> at least 2 the owner is one of the copies' holders.
\<close>
theorem forward_targets_exact:
  assumes "route_write pid self (membership_new ns) rf = Some plan" and "\<not> is_below_floor plan"
  shows "distinct (forward_targets plan self) \<and> self \<notin> set (forward_targets plan self)
    \<and> card (insert self (set (forward_targets plan self))) = max rf 1
    \<and> (2 \<le> rf \<longrightarrow> rp_owner plan \<in> insert self (set (forward_targets plan self)))"
proof -
  let ?r = "take (max rf 1) (hrw_ranked pid (mv_candidates (membership_new ns)))"
  let ?o = "filter (\<lambda>node. node \<noteq> self) ?r"
  have plan: "rp_replicas plan = ?r" "rp_rf plan = max rf 1" "rp_owner plan = hd ?r" "?r \<noteq> []"
    using assms(1) by (auto simp: route_write_Some hd_take)
  have len: "length ?r = max rf 1" using assms(2) plan by (auto simp: is_below_floor_def)
  have d: "distinct ?r" by simp
  let ?t = "take (max rf 1 - 1) ?o"
  have t: "forward_targets plan self = ?t" by (simp add: forward_targets_def plan)
  have sub: "set ?t \<subseteq> set ?o" by (rule set_take_subset)
  have "length ?t = max rf 1 - 1"
    using filter_other[OF d, of self] len by (simp split: if_splits)
  moreover have "distinct ?t" using d by (simp add: distinct_filter)
  ultimately have "card (set ?t) = max rf 1 - 1" by (simp add: distinct_card)
  moreover have self: "self \<notin> set ?t" using sub by auto
  ultimately have "card (insert self (set ?t)) = max rf 1" by simp
  moreover have "rp_owner plan \<in> insert self (set ?t)" if "2 \<le> rf"
  proof (cases "hd ?r = self")
    case False
    then have "?o = hd ?r # filter (\<lambda>node. node \<noteq> self) (tl ?r)"
      using plan(4) by (metis (mono_tags, lifting) filter.simps(2) list.collapse)
    with that have "hd ?r \<in> set ?t" by (cases "max rf 1 - 1") auto
    with plan show ?thesis by simp
  qed (use plan in simp)
  ultimately show ?thesis using t self \<open>distinct ?t\<close> by simp
qed

theorem forward_targets_exact_witness:
  "\<exists>plan. route_write (PartitionId ''t.0'') (NodeId ''a'') (membership_new [NodeId ''a'', NodeId ''b'']) 2 = Some plan
     \<and> card (insert (NodeId ''a'') (set (forward_targets plan (NodeId ''a'')))) = 2"
proof -
  let ?m = "membership_new [NodeId ''a'', NodeId ''b'']"
  obtain plan where plan: "route_write (PartitionId ''t.0'') (NodeId ''a'') ?m 2 = Some plan"
    using route_write_Some[of "PartitionId ''t.0''" "NodeId ''a''" ?m 2]
    by (auto simp: membership_new_def)
  then have "\<not> is_below_floor plan"
    by (auto simp: route_write_Some is_below_floor_def membership_new_def)
  from forward_targets_exact[OF plan this] plan show ?thesis by auto
qed

end
