(* ===== verification/Boot.thy ===== *)
theory Boot
  imports Fencing
begin

text \<open>
  \<open>crates/duckspout-replication/src/boot.rs\<close>: the boot ceremony of a node. Storage and registry are
  ports, given as a record of functions over an abstract state. The trimming and parsing of the
  persisted text follow \<open>str::trim\<close> and \<open>str::parse::<u64>\<close>; the check that the
  bytes are UTF-8 is a parameter of the port record, as is the text of the errors.
\<close>

section \<open>Reading a persisted number\<close>

text \<open>The UTF-8 encodings of the characters with the Unicode property \<open>White_Space\<close>.\<close>

definition space_encodings :: "string list" where
  "space_encodings =
     [[CHR 0x20], [CHR 0x09], [CHR 0x0A], [CHR 0x0B], [CHR 0x0C], [CHR 0x0D],
      [CHR 0xC2, CHR 0x85], [CHR 0xC2, CHR 0xA0], [CHR 0xE1, CHR 0x9A, CHR 0x80]]
     @ map (\<lambda>n. [CHR 0xE2, CHR 0x80, char_of (128 + n)]) [0..<11]
     @ [[CHR 0xE2, CHR 0x80, CHR 0xA8], [CHR 0xE2, CHR 0x80, CHR 0xA9], [CHR 0xE2, CHR 0x80, CHR 0xAF],
        [CHR 0xE2, CHR 0x81, CHR 0x9F], [CHR 0xE3, CHR 0x80, CHR 0x80]]"

fun strip_any :: "string list \<Rightarrow> string \<Rightarrow> string option" where
  "strip_any [] s = None"
| "strip_any (p # ps) s =
     (if p \<noteq> [] \<and> take (length p) s = p then Some (drop (length p) s) else strip_any ps s)"

lemma strip_any_shorter: "strip_any ps s = Some s' \<Longrightarrow> length s' < length s"
proof (induction ps)
  case (Cons p ps)
  then show ?case by (cases s) (auto split: if_splits)
qed simp

function trim_start :: "string list \<Rightarrow> string \<Rightarrow> string" where
  "trim_start ps s = (case strip_any ps s of None \<Rightarrow> s | Some s' \<Rightarrow> trim_start ps s')"
  by pat_completeness auto
termination
  by (relation "measure (\<lambda>(ps, s). length s)") (auto dest: strip_any_shorter)

declare trim_start.simps [simp del]

definition trim :: "string \<Rightarrow> string" where
  "trim s = rev (trim_start (map rev space_encodings) (rev (trim_start space_encodings s)))"

text \<open>\<open>u64::from_str\<close>: an optional plus sign, then at least one digit, within the range.\<close>

definition parse_u64 :: "string \<Rightarrow> u64 option" where
  "parse_u64 s =
     (let digits = (case s of CHR ''+'' # rest \<Rightarrow> rest | _ \<Rightarrow> s) in
      if digits \<noteq> [] \<and> list_all is_digit digits \<and> read_nat digits < 2 ^ 64
      then Some (of_nat (read_nat digits)) else None)"

section \<open>The code\<close>

datatype registry_error = RegistryUnreachable string | RegistryBackendError string

datatype boot_outcome = Active incarnation | Degraded incarnation | Waiting

definition permits_ownership_actions :: "boot_outcome \<Rightarrow> bool" where
  "permits_ownership_actions outcome \<longleftrightarrow> (case outcome of Active _ \<Rightarrow> True | _ \<Rightarrow> False)"

datatype boot_error =
    PersistedIncarnationUnreadable storage_error
  | PersistedIncarnationCorrupt string
  | RegistryBackend registry_error
  | RegistryIncarnationRegressed u64 "u64 option"
  | PersistFailed storage_error

record 's boot_ports =
  b_get :: "storage_path \<Rightarrow> 's \<Rightarrow> (storage_error, string) result \<times> 's"
  b_put :: "storage_path \<Rightarrow> string \<Rightarrow> 's \<Rightarrow> (storage_error, unit) result \<times> 's"
  b_fsync_file :: "storage_path \<Rightarrow> 's \<Rightarrow> (storage_error, unit) result \<times> 's"
  b_fsync_dir :: "storage_path \<Rightarrow> 's \<Rightarrow> (storage_error, unit) result \<times> 's"
  b_next_incarnation :: "node_id \<Rightarrow> 's \<Rightarrow> (registry_error, u64) result \<times> 's"
  b_utf8_error :: "string \<Rightarrow> string option"
  b_parse_error :: "string \<Rightarrow> string"

definition parse_persisted :: "'s boot_ports \<Rightarrow> string \<Rightarrow> (boot_error, u64 option) result" where
  "parse_persisted B bytes =
     (case b_utf8_error B bytes of
        Some err \<Rightarrow> Inl (PersistedIncarnationCorrupt (''not valid UTF-8: '' @ err))
      | None \<Rightarrow>
          case parse_u64 (trim bytes) of
            None \<Rightarrow> Inl (PersistedIncarnationCorrupt (b_parse_error B (trim bytes)))
          | Some value \<Rightarrow> Inr (Some value))"

definition read_persisted_incarnation ::
  "'s boot_ports \<Rightarrow> storage_path \<Rightarrow> 's \<Rightarrow> (boot_error, u64 option) result \<times> 's" where
  "read_persisted_incarnation B path s =
     (case b_get B path s of
        (Inr bytes, s) \<Rightarrow> (parse_persisted B bytes, s)
      | (Inl (NotFound _), s) \<Rightarrow> (Inr None, s)
      | (Inl err, s) \<Rightarrow> (Inl (PersistedIncarnationUnreadable err), s))"

definition persist_incarnation ::
  "'s boot_ports \<Rightarrow> storage_path \<Rightarrow> storage_path \<Rightarrow> u64 \<Rightarrow> 's \<Rightarrow> (boot_error, unit) result \<times> 's" where
  "persist_incarnation B path dir inc s =
     and_then (err_into PersistFailed (b_put B path (show_nat (unat inc)) s)) (\<lambda>_ s.
     and_then (err_into PersistFailed (b_fsync_file B path s)) (\<lambda>_ s.
     and_then (err_into PersistFailed (b_fsync_dir B dir s)) (\<lambda>_ s. (Inr (), s))))"

definition fence_boot ::
  "'s boot_ports \<Rightarrow> node_id \<Rightarrow> storage_path \<Rightarrow> storage_path \<Rightarrow> 's
     \<Rightarrow> (boot_error, boot_outcome) result \<times> 's" where
  "fence_boot B self_node path dir s =
     and_then (read_persisted_incarnation B path s) (\<lambda>persisted s.
       case b_next_incarnation B self_node s of
         (Inr fresh, s) \<Rightarrow>
           if fresh = 0 \<or> map_or False (\<lambda>prior. fresh \<le> prior) persisted
           then (Inl (RegistryIncarnationRegressed fresh persisted), s)
           else and_then (persist_incarnation B path dir fresh s) (\<lambda>_ s. (Inr (Active fresh), s))
       | (Inl (RegistryUnreachable _), s) \<Rightarrow>
           (Inr (case persisted of Some inc \<Rightarrow> Degraded inc | None \<Rightarrow> Waiting), s)
       | (Inl err, s) \<Rightarrow> (Inl (RegistryBackend err), s))"

section \<open>The persisted number reads back\<close>

lemma strip_any_digit:
  assumes "is_digit c" and "\<forall>p\<in>set ps. p = [] \<or> \<not> is_digit (hd p)"
  shows "strip_any ps (c # s) = None"
  using assms(2)
proof (induction ps)
  case (Cons p ps)
  then show ?case using assms(1) by (cases p) auto
qed simp

lemma trim_start_digits:
  assumes "list_all is_digit s" and "\<forall>p\<in>set ps. p = [] \<or> \<not> is_digit (hd p)"
  shows "trim_start ps s = s"
proof -
  have "strip_any ps [] = None" by (induction ps) auto
  then have "strip_any ps s = None" using assms strip_any_digit by (cases s) auto
  then show ?thesis by (simp add: trim_start.simps)
qed

lemma space_encodings_not_digit:
  "p \<in> set space_encodings \<Longrightarrow> \<not> is_digit (hd p)"
  "p \<in> set (map rev space_encodings) \<Longrightarrow> \<not> is_digit (hd p)"
  by (auto simp: space_encodings_def is_digit_def)

lemma trim_digits: "list_all is_digit s \<Longrightarrow> trim s = s"
  using space_encodings_not_digit
  by (simp add: trim_def trim_start_digits list_all_iff)

lemma parse_show: "parse_u64 (trim (show_nat (unat n))) = Some n"
proof -
  have digits: "list_all is_digit (show_nat (unat n))"
    using show_nat_digits by (auto simp: list_all_iff)
  have "\<not> is_digit (CHR ''+'')" by (simp add: is_digit_def)
  with digits have "(case show_nat (unat n) of CHR ''+'' # rest \<Rightarrow> rest | _ \<Rightarrow> show_nat (unat n)) = show_nat (unat n)"
    by (cases "show_nat (unat n)") (auto split: list.splits char.splits bool.splits)
  with digits show ?thesis
    using u64_bound[of n] by (simp add: parse_u64_def trim_digits Let_def)
qed

section \<open>What a boot ends with\<close>

lemma persist_incarnation_ok:
  assumes "persist_incarnation B path dir inc s = (Inr (), s')"
  obtains s1 s2 where "b_put B path (show_nat (unat inc)) s = (Inr (), s1)"
    "b_fsync_file B path s1 = (Inr (), s2)" "b_fsync_dir B dir s2 = (Inr (), s')"
  using assms by (auto simp: persist_incarnation_def and_then_Inr)

lemma fence_boot_cases:
  assumes "fence_boot B n path dir s = (Inr out, s')"
  obtains (active) persisted s1 inc s2 where "read_persisted_incarnation B path s = (Inr persisted, s1)"
    "b_next_incarnation B n s1 = (Inr inc, s2)" "inc \<noteq> 0" "\<And>prior. persisted = Some prior \<Longrightarrow> prior < inc"
    "persist_incarnation B path dir inc s2 = (Inr (), s')" "out = Active inc"
  | (unreachable) persisted s1 e where "read_persisted_incarnation B path s = (Inr persisted, s1)"
    "b_next_incarnation B n s1 = (Inl (RegistryUnreachable e), s')"
    "out = (case persisted of Some inc \<Rightarrow> Degraded inc | None \<Rightarrow> Waiting)"
proof -
  obtain pr s1 where rd: "read_persisted_incarnation B path s = (pr, s1)" by fastforce
  obtain nr s2 where nx: "b_next_incarnation B n s1 = (nr, s2)" by fastforce
  from rd assms obtain persisted where pr: "pr = Inr persisted"
    by (cases pr) (auto simp: fence_boot_def)
  show thesis
  proof (cases nr)
    case (Inr inc)
    with assms rd nx pr have ok: "inc \<noteq> 0" "\<not> map_or False (\<lambda>prior. inc \<le> prior) persisted"
      and run: "and_then (persist_incarnation B path dir inc s2) (\<lambda>_ s. (Inr (Active inc), s)) = (Inr out, s')"
      by (auto simp: fence_boot_def split: if_splits)
    from ok(2) have lt: "prior < inc" if "persisted = Some prior" for prior
      using that by (simp add: not_le)
    from run have "persist_incarnation B path dir inc s2 = (Inr (), s')" "out = Active inc"
      by (auto simp: and_then_Inr)
    with active rd nx pr Inr ok(1) lt show thesis by blast
  next
    case (Inl e)
    with assms rd nx pr have "\<exists>t. e = RegistryUnreachable t" "s' = s2"
      "out = (case persisted of Some inc \<Rightarrow> Degraded inc | None \<Rightarrow> Waiting)"
      by (cases e; auto simp: fence_boot_def)+
    with unreachable rd nx pr Inl show thesis by blast
  qed
qed

text \<open>
  What the ceremony relies on of its ports: the content of a file is what was last put there, reads,
  syncs and registry calls leave the files alone, and a file that is not found has no content.
\<close>

definition storage_law :: "'s boot_ports \<Rightarrow> ('s \<Rightarrow> storage_path \<Rightarrow> string option) \<Rightarrow> bool" where
  "storage_law B content \<longleftrightarrow>
     (\<forall>p s r s'. b_get B p s = (r, s') \<longrightarrow> content s' = content s
        \<and> (\<forall>bytes. r = Inr bytes \<longrightarrow> content s p = Some bytes)
        \<and> (\<forall>q. r = Inl (NotFound q) \<longrightarrow> content s p = None))
     \<and> (\<forall>p d s s'. b_put B p d s = (Inr (), s') \<longrightarrow> content s' = (content s)(p \<mapsto> d))
     \<and> (\<forall>p s r s'. b_fsync_file B p s = (r, s') \<longrightarrow> content s' = content s)
     \<and> (\<forall>p s r s'. b_fsync_dir B p s = (r, s') \<longrightarrow> content s' = content s)
     \<and> (\<forall>n s r s'. b_next_incarnation B n s = (r, s') \<longrightarrow> content s' = content s)"

lemma storage_law_get:
  assumes "storage_law B content" and "b_get B p s = (r, s')"
  shows "content s' = content s" and "r = Inr bytes \<Longrightarrow> content s p = Some bytes"
    and "r = Inl (NotFound q) \<Longrightarrow> content s p = None"
  using assms(1)[unfolded storage_law_def, THEN conjunct1, rule_format, OF assms(2)] by auto

lemma persisted_content:
  assumes law: "storage_law B content" and "persist_incarnation B path dir inc s = (Inr (), s')"
  shows "content s' path = Some (show_nat (unat inc))"
proof -
  obtain s1 s2 where "b_put B path (show_nat (unat inc)) s = (Inr (), s1)"
    and "b_fsync_file B path s1 = (Inr (), s2)" and "b_fsync_dir B dir s2 = (Inr (), s')"
    using assms(2) by (rule persist_incarnation_ok)
  with law have "content s1 = (content s)(path \<mapsto> show_nat (unat inc))"
    and "content s2 = content s1" and "content s' = content s2"
    unfolding storage_law_def by blast+
  then show ?thesis by simp
qed

lemma read_back:
  assumes law: "storage_law B content" and "content s path = Some (show_nat (unat inc))"
    and "read_persisted_incarnation B path s = (Inr persisted, s')"
  shows "persisted = Some inc"
proof -
  obtain r s1 where g: "b_get B path s = (r, s1)" by fastforce
  note gl = storage_law_get[OF law g]
  show ?thesis
  proof (cases r)
    case (Inr bytes)
    with gl(2)[OF Inr] assms(2) have "bytes = show_nat (unat inc)" by simp
    with assms(3) g Inr show ?thesis
      by (auto simp: read_persisted_incarnation_def parse_persisted_def parse_show split: option.splits)
  next
    case (Inl e)
    with gl(3) assms(2) have "\<And>q. e \<noteq> NotFound q" by auto
    with assms(3) g Inl show ?thesis
      by (cases e) (auto simp: read_persisted_incarnation_def)
  qed
qed

text \<open>
  Incarnations never regress over reboots. After a boot that ended \<open>Active\<close> with incarnation \<open>i\<close>,
  any later boot of the node that still finds the file either is \<open>Active\<close> with a strictly greater
  incarnation, or \<open>Degraded\<close> with exactly \<open>i\<close>; it is never \<open>Waiting\<close>. Only an \<open>Active\<close> boot permits
  ownership actions.
\<close>
theorem boot_incarnation_increases:
  assumes law: "storage_law B content"
    and first: "fence_boot B n path dir s = (Inr (Active i), s1)"
    and kept: "content s2 path = content s1 path"
    and again: "fence_boot B n path dir s2 = (Inr out, s3)"
  shows "(\<exists>j>i. out = Active j) \<or> out = Degraded i \<and> \<not> permits_ownership_actions out"
proof -
  from first obtain sa where "persist_incarnation B path dir i sa = (Inr (), s1)"
    by (cases rule: fence_boot_cases) (auto split: option.splits)
  from persisted_content[OF law this] kept have c: "content s2 path = Some (show_nat (unat i))" by simp
  from again show ?thesis
  proof (cases rule: fence_boot_cases)
    case (active persisted sb inc sc)
    with read_back[OF law c active(1)] show ?thesis by blast
  next
    case (unreachable persisted sb e)
    with read_back[OF law c unreachable(1)] show ?thesis by (simp add: permits_ownership_actions_def)
  qed
qed

text \<open>Storage as a map of files beside a registry that counts up.\<close>

definition ex_boot :: "((storage_path \<rightharpoonup> string) \<times> u64) boot_ports" where
  "ex_boot = \<lparr>
     b_get = \<lambda>p s. (case fst s p of None \<Rightarrow> Inl (NotFound p) | Some d \<Rightarrow> Inr d, s),
     b_put = \<lambda>p d s. (Inr (), (fst s)(p \<mapsto> d), snd s),
     b_fsync_file = \<lambda>p s. (Inr (), s), b_fsync_dir = \<lambda>p s. (Inr (), s),
     b_next_incarnation = \<lambda>n s. (Inr (snd s + 1), fst s, snd s + 1),
     b_utf8_error = \<lambda>bytes. None, b_parse_error = \<lambda>bytes. ''invalid digit''\<rparr>"

lemma ex_boot_law: "storage_law ex_boot fst"
  by (auto simp: storage_law_def ex_boot_def split: option.splits)

lemmas boot_eval =
  fence_boot_def ex_boot_def read_persisted_incarnation_def persist_incarnation_def parse_persisted_def

theorem boot_incarnation_increases_witness:
  "\<exists>s1 s3 j. fence_boot ex_boot (NodeId ''a'') ''inc'' ''dir'' (Map.empty, 6) = (Inr (Active 7), s1)
     \<and> fence_boot ex_boot (NodeId ''a'') ''inc'' ''dir'' s1 = (Inr (Active j), s3) \<and> 7 < j"
proof -
  let ?s1 = "([''inc'' \<mapsto> show_nat 7], 7)"
  have first: "fence_boot ex_boot (NodeId ''a'') ''inc'' ''dir'' (Map.empty, 6) = (Inr (Active 7), ?s1)"
    by (simp add: boot_eval)
  have "parse_u64 (trim (show_nat 7)) = Some 7" using parse_show[of 7] by simp
  then have "\<exists>s3. fence_boot ex_boot (NodeId ''a'') ''inc'' ''dir'' ?s1 = (Inr (Active 8), s3)"
    by (simp add: boot_eval)
  then obtain s3 where again: "fence_boot ex_boot (NodeId ''a'') ''inc'' ''dir'' ?s1 = (Inr (Active 8), s3)" by blast
  from boot_incarnation_increases[OF ex_boot_law first _ again] first again show ?thesis by auto
qed

end
