(* ===== verification/Takeover.thy ===== *)
theory Takeover
  imports Placement Boot Ledger
begin

text \<open>
  \<open>crates/duckspout-replication/src/takeover.rs\<close>: who owns a dead node's partition, when the new owner
  raises a takeover drain, and which coverage the dead owner's committed part leaves over.
\<close>

section \<open>The ownership transition\<close>

record takeover_decision =
  td_partition :: partition_id
  td_dead_owner :: node_id
  td_old_owner :: node_id
  td_new_plan :: routing_plan
  td_self_is_new_owner :: bool
  td_self_was_replica_before :: bool

record takeover_drain_signal =
  ts_partition :: partition_id
  ts_dead_owner :: node_id
  ts_new_owner :: node_id

definition is_genuine_takeover :: "takeover_decision \<Rightarrow> bool" where
  "is_genuine_takeover d \<longleftrightarrow> td_old_owner d = td_dead_owner d"

definition requires_declare_loss :: "takeover_decision \<Rightarrow> bool" where
  "requires_declare_loss d \<longleftrightarrow>
     is_genuine_takeover d \<and> td_self_is_new_owner d \<and> \<not> td_self_was_replica_before d"

definition takeover_signal :: "takeover_decision \<Rightarrow> takeover_drain_signal" where
  "takeover_signal d = \<lparr>ts_partition = td_partition d, ts_dead_owner = td_dead_owner d,
     ts_new_owner = rp_owner (td_new_plan d)\<rparr>"

definition resolve_takeover ::
  "partition_id \<Rightarrow> node_id \<Rightarrow> node_id \<Rightarrow> membership_view \<Rightarrow> nat \<Rightarrow> takeover_decision option" where
  "resolve_takeover pid dead_node self_node membership rf =
     Option.bind (route_write pid self_node membership rf) (\<lambda>old_plan.
       let survivors = filter (\<lambda>node. node \<noteq> dead_node) (mv_candidates membership) in
       Option.bind (route_write pid self_node (membership_new survivors) rf) (\<lambda>new_plan.
         Some \<lparr>td_partition = pid, td_dead_owner = dead_node, td_old_owner = rp_owner old_plan,
               td_new_plan = new_plan, td_self_is_new_owner = rp_is_local_owner new_plan,
               td_self_was_replica_before = (self_node \<in> set (rp_replicas old_plan))\<rparr>))"

section \<open>The trigger\<close>

type_synonym takeover_tracker = "(partition_id \<times> node_id) set"

definition takeover_tracker_new :: takeover_tracker where
  "takeover_tracker_new = {}"

definition should_trigger :: "takeover_tracker \<Rightarrow> takeover_decision \<Rightarrow> boot_outcome \<Rightarrow> bool" where
  "should_trigger triggered d boot \<longleftrightarrow>
     is_genuine_takeover d \<and> td_self_is_new_owner d \<and> td_self_was_replica_before d
     \<and> permits_ownership_actions boot \<and> (td_partition d, td_dead_owner d) \<notin> triggered"

definition mark_triggered :: "partition_id \<Rightarrow> node_id \<Rightarrow> takeover_tracker \<Rightarrow> takeover_tracker" where
  "mark_triggered pid dead_owner triggered = insert (pid, dead_owner) triggered"

section \<open>The residue\<close>

fun residue_loop :: "node_id \<Rightarrow> u64 \<Rightarrow> u64 \<Rightarrow> (u64 \<times> u64) list \<Rightarrow> origin_seq_range list" where
  "residue_loop origin last_seq cursor [] =
     (if cursor \<le> last_seq
      then [\<lparr>osr_origin = origin, osr_first_seq = cursor, osr_last_seq = last_seq\<rparr>] else [])"
| "residue_loop origin last_seq cursor ((cut_first, cut_last) # cuts) =
     (if cursor < cut_first
      then [\<lparr>osr_origin = origin, osr_first_seq = cursor, osr_last_seq = cut_first - 1\<rparr>] else [])
     @ residue_loop origin last_seq (max cursor (u64_saturating_add cut_last 1)) cuts"

definition cuts_of :: "origin_seq_range list \<Rightarrow> origin_seq_range \<Rightarrow> (u64 \<times> u64) list" where
  "cuts_of winner_coverage r =
     sort (map (\<lambda>w. (max (osr_first_seq w) (osr_first_seq r), min (osr_last_seq w) (osr_last_seq r)))
       (filter (\<lambda>w. osr_origin w = osr_origin r \<and> osr_first_seq w \<le> osr_last_seq r
                   \<and> osr_first_seq r \<le> osr_last_seq w) winner_coverage))"

definition compute_residue :: "origin_seq_range list \<Rightarrow> origin_seq_range list \<Rightarrow> origin_seq_range list" where
  "compute_residue window_coverage winner_coverage =
     concat (map (\<lambda>r. residue_loop (osr_origin r) (osr_last_seq r) (osr_first_seq r)
       (cuts_of winner_coverage r)) window_coverage)"

section \<open>The new owner was a replica\<close>

lemma resolve_takeover_Some:
  assumes "resolve_takeover pid dead self m rf = Some d"
  shows "td_partition d = pid" "td_dead_owner d = dead"
    "td_old_owner d = hd (hrw_ranked pid (mv_candidates m))"
    "td_self_was_replica_before d \<longleftrightarrow> self \<in> set (take (max rf 1) (hrw_ranked pid (mv_candidates m)))"
    "td_self_is_new_owner d \<longleftrightarrow> rp_owner (td_new_plan d) = self"
    "route_write pid self (membership_new (filter (\<lambda>n. n \<noteq> dead) (mv_candidates m))) rf = Some (td_new_plan d)"
    "mv_candidates m \<noteq> []"
  using assms by (auto simp: resolve_takeover_def Let_def route_write_Some bind_eq_Some_conv)

lemma new_owner_ranked:
  assumes "resolve_takeover pid dead self (membership_new ns) rf = Some d"
  shows "rp_owner (td_new_plan d) = hd (filter (\<lambda>n. n \<noteq> dead) (hrw_ranked pid (mv_candidates (membership_new ns))))"
    and "filter (\<lambda>n. n \<noteq> dead) (hrw_ranked pid (mv_candidates (membership_new ns))) \<noteq> []"
proof -
  let ?c = "mv_candidates (membership_new ns)"
  have "mv_candidates (membership_new (filter (\<lambda>n. n \<noteq> dead) ?c)) = filter (\<lambda>n. n \<noteq> dead) ?c"
    by (simp add: membership_new_def dedup_from_distinct dedup_from_props)
  then show "rp_owner (td_new_plan d) = hd (filter (\<lambda>n. n \<noteq> dead) (hrw_ranked pid ?c))"
    and "filter (\<lambda>n. n \<noteq> dead) (hrw_ranked pid ?c) \<noteq> []"
    using resolve_takeover_Some(6)[OF assms] by (auto simp: route_write_Some simp flip: hrw_ranked_filter)
qed

text \<open>
  C34. Takeover needs no state transfer: at replication factor 2 or more, a node that becomes the owner
  because the previous owner died was already one of the partition's replicas, so a decision asks for
  the loss ceremony only at replication factor 1; and when the dead node was not the owner, ownership
  does not move.
\<close>
theorem takeover_new_owner_was_replica:
  assumes "resolve_takeover pid dead self (membership_new ns) rf = Some d"
  shows "(is_genuine_takeover d \<and> td_self_is_new_owner d \<and> 2 \<le> rf \<longrightarrow> td_self_was_replica_before d)
    \<and> (requires_declare_loss d \<longrightarrow> rf \<le> 1)
    \<and> (\<not> is_genuine_takeover d \<longrightarrow> rp_owner (td_new_plan d) = td_old_owner d)"
proof -
  let ?r = "hrw_ranked pid (mv_candidates (membership_new ns))"
  let ?f = "filter (\<lambda>n. n \<noteq> dead) ?r"
  note s = resolve_takeover_Some[OF assms] and n = new_owner_ranked[OF assms]
  have r: "?r \<noteq> []" using s(7) by simp
  then obtain x xs where cons: "?r = x # xs" by (cases ?r) auto
  have d: "distinct ?r" by simp
  have rep: "td_self_was_replica_before d"
    if "is_genuine_takeover d" "td_self_is_new_owner d" "2 \<le> rf"
  proof -
    have x: "x = dead" using that(1) s(2,3) cons by (simp add: is_genuine_takeover_def)
    with d cons have f: "?f = xs" by (auto simp: filter_id_conv)
    with n(2) obtain y ys where xs: "xs = y # ys" by (cases xs) auto
    have "self = y" using that(2) s(5) n(1) f xs by simp
    moreover have "y \<in> set (take (max rf 1) ?r)"
      using that(3) cons xs by (cases rf; cases "rf - 1") auto
    ultimately show ?thesis using s(4) by simp
  qed
  moreover have "rf \<le> 1" if "requires_declare_loss d"
    using rep that by (fastforce simp: requires_declare_loss_def)
  moreover have "rp_owner (td_new_plan d) = td_old_owner d" if "\<not> is_genuine_takeover d"
    using that s(2,3) n(1) cons by (auto simp: is_genuine_takeover_def)
  ultimately show ?thesis by blast
qed

theorem takeover_new_owner_was_replica_witness:
  "\<exists>d. resolve_takeover (PartitionId ''t.0'') (NodeId ''b'') (NodeId ''a'')
         (membership_new [NodeId ''a'', NodeId ''b'']) 1 = Some d
     \<and> (is_genuine_takeover d \<or> rp_owner (td_new_plan d) = td_old_owner d)"
proof -
  let ?m = "membership_new [NodeId ''a'', NodeId ''b'']"
  have "\<exists>d. resolve_takeover (PartitionId ''t.0'') (NodeId ''b'') (NodeId ''a'') ?m 1 = Some d"
    by (simp add: resolve_takeover_def Let_def bind_eq_Some_conv route_write_Some membership_new_def)
  then obtain d where d: "resolve_takeover (PartitionId ''t.0'') (NodeId ''b'') (NodeId ''a'') ?m 1 = Some d" by blast
  from takeover_new_owner_was_replica[OF d] d show ?thesis by blast
qed

text \<open>
  A caller's run over successive observations, with the query and the mutation split the way the
  tracker prescribes: it asks \<open>should_trigger\<close>, fires the trigger, and marks the pair only when the
  firing succeeded (the third component). The result lists the decisions whose trigger fired.
\<close>
fun takeover_run ::
  "takeover_tracker \<Rightarrow> (takeover_decision \<times> boot_outcome \<times> bool) list \<Rightarrow> takeover_decision list" where
  "takeover_run triggered [] = []"
| "takeover_run triggered ((d, boot, succeeded) # rest) =
     (if should_trigger triggered d boot \<and> succeeded
      then d # takeover_run (mark_triggered (td_partition d) (td_dead_owner d) triggered) rest
      else takeover_run triggered rest)"

abbreviation takeover_key :: "takeover_decision \<Rightarrow> partition_id \<times> node_id" where
  "takeover_key d \<equiv> (td_partition d, td_dead_owner d)"

abbreviation may_drain :: "takeover_decision \<Rightarrow> bool" where
  "may_drain d \<equiv> is_genuine_takeover d \<and> td_self_is_new_owner d \<and> td_self_was_replica_before d"

lemma takeover_run_keys:
  "takeover_key ` set (takeover_run triggered obs)
     = {takeover_key d | d inc. (d, Active inc, True) \<in> set obs \<and> may_drain d} - triggered"
  by (induction triggered obs rule: takeover_run.induct)
    (auto simp: should_trigger_def mark_triggered_def permits_ownership_actions_def split: boot_outcome.splits)

lemma takeover_run_distinct:
  "distinct (map takeover_key (takeover_run triggered obs))"
proof (induction triggered obs rule: takeover_run.induct)
  case (2 triggered d boot succeeded rest)
  show ?case
  proof (cases "should_trigger triggered d boot \<and> succeeded")
    case True
    have "takeover_key d \<notin> takeover_key ` set (takeover_run (mark_triggered (td_partition d) (td_dead_owner d) triggered) rest)"
      unfolding takeover_run_keys by (simp add: mark_triggered_def)
    with 2(1)[OF True] True show ?thesis by simp
  qed (use 2(2) in auto)
qed simp

text \<open>
  Over any sequence of membership observations a node raises at most one takeover drain per
  partition and dead owner, whatever the order in which stale decisions come back; and the pairs it
  raises one for are exactly those for which it saw, after a complete boot and with a firing that
  succeeded, a genuine takeover that it won and holds a replica for.
\<close>
theorem takeover_triggered_once:
  "distinct (map takeover_key (takeover_run takeover_tracker_new obs))
   \<and> takeover_key ` set (takeover_run takeover_tracker_new obs)
     = {takeover_key d | d inc. (d, Active inc, True) \<in> set obs \<and> may_drain d}"
  using takeover_run_distinct[of takeover_tracker_new obs] takeover_run_keys[of takeover_tracker_new obs]
  by (simp add: takeover_tracker_new_def)

section \<open>The residue is the set difference\<close>

abbreviation cut_set :: "(u64 \<times> u64) list \<Rightarrow> u64 set" where
  "cut_set cuts \<equiv> (\<Union>(f, l)\<in>set cuts. {f..l})"

lemma diff_split:
  fixes f l :: u64
  assumes "f \<le> l" and "A = S \<inter> {x. x < f}" and "B = S \<inter> {x. l < x}" and "C \<subseteq> {x. f \<le> x}"
  shows "A \<union> (B - C) = S - ({f..l} \<union> C)"
proof -
  have "x < f \<or> l < x \<longleftrightarrow> x \<notin> {f..l}" and "x < f \<Longrightarrow> x \<notin> C" for x
    using assms(4) by (auto simp: not_le)
  then show ?thesis unfolding assms(2,3) by blast
qed

lemma cursor_step:
  fixes l :: u64
  assumes "l < u64_max"
  shows "{max cursor (u64_saturating_add l 1)..last_seq} = {cursor..last_seq} \<inter> {x. l < x}"
  unfolding set_eq_iff by (simp add: saturating_succ_le_iff[OF assms]) blast

lemma before_cut:
  fixes f :: u64
  assumes "f \<le> last_seq"
  shows "(if cursor < f then {cursor..f - 1} else {}) = {cursor..last_seq} \<inter> {x. x < f}"
proof -
  have "x < f \<Longrightarrow> x \<le> last_seq" for x using assms by (meson less_imp_le order_trans)
  moreover have "cursor \<le> x \<Longrightarrow> x < f \<Longrightarrow> cursor < f" for x by (rule le_less_trans)
  ultimately show ?thesis
    by (cases "cursor < f") (auto simp: set_eq_iff le_pred_iff)
qed

lemma residue_loop_spec:
  assumes "sorted cuts" and "\<forall>(f, l)\<in>set cuts. f \<le> l \<and> l \<le> last_seq \<and> l < u64_max"
  shows "range_seqs origin (residue_loop origin last_seq cursor cuts) = {cursor..last_seq} - cut_set cuts"
    and "origin' \<noteq> origin \<Longrightarrow> range_seqs origin' (residue_loop origin last_seq cursor cuts) = {}"
  using assms
proof (induction cuts arbitrary: cursor)
  case Nil
  {
    case 1 then show ?case by (auto simp: range_seqs_def)
  next
    case 2 then show ?case by (auto simp: range_seqs_def)
  }
next
  case (Cons c cuts)
  obtain f l where c: "c = (f, l)" by (cases c)
  {
    case 1
    let ?cursor = "max cursor (u64_saturating_add l 1)"
    from 1 have fl: "f \<le> l" "l \<le> last_seq" "l < u64_max"
      and later: "\<And>f' l'. (f', l') \<in> set cuts \<Longrightarrow> f \<le> f'"
      using c by (auto simp: less_eq_prod_def)
    have IH: "range_seqs origin (residue_loop origin last_seq ?cursor cuts) = {?cursor..last_seq} - cut_set cuts"
      using Cons.IH(1)[of ?cursor] 1 by simp
    have "cut_set cuts \<subseteq> {x. f \<le> x}" using later by force
    then have "(if cursor < f then {cursor..f - 1} else {}) \<union> ({?cursor..last_seq} - cut_set cuts)
        = {cursor..last_seq} - ({f..l} \<union> cut_set cuts)"
      by (rule diff_split[OF fl(1) before_cut[OF order_trans[OF fl(1,2)]] cursor_step[OF fl(3)]])
    then show ?case using IH c by (auto simp: range_seqs_def split: if_splits)
  next
    case 2
    with Cons.IH(2)[of "max cursor (u64_saturating_add l 1)"] c show ?case by auto
  }
qed

lemma cuts_of_props:
  assumes "osr_last_seq r < u64_max" and "osr_first_seq r \<le> osr_last_seq r"
    and "list_all (\<lambda>w. osr_first_seq w \<le> osr_last_seq w) winner"
  shows "sorted (cuts_of winner r)"
    and "\<forall>(f, l)\<in>set (cuts_of winner r). f \<le> l \<and> l \<le> osr_last_seq r \<and> l < u64_max"
  using assms by (auto simp: cuts_of_def list_all_iff min.strict_coboundedI2)

lemma cut_set_cuts_of:
  "{osr_first_seq r..osr_last_seq r} - cut_set (cuts_of winner r)
     = {osr_first_seq r..osr_last_seq r} - range_seqs (osr_origin r) winner"
proof -
  have "x \<in> cut_set (cuts_of winner r) \<longleftrightarrow> x \<in> range_seqs (osr_origin r) winner"
    if "osr_first_seq r \<le> x" "x \<le> osr_last_seq r" for x
  proof
    assume "x \<in> range_seqs (osr_origin r) winner"
    then obtain w where "w \<in> set winner" "osr_origin w = osr_origin r" "osr_first_seq w \<le> x" "x \<le> osr_last_seq w"
      by (auto simp: range_seqs_def)
    moreover from this that have "osr_first_seq w \<le> osr_last_seq r" "osr_first_seq r \<le> osr_last_seq w"
      by (meson order_trans)+
    ultimately show "x \<in> cut_set (cuts_of winner r)" using that by (auto simp: cuts_of_def)
  qed (auto simp: cuts_of_def range_seqs_def)
  then show ?thesis unfolding set_eq_iff Diff_iff atLeastAtMost_iff by blast
qed

lemma residue_one:
  assumes "osr_last_seq r < u64_max" and "osr_first_seq r \<le> osr_last_seq r"
    and "list_all (\<lambda>w. osr_first_seq w \<le> osr_last_seq w) winner"
  shows "range_seqs origin (residue_loop (osr_origin r) (osr_last_seq r) (osr_first_seq r) (cuts_of winner r))
     = range_seqs origin [r] - range_seqs origin winner"
  using residue_loop_spec[OF cuts_of_props[OF assms]] cut_set_cuts_of[of r winner]
  by (cases "osr_origin r = origin") auto

lemma range_seqs_concat: "range_seqs origin (concat rss) = (\<Union>rs\<in>set rss. range_seqs origin rs)"
  by (induction rss) auto

text \<open>
  The residue a takeover drains is exactly what the dead owner's committed part left over: per
  origin, the sequence numbers of the window's coverage that the winning part does not cover, none
  missing and none drained twice. (The ranges are non-empty and end below the largest 64-bit value.)
\<close>
theorem residue_is_difference:
  assumes "list_all (\<lambda>r. osr_first_seq r \<le> osr_last_seq r \<and> osr_last_seq r < u64_max) window_coverage"
    and "list_all (\<lambda>w. osr_first_seq w \<le> osr_last_seq w) winner_coverage"
  shows "range_seqs origin (compute_residue window_coverage winner_coverage)
    = range_seqs origin window_coverage - range_seqs origin winner_coverage"
  using assms(1)
proof (induction window_coverage)
  case Nil
  then show ?case by (simp add: compute_residue_def)
next
  case (Cons r rs)
  then have "range_seqs origin (compute_residue (r # rs) winner_coverage)
      = (range_seqs origin [r] - range_seqs origin winner_coverage)
        \<union> (range_seqs origin rs - range_seqs origin winner_coverage)"
    using residue_one[OF _ _ assms(2)] by (simp add: compute_residue_def)
  then show ?case by auto
qed

theorem residue_is_difference_witness:
  "range_seqs (NodeId ''a'')
     (compute_residue [\<lparr>osr_origin = NodeId ''a'', osr_first_seq = 1, osr_last_seq = 9\<rparr>]
       [\<lparr>osr_origin = NodeId ''a'', osr_first_seq = 3, osr_last_seq = 5\<rparr>]) = {1..9} - {3..5}"
  using residue_is_difference[of "[\<lparr>osr_origin = NodeId ''a'', osr_first_seq = 1, osr_last_seq = 9\<rparr>]"
      "[\<lparr>osr_origin = NodeId ''a'', osr_first_seq = 3, osr_last_seq = 5\<rparr>]" "NodeId ''a''"]
  by (simp add: u64_max_def)

text \<open>The cursor saturates at the largest 64-bit value, so a covered last record there is reported again.\<close>
lemma residue_at_max:
  "compute_residue [\<lparr>osr_origin = o', osr_first_seq = u64_max, osr_last_seq = u64_max\<rparr>]
     [\<lparr>osr_origin = o', osr_first_seq = u64_max, osr_last_seq = u64_max\<rparr>]
   = [\<lparr>osr_origin = o', osr_first_seq = u64_max, osr_last_seq = u64_max\<rparr>]"
  by (simp add: compute_residue_def cuts_of_def u64_saturating_add_def u64_max_def)

end
