(* ===== verification/Window_Naming.thy ===== *)
theory Window_Naming
  imports Types
begin

text \<open>
  \<open>crates/duckspout-staging/src/naming.rs\<close>: the table name of a micro-window. The components are
  joined with a double underscore although an escape also starts with an underscore; the proof of
  injectivity follows the source's argument that a split of a run of underscores is unique.
\<close>

definition window_table_name :: "dataset_id \<Rightarrow> partition_id \<Rightarrow> window_id \<Rightarrow> string" where
  "window_table_name dataset pid window =
     ''s_'' @ encode_component (dataset_str dataset) @ ''__'' @ encode_component (partition_str pid)
       @ ''__w'' @ show_nat window"

lemma encode_component_simps [simp]:
  "encode_component [] = []"
  "encode_component (c # s) = encode_byte c @ encode_component s"
  by (simp_all add: encode_component_def)

lemma hex2_no_underscore: "CHR ''_'' \<noteq> hex_digit (of_char c div 16)"
proof -
  have "(of_char c :: nat) div 16 < 16" using of_char_byte[of c] by (simp add: less_mult_imp_div_less)
  then show ?thesis using plain_hex_digit underscore_not_plain by metis
qed

lemma split_at_join:
  "encode_component a @ ''__'' @ r = encode_component b @ ''__'' @ s \<longleftrightarrow> a = b \<and> r = s"
proof
  assume "encode_component a @ ''__'' @ r = encode_component b @ ''__'' @ s"
  then show "a = b \<and> r = s"
  proof (induction a arbitrary: b)
    case Nil
    then show ?case
      by (cases b) (auto simp: encode_byte_def hex2_def hex2_no_underscore split: if_splits)
  next
    case (Cons x a)
    then obtain y b' where b: "b = y # b'"
      by (cases b) (auto simp: encode_byte_def hex2_def hex2_no_underscore[symmetric] split: if_splits)
    have "x = y \<and> encode_component a @ ''__'' @ r = encode_component b' @ ''__'' @ s"
    proof (cases "is_plain x")
      case True
      with Cons.prems b show ?thesis by (cases "is_plain y") (auto simp: encode_byte_def)
    next
      case False
      with Cons.prems b have "\<not> is_plain y" by (auto simp: encode_byte_def)
      with False Cons.prems b have
        "hex2 x @ encode_component a @ ''__'' @ r = hex2 y @ encode_component b' @ ''__'' @ s"
        by (simp add: encode_byte_def)
      then have "hex2 x = hex2 y \<and> encode_component a @ ''__'' @ r = encode_component b' @ ''__'' @ s"
        by (auto simp: hex2_def)
      then show ?thesis by simp
    qed
    with Cons.IH b show ?case by simp
  qed
qed simp

lemma window_table_name_inject [simp]:
  "window_table_name d p w = window_table_name d' p' w' \<longleftrightarrow> d = d' \<and> p = p' \<and> w = w'"
proof
  assume "window_table_name d p w = window_table_name d' p' w'"
  then have "encode_component (dataset_str d) @ ''__'' @ encode_component (partition_str p) @ ''__'' @ ''w'' @ show_nat w
      = encode_component (dataset_str d') @ ''__'' @ encode_component (partition_str p') @ ''__'' @ ''w'' @ show_nat w'"
    by (simp add: window_table_name_def)
  then show "d = d' \<and> p = p' \<and> w = w'"
    unfolding split_at_join by (simp add: dataset_id.expand partition_id.expand)
qed simp

text \<open>
  Table names are injective: two micro-windows share a staging table exactly when they agree in
  dataset, partition and window, whatever bytes the identifiers hold.
\<close>
theorem window_table_name_unique:
  "window_table_name d p w = window_table_name d' p' w' \<longleftrightarrow> d = d' \<and> p = p' \<and> w = w'"
  by (rule window_table_name_inject)

end
