(* ===== verification/Staging_Engine.thy ===== *)
theory Staging_Engine
  imports Window_Naming
begin

text \<open>
  \<open>crates/duckspout-staging/src/engine.rs\<close>: the hot store. The embedded database is modelled by the
  tables the source creates and by the effect of each SQL statement it issues; a statement can fail
  at any call, by a fault schedule \<open>F\<close> that is indexed by the number of calls made, and where the
  statement itself has to fail (a table or key that exists, a sum out of range). \<open>BEGIN\<close> takes a view
  of the committed tables, \<open>COMMIT\<close> makes the view the committed tables, a failed commit and
  \<open>ROLLBACK\<close> drop it; outside a transaction a statement commits by itself. Arrow batches carry what
  the source asks of them: the fields of the schema, the rows, and the size of each column. The write
  mutex makes each operation one step; its poisoning is not modelled.
\<close>

section \<open>Arrow batches\<close>

datatype arrow_type =
    ABoolean | AInt8 | AInt16 | AInt32 | AInt64 | AUInt8 | AUInt16 | AUInt32 | AUInt64
  | AFloat32 | AFloat64 | AUtf8 | ABinary | ATimestampMicros | AOther string

record arrow_field =
  af_name :: string
  af_type :: arrow_type
  af_nullable :: bool

record 'p record_batch =
  rb_fields :: "arrow_field list"
  rb_rows :: "'p list"
  rb_column_sizes :: "(string, u64) result list"

fun staging_sql_type :: "arrow_type \<Rightarrow> string option" where
  "staging_sql_type ABoolean = Some ''BOOLEAN''"
| "staging_sql_type AInt8 = Some ''TINYINT''"
| "staging_sql_type AInt16 = Some ''SMALLINT''"
| "staging_sql_type AInt32 = Some ''INTEGER''"
| "staging_sql_type AInt64 = Some ''BIGINT''"
| "staging_sql_type AUInt8 = Some ''UTINYINT''"
| "staging_sql_type AUInt16 = Some ''USMALLINT''"
| "staging_sql_type AUInt32 = Some ''UINTEGER''"
| "staging_sql_type AUInt64 = Some ''UBIGINT''"
| "staging_sql_type AFloat32 = Some ''FLOAT''"
| "staging_sql_type AFloat64 = Some ''DOUBLE''"
| "staging_sql_type AUtf8 = Some ''VARCHAR''"
| "staging_sql_type ABinary = Some ''BLOB''"
| "staging_sql_type ATimestampMicros = Some ''TIMESTAMP''"
| "staging_sql_type (AOther _) = None"

section \<open>The tables\<close>

type_synonym window_key = "dataset_id \<times> partition_id \<times> window_id"

record 'p staged_row =
  row_payload :: 'p
  row_origin :: node_id
  row_seq :: u64

record 'p hot_table =
  tb_columns :: string
  tb_rows :: "'p staged_row list"

record window_meta =
  wme_table :: string
  wme_bytes :: u64

record dedup_row =
  dd_acked :: bool
  dd_outcome :: string
  dd_created_wall_ms :: int

record 'p hot_db =
  db_wal_epoch :: nat
  db_applied :: "(partition_id \<times> node_id, u64) btree"
  db_windows :: "(window_key, window_meta) btree"
  db_dedup :: "(tenant_id \<times> string, dedup_row) btree"
  db_window_hw :: "(dataset_id \<times> partition_id, window_id) btree"
  db_tables :: "(string, 'p hot_table) btree"

definition db_empty :: "'p hot_db" where
  "db_empty = \<lparr>db_wal_epoch = 0, db_applied = bt_empty, db_windows = bt_empty, db_dedup = bt_empty,
     db_window_hw = bt_empty, db_tables = bt_empty\<rparr>"

section \<open>Errors\<close>

datatype duckdb_error = DbFault string | DbTableExists string | DbTableMissing string | DbKeyExists | DbOutOfRange

datatype staging_error =
    EngineError duckdb_error
  | IoError string
  | StagingStorage storage_error
  | ArrowError string
  | UnsupportedColumnType string string
  | ReservedColumn string
  | SeqExhausted partition_id
  | Corrupt string
  | ScanBudgetExceeded u64 u64
  | ScanDeadlineExceeded u64

section \<open>The connection\<close>

type_synonym faults = "nat \<Rightarrow> string option"
type_synonym 'p sql = "'p hot_db \<Rightarrow> (duckdb_error, 'p hot_db) result"

record 'p connection =
  cn_db :: "'p hot_db"
  cn_txn :: "'p hot_db option"
  cn_calls :: nat

definition conn_call ::
  "faults \<Rightarrow> ('p connection \<Rightarrow> (duckdb_error, 'p connection) result) \<Rightarrow> 'p connection
     \<Rightarrow> (duckdb_error, unit) result \<times> 'p connection" where
  "conn_call F f c =
     (let n = cn_calls c; c = c\<lparr>cn_calls := Suc n\<rparr> in
      case F n of
        Some e \<Rightarrow> (Inl (DbFault e), c)
      | None \<Rightarrow> (case f c of Inl e \<Rightarrow> (Inl e, c) | Inr c' \<Rightarrow> (Inr (), c')))"

definition conn_view :: "'p connection \<Rightarrow> 'p hot_db" where
  "conn_view c = map_or (cn_db c) id (cn_txn c)"

definition db_execute :: "faults \<Rightarrow> 'p sql \<Rightarrow> 'p connection \<Rightarrow> (duckdb_error, unit) result \<times> 'p connection" where
  "db_execute F stmt = conn_call F (\<lambda>c.
     case stmt (conn_view c) of
       Inl e \<Rightarrow> Inl e
     | Inr db \<Rightarrow> Inr (if cn_txn c = None then c\<lparr>cn_db := db\<rparr> else c\<lparr>cn_txn := Some db\<rparr>))"

definition db_begin :: "faults \<Rightarrow> 'p connection \<Rightarrow> (duckdb_error, unit) result \<times> 'p connection" where
  "db_begin F = conn_call F (\<lambda>c. Inr (c\<lparr>cn_txn := Some (cn_db c)\<rparr>))"

definition db_commit :: "faults \<Rightarrow> 'p connection \<Rightarrow> (duckdb_error, unit) result \<times> 'p connection" where
  "db_commit F = conn_call F (\<lambda>c. Inr (c\<lparr>cn_db := conn_view c, cn_txn := None\<rparr>))"

definition db_rollback :: "'p connection \<Rightarrow> 'p connection" where
  "db_rollback c = c\<lparr>cn_txn := None\<rparr>"

section \<open>The statements\<close>

definition sql_create_table :: "string \<Rightarrow> string \<Rightarrow> 'p sql" where
  "sql_create_table table columns db =
     (if bt_get (db_tables db) table \<noteq> None then Inl (DbTableExists table)
      else Inr (db\<lparr>db_tables := bt_insert table \<lparr>tb_columns = columns, tb_rows = []\<rparr> (db_tables db)\<rparr>))"

definition sql_drop_table :: "string \<Rightarrow> 'p sql" where
  "sql_drop_table table db =
     (if bt_get (db_tables db) table = None then Inl (DbTableMissing table)
      else Inr (db\<lparr>db_tables := bt_remove table (db_tables db)\<rparr>))"

definition sql_update_table :: "string \<Rightarrow> ('p staged_row list \<Rightarrow> 'p staged_row list) \<Rightarrow> 'p sql" where
  "sql_update_table table f db =
     (case bt_get (db_tables db) table of
        None \<Rightarrow> Inl (DbTableMissing table)
      | Some tb \<Rightarrow> Inr (db\<lparr>db_tables := bt_insert table (tb\<lparr>tb_rows := f (tb_rows tb)\<rparr>) (db_tables db)\<rparr>))"

definition sql_register_window :: "window_key \<Rightarrow> string \<Rightarrow> 'p sql" where
  "sql_register_window key table db =
     (if bt_get (db_windows db) key \<noteq> None then Inl DbKeyExists
      else Inr (db\<lparr>db_windows := bt_insert key \<lparr>wme_table = table, wme_bytes = 0\<rparr> (db_windows db)\<rparr>))"

definition sql_unregister_window :: "window_key \<Rightarrow> 'p sql" where
  "sql_unregister_window key db = Inr (db\<lparr>db_windows := bt_remove key (db_windows db)\<rparr>)"

definition sql_raise_hw :: "dataset_id \<Rightarrow> partition_id \<Rightarrow> window_id \<Rightarrow> 'p sql" where
  "sql_raise_hw dataset pid window db =
     Inr (db\<lparr>db_window_hw := bt_upsert (dataset, pid) window (\<lambda>hw. max hw window) (db_window_hw db)\<rparr>)"

definition sql_add_bytes :: "window_key \<Rightarrow> u64 \<Rightarrow> 'p sql" where
  "sql_add_bytes key bytes db =
     (case bt_get (db_windows db) key of
        None \<Rightarrow> Inr db
      | Some meta \<Rightarrow>
          if unat (wme_bytes meta) + unat bytes < 2 ^ 64
          then Inr (db\<lparr>db_windows := bt_insert key (meta\<lparr>wme_bytes := wme_bytes meta + bytes\<rparr>) (db_windows db)\<rparr>)
          else Inl DbOutOfRange)"

definition sql_set_applied :: "partition_id \<Rightarrow> node_id \<Rightarrow> u64 \<Rightarrow> 'p sql" where
  "sql_set_applied pid origin seq db = Inr (db\<lparr>db_applied := bt_insert (pid, origin) seq (db_applied db)\<rparr>)"

definition sql_bump_epoch :: "'p sql" where
  "sql_bump_epoch db = Inr (db\<lparr>db_wal_epoch := db_wal_epoch db + 1\<rparr>)"

definition sql_put_dedup :: "tenant_id \<Rightarrow> string \<Rightarrow> dedup_row \<Rightarrow> 'p sql" where
  "sql_put_dedup tenant key row db = Inr (db\<lparr>db_dedup := bt_insert (tenant, key) row (db_dedup db)\<rparr>)"

definition sql_mark_acked :: "tenant_id \<Rightarrow> string \<Rightarrow> 'p sql" where
  "sql_mark_acked tenant key db =
     Inr (case bt_get (db_dedup db) (tenant, key) of
            None \<Rightarrow> db
          | Some row \<Rightarrow> db\<lparr>db_dedup := bt_insert (tenant, key) (row\<lparr>dd_acked := True\<rparr>) (db_dedup db)\<rparr>)"

definition sql_expire_dedup :: "int \<Rightarrow> 'p sql" where
  "sql_expire_dedup cutoff db =
     Inr (db\<lparr>db_dedup := filter (\<lambda>(_, row). \<not> dd_created_wall_ms row < cutoff) (db_dedup db)\<rparr>)"

text \<open>The \<open>n\<close> oldest entries; among entries of one instant the statement leaves the choice open, and
  the key order decides here.\<close>

definition oldest_dedup :: "nat \<Rightarrow> (tenant_id \<times> string, dedup_row) btree \<Rightarrow> (tenant_id \<times> string) list" where
  "oldest_dedup n entries = map fst (take n (sort_key (\<lambda>(_, row). dd_created_wall_ms row) entries))"

definition sql_evict_oldest :: "nat \<Rightarrow> 'p sql" where
  "sql_evict_oldest n db =
     Inr (db\<lparr>db_dedup := filter (\<lambda>(k, _). k \<notin> set (oldest_dedup n (db_dedup db))) (db_dedup db)\<rparr>)"

section \<open>The writer\<close>

record 'p writer_inner =
  w_conn :: "'p connection"
  w_applied :: "(partition_id, u64) btree"
  w_windows :: "(window_key, window_meta) btree"
  w_window_hw :: "(dataset_id \<times> partition_id, window_id) btree"
  w_staged_bytes :: u64

definition on_conn ::
  "('p connection \<Rightarrow> (duckdb_error, 'a) result \<times> 'p connection) \<Rightarrow> 'p writer_inner
     \<Rightarrow> (staging_error, 'a) result \<times> 'p writer_inner" where
  "on_conn f w = (case f (w_conn w) of (r, c) \<Rightarrow> (map_err EngineError r, w\<lparr>w_conn := c\<rparr>))"

text \<open>The registries as they are read back from the tables.\<close>

definition load_applied :: "node_id \<Rightarrow> 'p hot_db \<Rightarrow> (partition_id, u64) btree" where
  "load_applied origin db =
     fold (\<lambda>((pid, o'), seq) m. if o' = origin then bt_insert pid seq m else m) (db_applied db) bt_empty"

definition load_windows :: "'p hot_db \<Rightarrow> (window_key, window_meta) btree" where
  "load_windows db = db_windows db"

definition load_window_hw :: "'p hot_db \<Rightarrow> (dataset_id \<times> partition_id, window_id) btree" where
  "load_window_hw db = db_window_hw db"

definition total_bytes :: "(window_key, window_meta) btree \<Rightarrow> u64" where
  "total_bytes windows = sum_list (map (wme_bytes \<circ> snd) windows)"

text \<open>
  \<open>open\<close> on the persisted tables: \<open>io\<close> is what creating the directory answers, \<open>fsync\<close> what the
  storage port answers; opening, setting the threshold, the metadata transaction and the three loads
  are database calls. The second component is the database as it is left on disk.
\<close>
definition staging_open ::
  "faults \<Rightarrow> string option \<Rightarrow> storage_error option \<Rightarrow> node_id \<Rightarrow> 'p hot_db
     \<Rightarrow> (staging_error, 'p writer_inner) result \<times> 'p hot_db" where
  "staging_open F io fsync origin db =
     (case io of Some e \<Rightarrow> (Inl (IoError e), db) | None \<Rightarrow>
      let nop = db_execute F Inr in
      case and_then (nop \<lparr>cn_db = db, cn_txn = None, cn_calls = 0\<rparr>) (\<lambda>_ c.
           and_then (nop c) (\<lambda>_ c.
           and_then (db_execute F sql_bump_epoch c) (\<lambda>_ c.
           and_then (nop c) (\<lambda>_ c. and_then (nop c) (\<lambda>_ c. nop c))))) of
        (Inl e, c) \<Rightarrow> (Inl (EngineError e), cn_db c)
      | (Inr _, c) \<Rightarrow>
          (case fsync of
             Some e \<Rightarrow> (Inl (StagingStorage e), cn_db c)
           | None \<Rightarrow>
               (Inr \<lparr>w_conn = c, w_applied = load_applied origin (cn_db c), w_windows = load_windows (cn_db c),
                     w_window_hw = load_window_hw (cn_db c), w_staged_bytes = total_bytes (load_windows (cn_db c))\<rparr>,
                cn_db c)))"

definition checkpoint :: "faults \<Rightarrow> storage_error option \<Rightarrow> 'p writer_inner
    \<Rightarrow> (staging_error, unit) result \<times> 'p writer_inner" where
  "checkpoint F fsync w =
     and_then (on_conn (db_execute F Inr) w) (\<lambda>_ w.
     and_then (on_conn (db_execute F sql_bump_epoch) w) (\<lambda>_ w.
       (case fsync of Some e \<Rightarrow> Inl (StagingStorage e) | None \<Rightarrow> Inr (), w)))"

definition drop_window_txn ::
  "faults \<Rightarrow> string \<Rightarrow> window_key \<Rightarrow> 'p connection \<Rightarrow> (duckdb_error, unit) result \<times> 'p connection" where
  "drop_window_txn F table key c =
     and_then (db_begin F c) (\<lambda>_ c.
     and_then (db_execute F (sql_drop_table table) c) (\<lambda>_ c.
     and_then (db_execute F (sql_unregister_window key) c) (\<lambda>_ c. db_commit F c)))"

definition engine_drop_window ::
  "faults \<Rightarrow> dataset_id \<Rightarrow> partition_id \<Rightarrow> window_id \<Rightarrow> 'p writer_inner
     \<Rightarrow> (staging_error, bool) result \<times> 'p writer_inner" where
  "engine_drop_window F dataset pid window w =
     (let key = (dataset, pid, window) in
      case bt_get (w_windows w) key of
        None \<Rightarrow> (Inr False, w)
      | Some meta \<Rightarrow>
          (case drop_window_txn F (wme_table meta) key (w_conn w) of
             (Inl e, c) \<Rightarrow> (Inl (EngineError e), w\<lparr>w_conn := db_rollback c\<rparr>)
           | (Inr _, c) \<Rightarrow>
               (Inr True, w\<lparr>w_conn := c, w_windows := bt_remove key (w_windows w),
                           w_staged_bytes := w_staged_bytes w - wme_bytes meta\<rparr>)))"

definition delete_covered_rows ::
  "faults \<Rightarrow> string \<Rightarrow> ('p staged_row \<Rightarrow> bool) \<Rightarrow> 'p writer_inner \<Rightarrow> (staging_error, unit) result \<times> 'p writer_inner" where
  "delete_covered_rows F table predicate w =
     on_conn (db_execute F (sql_update_table table (filter (\<lambda>r. \<not> predicate r)))) w"

record window_ref =
  wf_dataset :: dataset_id
  wf_partition :: partition_id
  wf_window :: window_id
  wf_table_name :: string

definition list_windows :: "'p writer_inner \<Rightarrow> window_ref list" where
  "list_windows w =
     map (\<lambda>((dataset, pid, window), meta). \<lparr>wf_dataset = dataset, wf_partition = pid, wf_window = window,
            wf_table_name = wme_table meta\<rparr>) (w_windows w)"

definition window_table :: "'p writer_inner \<Rightarrow> dataset_id \<Rightarrow> partition_id \<Rightarrow> window_id \<Rightarrow> string option" where
  "window_table w dataset pid window = map_option wme_table (bt_get (w_windows w) (dataset, pid, window))"

definition applied_seq :: "'p writer_inner \<Rightarrow> partition_id \<Rightarrow> u64 option" where
  "applied_seq w pid = bt_get (w_applied w) pid"

definition highest_window_id :: "'p writer_inner \<Rightarrow> dataset_id \<Rightarrow> partition_id \<Rightarrow> window_id option" where
  "highest_window_id w dataset pid = bt_get (w_window_hw w) (dataset, pid)"

section \<open>The stage transaction\<close>

record 'p stage_txn =
  tx_writer :: "'p writer_inner"
  tx_origin :: node_id
  tx_pending_applied :: "(partition_id, u64 \<times> u64) btree"
  tx_pending_windows :: "(window_key \<times> string) list"
  tx_pending_bytes :: "(window_key, u64) btree"

definition begin_txn ::
  "faults \<Rightarrow> node_id \<Rightarrow> 'p writer_inner \<Rightarrow> (staging_error, 'p stage_txn) result \<times> 'p writer_inner" where
  "begin_txn F origin w =
     and_then (on_conn (db_begin F) w) (\<lambda>_ w.
       (Inr \<lparr>tx_writer = w, tx_origin = origin, tx_pending_applied = bt_empty, tx_pending_windows = [],
             tx_pending_bytes = bt_empty\<rparr>, w))"

definition tx_execute :: "faults \<Rightarrow> 'p sql \<Rightarrow> 'p stage_txn \<Rightarrow> (staging_error, unit) result \<times> 'p stage_txn" where
  "tx_execute F stmt t =
     (case on_conn (db_execute F stmt) (tx_writer t) of (r, w) \<Rightarrow> (r, t\<lparr>tx_writer := w\<rparr>))"

text \<open>Dropping an unfinished transaction rolls it back and releases the writer.\<close>

definition tx_drop :: "'p stage_txn \<Rightarrow> 'p writer_inner" where
  "tx_drop t = (tx_writer t)\<lparr>w_conn := db_rollback (w_conn (tx_writer t))\<rparr>"

definition eq_ignore_ascii_case :: "string \<Rightarrow> string \<Rightarrow> bool" where
  "eq_ignore_ascii_case a b \<longleftrightarrow> map ascii_lower a = map ascii_lower b"

definition quote_ident :: "string \<Rightarrow> string" where
  "quote_ident name = [CHR 0x22] @ concat (map (\<lambda>c. if c = CHR 0x22 then [c, c] else [c]) name) @ [CHR 0x22]"

fun column_defs :: "arrow_field list \<Rightarrow> (staging_error, string) result" where
  "column_defs [] = Inr ''''"
| "column_defs (f # fs) =
     (if eq_ignore_ascii_case (af_name f) ''origin'' \<or> eq_ignore_ascii_case (af_name f) ''seq''
      then Inl (ReservedColumn (af_name f))
      else
        case staging_sql_type (af_type f) of
          None \<Rightarrow> Inl (UnsupportedColumnType (af_name f) (case af_type f of AOther s \<Rightarrow> s | _ \<Rightarrow> ''''))
        | Some sql_type \<Rightarrow>
            (case column_defs fs of
               Inl e \<Rightarrow> Inl e
             | Inr more_columns \<Rightarrow>
                 Inr (quote_ident (af_name f) @ '' '' @ sql_type
                      @ (if af_nullable f then '''' else '' NOT NULL'') @ '', '' @ more_columns)))"

definition ensure_window ::
  "faults \<Rightarrow> dataset_id \<Rightarrow> partition_id \<Rightarrow> window_id \<Rightarrow> arrow_field list \<Rightarrow> 'p stage_txn
     \<Rightarrow> (staging_error, string) result \<times> 'p stage_txn" where
  "ensure_window F dataset pid window schema t =
     (let key = (dataset, pid, window) in
      case bt_get (w_windows (tx_writer t)) key of
        Some existing \<Rightarrow> (Inr (wme_table existing), t)
      | None \<Rightarrow>
          case find (\<lambda>(k, _). k = key) (tx_pending_windows t) of
            Some (_, pending) \<Rightarrow> (Inr pending, t)
          | None \<Rightarrow>
              let table = window_table_name dataset pid window in
              case column_defs schema of
                Inl e \<Rightarrow> (Inl e, t)
              | Inr columns \<Rightarrow>
                  and_then (tx_execute F (sql_create_table table
                      (columns @ ''origin VARCHAR NOT NULL, seq UBIGINT NOT NULL'')) t) (\<lambda>_ t.
                  and_then (tx_execute F (sql_register_window key table) t) (\<lambda>_ t.
                  and_then (tx_execute F (sql_raise_hw dataset pid window) t) (\<lambda>_ t.
                    (Inr table, t\<lparr>tx_pending_windows := tx_pending_windows t @ [(key, table)]\<rparr>)))))"

fun record_batch_content_bytes :: "(string, u64) result list \<Rightarrow> (staging_error, u64) result" where
  "record_batch_content_bytes [] = Inr 0"
| "record_batch_content_bytes (column # columns) =
     (case column of
        Inl e \<Rightarrow> Inl (ArrowError e)
      | Inr n \<Rightarrow> (case record_batch_content_bytes columns of Inl e \<Rightarrow> Inl e | Inr m \<Rightarrow> Inr (n + m)))"

definition augment_batch :: "'p list \<Rightarrow> node_id \<Rightarrow> u64 \<Rightarrow> 'p staged_row list" where
  "augment_batch rows origin first =
     map (\<lambda>(p, i). \<lparr>row_payload = p, row_origin = origin, row_seq = first + of_nat i\<rparr>)
       (zip rows [0..<length rows])"

definition append_base :: "'p stage_txn \<Rightarrow> partition_id \<Rightarrow> u64" where
  "append_base t pid =
     (case bt_get (tx_pending_applied t) pid of
        Some (_, last_seq) \<Rightarrow> last_seq
      | None \<Rightarrow> map_or 0 id (bt_get (w_applied (tx_writer t)) pid))"

definition append_batch ::
  "faults \<Rightarrow> dataset_id \<Rightarrow> partition_id \<Rightarrow> window_id \<Rightarrow> 'p record_batch \<Rightarrow> 'p stage_txn
     \<Rightarrow> (staging_error, unit) result \<times> 'p stage_txn" where
  "append_batch F dataset pid window batch t =
     and_then (ensure_window F dataset pid window (rb_fields batch) t) (\<lambda>table t.
       let rows = length (rb_rows batch); key = (dataset, pid, window); base = append_base t pid in
       if rows = 0 then (Inr (), t)
       else
         case (u64_checked_add base 1, u64_checked_add base rows) of
           (Some first_seq, Some last_seq) \<Rightarrow>
             and_then (tx_execute F (sql_update_table table
                 (\<lambda>old. old @ augment_batch (rb_rows batch) (tx_origin t) first_seq)) t) (\<lambda>_ t.
             case record_batch_content_bytes (rb_column_sizes batch) of
               Inl e \<Rightarrow> (Inl e, t)
             | Inr bytes \<Rightarrow>
                 and_then (tx_execute F (sql_add_bytes key bytes) t) (\<lambda>_ t.
                   (Inr (), t\<lparr>tx_pending_bytes := bt_upsert key 0 (\<lambda>b. b + bytes) (tx_pending_bytes t),
                              tx_pending_applied := bt_insert pid
                                (case bt_get (tx_pending_applied t) pid of
                                   Some (f, _) \<Rightarrow> (f, last_seq)
                                 | None \<Rightarrow> (first_seq, last_seq)) (tx_pending_applied t)\<rparr>)))
         | _ \<Rightarrow> (Inl (SeqExhausted pid), t))"

definition pending_coverage :: "'p stage_txn \<Rightarrow> staged_coverage list" where
  "pending_coverage t =
     map (\<lambda>(pid, (first_seq, last_seq)). \<lparr>sc_partition = pid,
            sc_range = \<lparr>osr_origin = tx_origin t, osr_first_seq = first_seq, osr_last_seq = last_seq\<rparr>\<rparr>)
       (tx_pending_applied t)"

fun write_applied ::
  "faults \<Rightarrow> (partition_id \<times> (u64 \<times> u64)) list \<Rightarrow> 'p stage_txn \<Rightarrow> (staging_error, unit) result \<times> 'p stage_txn" where
  "write_applied F [] t = (Inr (), t)"
| "write_applied F ((pid, (_, last_seq)) # ps) t =
     and_then (tx_execute F (sql_set_applied pid (tx_origin t) last_seq) t) (\<lambda>_ t. write_applied F ps t)"

definition merge_window :: "window_key \<times> string \<Rightarrow> 'p writer_inner \<Rightarrow> 'p writer_inner" where
  "merge_window = (\<lambda>((dataset, pid, window), table) w.
     w\<lparr>w_window_hw := bt_upsert (dataset, pid) window (\<lambda>hw. max hw window) (w_window_hw w),
       w_windows := bt_insert (dataset, pid, window) \<lparr>wme_table = table, wme_bytes = 0\<rparr> (w_windows w)\<rparr>)"

definition merge_bytes :: "window_key \<times> u64 \<Rightarrow> 'p writer_inner \<Rightarrow> 'p writer_inner" where
  "merge_bytes = (\<lambda>(key, bytes) w.
     w\<lparr>w_windows := (case bt_get (w_windows w) key of
                       None \<Rightarrow> w_windows w
                     | Some meta \<Rightarrow> bt_insert key (meta\<lparr>wme_bytes := wme_bytes meta + bytes\<rparr>) (w_windows w)),
       w_staged_bytes := w_staged_bytes w + bytes\<rparr>)"

definition merge_applied :: "partition_id \<times> (u64 \<times> u64) \<Rightarrow> 'p writer_inner \<Rightarrow> 'p writer_inner" where
  "merge_applied = (\<lambda>(pid, (_, last_seq)) w. w\<lparr>w_applied := bt_insert pid last_seq (w_applied w)\<rparr>)"

definition commit_txn ::
  "faults \<Rightarrow> 'p stage_txn \<Rightarrow> (staging_error, staged_coverage list) result \<times> 'p writer_inner" where
  "commit_txn F t =
     (case and_then (write_applied F (tx_pending_applied t) t)
             (\<lambda>_ t. case on_conn (db_commit F) (tx_writer t) of (r, w) \<Rightarrow> (r, t\<lparr>tx_writer := w\<rparr>)) of
        (Inl e, t) \<Rightarrow> (Inl e, tx_drop t)
      | (Inr _, t) \<Rightarrow>
          (Inr (pending_coverage t),
           fold merge_applied (tx_pending_applied t)
             (fold merge_bytes (tx_pending_bytes t)
               (fold merge_window (tx_pending_windows t) (tx_writer t)))))"

section \<open>The dedup window\<close>

record dedup_entry =
  de_acked :: bool
  de_outcome_json :: string

definition dedup_lookup ::
  "faults \<Rightarrow> tenant_id \<Rightarrow> string \<Rightarrow> int \<Rightarrow> 'p stage_txn
     \<Rightarrow> (staging_error, dedup_entry option) result \<times> 'p stage_txn" where
  "dedup_lookup F tenant key min_created_wall_ms t =
     and_then (tx_execute F Inr t) (\<lambda>_ t.
       (Inr (case bt_get (db_dedup (conn_view (w_conn (tx_writer t)))) (tenant, key) of
               Some row \<Rightarrow> if min_created_wall_ms \<le> dd_created_wall_ms row
                           then Some \<lparr>de_acked = dd_acked row, de_outcome_json = dd_outcome row\<rparr> else None
             | None \<Rightarrow> None), t))"

definition dedup_insert ::
  "faults \<Rightarrow> tenant_id \<Rightarrow> string \<Rightarrow> bool \<Rightarrow> string \<Rightarrow> int \<Rightarrow> 'p stage_txn
     \<Rightarrow> (staging_error, unit) result \<times> 'p stage_txn" where
  "dedup_insert F tenant key acked outcome created_wall_ms =
     tx_execute F (sql_put_dedup tenant key
       \<lparr>dd_acked = acked, dd_outcome = outcome, dd_created_wall_ms = created_wall_ms\<rparr>)"

definition dedup_mark_acked ::
  "faults \<Rightarrow> tenant_id \<Rightarrow> string \<Rightarrow> 'p stage_txn \<Rightarrow> (staging_error, unit) result \<times> 'p stage_txn" where
  "dedup_mark_acked F tenant key = tx_execute F (sql_mark_acked tenant key)"

definition i64_saturating_sub :: "int \<Rightarrow> int \<Rightarrow> int" where
  "i64_saturating_sub a b = max i64_min (min i64_max (a - b))"

definition dedup_evict ::
  "faults \<Rightarrow> int \<Rightarrow> int \<Rightarrow> u64 \<Rightarrow> 'p stage_txn \<Rightarrow> (staging_error, u64) result \<times> 'p stage_txn" where
  "dedup_evict F wall_now_ms ttl_ms max_entries t =
     and_then (tx_execute F (sql_expire_dedup (i64_saturating_sub wall_now_ms ttl_ms)) t) (\<lambda>_ t.
     and_then (tx_execute F Inr t) (\<lambda>_ t.
       let count = length (db_dedup (conn_view (w_conn (tx_writer t)))) in
       if count \<le> unat max_entries then (Inr 0, t)
       else
         let excess = count - unat max_entries in
         and_then (tx_execute F (sql_evict_oldest excess) t) (\<lambda>_ t. (Inr (of_nat excess), t))))"

section \<open>Guarded scans\<close>

record scan_guards =
  sg_max_bytes :: u64
  sg_deadline_nanos :: u64

text \<open>
  The loop of \<open>query_arrow_guarded\<close>: each element is a batch with its content size and the reading of
  the monotonic clock after it arrived.
\<close>
fun scan_loop ::
  "scan_guards \<Rightarrow> u64 \<Rightarrow> u64 \<Rightarrow> ('b \<times> (string, u64) result list \<times> u64) list \<Rightarrow> (staging_error, 'b list) result" where
  "scan_loop g started scanned [] = Inr []"
| "scan_loop g started scanned ((batch, sizes, now) # arriving) =
     (case record_batch_content_bytes sizes of
        Inl e \<Rightarrow> Inl e
      | Inr bytes \<Rightarrow>
          let scanned = u64_saturating_add scanned bytes in
          if sg_max_bytes g < scanned then Inl (ScanBudgetExceeded scanned (sg_max_bytes g))
          else if sg_deadline_nanos g < (if started \<le> now then now - started else 0)
          then Inl (ScanDeadlineExceeded (sg_deadline_nanos g div 1000000))
          else
            case scan_loop g started scanned arriving of
              Inl e \<Rightarrow> Inl e
            | Inr batches \<Rightarrow> Inr (batch # batches))"

end
