(* ===== verification/Overload.thy ===== *)
theory Overload
  imports Types
begin

text \<open>
  \<open>crates/duckspout-types/src/status.rs\<close>: the overload ladder. The rung, the retry delay and the
  per-query byte budget are pure functions of the measure \<open>staged_bytes / max_bytes\<close>. The inputs are
  64-bit words; the widened products are those of \<open>u128\<close>, which hold any product formed here, so they
  are computed on the naturals, and \<open>u64_try_from\<close> is the checked conversion back.
\<close>

section \<open>The code\<close>

datatype overload_status = Normal | StagingPressure | DrainStalled | Throttling | RefusingIngest

record node_status =
  ns_overload :: overload_status
  ns_replication_degraded :: bool

definition ladder_disclose_percent :: u64 where
  "ladder_disclose_percent = 80"

definition ladder_throttle_percent :: u64 where
  "ladder_throttle_percent = 95"

definition ladder_refuse_percent :: u64 where
  "ladder_refuse_percent = 100"

definition throttle_retry_min_ms :: u64 where
  "throttle_retry_min_ms = 1000"

definition throttle_retry_max_ms :: u64 where
  "throttle_retry_max_ms = 30000"

definition query_budget_max_scale :: u64 where
  "query_budget_max_scale = 2"

definition u64_try_from :: "nat \<Rightarrow> u64 option" where
  "u64_try_from n = (if n < 2 ^ 64 then Some (of_nat n) else None)"

definition at_percent :: "u64 \<Rightarrow> u64 \<Rightarrow> u64 \<Rightarrow> bool" where
  "at_percent staged_bytes max_bytes percent \<longleftrightarrow> unat max_bytes * unat percent \<le> unat staged_bytes * 100"

definition from_measure :: "u64 \<Rightarrow> u64 \<Rightarrow> bool \<Rightarrow> overload_status" where
  "from_measure staged_bytes max_bytes drain_stalled =
     (if max_bytes = 0 then RefusingIngest
      else if at_percent staged_bytes max_bytes ladder_refuse_percent then RefusingIngest
      else if at_percent staged_bytes max_bytes ladder_throttle_percent then Throttling
      else if at_percent staged_bytes max_bytes ladder_disclose_percent
      then (if drain_stalled then DrainStalled else StagingPressure)
      else Normal)"

definition permille_of :: "u64 \<Rightarrow> u64 \<Rightarrow> u64" where
  "permille_of staged_bytes max_bytes =
     map_or u64_max id (u64_try_from (unat staged_bytes * 1000 div unat max_bytes))"

definition throttle_retry_delay_ms :: "u64 \<Rightarrow> u64 \<Rightarrow> u64" where
  "throttle_retry_delay_ms staged_bytes max_bytes =
     (if max_bytes = 0 then throttle_retry_max_ms
      else
        let permille = permille_of staged_bytes max_bytes;
            floor = ladder_throttle_percent * 10;
            ceiling = ladder_refuse_percent * 10
        in if ceiling \<le> permille then throttle_retry_max_ms
           else
             let position = u64_saturating_sub permille floor; span = ceiling - floor in
             throttle_retry_min_ms + (throttle_retry_max_ms - throttle_retry_min_ms) * position div span)"

definition fill_scaled_budget :: "u64 \<Rightarrow> u64 \<Rightarrow> u64 \<Rightarrow> u64" where
  "fill_scaled_budget base_bytes staged_bytes max_bytes =
     (if max_bytes = 0 then base_bytes
      else
        let permille = permille_of staged_bytes max_bytes; onset = ladder_disclose_percent * 10 in
        if permille \<le> onset then base_bytes
        else
          let span = ladder_refuse_percent * 10 - onset;
              position = min (permille - onset) span;
              extra = map_or u64_max id (u64_try_from
                (unat base_bytes * unat (query_budget_max_scale - 1) * unat position div unat span))
          in u64_saturating_add base_bytes extra)"

lemmas ladder_consts = ladder_disclose_percent_def ladder_throttle_percent_def ladder_refuse_percent_def
  throttle_retry_min_ms_def throttle_retry_max_ms_def query_budget_max_scale_def

section \<open>The measure on the naturals\<close>

definition permille_nat :: "u64 \<Rightarrow> u64 \<Rightarrow> nat" where
  "permille_nat staged_bytes max_bytes = min (unat staged_bytes * 1000 div unat max_bytes) (2 ^ 64 - 1)"

lemma unat_permille: "unat (permille_of staged m) = permille_nat staged m"
  by (auto simp: permille_of_def permille_nat_def u64_try_from_def unat_u64_max unat_of_nat)

lemma permille_mono: "a \<le> b \<Longrightarrow> permille_nat a m \<le> permille_nat b m"
  unfolding permille_nat_def by (intro min.mono div_le_mono mult_le_mono1) (simp_all add: word_le_nat_alt)

lemma at_percent_mono: "a \<le> b \<Longrightarrow> at_percent a m p \<Longrightarrow> at_percent b m p"
  by (auto simp: at_percent_def word_le_nat_alt)

lemma unat_delay:
  assumes "m \<noteq> 0"
  shows "unat (throttle_retry_delay_ms staged m) =
    (if 1000 \<le> permille_nat staged m then 30000 else 1000 + 29000 * (permille_nat staged m - 950) div 50)"
proof (cases "1000 \<le> permille_nat staged m")
  case True
  then have "1000 \<le> permille_of staged m"
    by (simp add: word_le_nat_alt unat_permille)
  with assms True show ?thesis
    by (simp add: throttle_retry_delay_ms_def ladder_consts)
next
  case False
  let ?q = "permille_of staged m"
  have q: "unat ?q = permille_nat staged m" by (rule unat_permille)
  with False have n: "\<not> 1000 \<le> ?q" by (simp add: word_le_nat_alt)
  have p: "unat (u64_saturating_sub ?q 950) = permille_nat staged m - 950"
    using q by (auto simp: u64_saturating_sub_def unat_sub_if' word_le_nat_alt)
  have "unat (29000 * u64_saturating_sub ?q 950) = 29000 * (permille_nat staged m - 950)"
    using False by (simp add: unat_word_ariths p)
  then have "unat (29000 * u64_saturating_sub ?q 950 div 50) = 29000 * (permille_nat staged m - 950) div 50"
    by (simp add: unat_div)
  with False have "unat (1000 + 29000 * u64_saturating_sub ?q 950 div 50)
      = 1000 + 29000 * (permille_nat staged m - 950) div 50"
    by (subst unat_word_ariths) simp
  with n False assms show ?thesis
    by (simp add: throttle_retry_delay_ms_def ladder_consts Let_def)
qed

lemma unat_budget:
  assumes "m \<noteq> 0"
  shows "unat (fill_scaled_budget base staged m) =
    (let p = min (permille_nat staged m - 800) 200 in min (unat base + unat base * p div 200) (2 ^ 64 - 1))"
proof (cases "permille_nat staged m \<le> 800")
  case True
  then have "permille_of staged m \<le> 800" by (simp add: word_le_nat_alt unat_permille)
  with assms True u64_bound[of base] show ?thesis
    by (simp add: fill_scaled_budget_def ladder_consts)
next
  case False
  let ?q = "permille_of staged m"
  have q: "unat ?q = permille_nat staged m" by (rule unat_permille)
  have le: "\<not> ?q \<le> 800" using False q by (simp add: word_le_nat_alt)
  have "unat (?q - 800) = permille_nat staged m - 800"
    using False q by (simp add: unat_sub_if')
  then have p: "unat (min (?q - 800) 200) = min (permille_nat staged m - 800) 200"
    by (simp add: min_def word_le_nat_alt)
  have "unat base * min (permille_nat staged m - 800) 200 div 200 \<le> unat base"
    using div_le_mono[of "unat base * min (permille_nat staged m - 800) 200" "unat base * 200" 200] by simp
  then have small: "unat base * min (permille_nat staged m - 800) 200 div 200 < 2 ^ 64"
    using u64_bound[of base] by simp
  show ?thesis
    using assms le small
    by (simp add: fill_scaled_budget_def ladder_consts Let_def p u64_try_from_def unat_saturating_add unat_of_nat)
qed

section \<open>The ladder laws\<close>

fun rung_level :: "overload_status \<Rightarrow> nat" where
  "rung_level Normal = 0"
| "rung_level StagingPressure = 1"
| "rung_level DrainStalled = 1"
| "rung_level Throttling = 2"
| "rung_level RefusingIngest = 3"

text \<open>
  LadderMonotone. Over the whole 64-bit range: with more staged bytes the rung, the retry delay
  and the query budget never go down; the stall flag changes only the label of rung 1; the delay stays
  between one and thirty seconds; and the budget stays between its configured base and twice that.
\<close>
theorem ladder_monotone:
  assumes "a \<le> b"
  shows "rung_level (from_measure a m stalled) \<le> rung_level (from_measure b m stalled)
    \<and> rung_level (from_measure a m True) = rung_level (from_measure a m False)
    \<and> throttle_retry_delay_ms a m \<le> throttle_retry_delay_ms b m
    \<and> throttle_retry_delay_ms a m \<in> {throttle_retry_min_ms..throttle_retry_max_ms}
    \<and> fill_scaled_budget base a m \<le> fill_scaled_budget base b m
    \<and> unat base \<le> unat (fill_scaled_budget base a m)
    \<and> unat (fill_scaled_budget base a m) \<le> 2 * unat base"
proof -
  have "rung_level (from_measure a m stalled) \<le> rung_level (from_measure b m stalled)"
    using at_percent_mono[OF assms, of m] by (auto simp: from_measure_def)
  moreover have "rung_level (from_measure a m True) = rung_level (from_measure a m False)"
    by (simp add: from_measure_def)
  moreover have "throttle_retry_delay_ms a m \<le> throttle_retry_delay_ms b m"
  proof (cases "m = 0")
    case False
    have "29000 * (permille_nat a m - 950) div 50 \<le> 29000 * (permille_nat b m - 950) div 50"
      using permille_mono[OF assms, of m] by (intro div_le_mono mult_le_mono2) simp
    with False permille_mono[OF assms, of m] show ?thesis
      by (auto simp: word_le_nat_alt unat_delay)
  qed (simp add: throttle_retry_delay_ms_def)
  moreover have "throttle_retry_delay_ms a m \<in> {throttle_retry_min_ms..throttle_retry_max_ms}"
  proof (cases "m = 0")
    case False
    then show ?thesis
      by (auto simp: word_le_nat_alt unat_delay throttle_retry_min_ms_def throttle_retry_max_ms_def)
  qed (simp add: throttle_retry_delay_ms_def ladder_consts)
  moreover have "fill_scaled_budget base a m \<le> fill_scaled_budget base b m"
  proof (cases "m = 0")
    case False
    have "unat base * min (permille_nat a m - 800) 200 div 200
        \<le> unat base * min (permille_nat b m - 800) 200 div 200"
      using permille_mono[OF assms, of m] by (intro div_le_mono mult_le_mono2) simp
    then show ?thesis
      unfolding word_le_nat_alt unat_budget[OF False] Let_def by (intro min.mono) simp_all
  qed (simp add: fill_scaled_budget_def)
  moreover have "unat base \<le> unat (fill_scaled_budget base a m)
      \<and> unat (fill_scaled_budget base a m) \<le> 2 * unat base"
  proof (cases "m = 0")
    case False
    have "unat base * min (permille_nat a m - 800) 200 div 200 \<le> unat base"
      using div_le_mono[of "unat base * min (permille_nat a m - 800) 200" "unat base * 200" 200] by simp
    with False u64_bound[of base] show ?thesis by (simp add: unat_budget Let_def)
  qed (simp add: fill_scaled_budget_def)
  ultimately show ?thesis by blast
qed

theorem ladder_monotone_witness:
  "rung_level (from_measure 94999 100000 True) = 1 \<and> rung_level (from_measure 95000 100000 True) = 2
   \<and> throttle_retry_delay_ms 94999 100000 \<le> throttle_retry_delay_ms 97500 100000"
  using ladder_monotone[of 94999 97500 100000 True 1]
  by (simp add: from_measure_def at_percent_def ladder_consts)

end
