(* ===== verification/Stager.thy ===== *)
theory Stager
  imports Staging_Engine Overload
begin

text \<open>
  \<open>crates/duckspout-staging/src/stager.rs\<close>: the accept path's one entry into staging. The Arrow IPC
  reader, SHA-256 and the JSON codec of the stored outcome are parameters; the readings of the two
  clocks are arguments of the handler. A backend error carries the engine's error as a value where the
  source carries its rendering. Journaled events are appended to the stager's state.
\<close>

section \<open>The code\<close>

record decoded_batch =
  dcb_dataset :: dataset_id
  dcb_kind :: dataset_kind
  dcb_tenant :: tenant_id
  dcb_idempotency_key :: "string option"
  dcb_records :: string

datatype backend_error = FromEngine staging_error | OutcomeEncoding string

datatype stage_error =
    MalformedRecords string
  | StageBackend backend_error
  | Throttled u64
  | StageRefusing u64

datatype stage_outcome =
    StageCommitted "staged_coverage list"
  | DuplicateAcked "staged_coverage list"
  | DuplicateInFlight

record stager_config =
  cfg_window_nanos :: u64
  cfg_dedup_ttl_ms :: int
  cfg_dedup_max_entries :: u64
  cfg_hot_max_bytes :: u64

record open_window =
  ow_id :: window_id
  ow_opened_at :: u64

record 'p engine_stager =
  es_writer :: "'p writer_inner"
  es_origin :: node_id
  es_open_windows :: "(dataset_id \<times> partition_id, open_window) btree"
  es_cap_evictions :: u64
  es_trace :: "trace_event list"

record 'p stage_env =
  env_faults :: faults
  env_ipc :: "string \<Rightarrow> (string, (string, 'p record_batch) result list) result"
  env_sha256 :: "string \<Rightarrow> string"
  env_to_json :: "staged_coverage list \<Rightarrow> (string, string) result"
  env_of_json :: "string \<Rightarrow> (string, staged_coverage list) result"

definition stager_new :: "'p writer_inner \<Rightarrow> node_id \<Rightarrow> 'p engine_stager" where
  "stager_new w origin = \<lparr>es_writer = w, es_origin = origin, es_open_windows = bt_empty,
     es_cap_evictions = 0, es_trace = []\<rparr>"

definition stager_journal :: "trace_event \<Rightarrow> 'p engine_stager \<Rightarrow> 'p engine_stager" where
  "stager_journal e s = s\<lparr>es_trace := es_trace s @ [e]\<rparr>"

definition stager_status :: "stager_config \<Rightarrow> bool \<Rightarrow> 'p engine_stager \<Rightarrow> node_status" where
  "stager_status cfg drain_stalled s =
     \<lparr>ns_overload = from_measure (w_staged_bytes (es_writer s)) (cfg_hot_max_bytes cfg) drain_stalled,
      ns_replication_degraded = False\<rparr>"

definition stager_admit :: "stager_config \<Rightarrow> 'p engine_stager \<Rightarrow> (stage_error, unit) result" where
  "stager_admit cfg s =
     (let staged = w_staged_bytes (es_writer s); m = cfg_hot_max_bytes cfg in
      case from_measure staged m False of
        RefusingIngest \<Rightarrow> Inl (StageRefusing (throttle_retry_delay_ms staged m))
      | Throttling \<Rightarrow> Inl (Throttled (throttle_retry_delay_ms staged m))
      | _ \<Rightarrow> Inr ())"

definition current_window ::
  "stager_config \<Rightarrow> u64 \<Rightarrow> dataset_id \<Rightarrow> partition_id \<Rightarrow> 'p engine_stager \<Rightarrow> window_id \<times> 'p engine_stager" where
  "current_window cfg now dataset pid s =
     (case bt_get (es_open_windows s) (dataset, pid) of
        Some opened \<Rightarrow>
          if (if ow_opened_at opened \<le> now then now - ow_opened_at opened else 0) < cfg_window_nanos cfg
          then (ow_id opened, s)
          else
            let i = map_or 0 Suc (highest_window_id (es_writer s) dataset pid) in
            (i, s\<lparr>es_open_windows := bt_insert (dataset, pid) \<lparr>ow_id = i, ow_opened_at = now\<rparr> (es_open_windows s)\<rparr>)
      | None \<Rightarrow>
          let i = map_or 0 Suc (highest_window_id (es_writer s) dataset pid) in
          (i, s\<lparr>es_open_windows := bt_insert (dataset, pid) \<lparr>ow_id = i, ow_opened_at = now\<rparr> (es_open_windows s)\<rparr>))"

fun collect_batches :: "(string, 'p record_batch) result list \<Rightarrow> (string, 'p record_batch list) result" where
  "collect_batches [] = Inr []"
| "collect_batches (r # rs) =
     (case r of Inl e \<Rightarrow> Inl e
      | Inr b \<Rightarrow> (case collect_batches rs of Inl e \<Rightarrow> Inl e | Inr bs \<Rightarrow> Inr (b # bs)))"

definition read_batches :: "'p stage_env \<Rightarrow> string \<Rightarrow> (string, 'p record_batch list) result" where
  "read_batches E records = (case env_ipc E records of Inl e \<Rightarrow> Inl e | Inr items \<Rightarrow> collect_batches items)"

definition dedup_key_of :: "'p stage_env \<Rightarrow> decoded_batch \<Rightarrow> string" where
  "dedup_key_of E batch =
     (case dcb_idempotency_key batch of
        Some token \<Rightarrow> ''t:'' @ token
      | None \<Rightarrow> ''h:'' @ concat (map hex2 (env_sha256 E (dcb_records batch))))"

definition at_rf_v01 :: bool where
  "at_rf_v01 = True"

definition parse_outcome :: "'p stage_env \<Rightarrow> string \<Rightarrow> (staging_error, staged_coverage list) result" where
  "parse_outcome E outcome_json =
     map_err (\<lambda>e. Corrupt (''dedup stored outcome is not decodable coverage: '' @ e)) (env_of_json E outcome_json)"

definition resolve_duplicate ::
  "'p stage_env \<Rightarrow> tenant_id \<Rightarrow> string \<Rightarrow> dedup_entry \<Rightarrow> bool \<Rightarrow> 'p stage_txn
     \<Rightarrow> (staging_error, stage_outcome) result \<times> 'p stage_txn" where
  "resolve_duplicate E tenant key entry at_rf t =
     (let replay = (case parse_outcome E (de_outcome_json entry) of
                      Inl e \<Rightarrow> Inl e | Inr cov \<Rightarrow> Inr (DuplicateAcked cov))
      in if de_acked entry then (replay, t)
         else if at_rf then and_then (dedup_mark_acked (env_faults E) tenant key t) (\<lambda>_ t. (replay, t))
         else (Inr DuplicateInFlight, t))"

fun append_all ::
  "faults \<Rightarrow> dataset_id \<Rightarrow> partition_id \<Rightarrow> window_id \<Rightarrow> 'p record_batch list \<Rightarrow> 'p stage_txn
     \<Rightarrow> (staging_error, unit) result \<times> 'p stage_txn" where
  "append_all F dataset pid window [] t = (Inr (), t)"
| "append_all F dataset pid window (b # bs) t =
     and_then (append_batch F dataset pid window b t) (\<lambda>_ t. append_all F dataset pid window bs t)"

abbreviation engine_err ::
  "(staging_error, 'a) result \<times> 's \<Rightarrow> (stage_error, 'a) result \<times> 's" where
  "engine_err \<equiv> err_into (\<lambda>e. StageBackend (FromEngine e))"

text \<open>The body of a fresh batch, up to the commit; the result is how many entries the cap evicted.\<close>

definition stage_fresh ::
  "'p stage_env \<Rightarrow> stager_config \<Rightarrow> int \<Rightarrow> decoded_batch \<Rightarrow> partition_id \<Rightarrow> window_id \<Rightarrow> 'p record_batch list
     \<Rightarrow> 'p stage_txn \<Rightarrow> (stage_error, u64) result \<times> 'p stage_txn" where
  "stage_fresh E cfg wall_now_ms batch pid window batches t =
     (let F = env_faults E in
      and_then (engine_err (append_all F (dcb_dataset batch) pid window batches t)) (\<lambda>_ t.
      case env_to_json E (pending_coverage t) of
        Inl e \<Rightarrow> (Inl (StageBackend (OutcomeEncoding e)), t)
      | Inr outcome_json \<Rightarrow>
          and_then (engine_err (dedup_insert F (dcb_tenant batch) (dedup_key_of E batch) at_rf_v01
              outcome_json wall_now_ms t)) (\<lambda>_ t.
          engine_err (dedup_evict F wall_now_ms (cfg_dedup_ttl_ms cfg) (cfg_dedup_max_entries cfg) t))))"

text \<open>The transaction: look the key up, resolve a duplicate or stage a fresh batch, then commit.\<close>

definition stage_transaction ::
  "'p stage_env \<Rightarrow> stager_config \<Rightarrow> int \<Rightarrow> decoded_batch \<Rightarrow> partition_id \<Rightarrow> window_id \<Rightarrow> 'p record_batch list
     \<Rightarrow> 'p stage_txn \<Rightarrow> 'p engine_stager \<Rightarrow> (stage_error, stage_outcome) result \<times> 'p engine_stager" where
  "stage_transaction E cfg wall_now_ms batch pid window batches t s =
     (let F = env_faults E; key = dedup_key_of E batch;
          failed = (\<lambda>e t. (Inl (StageBackend (FromEngine e)), s\<lparr>es_writer := tx_drop t\<rparr>)) in
      case dedup_lookup F (dcb_tenant batch) key (i64_saturating_sub wall_now_ms (cfg_dedup_ttl_ms cfg)) t of
        (Inl e, t) \<Rightarrow> failed e t
      | (Inr (Some entry), t) \<Rightarrow>
          (case resolve_duplicate E (dcb_tenant batch) key entry at_rf_v01 t of
             (Inl e, t) \<Rightarrow> failed e t
           | (Inr outcome, t) \<Rightarrow>
               (case commit_txn F t of
                  (Inl e, w) \<Rightarrow> (Inl (StageBackend (FromEngine e)), s\<lparr>es_writer := w\<rparr>)
                | (Inr _, w) \<Rightarrow> (Inr outcome, stager_journal TeDedupCheck (s\<lparr>es_writer := w\<rparr>))))
      | (Inr None, t) \<Rightarrow>
          (case stage_fresh E cfg wall_now_ms batch pid window batches t of
             (Inl e, t) \<Rightarrow> (Inl e, s\<lparr>es_writer := tx_drop t\<rparr>)
           | (Inr cap_evicted, t) \<Rightarrow>
               (case commit_txn F t of
                  (Inl e, w) \<Rightarrow> (Inl (StageBackend (FromEngine e)), s\<lparr>es_writer := w\<rparr>)
                | (Inr coverage, w) \<Rightarrow>
                    (Inr (StageCommitted coverage),
                     (stager_journal TeStageCommit (s\<lparr>es_writer := w\<rparr>))
                       \<lparr>es_cap_evictions := es_cap_evictions s + cap_evicted\<rparr>))))"

definition stage_blocking ::
  "'p stage_env \<Rightarrow> stager_config \<Rightarrow> u64 \<Rightarrow> int \<Rightarrow> decoded_batch \<Rightarrow> 'p engine_stager
     \<Rightarrow> (stage_error, stage_outcome) result \<times> 'p engine_stager" where
  "stage_blocking E cfg mono_now wall_now_ms batch s =
     (case stager_admit cfg s of
        Inl e \<Rightarrow> (Inl e, s)
      | Inr _ \<Rightarrow>
          let pid = from_tenant_shard (dcb_tenant batch) 0 in
          case read_batches E (dcb_records batch) of
            Inl e \<Rightarrow> (Inl (MalformedRecords e), s)
          | Inr batches \<Rightarrow>
              if sum_list (map (\<lambda>b. length (rb_rows b)) batches) = 0 then (Inr (StageCommitted []), s)
              else
                case current_window cfg mono_now (dcb_dataset batch) pid (stager_journal TeAccept s) of
                  (window, s) \<Rightarrow>
                    (case begin_txn (env_faults E) (es_origin s) (es_writer s) of
                       (Inl e, w) \<Rightarrow> (Inl (StageBackend (FromEngine e)), s\<lparr>es_writer := w\<rparr>)
                     | (Inr t, _) \<Rightarrow> stage_transaction E cfg wall_now_ms batch pid window batches t s))"

end
