(* ===== verification/Hot_Store.thy ===== *)
theory Hot_Store
  imports Stager
begin

text \<open>
  The invariant of the hot store and its preservation by the operations of the engine: the in-memory
  registries are those of the committed tables, every registered window has its table under its own
  name, no window id is above its high-water mark, and per partition and origin the staged rows carry
  distinct sequence numbers between 1 and the applied one.
\<close>

section \<open>What a transaction leaves alone\<close>

text \<open>Two writers agree up to the number of database calls made.\<close>

definition same_store :: "'p writer_inner \<Rightarrow> 'p writer_inner \<Rightarrow> bool" where
  "same_store w w' \<longleftrightarrow> w'\<lparr>w_conn := (w_conn w')\<lparr>cn_calls := 0\<rparr>\<rparr> = w\<lparr>w_conn := (w_conn w)\<lparr>cn_calls := 0\<rparr>\<rparr>"

lemma same_store_iff:
  "same_store w w' \<longleftrightarrow> cn_db (w_conn w') = cn_db (w_conn w) \<and> cn_txn (w_conn w') = cn_txn (w_conn w)
     \<and> w_applied w' = w_applied w \<and> w_windows w' = w_windows w \<and> w_window_hw w' = w_window_hw w
     \<and> w_staged_bytes w' = w_staged_bytes w"
  by (cases w; cases w'; cases "w_conn w"; cases "w_conn w'") (auto simp: same_store_def)

text \<open>A transaction is open on \<open>w\<close>: only its view and the call count moved since it began.\<close>

definition open_on :: "'p writer_inner \<Rightarrow> 'p stage_txn \<Rightarrow> bool" where
  "open_on w t \<longleftrightarrow> cn_txn (w_conn (tx_writer t)) \<noteq> None \<and> same_store w (tx_drop t)"

abbreviation tx_view :: "'p stage_txn \<Rightarrow> 'p hot_db" where
  "tx_view t \<equiv> conn_view (w_conn (tx_writer t))"

lemma conn_call_cases:
  assumes "conn_call F f c = (r, c')"
  obtains (fail) e where "r = Inl e" and "c' = c\<lparr>cn_calls := Suc (cn_calls c)\<rparr>"
  | (ok) "r = Inr ()" and "f (c\<lparr>cn_calls := Suc (cn_calls c)\<rparr>) = Inr c'" and "F (cn_calls c) = None"
  using assms by (auto simp: conn_call_def Let_def split: option.splits sum.splits)

lemma tx_execute_cases:
  assumes "tx_execute F stmt t = (r, t')" and "open_on w t"
  obtains (fail) e where "r = Inl (EngineError e)" and "open_on w t'"
      and "t'\<lparr>tx_writer := tx_writer t\<rparr> = t" and "tx_view t' = tx_view t"
  | (ok) db where "r = Inr ()" and "stmt (tx_view t) = Inr db" and "tx_view t' = db" and "open_on w t'"
      and "t'\<lparr>tx_writer := tx_writer t\<rparr> = t"
proof -
  let ?c = "w_conn (tx_writer t)"
  obtain r0 c' where rc: "db_execute F stmt ?c = (r0, c')" by (cases "db_execute F stmt ?c")
  have r: "r = map_err EngineError r0" and t': "t' = t\<lparr>tx_writer := (tx_writer t)\<lparr>w_conn := c'\<rparr>\<rparr>"
    using assms(1) rc by (auto simp: tx_execute_def on_conn_def split: prod.splits)
  have txn: "cn_txn ?c \<noteq> None" using assms(2) by (simp add: open_on_def)
  from rc[unfolded db_execute_def] show thesis
  proof (cases rule: conn_call_cases)
    case (fail e)
    show thesis
    proof (rule that(1))
      show "r = Inl (EngineError e)" using fail r by simp
      show "open_on w t'" using assms(2) t' fail(2)
        by (simp add: open_on_def same_store_iff tx_drop_def db_rollback_def)
      show "t'\<lparr>tx_writer := tx_writer t\<rparr> = t" using t' by simp
      show "tx_view t' = tx_view t" using t' fail(2) by (simp add: conn_view_def)
    qed
  next
    case ok
    then obtain db where db: "stmt (tx_view t) = Inr db"
      and c': "c' = ?c\<lparr>cn_calls := Suc (cn_calls ?c), cn_txn := Some db\<rparr>"
      using txn by (auto simp: conn_view_def split: sum.splits if_splits)
    show thesis
    proof (rule that(2))
      show "r = Inr ()" using ok r by simp
      show "stmt (tx_view t) = Inr db" by (rule db)
      show "tx_view t' = db" using t' c' by (simp add: conn_view_def)
      show "open_on w t'" using assms(2) t' c'
        by (simp add: open_on_def same_store_iff tx_drop_def db_rollback_def)
      show "t'\<lparr>tx_writer := tx_writer t\<rparr> = t" using t' by simp
    qed
  qed
qed

lemma tx_execute_open:
  assumes "tx_execute F stmt t = (r, t')" and "open_on w t"
  shows "open_on w t'" and "t'\<lparr>tx_writer := tx_writer t\<rparr> = t"
  using assms by (cases rule: tx_execute_cases; simp)+

text \<open>Every step of a transaction keeps it open on the same writer, whether it fails or not.\<close>

definition keeps_open :: "'p writer_inner \<Rightarrow> ('p stage_txn \<Rightarrow> ('e, 'a) result \<times> 'p stage_txn) \<Rightarrow> bool" where
  "keeps_open w f \<longleftrightarrow> (\<forall>t r t'. open_on w t \<longrightarrow> f t = (r, t') \<longrightarrow> open_on w t' \<and> tx_origin t' = tx_origin t)"

named_theorems keeps_open_intros \<open>steps that keep a transaction open\<close>

lemma keeps_openD: "keeps_open w f \<Longrightarrow> open_on w t \<Longrightarrow> f t = (r, t') \<Longrightarrow> open_on w t' \<and> tx_origin t' = tx_origin t"
  unfolding keeps_open_def by blast

lemma keeps_open_and_then [keeps_open_intros]:
  assumes "keeps_open w f" and "\<And>x. keeps_open w (g x)"
  shows "keeps_open w (\<lambda>t. and_then (f t) g)"
  unfolding keeps_open_def
proof (intro allI impI)
  fix t r t'
  assume "open_on w t" and "and_then (f t) g = (r, t')"
  from this(2) this(1) show "open_on w t' \<and> tx_origin t' = tx_origin t"
  proof (cases rule: and_then_cases)
    case (err e)
    then show "open_on w t \<Longrightarrow> ?thesis" using keeps_openD[OF assms(1)] by blast
  next
    case (ok x t1)
    then show "open_on w t \<Longrightarrow> ?thesis"
      using keeps_openD[OF assms(1)] keeps_openD[OF assms(2)] by (metis)
  qed
qed

lemma keeps_open_return [keeps_open_intros]: "keeps_open w (\<lambda>t. (r t, t))"
  by (simp add: keeps_open_def)

lemma keeps_open_if [keeps_open_intros]:
  "keeps_open w f \<Longrightarrow> keeps_open w g \<Longrightarrow> keeps_open w (\<lambda>t. if b t then f t else g t)"
  unfolding keeps_open_def by metis

lemma keeps_open_at:
  assumes "\<And>t0. keeps_open w (f t0)"
  shows "keeps_open w (\<lambda>t. f t t)"
  using assms unfolding keeps_open_def by blast

lemma keeps_open_execute [keeps_open_intros]: "keeps_open w (tx_execute F stmt)"
  unfolding keeps_open_def
proof (intro allI impI)
  fix t r t'
  assume "open_on w t" and x: "tx_execute F stmt t = (r, t')"
  with tx_execute_open[OF x] have "open_on w t'" "t'\<lparr>tx_writer := tx_writer t\<rparr> = t" by auto
  then show "open_on w t' \<and> tx_origin t' = tx_origin t"
    by (metis stage_txn.select_convs(2) stage_txn.surjective stage_txn.update_convs(1))
qed

lemma keeps_open_pending [keeps_open_intros]:
  "keeps_open w (\<lambda>t. (r, t\<lparr>tx_pending_windows := f t\<rparr>))"
  "keeps_open w (\<lambda>t. (r, t\<lparr>tx_pending_bytes := g t, tx_pending_applied := h t\<rparr>))"
  by (simp_all add: keeps_open_def open_on_def tx_drop_def)

lemma keeps_open_ensure [keeps_open_intros]: "keeps_open w (ensure_window F d p win schema)"
proof -
  have "keeps_open w (\<lambda>t. and_then (tx_execute F (sql_create_table table cols) t) (\<lambda>_ t.
      and_then (tx_execute F (sql_register_window key table) t) (\<lambda>_ t.
      and_then (tx_execute F (sql_raise_hw d p win) t) (\<lambda>_ t.
        (Inr table, t\<lparr>tx_pending_windows := tx_pending_windows t @ [(key, table)]\<rparr>)))))" for table cols key
    by (intro keeps_open_intros)
  then show ?thesis
    unfolding keeps_open_def ensure_window_def Let_def
    by (auto split: option.splits sum.splits)
qed

lemma keeps_open_append [keeps_open_intros]: "keeps_open w (append_batch F d p win b)"
proof -
  have step: "keeps_open w (\<lambda>t. and_then (tx_execute F stmt t) (\<lambda>_ t.
      case record_batch_content_bytes (rb_column_sizes b) of
        Inl e \<Rightarrow> (Inl e, t)
      | Inr bytes \<Rightarrow> and_then (tx_execute F (sql_add_bytes key bytes) t) (\<lambda>_ t.
          (Inr (), t\<lparr>tx_pending_bytes := g bytes t, tx_pending_applied := h t\<rparr>))))" for stmt key g h
    by (cases "record_batch_content_bytes (rb_column_sizes b)") (auto intro!: keeps_open_intros)
  show ?thesis
    unfolding append_batch_def Let_def
    by (intro keeps_open_and_then keeps_open_ensure keeps_open_if keeps_open_return)
      (auto simp: keeps_open_def split: option.splits dest: keeps_openD[OF step])
qed

lemma keeps_open_append_all [keeps_open_intros]: "keeps_open w (append_all F d p win bs)"
  by (induction bs) (auto simp: intro!: keeps_open_intros)

lemma keeps_open_write_applied [keeps_open_intros]: "keeps_open w (write_applied F ps)"
proof (induction ps)
  case (Cons x ps)
  obtain p f l where x: "x = (p, (f, l))" by (cases x) auto
  have "keeps_open w (\<lambda>t. and_then (tx_execute F (sql_set_applied p o' l) t) (\<lambda>_. write_applied F ps))" for o'
    by (intro keeps_open_intros Cons)
  then have "keeps_open w (\<lambda>t. and_then (tx_execute F (sql_set_applied p (tx_origin t) l) t) (\<lambda>_. write_applied F ps))"
    by (rule keeps_open_at)
  then show ?case by (simp add: x)
qed (simp add: keeps_open_return)

lemma keeps_open_dedup [keeps_open_intros]:
  "keeps_open w (dedup_lookup F tenant key m)"
  "keeps_open w (dedup_insert F tenant key acked outcome created)"
  "keeps_open w (dedup_mark_acked F tenant key)"
  "keeps_open w (dedup_evict F now ttl cap)"
proof -
  show "keeps_open w (dedup_lookup F tenant key m)"
    unfolding dedup_lookup_def by (intro keeps_open_intros)
  show "keeps_open w (dedup_insert F tenant key acked outcome created)"
    unfolding dedup_insert_def by (intro keeps_open_intros)
  show "keeps_open w (dedup_mark_acked F tenant key)"
    unfolding dedup_mark_acked_def by (intro keeps_open_intros)
  have "keeps_open w (\<lambda>t. and_then (tx_execute F (sql_evict_oldest n) t) (\<lambda>_ t. (Inr (of_nat n), t)))" for n
    by (intro keeps_open_intros)
  then have "keeps_open w (\<lambda>t. and_then (tx_execute F (sql_evict_oldest (n t)) t) (\<lambda>_ t'. (Inr (of_nat (n t)), t')))" for n
    by (rule keeps_open_at)
  then show "keeps_open w (dedup_evict F now ttl cap)"
    unfolding dedup_evict_def Let_def by (intro keeps_open_intros)
qed

lemma keeps_open_err_into [keeps_open_intros]: "keeps_open w f \<Longrightarrow> keeps_open w (\<lambda>t. err_into g (f t))"
proof -
  have "\<exists>r0. f t = (r0, t')" if "err_into g (f t) = (r, t')" for t r t'
    using that by (cases "f t") (auto simp: err_into_def split: sum.splits)
  then show "keeps_open w f \<Longrightarrow> ?thesis" unfolding keeps_open_def by blast
qed

lemma keeps_open_resolve [keeps_open_intros]: "keeps_open w (resolve_duplicate E tenant key entry at_rf)"
  unfolding resolve_duplicate_def Let_def by (intro keeps_open_intros)

lemma keeps_open_fresh [keeps_open_intros]: "keeps_open w (stage_fresh E cfg now batch p win bs)"
proof -
  have "keeps_open w (\<lambda>t. case J of
        Inl e \<Rightarrow> (Inl (StageBackend (OutcomeEncoding e)), t)
      | Inr outcome_json \<Rightarrow>
          and_then (engine_err (dedup_insert F tenant key acked outcome_json now t)) (\<lambda>_ t.
            engine_err (dedup_evict F now ttl cap t)))" for J F tenant key acked ttl cap
    by (cases J) (auto intro!: keeps_open_intros)
  then have "keeps_open w (\<lambda>t. case env_to_json E (pending_coverage t) of
        Inl e \<Rightarrow> (Inl (StageBackend (OutcomeEncoding e)), t)
      | Inr outcome_json \<Rightarrow>
          and_then (engine_err (dedup_insert F tenant key acked outcome_json now t)) (\<lambda>_ t.
            engine_err (dedup_evict F now ttl cap t)))" for F tenant key acked ttl cap
    by (rule keeps_open_at)
  then show ?thesis unfolding stage_fresh_def Let_def by (intro keeps_open_intros)
qed

section \<open>A failed operation leaves the store alone\<close>

lemma same_store_refl [simp]: "same_store w w"
  by (simp add: same_store_iff)

lemma begin_txn_cases:
  assumes "begin_txn F origin w = (r, w')" and "cn_txn (w_conn w) = None"
  obtains (fail) e where "r = Inl e" and "same_store w w'"
  | (ok) t where "r = Inr t" and "open_on w t" and "tx_origin t = origin" and "tx_view t = cn_db (w_conn w)"
      and "tx_pending_applied t = []" and "tx_pending_windows t = []" and "tx_pending_bytes t = []"
proof -
  obtain r0 c' where b: "db_begin F (w_conn w) = (r0, c')" by (cases "db_begin F (w_conn w)")
  from b[unfolded db_begin_def] show thesis
  proof (cases rule: conn_call_cases)
    case (fail e)
    then show thesis using assms b
      by (intro that(1)) (auto simp: begin_txn_def on_conn_def same_store_iff)
  next
    case ok
    then show thesis using assms b
      by (intro that(2)[of "\<lparr>tx_writer = w\<lparr>w_conn := c'\<rparr>, tx_origin = origin, tx_pending_applied = [],
            tx_pending_windows = [], tx_pending_bytes = []\<rparr>"])
        (auto simp: begin_txn_def on_conn_def same_store_iff open_on_def tx_drop_def db_rollback_def
          conn_view_def bt_empty_def)
  qed
qed

lemma commit_txn_cases:
  assumes "commit_txn F t = (r, w')" and "open_on w t"
  obtains (fail) e where "r = Inl e" and "same_store w w'"
  | (ok) t1 c where "r = Inr (pending_coverage t)" and "write_applied F (tx_pending_applied t) t = (Inr (), t1)"
      and "cn_db c = tx_view t1" and "cn_txn c = None"
      and "w' = fold merge_applied (tx_pending_applied t1) (fold merge_bytes (tx_pending_bytes t1)
             (fold merge_window (tx_pending_windows t1) ((tx_writer t1)\<lparr>w_conn := c\<rparr>)))"
      and "pending_coverage t1 = pending_coverage t"
proof -
  let ?f = "\<lambda>_ t. case on_conn (db_commit F) (tx_writer t) of (r, w) \<Rightarrow> (r, t\<lparr>tx_writer := w\<rparr>)"
  obtain r0 t2 where r0: "and_then (write_applied F (tx_pending_applied t) t) ?f = (r0, t2)"
    by (cases "and_then (write_applied F (tx_pending_applied t) t) ?f")
  have cov: "tx_pending_applied t1 = tx_pending_applied t \<and> tx_origin t1 = tx_origin t"
    if "write_applied F ps t = (r, t1)" "open_on w t" for ps t r t1
    using that
  proof (induction ps arbitrary: t)
    case (Cons x ps)
    obtain p f l where x: "x = (p, (f, l))" by (cases x) auto
    from Cons.prems x obtain r2 t2 where x2: "tx_execute F (sql_set_applied p (tx_origin t) l) t = (r2, t2)"
      by (cases "tx_execute F (sql_set_applied p (tx_origin t) l) t")
    note o = tx_execute_open[OF x2 Cons.prems(2)]
    have "tx_pending_applied t2 = tx_pending_applied t \<and> tx_origin t2 = tx_origin t"
      by (subst o(2)[symmetric], subst o(2)[symmetric]) simp
    with Cons.prems(1) Cons.IH[OF _ o(1)] x x2 show ?case by (cases r2) auto
  qed simp
  from r0 show thesis
  proof (cases rule: and_then_cases)
    case (err e)
    with keeps_openD[OF keeps_open_write_applied assms(2)] have "open_on w t2" by blast
    with err assms r0 show thesis by (intro that(1)) (auto simp: commit_txn_def open_on_def)
  next
    case (ok x t1)
    with keeps_openD[OF keeps_open_write_applied assms(2)] have o1: "open_on w t1" by blast
    obtain r2 c where c: "db_commit F (w_conn (tx_writer t1)) = (r2, c)"
      by (cases "db_commit F (w_conn (tx_writer t1))")
    with ok(2) have r0': "r0 = map_err EngineError r2" and t2: "t2 = t1\<lparr>tx_writer := (tx_writer t1)\<lparr>w_conn := c\<rparr>\<rparr>"
      by (auto simp: on_conn_def)
    from c[unfolded db_commit_def] show thesis
    proof (cases rule: conn_call_cases)
      case (fail e)
      with o1 t2 r0' r0 assms(1) show thesis
        by (intro that(1))
          (auto simp: commit_txn_def open_on_def same_store_iff tx_drop_def db_rollback_def)
    next
      case commit: ok
      note cov[OF ok(1) assms(2)]
      with commit t2 r0' r0 assms(1) ok show thesis
        by (intro that(2)[of t1 c])
          (auto simp: commit_txn_def pending_coverage_def conn_view_def)
    qed
  qed
qed

lemma stage_transaction_error:
  assumes "stage_transaction E cfg now batch p win bs t s = (Inl e, s')" and "open_on w t"
  shows "same_store w (es_writer s')"
proof -
  let ?F = "env_faults E" and ?k = "dedup_key_of E batch" and ?tn = "dcb_tenant batch"
  let ?cut = "i64_saturating_sub now (cfg_dedup_ttl_ms cfg)"
  have drop: "same_store w (tx_drop t')" if "open_on w t'" for t' using that by (simp add: open_on_def)
  obtain r t1 where l: "dedup_lookup ?F ?tn ?k ?cut t = (r, t1)" by (cases "dedup_lookup ?F ?tn ?k ?cut t")
  have o1: "open_on w t1" using keeps_openD[OF keeps_open_dedup(1) assms(2) l] by simp
  show ?thesis
  proof (cases r)
    case (Inl e1)
    with assms l drop[OF o1] show ?thesis by (auto simp: stage_transaction_def)
  next
    case (Inr entry)
    show ?thesis
    proof (cases entry)
      case None
      obtain r2 t2 where f: "stage_fresh E cfg now batch p win bs t1 = (r2, t2)"
        by (cases "stage_fresh E cfg now batch p win bs t1")
      have o2: "open_on w t2" using keeps_openD[OF keeps_open_fresh o1 f] by simp
      obtain r3 w3 where c: "commit_txn ?F t2 = (r3, w3)" by (cases "commit_txn ?F t2")
      from c o2 show ?thesis
        by (cases rule: commit_txn_cases)
          (use assms(1) l Inr None f c drop[OF o2] in \<open>auto simp: stage_transaction_def split: sum.splits\<close>)
    next
      case (Some en)
      obtain r2 t2 where f: "resolve_duplicate E ?tn ?k en at_rf_v01 t1 = (r2, t2)"
        by (cases "resolve_duplicate E ?tn ?k en at_rf_v01 t1")
      have o2: "open_on w t2" using keeps_openD[OF keeps_open_resolve o1 f] by simp
      obtain r3 w3 where c: "commit_txn ?F t2 = (r3, w3)" by (cases "commit_txn ?F t2")
      from c o2 show ?thesis
        by (cases rule: commit_txn_cases)
          (use assms(1) l Inr Some f c drop[OF o2] in \<open>auto simp: stage_transaction_def split: sum.splits\<close>)
    qed
  qed
qed

end
