(* ===== verification/Store_Invariant.thy ===== *)
theory Store_Invariant
  imports Hot_Store
begin

text \<open>
  The invariant of the hot store, and that the statements and transactions of the engine keep it.
\<close>

section \<open>The invariant\<close>

fun key_table :: "window_key \<Rightarrow> string" where
  "key_table (dataset, pid, window) = window_table_name dataset pid window"

lemma key_table_inject [simp]: "key_table k = key_table k' \<longleftrightarrow> k = k'"
  by (cases k; cases k') auto

definition win_rows :: "'p hot_db \<Rightarrow> window_key \<Rightarrow> 'p staged_row list" where
  "win_rows db key = map_or [] tb_rows (bt_get (db_tables db) (key_table key))"

abbreviation row_id :: "'p staged_row \<Rightarrow> node_id \<times> u64" where
  "row_id r \<equiv> (row_origin r, row_seq r)"

definition applied_of :: "'p hot_db \<Rightarrow> partition_id \<Rightarrow> node_id \<Rightarrow> u64" where
  "applied_of db pid origin = map_or 0 id (bt_get (db_applied db) (pid, origin))"

definition windows_ok :: "'p hot_db \<Rightarrow> bool" where
  "windows_ok db \<longleftrightarrow>
     bt_wf (db_applied db) \<and> bt_wf (db_windows db) \<and> bt_wf (db_dedup db) \<and> bt_wf (db_window_hw db) \<and> bt_wf (db_tables db)
     \<and> (\<forall>key meta. bt_get (db_windows db) key = Some meta \<longrightarrow> wme_table meta = key_table key)
     \<and> fst ` set (db_tables db) = key_table ` fst ` set (db_windows db)
     \<and> (\<forall>dataset pid window. bt_get (db_windows db) (dataset, pid, window) \<noteq> None
          \<longrightarrow> (\<exists>hw\<ge>window. bt_get (db_window_hw db) (dataset, pid) = Some hw))"

definition rows_ok :: "(partition_id \<Rightarrow> node_id \<Rightarrow> u64) \<Rightarrow> (window_key \<Rightarrow> 'p staged_row list) \<Rightarrow> bool" where
  "rows_ok A R \<longleftrightarrow>
     (\<forall>dataset pid window. \<forall>r\<in>set (R (dataset, pid, window)). 1 \<le> row_seq r \<and> row_seq r \<le> A pid (row_origin r))
     \<and> (\<forall>key. distinct (map row_id (R key)))
     \<and> (\<forall>dataset pid window dataset' window'. (dataset, window) \<noteq> (dataset', window') \<longrightarrow>
          row_id ` set (R (dataset, pid, window)) \<inter> row_id ` set (R (dataset', pid, window')) = {})"

definition mirrors :: "node_id \<Rightarrow> 'p writer_inner \<Rightarrow> 'p hot_db \<Rightarrow> bool" where
  "mirrors origin w db \<longleftrightarrow>
     bt_wf (w_applied w) \<and> (\<forall>pid. bt_get (w_applied w) pid = bt_get (db_applied db) (pid, origin))
     \<and> w_windows w = db_windows db \<and> w_window_hw w = db_window_hw db
     \<and> w_staged_bytes w = total_bytes (db_windows db)"

definition store_ok :: "node_id \<Rightarrow> 'p writer_inner \<Rightarrow> bool" where
  "store_ok origin w \<longleftrightarrow>
     (let db = cn_db (w_conn w) in
      cn_txn (w_conn w) = None \<and> windows_ok db \<and> rows_ok (applied_of db) (win_rows db) \<and> mirrors origin w db)"

lemma store_ok_same: "same_store w w' \<Longrightarrow> store_ok origin w \<Longrightarrow> store_ok origin w'"
  by (simp add: store_ok_def same_store_iff mirrors_def Let_def)

section \<open>Sequence numbers\<close>

lemma rows_ok_mono:
  assumes "rows_ok A R" and "\<And>pid origin. A pid origin \<le> B pid origin"
  shows "rows_ok B R"
  using assms unfolding rows_ok_def by (meson order_trans)

lemma unat_add_of_nat: "unat (a :: u64) + n < 2 ^ 64 \<Longrightarrow> unat (a + of_nat n) = unat a + n"
  by (simp add: unat_word_ariths unat_of_nat)

lemma length_augment_batch [simp]: "length (augment_batch ps origin f) = length ps"
  by (simp add: augment_batch_def)

lemma nth_augment_batch:
  "i < length ps \<Longrightarrow> augment_batch ps origin f ! i = \<lparr>row_payload = ps ! i, row_origin = origin, row_seq = f + of_nat i\<rparr>"
  by (simp add: augment_batch_def)

lemma payload_augment_batch [simp]: "map row_payload (augment_batch ps origin f) = ps"
  by (rule nth_equalityI) (simp_all add: nth_augment_batch)

lemma augment_seq:
  assumes "unat base + length ps < 2 ^ 64" and "i < length ps"
  shows "unat (row_seq (augment_batch ps origin (base + 1) ! i)) = unat base + 1 + i"
  using unat_add_of_nat[of base "1 + i"] assms by (simp add: nth_augment_batch add.assoc)

lemma augment_batch_row:
  assumes "unat base + length ps < 2 ^ 64" and "r \<in> set (augment_batch ps origin (base + 1))"
  shows "row_origin r = origin" and "base < row_seq r" and "row_seq r \<le> base + of_nat (length ps)"
proof -
  obtain i where i: "i < length ps" "r = augment_batch ps origin (base + 1) ! i"
    using assms(2) by (auto simp: in_set_conv_nth)
  then show "row_origin r = origin" by (simp add: nth_augment_batch)
  show "base < row_seq r" and "row_seq r \<le> base + of_nat (length ps)"
    using augment_seq[OF assms(1) i(1), of origin] i unat_add_of_nat[OF assms(1)]
    by (auto simp: word_less_nat_alt word_le_nat_alt)
qed

lemma augment_batch_distinct:
  assumes "unat base + length ps < 2 ^ 64"
  shows "distinct (map row_id (augment_batch ps origin (base + 1)))"
  unfolding distinct_conv_nth
proof (intro allI impI, simp only: length_map length_augment_batch)
  fix i j assume "i < length ps" "j < length ps" "i \<noteq> j"
  with augment_seq[OF assms, of i origin] augment_seq[OF assms, of j origin]
  show "map row_id (augment_batch ps origin (base + 1)) ! i \<noteq> map row_id (augment_batch ps origin (base + 1)) ! j"
    by auto
qed

lemma rows_ok_append:
  assumes ok: "rows_ok A R" and base: "A pid origin = base" and fits: "unat base + length ps < 2 ^ 64"
    and B: "\<And>p o'. B p o' = (if p = pid \<and> o' = origin then base + of_nat (length ps) else A p o')"
  shows "rows_ok B (R((ds, pid, win) := R (ds, pid, win) @ augment_batch ps origin (base + 1)))"
proof -
  let ?new = "augment_batch ps origin (base + 1)" and ?k = "(ds, pid, win)"
  have "base \<le> base + of_nat (length ps)"
    using unat_add_of_nat[OF fits] by (simp add: word_le_nat_alt)
  then have AB: "A p o' \<le> B p o'" for p o' using base B by simp
  have old: "row_seq r \<le> A pid origin" if "r \<in> set (R (d, pid, w))" "row_origin r = origin" for r d w
    using ok that by (auto simp: rows_ok_def)
  have fresh: "row_id r \<noteq> row_id r'" if "r \<in> set ?new" "r' \<in> set (R (d, pid, w))" for r r' d w
    using augment_batch_row[OF fits that(1)] old[OF that(2)] base by auto
  have new: "1 \<le> row_seq r \<and> row_seq r \<le> B pid (row_origin r)" if "r \<in> set ?new" for r
    using augment_batch_row[OF fits that] B by (auto simp: word_le_nat_alt word_less_nat_alt)
  have "\<forall>d p w. \<forall>r\<in>set ((R(?k := R ?k @ ?new)) (d, p, w)). 1 \<le> row_seq r \<and> row_seq r \<le> B p (row_origin r)"
    using rows_ok_mono[OF ok AB] new by (auto simp: rows_ok_def)
  moreover have "\<forall>key. distinct (map row_id ((R(?k := R ?k @ ?new)) key))"
    using ok augment_batch_distinct[OF fits, of origin] fresh by (fastforce simp: rows_ok_def)
  moreover have "row_id ` set ((R(?k := R ?k @ ?new)) (d, p, w)) \<inter> row_id ` set ((R(?k := R ?k @ ?new)) (d', p, w')) = {}"
    if "(d, w) \<noteq> (d', w')" for d p w d' w'
  proof -
    have "row_id ` set (R (d, p, w)) \<inter> row_id ` set (R (d', p, w')) = {}" using ok that by (simp add: rows_ok_def)
    moreover have "row_id ` set ?new \<inter> row_id ` set (R (d'', pid, w'')) = {}" for d'' w'' using fresh by blast
    moreover from this have "row_id ` set (R (d'', pid, w'')) \<inter> row_id ` set ?new = {}" for d'' w''
      by (simp only: Int_commute)
    ultimately show ?thesis using that 
      by (cases "(d, p, w) = ?k"; cases "(d', p, w') = ?k")
        (simp_all add: image_Un Int_Un_distrib Int_Un_distrib2, blast+)
  qed
  ultimately show ?thesis unfolding rows_ok_def by blast
qed

section \<open>The statements keep the registry in order\<close>

lemma win_rows_insert:
  "win_rows (db\<lparr>db_tables := bt_insert (key_table key) tb (db_tables db)\<rparr>) = (win_rows db)(key := tb_rows tb)"
  by (rule ext) (auto simp: win_rows_def)

lemma win_rows_cong [simp]:
  "win_rows (db\<lparr>db_applied := a\<rparr>) = win_rows db" "win_rows (db\<lparr>db_windows := ws\<rparr>) = win_rows db"
  "win_rows (db\<lparr>db_dedup := d\<rparr>) = win_rows db" "win_rows (db\<lparr>db_window_hw := h\<rparr>) = win_rows db"
  "win_rows (db\<lparr>db_wal_epoch := e\<rparr>) = win_rows db"
  by (auto simp: win_rows_def)

lemma table_registered:
  "windows_ok db \<Longrightarrow> bt_get (db_tables db) (key_table key) = None \<longleftrightarrow> bt_get (db_windows db) key = None"
  by (simp add: windows_ok_def bt_get_None inj_image_mem_iff inj_def del: image_iff)

lemma windows_ok_hw:
  assumes "windows_ok db" and "bt_get (db_windows db) (dataset, pid, window) \<noteq> None"
  shows "\<exists>hw\<ge>window. bt_get (db_window_hw db) (dataset, pid) = Some hw"
  using assms by (simp add: windows_ok_def)

lemma key_in_keys: "bt_get m k = Some v \<Longrightarrow> insert k (fst ` set m) = fst ` set m"
  by (force dest: bt_get_SomeD)

lemma win_rows_unregistered:
  "windows_ok db \<Longrightarrow> bt_get (db_windows db) key = None \<Longrightarrow> win_rows db key = []"
  using table_registered[of db key] by (simp add: win_rows_def)

lemma windows_ok_register:
  fixes cols :: string
  assumes ok: "windows_ok db" and new: "bt_get (db_windows db) (ds, p, win) = None"
  defines "db' \<equiv> db\<lparr>db_tables := bt_insert (key_table (ds, p, win)) \<lparr>tb_columns = cols, tb_rows = []\<rparr> (db_tables db),
      db_windows := bt_insert (ds, p, win) \<lparr>wme_table = key_table (ds, p, win), wme_bytes = 0\<rparr> (db_windows db),
      db_window_hw := bt_upsert (ds, p) win (\<lambda>hw. max hw win) (db_window_hw db)\<rparr>"
  shows "windows_ok db'" and "win_rows db' = win_rows db"
proof -
  have "(win_rows db)((ds, p, win) := []) = win_rows db"
    using win_rows_unregistered[OF ok new] by auto
  then show "win_rows db' = win_rows db"
    by (auto simp: db'_def win_rows_def fun_eq_iff split: if_splits)
  have hw: "\<exists>hw\<ge>window. bt_get (db_window_hw db') (dataset, pid) = Some hw"
    if "bt_get (db_windows db') (dataset, pid, window) \<noteq> None" for dataset pid window
  proof (cases "bt_get (db_windows db) (dataset, pid, window) = None")
    case True
    with that show ?thesis by (auto simp: db'_def split: if_splits)
  next
    case False
    from windows_ok_hw[OF ok this] obtain h where "h \<ge> window" "bt_get (db_window_hw db) (dataset, pid) = Some h"
      by blast
    then show ?thesis
      by (cases "(dataset, pid) = (ds, p)") (auto simp: db'_def intro: max.coboundedI1)
  qed
  show "windows_ok db'"
    unfolding windows_ok_def
  proof (intro conjI)
    show "fst ` set (db_tables db') = key_table ` fst ` set (db_windows db')"
      using ok by (simp add: db'_def windows_ok_def keys_bt_insert del: key_table.simps)
    show "\<forall>key meta. bt_get (db_windows db') key = Some meta \<longrightarrow> wme_table meta = key_table key"
      using ok by (auto simp: db'_def windows_ok_def)
    show "\<forall>dataset pid window. bt_get (db_windows db') (dataset, pid, window) \<noteq> None
        \<longrightarrow> (\<exists>hw\<ge>window. bt_get (db_window_hw db') (dataset, pid) = Some hw)"
      using hw by blast
  qed (use ok in \<open>simp_all add: db'_def windows_ok_def\<close>)
qed

lemma windows_ok_update:
  assumes "windows_ok db" and "sql_update_table (key_table key) f db = Inr db'"
  shows "windows_ok db'" and "win_rows db' = (win_rows db)(key := f (win_rows db key))"
    and "db_windows db' = db_windows db" and "db_window_hw db' = db_window_hw db" and "db_applied db' = db_applied db"
    and "db_dedup db' = db_dedup db"
proof -
  obtain tb where tb: "bt_get (db_tables db) (key_table key) = Some tb"
    and db': "db' = db\<lparr>db_tables := bt_insert (key_table key) (tb\<lparr>tb_rows := f (tb_rows tb)\<rparr>) (db_tables db)\<rparr>"
    using assms(2) by (auto simp: sql_update_table_def split: option.splits)
  then show "win_rows db' = (win_rows db)(key := f (win_rows db key))"
    by (simp add: win_rows_insert) (simp add: win_rows_def)
  show "windows_ok db'"
    using assms(1) key_in_keys[OF tb] unfolding windows_ok_def db' by (simp add: keys_bt_insert)
  show "db_windows db' = db_windows db" "db_window_hw db' = db_window_hw db" "db_applied db' = db_applied db"
    "db_dedup db' = db_dedup db"
    using db' by simp_all
qed

lemma windows_ok_simple:
  assumes "windows_ok db"
  shows "bt_wf a \<Longrightarrow> windows_ok (db\<lparr>db_applied := a\<rparr>)"
    and "bt_wf d \<Longrightarrow> windows_ok (db\<lparr>db_dedup := d\<rparr>)"
    and "windows_ok (db\<lparr>db_wal_epoch := n\<rparr>)"
  using assms by (simp_all add: windows_ok_def)

lemma windows_ok_bytes:
  assumes ok: "windows_ok db" and "bt_get (db_windows db) key = Some meta"
  shows "windows_ok (db\<lparr>db_windows := bt_insert key (meta\<lparr>wme_bytes := b\<rparr>) (db_windows db)\<rparr>)"
proof -
  have "bt_get (bt_insert key (meta\<lparr>wme_bytes := b\<rparr>) (db_windows db)) k \<noteq> None \<longleftrightarrow> bt_get (db_windows db) k \<noteq> None" for k
    using assms(2) by simp
  with assms show ?thesis
    unfolding windows_ok_def by (simp add: keys_bt_insert key_in_keys)
qed

section \<open>Sums over the registry\<close>

lemma sum_bytes_insert:
  assumes "bt_wf m"
  shows "sum_list (map snd (bt_insert k (v :: 'v::ab_group_add) m)) = sum_list (map snd m) + v - map_or 0 id (bt_get m k)"
  using assms
proof (induction m)
  case (Cons e m)
  obtain j u where e: "e = (j, u)" by (cases e)
  have "k < j \<Longrightarrow> bt_get m k = None" using Cons.prems e by (fastforce simp: bt_wf_Cons bt_get_None)
  with Cons e show ?case by (auto simp: bt_wf_Cons algebra_simps)
qed simp

lemma total_bytes_insert:
  assumes "bt_wf ws"
  shows "total_bytes (bt_insert key meta ws) = total_bytes ws + wme_bytes meta - map_or 0 wme_bytes (bt_get ws key)"
  using assms
proof (induction ws)
  case (Cons e ws)
  obtain j u where e: "e = (j, u)" by (cases e)
  have "key < j \<Longrightarrow> bt_get ws key = None" using Cons.prems e by (fastforce simp: bt_wf_Cons bt_get_None)
  with Cons e show ?case by (auto simp: bt_wf_Cons total_bytes_def algebra_simps)
qed (simp add: total_bytes_def)

lemma total_bytes_remove:
  assumes "bt_wf ws" and "bt_get ws key = Some meta"
  shows "total_bytes (bt_remove key ws) = total_bytes ws - wme_bytes meta"
  using assms
proof (induction ws)
  case (Cons e ws)
  obtain j u where e: "e = (j, u)" by (cases e)
  have "filter (\<lambda>(j', _). j' \<noteq> j) ws = ws" using Cons.prems e by (auto simp: bt_wf_Cons filter_id_conv)
  with Cons e show ?case by (auto simp: bt_wf_Cons total_bytes_def bt_remove_def split: if_splits)
qed simp

section \<open>Merging the pending changes\<close>

definition merged :: "'p stage_txn \<Rightarrow> 'p writer_inner" where
  "merged t = fold merge_bytes (tx_pending_bytes t) (fold merge_window (tx_pending_windows t) (tx_writer t))"

lemma merge_conn1:
  "merge_window x (w\<lparr>w_conn := c\<rparr>) = (merge_window x w)\<lparr>w_conn := c\<rparr>"
  "merge_bytes y (w\<lparr>w_conn := c\<rparr>) = (merge_bytes y w)\<lparr>w_conn := c\<rparr>"
  "merge_applied z (w\<lparr>w_conn := c\<rparr>) = (merge_applied z w)\<lparr>w_conn := c\<rparr>"
  by (auto simp: merge_window_def merge_bytes_def merge_applied_def split: prod.splits option.splits)

lemma merge_conn:
  "fold merge_window ps (w\<lparr>w_conn := c\<rparr>) = (fold merge_window ps w)\<lparr>w_conn := c\<rparr>"
  "fold merge_bytes bs (w\<lparr>w_conn := c\<rparr>) = (fold merge_bytes bs w)\<lparr>w_conn := c\<rparr>"
  "fold merge_applied as (w\<lparr>w_conn := c\<rparr>) = (fold merge_applied as w)\<lparr>w_conn := c\<rparr>"
proof -
  show "fold merge_window ps (w\<lparr>w_conn := c\<rparr>) = (fold merge_window ps w)\<lparr>w_conn := c\<rparr>"
    by (induction ps arbitrary: w) (simp_all add: merge_conn1)
  show "fold merge_bytes bs (w\<lparr>w_conn := c\<rparr>) = (fold merge_bytes bs w)\<lparr>w_conn := c\<rparr>"
    by (induction bs arbitrary: w) (simp_all add: merge_conn1)
  show "fold merge_applied as (w\<lparr>w_conn := c\<rparr>) = (fold merge_applied as w)\<lparr>w_conn := c\<rparr>"
    by (induction as arbitrary: w) (simp_all add: merge_conn1)
qed

lemma merge_window1:
  "w_windows (merge_window (key, table) w) = bt_insert key \<lparr>wme_table = table, wme_bytes = 0\<rparr> (w_windows w)"
  "w_window_hw (merge_window ((ds, p, win), table) w) = bt_upsert (ds, p) win (\<lambda>hw. max hw win) (w_window_hw w)"
  "w_staged_bytes (merge_window (key, table) w) = w_staged_bytes w"
  by (auto simp: merge_window_def split: prod.splits)

lemma merge_window_None:
  "bt_get (w_windows (fold merge_window ps w)) key = None \<longleftrightarrow> bt_get (w_windows w) key = None \<and> key \<notin> fst ` set ps"
proof (induction ps arbitrary: w)
  case (Cons x ps)
  then show ?case by (cases x) (auto simp: merge_window1)
qed simp

lemma merge_window_fields:
  "w_applied (fold merge_window ps w) = w_applied w"
  "w_staged_bytes (fold merge_window ps w) = w_staged_bytes w"
  "bt_wf (w_windows w) \<Longrightarrow> bt_wf (w_windows (fold merge_window ps w))"
  "w_conn (fold merge_window ps w) = w_conn w"
  by (induction ps arbitrary: w) (auto simp: merge_window_def split: prod.splits)

lemma merge_bytes_fields:
  "w_applied (fold merge_bytes bs w) = w_applied w"
  "w_window_hw (fold merge_bytes bs w) = w_window_hw w"
  "w_staged_bytes (fold merge_bytes bs w) = w_staged_bytes w + sum_list (map snd bs)"
  "bt_wf (w_windows w) \<Longrightarrow> bt_wf (w_windows (fold merge_bytes bs w))"
  "w_conn (fold merge_bytes bs w) = w_conn w"
  by (induction bs arbitrary: w) (auto simp: merge_bytes_def split: prod.splits option.splits)

lemma merge_bytes_get:
  assumes "bt_wf bs" and "bt_wf (w_windows w)"
  shows "bt_get (w_windows (fold merge_bytes bs w)) key =
    map_option (\<lambda>meta. meta\<lparr>wme_bytes := wme_bytes meta + map_or 0 id (bt_get bs key)\<rparr>) (bt_get (w_windows w) key)"
  using assms
proof (induction bs arbitrary: w)
  case Nil
  then show ?case by (simp add: option.map_ident)
next
  case (Cons e bs)
  obtain k b where e: "e = (k, b)" by (cases e)
  have k: "bt_get bs k = None" using Cons.prems(1) e by (auto simp: bt_wf_Cons bt_get_None)
  let ?w = "merge_bytes (k, b) w"
  have wf: "bt_wf (w_windows ?w)" using Cons.prems(2) by (simp add: merge_bytes_def split: option.splits)
  have "bt_get (w_windows ?w) key = (if key = k then map_option (\<lambda>meta. meta\<lparr>wme_bytes := wme_bytes meta + b\<rparr>) (bt_get (w_windows w) k)
      else bt_get (w_windows w) key)"
    by (simp add: merge_bytes_def split: option.splits)
  with Cons.IH[OF _ wf] Cons.prems(1) e k show ?case
    by (cases "bt_get (w_windows w) key") (auto simp: bt_wf_Cons)
qed

lemma merge_applied_fields:
  "w_windows (fold merge_applied as w) = w_windows w" "w_window_hw (fold merge_applied as w) = w_window_hw w"
  "w_staged_bytes (fold merge_applied as w) = w_staged_bytes w" "w_conn (fold merge_applied as w) = w_conn w"
  "bt_wf (w_applied w) \<Longrightarrow> bt_wf (w_applied (fold merge_applied as w))"
  by (induction as arbitrary: w) (auto simp: merge_applied_def split: prod.splits)

lemma merge_applied_get:
  assumes "bt_wf as"
  shows "bt_get (w_applied (fold merge_applied as w)) pid =
      (case bt_get as pid of Some (_, l) \<Rightarrow> Some l | None \<Rightarrow> bt_get (w_applied w) pid)"
  using assms
proof (induction as arbitrary: w)
  case (Cons e as)
  obtain k f l where e: "e = (k, (f, l))" by (cases e) auto
  have k: "bt_get as k = None" using Cons.prems(1) e by (auto simp: bt_wf_Cons bt_get_None)
  from Cons e k show ?case by (auto simp: merge_applied_def bt_wf_Cons split: option.splits)
qed simp

section \<open>The invariant of an open transaction\<close>

definition txn_applied :: "'p stage_txn \<Rightarrow> partition_id \<Rightarrow> node_id \<Rightarrow> u64" where
  "txn_applied t pid origin = (if origin = tx_origin t then append_base t pid else applied_of (tx_view t) pid origin)"

definition txn_ok :: "'p writer_inner \<Rightarrow> 'p stage_txn \<Rightarrow> bool" where
  "txn_ok w t \<longleftrightarrow>
     open_on w t \<and> store_ok (tx_origin t) w \<and> (\<forall>(key, table)\<in>set (tx_pending_windows t). table = key_table key)
     \<and> windows_ok (tx_view t) \<and> rows_ok (txn_applied t) (win_rows (tx_view t))
     \<and> db_applied (tx_view t) = db_applied (cn_db (w_conn w))
     \<and> bt_wf (tx_pending_applied t) \<and> bt_wf (tx_pending_bytes t)
     \<and> fst ` set (tx_pending_bytes t) \<subseteq> fst ` set (db_windows (tx_view t))
     \<and> w_windows (merged t) = db_windows (tx_view t) \<and> w_window_hw (merged t) = db_window_hw (tx_view t)
     \<and> w_staged_bytes (merged t) = total_bytes (db_windows (tx_view t))"

lemma store_ok_wf: "store_ok origin w \<Longrightarrow> bt_wf (w_windows w)"
  by (simp add: store_ok_def mirrors_def windows_ok_def Let_def)

lemma append_base_pending_windows [simp]: "append_base (t\<lparr>tx_pending_windows := x\<rparr>) = append_base t"
  by (auto simp: fun_eq_iff append_base_def split: option.splits)

lemma open_on_fields:
  assumes "open_on w t"
  shows "w_applied (tx_writer t) = w_applied w" and "w_windows (tx_writer t) = w_windows w"
    and "w_window_hw (tx_writer t) = w_window_hw w" and "w_staged_bytes (tx_writer t) = w_staged_bytes w"
  using assms by (simp_all add: open_on_def same_store_iff tx_drop_def)

lemma txn_ok_begin:
  assumes "store_ok origin w" and "open_on w t" and "tx_origin t = origin" and "tx_view t = cn_db (w_conn w)"
    and "tx_pending_applied t = []" and "tx_pending_windows t = []" and "tx_pending_bytes t = []"
  shows "txn_ok w t"
proof -
  have "txn_applied t = applied_of (tx_view t)"
    using assms open_on_fields[OF assms(2)]
    by (auto simp: fun_eq_iff txn_applied_def append_base_def applied_of_def store_ok_def mirrors_def Let_def)
  with assms open_on_fields[OF assms(2)] show ?thesis
    by (simp add: txn_ok_def merged_def store_ok_def mirrors_def windows_ok_def Let_def)
qed

text \<open>A statement that touches neither the registry nor the applied rows nor a table.\<close>

lemma txn_frame:
  assumes "t'\<lparr>tx_writer := tx_writer t\<rparr> = t"
  shows "tx_origin t' = tx_origin t" and "tx_pending_applied t' = tx_pending_applied t"
    and "tx_pending_windows t' = tx_pending_windows t" and "tx_pending_bytes t' = tx_pending_bytes t"
  by (subst assms[symmetric], simp)+

lemma txn_frame_more:
  assumes "t'\<lparr>tx_writer := tx_writer t\<rparr> = t" and "open_on w t" and "open_on w t'"
  shows "append_base t' = append_base t" and "w_windows (merged t') = w_windows (merged t)"
    and "w_window_hw (merged t') = w_window_hw (merged t)" and "w_staged_bytes (merged t') = w_staged_bytes (merged t)"
    and "pending_coverage t' = pending_coverage t"
proof -
  note f = txn_frame[OF assms(1)] and o = open_on_fields[OF assms(2)] and o' = open_on_fields[OF assms(3)]
  show "append_base t' = append_base t" by (auto simp: fun_eq_iff append_base_def f o o' split: option.splits)
  show "pending_coverage t' = pending_coverage t" by (simp add: pending_coverage_def f)
  have "tx_writer t' = (tx_writer t)\<lparr>w_conn := w_conn (tx_writer t')\<rparr>" using o o' by simp
  then have "merged t' = (merged t)\<lparr>w_conn := w_conn (tx_writer t')\<rparr>"
    by (simp add: merged_def f) (metis merge_conn(1,2))
  then show "w_windows (merged t') = w_windows (merged t)"
    and "w_window_hw (merged t') = w_window_hw (merged t)" and "w_staged_bytes (merged t') = w_staged_bytes (merged t)"
    by simp_all
qed

lemma txn_ok_neutral:
  assumes "txn_ok w t" and "tx_execute F stmt t = (r, t')"
    and "\<And>db. stmt (tx_view t) = Inr db \<Longrightarrow> windows_ok db \<and> win_rows db = win_rows (tx_view t)
      \<and> db_applied db = db_applied (tx_view t) \<and> db_windows db = db_windows (tx_view t)
      \<and> db_window_hw db = db_window_hw (tx_view t)"
  shows "txn_ok w t'"
proof -
  have o: "open_on w t" using assms(1) by (simp add: txn_ok_def)
  have o': "open_on w t'" and fr: "t'\<lparr>tx_writer := tx_writer t\<rparr> = t" using tx_execute_open[OF assms(2) o] by auto
  have "windows_ok (tx_view t') \<and> win_rows (tx_view t') = win_rows (tx_view t)
      \<and> db_applied (tx_view t') = db_applied (tx_view t) \<and> db_windows (tx_view t') = db_windows (tx_view t)
      \<and> db_window_hw (tx_view t') = db_window_hw (tx_view t)"
    using assms(2) o by (cases rule: tx_execute_cases) (use assms(1,3) in \<open>auto simp: txn_ok_def\<close>)
  moreover from this have "txn_applied t' = txn_applied t"
    using txn_frame[OF fr] txn_frame_more[OF fr o o'] by (auto simp: fun_eq_iff txn_applied_def applied_of_def)
  ultimately show ?thesis
    using assms(1) o' txn_frame[OF fr] txn_frame_more[OF fr o o'] by (simp add: txn_ok_def)
qed

lemma txn_ok_register:
  assumes ok: "txn_ok w t" and new: "bt_get (db_windows (tx_view t)) (ds, p, win) = None"
    and view: "tx_view t' = (tx_view t)\<lparr>
      db_tables := bt_insert (key_table (ds, p, win)) \<lparr>tb_columns = cols, tb_rows = []\<rparr> (db_tables (tx_view t)),
      db_windows := bt_insert (ds, p, win) \<lparr>wme_table = key_table (ds, p, win), wme_bytes = 0\<rparr> (db_windows (tx_view t)),
      db_window_hw := bt_upsert (ds, p) win (\<lambda>hw. max hw win) (db_window_hw (tx_view t))\<rparr>"
    and fr: "t'\<lparr>tx_writer := tx_writer t\<rparr> = t" and o': "open_on w t'"
  shows "txn_ok w (t'\<lparr>tx_pending_windows := tx_pending_windows t' @ [((ds, p, win), key_table (ds, p, win))]\<rparr>)"
    (is "txn_ok w ?t")
proof -
  let ?key = "(ds, p, win)" and ?meta = "\<lparr>wme_table = key_table (ds, p, win), wme_bytes = 0\<rparr>"
  have o: "open_on w t" and wo: "windows_ok (tx_view t)" using ok by (auto simp: txn_ok_def)
  note reg = windows_ok_register[OF wo new, of cols, folded view]
  note f = txn_frame[OF fr] and m = txn_frame_more[OF fr o o']
  have wfw: "bt_wf (db_windows (tx_view t))" using wo by (simp add: windows_ok_def)
  have base: "w_windows (tx_writer t') = w_windows (tx_writer t)" "w_window_hw (tx_writer t') = w_window_hw (tx_writer t)"
    "w_staged_bytes (tx_writer t') = w_staged_bytes (tx_writer t)"
    using open_on_fields[OF o] open_on_fields[OF o'] by auto
  let ?fw = "fold merge_window (tx_pending_windows t) (tx_writer t')"
  have mt: "merged ?t = fold merge_bytes (tx_pending_bytes t) (merge_window (?key, key_table ?key) ?fw)"
    by (simp add: merged_def f)
  have mt': "merged t' = fold merge_bytes (tx_pending_bytes t) ?fw" by (simp add: merged_def f)
  have pb: "bt_get (tx_pending_bytes t) ?key = None" "bt_wf (tx_pending_bytes t)"
    using ok new by (auto simp: txn_ok_def bt_get_None)
  have "bt_wf (w_windows (tx_writer t'))"
    using ok open_on_fields[OF o'] by (simp add: txn_ok_def store_ok_def mirrors_def windows_ok_def Let_def)
  then have wwf: "bt_wf (w_windows ?fw)" by (rule merge_window_fields(3))
  have old: "bt_get (w_windows (merged t')) k = bt_get (db_windows (tx_view t)) k" for k
    using ok m(2) by (simp add: txn_ok_def)
  have "w_windows (merged ?t) = bt_insert ?key ?meta (db_windows (tx_view t))"
  proof (rule bt_ext)
    have mwf: "bt_wf (w_windows (merge_window (?key, key_table ?key) ?fw))"
      using wwf by (simp add: merge_window1)
    show "bt_wf (w_windows (merged ?t))" unfolding mt by (rule merge_bytes_fields(4)[OF mwf])
    show "bt_wf (bt_insert ?key ?meta (db_windows (tx_view t)))" using wfw by simp
    show "bt_get (w_windows (merged ?t)) k = bt_get (bt_insert ?key ?meta (db_windows (tx_view t))) k" for k
      unfolding mt merge_bytes_get[OF pb(2) mwf]
      using old[of k, unfolded mt' merge_bytes_get[OF pb(2) wwf]] pb(1) by (auto simp: merge_window1)
  qed
  moreover have "w_window_hw (merged ?t) = db_window_hw (tx_view t')"
    using ok m(3) unfolding mt mt' merge_bytes_fields merge_window1 by (simp add: view txn_ok_def)
  moreover have "w_staged_bytes (merged ?t) = total_bytes (bt_insert ?key ?meta (db_windows (tx_view t)))"
    using ok m(4) new unfolding mt mt' merge_bytes_fields merge_window1
    by (simp add: txn_ok_def total_bytes_insert[OF wfw])
  moreover have "txn_applied ?t = txn_applied t"
    using m(1) f(1) by (auto simp: fun_eq_iff txn_applied_def applied_of_def view)
  moreover have "open_on w ?t" using o' by (simp add: open_on_def tx_drop_def)
  moreover have "fst ` set (tx_pending_bytes t) \<subseteq> fst ` set (bt_insert ?key ?meta (db_windows (tx_view t)))"
    using ok by (auto simp: txn_ok_def keys_bt_insert)
  ultimately show ?thesis
    using ok reg by (simp add: txn_ok_def f view)
qed

lemma registered_in_view:
  assumes "txn_ok w t"
  shows "bt_get (db_windows (tx_view t)) key = None \<longleftrightarrow>
    bt_get (w_windows w) key = None \<and> key \<notin> fst ` set (tx_pending_windows t)"
proof -
  have wf: "bt_wf (w_windows (fold merge_window (tx_pending_windows t) (tx_writer t)))"
    using assms open_on_fields(2)[of w t] store_ok_wf[of "tx_origin t" w]
    by (intro merge_window_fields(3)) (simp add: txn_ok_def)
  have "bt_get (w_windows (merged t)) key = None
      \<longleftrightarrow> bt_get (w_windows (fold merge_window (tx_pending_windows t) (tx_writer t))) key = None"
    unfolding merged_def using assms by (subst merge_bytes_get[OF _ wf]) (simp_all add: txn_ok_def)
  moreover have "w_windows (merged t) = db_windows (tx_view t)" "w_windows (tx_writer t) = w_windows w"
    using assms open_on_fields(2)[of w t] by (auto simp: txn_ok_def)
  ultimately show ?thesis by (simp add: merge_window_None)
qed

lemma sql_Inr:
  "sql_create_table table cols db = Inr db' \<longleftrightarrow> bt_get (db_tables db) table = None
     \<and> db' = db\<lparr>db_tables := bt_insert table \<lparr>tb_columns = cols, tb_rows = []\<rparr> (db_tables db)\<rparr>"
  "sql_register_window key table db = Inr db' \<longleftrightarrow> bt_get (db_windows db) key = None
     \<and> db' = db\<lparr>db_windows := bt_insert key \<lparr>wme_table = table, wme_bytes = 0\<rparr> (db_windows db)\<rparr>"
  "sql_raise_hw ds p win db = Inr db' \<longleftrightarrow>
     db' = db\<lparr>db_window_hw := bt_upsert (ds, p) win (\<lambda>hw. max hw win) (db_window_hw db)\<rparr>"
  by (auto simp: sql_create_table_def sql_register_window_def sql_raise_hw_def)

lemma txn_ok_ensure:
  assumes ok: "txn_ok w t" and e: "ensure_window F ds p win schema t = (Inr table, t')"
  shows "txn_ok w t' \<and> table = key_table (ds, p, win) \<and> bt_get (db_windows (tx_view t')) (ds, p, win) \<noteq> None
    \<and> win_rows (tx_view t') = win_rows (tx_view t) \<and> append_base t' = append_base t
    \<and> tx_origin t' = tx_origin t \<and> tx_pending_applied t' = tx_pending_applied t
    \<and> db_dedup (tx_view t') = db_dedup (tx_view t)"
proof -
  let ?key = "(ds, p, win)"
  have o: "open_on w t" using ok by (simp add: txn_ok_def)
  have w: "w_windows (tx_writer t) = w_windows w" by (rule open_on_fields(2)[OF o])
  show ?thesis
  proof (cases "bt_get (w_windows w) ?key")
    case (Some meta)
    with e w have t': "t' = t" "table = wme_table meta" by (auto simp: ensure_window_def)
    have "wme_table meta = key_table ?key"
      using ok Some by (simp add: txn_ok_def store_ok_def mirrors_def windows_ok_def Let_def)
    with t' ok Some show ?thesis by (simp add: registered_in_view)
  next
    case base: None
    show ?thesis
    proof (cases "find (\<lambda>(k, _). k = ?key) (tx_pending_windows t)")
      case (Some x)
      with base e w have t': "t' = t" "table = snd x" by (auto simp: ensure_window_def split: prod.splits)
      from Some have x: "x \<in> set (tx_pending_windows t)" "fst x = ?key" 
        by (auto simp: find_Some_iff in_set_conv_nth)
      then have "table = key_table ?key" using ok t' by (auto simp: txn_ok_def)
      moreover have "?key \<in> fst ` set (tx_pending_windows t)" using x by force
      ultimately show ?thesis using t' ok by (simp add: registered_in_view)
    next
      case None
      with base e w obtain cols where cols: "column_defs schema = Inr cols" by (auto simp: ensure_window_def Let_def split: sum.splits)
      let ?ddl = "cols @ ''origin VARCHAR NOT NULL, seq UBIGINT NOT NULL''"
      from None base e w cols obtain t1 t2 t3 where
          x1: "tx_execute F (sql_create_table (key_table ?key) ?ddl) t = (Inr (), t1)"
        and x2: "tx_execute F (sql_register_window ?key (key_table ?key)) t1 = (Inr (), t2)"
        and x3: "tx_execute F (sql_raise_hw ds p win) t2 = (Inr (), t3)"
        and t': "t' = t3\<lparr>tx_pending_windows := tx_pending_windows t3 @ [(?key, key_table ?key)]\<rparr>"
        and table: "table = key_table ?key"
        by (auto simp: ensure_window_def Let_def and_then_Inr)
      note o1 = tx_execute_open[OF x1 o]
      note o2 = tx_execute_open[OF x2 o1(1)]
      note o3 = tx_execute_open[OF x3 o2(1)]
      have fr: "t3\<lparr>tx_writer := tx_writer t\<rparr> = t" by (metis o1(2) o2(2) o3(2) stage_txn.surjective stage_txn.update_convs(1))
      from x1 o have v1: "sql_create_table (key_table ?key) ?ddl (tx_view t) = Inr (tx_view t1)"
        by (cases rule: tx_execute_cases) auto
      from x2 o1(1) have v2: "sql_register_window ?key (key_table ?key) (tx_view t1) = Inr (tx_view t2)"
        by (cases rule: tx_execute_cases) auto
      from x3 o2(1) have v3: "sql_raise_hw ds p win (tx_view t2) = Inr (tx_view t3)"
        by (cases rule: tx_execute_cases) auto
      have new: "bt_get (db_windows (tx_view t)) ?key = None"
        using v1 v2 by (simp add: sql_Inr)
      have view: "tx_view t3 = (tx_view t)\<lparr>
          db_tables := bt_insert (key_table ?key) \<lparr>tb_columns = ?ddl, tb_rows = []\<rparr> (db_tables (tx_view t)),
          db_windows := bt_insert ?key \<lparr>wme_table = key_table ?key, wme_bytes = 0\<rparr> (db_windows (tx_view t)),
          db_window_hw := bt_upsert (ds, p) win (\<lambda>hw. max hw win) (db_window_hw (tx_view t))\<rparr>"
        using v1 v2 v3 by (simp add: sql_Inr)
      have "txn_ok w t'" unfolding t' by (rule txn_ok_register[OF ok new view fr o3(1)])
      moreover have "tx_view t' = tx_view t3" using t' by simp
      moreover have "win_rows (tx_view t3) = win_rows (tx_view t)"
        using windows_ok_register(2)[OF _ new] ok view by (simp add: txn_ok_def)
      moreover have "append_base t' = append_base t" "tx_origin t' = tx_origin t" "tx_pending_applied t' = tx_pending_applied t"
        using txn_frame[OF fr] txn_frame_more(1)[OF fr o o3(1)] t' by auto
      ultimately show ?thesis using table view by simp
    qed
  qed
qed

text \<open>Rows and bytes of one batch, accounted for on the window and in the pending maps.\<close>

definition account ::
  "window_key \<Rightarrow> u64 \<Rightarrow> partition_id \<Rightarrow> u64 \<Rightarrow> u64 \<Rightarrow> 'p stage_txn \<Rightarrow> 'p stage_txn" where
  "account key bytes pid first_seq last_seq t =
     t\<lparr>tx_pending_bytes := bt_upsert key 0 (\<lambda>b. b + bytes) (tx_pending_bytes t),
       tx_pending_applied := bt_insert pid
         (case bt_get (tx_pending_applied t) pid of Some (f, _) \<Rightarrow> (f, last_seq) | None \<Rightarrow> (first_seq, last_seq))
         (tx_pending_applied t)\<rparr>"

lemma append_base_account:
  "append_base (account key bytes pid f l t) q = (if q = pid then l else append_base t q)"
  by (auto simp: account_def append_base_def split: option.splits)

lemma merged_account:
  assumes wf: "bt_wf (tx_pending_bytes t)" "bt_wf (w_windows (tx_writer t))"
    and reg: "bt_get (w_windows (merged t)) key = Some meta" and wfm: "bt_wf (w_windows (merged t))"
  shows "w_windows (merged (account key bytes pid f l t)) = bt_insert key (meta\<lparr>wme_bytes := wme_bytes meta + bytes\<rparr>) (w_windows (merged t))"
    and "w_window_hw (merged (account key bytes pid f l t)) = w_window_hw (merged t)"
    and "w_staged_bytes (merged (account key bytes pid f l t)) = w_staged_bytes (merged t) + bytes"
proof -
  let ?fw = "fold merge_window (tx_pending_windows t) (tx_writer t)"
  let ?pb = "bt_upsert key 0 (\<lambda>b. b + bytes) (tx_pending_bytes t)"
  have m: "merged (account key bytes pid f l t) = fold merge_bytes ?pb ?fw"
    and m0: "merged t = fold merge_bytes (tx_pending_bytes t) ?fw"
    by (simp_all add: merged_def account_def)
  have wwf: "bt_wf (w_windows ?fw)" using wf(2) by (rule merge_window_fields(3))
  have pwf: "bt_wf ?pb" using wf(1) by simp
  show "w_window_hw (merged (account key bytes pid f l t)) = w_window_hw (merged t)"
    unfolding m m0 merge_bytes_fields by simp
  show "w_staged_bytes (merged (account key bytes pid f l t)) = w_staged_bytes (merged t) + bytes"
    unfolding m m0 merge_bytes_fields by (simp add: bt_upsert_def sum_bytes_insert[OF wf(1)])
  show "w_windows (merged (account key bytes pid f l t))
      = bt_insert key (meta\<lparr>wme_bytes := wme_bytes meta + bytes\<rparr>) (w_windows (merged t))"
  proof (rule bt_ext)
    show "bt_wf (w_windows (merged (account key bytes pid f l t)))"
      unfolding m by (rule merge_bytes_fields(4)[OF wwf])
    show "bt_wf (bt_insert key (meta\<lparr>wme_bytes := wme_bytes meta + bytes\<rparr>) (w_windows (merged t)))" using wfm by simp
    show "bt_get (w_windows (merged (account key bytes pid f l t))) k
        = bt_get (bt_insert key (meta\<lparr>wme_bytes := wme_bytes meta + bytes\<rparr>) (w_windows (merged t))) k" for k
      using reg unfolding m m0 bt_get_insert merge_bytes_get[OF pwf wwf] merge_bytes_get[OF wf(1) wwf]
      by (auto simp: add.assoc)
  qed
qed

lemma sql_add_bytes_Inr:
  "bt_get (db_windows db) key = Some meta \<Longrightarrow> sql_add_bytes key bytes db = Inr db' \<longleftrightarrow>
     unat (wme_bytes meta) + unat bytes < 2 ^ 64
     \<and> db' = db\<lparr>db_windows := bt_insert key (meta\<lparr>wme_bytes := wme_bytes meta + bytes\<rparr>) (db_windows db)\<rparr>"
  by (auto simp: sql_add_bytes_def)

lemma txn_ok_append:
  assumes ok: "txn_ok w t" and a: "append_batch F ds p win b t = (Inr (), t')"
  defines "base \<equiv> append_base t p" and "n \<equiv> length (rb_rows b)"
  shows "txn_ok w t' \<and> tx_origin t' = tx_origin t \<and> db_dedup (tx_view t') = db_dedup (tx_view t)
    \<and> unat base + n < 2 ^ 64
    \<and> win_rows (tx_view t') = (win_rows (tx_view t))((ds, p, win) :=
        win_rows (tx_view t) (ds, p, win) @ augment_batch (rb_rows b) (tx_origin t) (base + 1))
    \<and> append_base t' = (append_base t)(p := base + of_nat n)
    \<and> tx_pending_applied t' = (if n = 0 then tx_pending_applied t else
        bt_insert p (map_or (base + 1) fst (bt_get (tx_pending_applied t) p), base + of_nat n) (tx_pending_applied t))"
proof -
  let ?key = "(ds, p, win)" and ?origin = "tx_origin t"
  from a obtain table t1 where e: "ensure_window F ds p win (rb_fields b) t = (Inr table, t1)"
    by (auto simp: append_batch_def and_then_Inr)
  note en = txn_ok_ensure[OF ok e]
  have o1: "open_on w t1" using en by (simp add: txn_ok_def)
  show ?thesis
  proof (cases "n = 0")
    case True
    with a e have "t' = t1" by (auto simp: append_batch_def n_def)
    with en True show ?thesis
      using u64_bound[of base] by (auto simp: base_def n_def augment_batch_def fun_upd_idem)
  next
    case False
    have fits: "unat base + n < 2 ^ 64"
      using a e en False
      by (auto simp: append_batch_def n_def[symmetric] base_def[symmetric] Let_def u64_checked_add_def split: if_splits)
    moreover from this False have "unat base + 1 < 2 ^ 64" by simp
    ultimately have add: "u64_checked_add base 1 = Some (base + 1)" "u64_checked_add base n = Some (base + of_nat n)"
      by (simp_all add: checked_add_Some)
    obtain bytes where bytes: "record_batch_content_bytes (rb_column_sizes b) = Inr bytes"
      using a e en False add
      by (cases "record_batch_content_bytes (rb_column_sizes b)")
        (auto simp: append_batch_def n_def[symmetric] base_def[symmetric] Let_def and_then_Inr)
    from a e en False add bytes obtain t2 t3 where
        x2: "tx_execute F (sql_update_table (key_table ?key) (\<lambda>old. old @ augment_batch (rb_rows b) ?origin (base + 1))) t1 = (Inr (), t2)"
      and x3: "tx_execute F (sql_add_bytes ?key bytes) t2 = (Inr (), t3)"
      and t': "t' = account ?key bytes p (base + 1) (base + of_nat n) t3"
      by (auto simp: append_batch_def n_def[symmetric] base_def[symmetric] Let_def and_then_Inr simp flip: account_def)
    note o2 = tx_execute_open[OF x2 o1]
    note o3 = tx_execute_open[OF x3 o2(1)]
    have fr: "t3\<lparr>tx_writer := tx_writer t1\<rparr> = t1" by (metis o2(2) o3(2) stage_txn.surjective stage_txn.update_convs(1))
    from x2 o1 have v2: "sql_update_table (key_table ?key) (\<lambda>old. old @ augment_batch (rb_rows b) ?origin (base + 1)) (tx_view t1) = Inr (tx_view t2)"
      by (cases rule: tx_execute_cases) auto
    from x3 o2(1) have v3: "sql_add_bytes ?key bytes (tx_view t2) = Inr (tx_view t3)"
      by (cases rule: tx_execute_cases) auto
    have wo1: "windows_ok (tx_view t1)" using en by (simp add: txn_ok_def)
    note up = windows_ok_update[OF wo1 v2]
    obtain meta where meta: "bt_get (db_windows (tx_view t1)) ?key = Some meta" using en by auto
    with v3 up(3) have view: "tx_view t3 = (tx_view t2)\<lparr>db_windows :=
        bt_insert ?key (meta\<lparr>wme_bytes := wme_bytes meta + bytes\<rparr>) (db_windows (tx_view t2))\<rparr>"
      by (simp add: sql_add_bytes_Inr)
    note f = txn_frame[OF fr] and m = txn_frame_more[OF fr o1 o3(1)]
    have wfs: "bt_wf (tx_pending_bytes t1)" "bt_wf (tx_pending_applied t1)" "bt_wf (db_windows (tx_view t1))"
      "w_windows (merged t1) = db_windows (tx_view t1)" "w_window_hw (merged t1) = db_window_hw (tx_view t1)"
      "w_staged_bytes (merged t1) = total_bytes (db_windows (tx_view t1))" "store_ok ?origin w"
      using en by (auto simp: txn_ok_def windows_ok_def)
    have wt3: "bt_wf (w_windows (tx_writer t3))"
      using open_on_fields(2)[OF o3(1)] store_ok_wf[OF wfs(7)] by simp
    have acc: "w_windows (merged t') = bt_insert ?key (meta\<lparr>wme_bytes := wme_bytes meta + bytes\<rparr>) (db_windows (tx_view t1))"
      "w_window_hw (merged t') = db_window_hw (tx_view t1)"
      "w_staged_bytes (merged t') = total_bytes (db_windows (tx_view t1)) + bytes"
      using merged_account[of t3 ?key meta bytes p "base + 1" "base + of_nat n"] wfs wt3 meta f m
      unfolding t' by auto
    have view': "tx_view t' = tx_view t3" by (simp add: t' account_def)
    have bases: "append_base t' = (append_base t)(p := base + of_nat n)"
      using en m(1) by (simp add: t' fun_eq_iff append_base_account)
    have orig: "tx_origin t' = ?origin" using f en by (simp add: t' account_def)
    have rows: "win_rows (tx_view t3) = (win_rows (tx_view t))(?key := win_rows (tx_view t) ?key @ augment_batch (rb_rows b) ?origin (base + 1))"
      using up(2) view en by simp
    have "rows_ok (txn_applied t') (win_rows (tx_view t'))"
      unfolding view' rows
    proof (rule rows_ok_append)
      show "rows_ok (txn_applied t1) (win_rows (tx_view t))" using en unfolding txn_ok_def by metis
      show "txn_applied t1 p ?origin = base" using en by (simp add: txn_applied_def base_def)
      show "unat base + length (rb_rows b) < 2 ^ 64" using fits by (simp add: n_def)
      show "txn_applied t' q o' = (if q = p \<and> o' = ?origin then base + of_nat (length (rb_rows b)) else txn_applied t1 q o')" for q o'
        using en up(5) view orig by (auto simp: txn_applied_def bases view' applied_of_def n_def)
    qed
    moreover have "windows_ok (tx_view t3)" unfolding view
      by (rule windows_ok_bytes) (use up meta in auto)
    moreover have "open_on w t'" using o3(1) by (simp add: t' account_def open_on_def tx_drop_def)
    moreover have pa: "tx_pending_applied t' = bt_insert p (map_or (base + 1) fst (bt_get (tx_pending_applied t) p), base + of_nat n) (tx_pending_applied t)"
      using en f by (auto simp: t' account_def split: option.splits)
    moreover have "db_windows (tx_view t3) = bt_insert ?key (meta\<lparr>wme_bytes := wme_bytes meta + bytes\<rparr>) (db_windows (tx_view t1))"
      using view up(3) by simp
    moreover have "db_window_hw (tx_view t3) = db_window_hw (tx_view t1)" "db_applied (tx_view t3) = db_applied (tx_view t1)"
      "db_dedup (tx_view t3) = db_dedup (tx_view t1)"
      using view up by auto
    moreover have "fst ` set (tx_pending_bytes t') \<subseteq> fst ` set (db_windows (tx_view t3))"
      using en f view up(3) by (auto simp: t' account_def bt_upsert_def keys_bt_insert txn_ok_def)
    moreover have "bt_wf (tx_pending_bytes t')" "tx_origin t' = ?origin" "tx_pending_windows t' = tx_pending_windows t1"
      using wfs f en by (auto simp: t' account_def)
    moreover have "bt_wf (tx_pending_applied t')" using pa wfs en by simp
    ultimately show ?thesis
      using en acc False fits bases rows meta total_bytes_insert[OF wfs(3)] wfs(7) view'
      by (simp add: txn_ok_def)
  qed
qed

end
