(* ===== verification/Stage_Commit.thy ===== *)
theory Stage_Commit
  imports Store_Invariant
begin

text \<open>
  The stage transaction as a whole: what a commit adds to the store, what a failure leaves, what a
  retry is answered, and that a restart finds the store as it was.
\<close>

section \<open>Staging all batches\<close>

lemma augment_batch_append:
  "augment_batch (xs @ ys) origin f = augment_batch xs origin f @ augment_batch ys origin (f + of_nat (length xs))"
  by (rule nth_equalityI) (auto simp: nth_append nth_augment_batch add.assoc simp flip: of_nat_add)

lemma txn_ok_append_all:
  assumes "txn_ok w t" and "append_all F ds p win bs t = (Inr (), t')"
  defines "base \<equiv> append_base t p" and "ps \<equiv> concat (map rb_rows bs)"
  shows "txn_ok w t' \<and> tx_origin t' = tx_origin t \<and> db_dedup (tx_view t') = db_dedup (tx_view t)
    \<and> unat base + length ps < 2 ^ 64
    \<and> win_rows (tx_view t') = (win_rows (tx_view t))((ds, p, win) :=
        win_rows (tx_view t) (ds, p, win) @ augment_batch ps (tx_origin t) (base + 1))
    \<and> append_base t' = (append_base t)(p := base + of_nat (length ps))
    \<and> tx_pending_applied t' = (if ps = [] then tx_pending_applied t else
        bt_insert p (map_or (base + 1) fst (bt_get (tx_pending_applied t) p), base + of_nat (length ps))
          (tx_pending_applied t))"
  using assms(1,2) unfolding base_def ps_def
proof (induction bs arbitrary: t)
  case Nil
  then show ?case using u64_bound[of "append_base t p"] by (auto simp: augment_batch_def fun_upd_idem)
next
  case (Cons b bs)
  from Cons.prems(2) obtain t1 where a: "append_batch F ds p win b t = (Inr (), t1)"
    and r: "append_all F ds p win bs t1 = (Inr (), t')"
    by (auto simp: and_then_Inr)
  note one = txn_ok_append[OF Cons.prems(1) a]
  from one have "txn_ok w t1" by blast
  note all = Cons.IH[OF this r]
  let ?n = "length (rb_rows b)" and ?base = "append_base t p"
  have n: "append_base t1 p = ?base + of_nat ?n" "unat (append_base t1 p) = unat ?base + ?n"
    using one unat_add_of_nat[of ?base ?n] by auto
  have fits: "unat ?base + length (concat (map rb_rows (b # bs))) < 2 ^ 64" using all n(2) by simp
  have wf: "bt_wf (tx_pending_applied t)" using Cons.prems(1) by (simp add: txn_ok_def)
  have rows: "win_rows (tx_view t') = (win_rows (tx_view t))((ds, p, win) :=
        win_rows (tx_view t) (ds, p, win) @ augment_batch (concat (map rb_rows (b # bs))) (tx_origin t) (?base + 1))"
  proof -
    have r1: "win_rows (tx_view t1) = (win_rows (tx_view t))((ds, p, win) :=
        win_rows (tx_view t) (ds, p, win) @ augment_batch (rb_rows b) (tx_origin t) (?base + 1))"
      and r2: "win_rows (tx_view t') = (win_rows (tx_view t1))((ds, p, win) :=
        win_rows (tx_view t1) (ds, p, win) @ augment_batch (concat (map rb_rows bs)) (tx_origin t) (append_base t1 p + 1))"
      using one all by auto
    show ?thesis unfolding r2 r1 n(1) by (simp add: augment_batch_append algebra_simps)
  qed
  have pend: "tx_pending_applied t' = (if concat (map rb_rows (b # bs)) = [] then tx_pending_applied t else
        bt_insert p (map_or (?base + 1) fst (bt_get (tx_pending_applied t) p), ?base + of_nat (length (concat (map rb_rows (b # bs)))))
          (tx_pending_applied t))"
  proof -
    have p1: "tx_pending_applied t1 = (if rb_rows b = [] then tx_pending_applied t else
        bt_insert p (map_or (?base + 1) fst (bt_get (tx_pending_applied t) p), ?base + of_nat ?n) (tx_pending_applied t))"
      and p2: "tx_pending_applied t' = (if concat (map rb_rows bs) = [] then tx_pending_applied t1 else
        bt_insert p (map_or (append_base t1 p + 1) fst (bt_get (tx_pending_applied t1) p),
          append_base t1 p + of_nat (length (concat (map rb_rows bs)))) (tx_pending_applied t1))"
      using one all by auto
    show ?thesis
      unfolding p2 p1 n(1) using wf
      by (cases "rb_rows b = []"; cases "concat (map rb_rows bs) = []") 
        (simp_all add: bt.insert_same add.assoc del: concat_eq_Nil_conv)
  qed
  have "append_base t' = (append_base t)(p := ?base + of_nat (length (concat (map rb_rows (b # bs)))))"
  proof -
    have b1: "append_base t1 = (append_base t)(p := ?base + of_nat ?n)"
      and b2: "append_base t' = (append_base t1)(p := append_base t1 p + of_nat (length (concat (map rb_rows bs))))"
      using one all by auto
    show ?thesis unfolding b2 n(1) b1 by (simp add: add.assoc)
  qed
  with one all fits rows pend show ?case by (simp only: simp_thms)
qed

section \<open>The commit\<close>

lemma write_applied_view:
  assumes "write_applied F ps t = (Inr (), t1)" and "open_on w t"
  shows "open_on w t1 \<and> t1\<lparr>tx_writer := tx_writer t\<rparr> = t
    \<and> tx_view t1 = (tx_view t)\<lparr>db_applied := fold (\<lambda>(p, (_, l)). bt_insert (p, tx_origin t) l) ps (db_applied (tx_view t))\<rparr>"
  using assms
proof (induction ps arbitrary: t)
  case (Cons x ps)
  obtain p f l where x: "x = (p, (f, l))" by (cases x) auto
  from Cons.prems(1) x obtain t2 where e: "tx_execute F (sql_set_applied p (tx_origin t) l) t = (Inr (), t2)"
    and r: "write_applied F ps t2 = (Inr (), t1)"
    by (auto simp: and_then_Inr)
  note o = tx_execute_open[OF e Cons.prems(2)]
  from e Cons.prems(2) have v: "tx_view t2 = (tx_view t)\<lparr>db_applied := bt_insert (p, tx_origin t) l (db_applied (tx_view t))\<rparr>"
    by (cases rule: tx_execute_cases) (auto simp: sql_set_applied_def)
  note IH = Cons.IH[OF r o(1)]
  have "t1\<lparr>tx_writer := tx_writer t\<rparr> = t" by (metis IH o(2) stage_txn.surjective stage_txn.update_convs(1))
  with IH v x txn_frame(1)[OF o(2)] show ?case by simp
qed simp

lemma fold_applied_get:
  assumes "bt_wf ps"
  shows "bt_get (fold (\<lambda>(p, (_, l)). bt_insert (p, origin) l) ps m) (q, o') =
    (if o' = origin then (case bt_get ps q of Some (_, l) \<Rightarrow> Some l | None \<Rightarrow> bt_get m (q, o')) else bt_get m (q, o'))"
  using assms
proof (induction ps arbitrary: m)
  case (Cons e ps)
  obtain p f l where e: "e = (p, (f, l))" by (cases e) auto
  have "bt_get ps p = None" using Cons.prems e by (auto simp: bt_wf_Cons bt_get_None)
  with Cons e show ?case by (auto simp: bt_wf_Cons split: option.splits)
qed simp

lemma fold_applied_wf: "bt_wf m \<Longrightarrow> bt_wf (fold (\<lambda>(p, (_, l)). bt_insert (p, origin) l) ps m)"
  by (induction ps arbitrary: m) (auto split: prod.splits)

text \<open>What a successful commit makes of an open transaction.\<close>

lemma commit_ok:
  assumes ok: "txn_ok w t" and c: "commit_txn F t = (Inr cov, w')"
  shows "store_ok (tx_origin t) w' \<and> cov = pending_coverage t
    \<and> win_rows (cn_db (w_conn w')) = win_rows (tx_view t)
    \<and> db_dedup (cn_db (w_conn w')) = db_dedup (tx_view t)
    \<and> db_window_hw (cn_db (w_conn w')) = db_window_hw (tx_view t)
    \<and> applied_of (cn_db (w_conn w')) = txn_applied t"
proof -
  have o: "open_on w t" and s: "store_ok (tx_origin t) w" using ok by (auto simp: txn_ok_def)
  from c o obtain t1 cn where w1: "write_applied F (tx_pending_applied t) t = (Inr (), t1)"
    and db: "cn_db cn = tx_view t1" "cn_txn cn = None" and cov: "cov = pending_coverage t"
    and w': "w' = fold merge_applied (tx_pending_applied t1) (fold merge_bytes (tx_pending_bytes t1)
             (fold merge_window (tx_pending_windows t1) ((tx_writer t1)\<lparr>w_conn := cn\<rparr>)))"
    by (cases rule: commit_txn_cases) auto
  note wa = write_applied_view[OF w1 o]
  from wa have o1: "open_on w t1" and fr: "t1\<lparr>tx_writer := tx_writer t\<rparr> = t" by auto
  note f = txn_frame[OF fr] and m = txn_frame_more[OF fr o o1]
  have view: "tx_view t1 = (tx_view t)\<lparr>db_applied := fold (\<lambda>(p, (_, l)). bt_insert (p, tx_origin t) l)
      (tx_pending_applied t) (db_applied (tx_view t))\<rparr>"
    using wa by blast
  have w'': "w' = fold merge_applied (tx_pending_applied t) ((merged t1)\<lparr>w_conn := cn\<rparr>)"
    by (simp add: w' f merged_def merge_conn)
  have conn: "w_conn w' = cn" by (simp add: w'' merge_applied_fields)
  have wfp: "bt_wf (tx_pending_applied t)" using ok by (simp add: txn_ok_def)
  have app: "applied_of (tx_view t1) = txn_applied t"
  proof (intro ext)
    fix q o'
    have "bt_get (w_applied (tx_writer t)) q = bt_get (db_applied (tx_view t)) (q, tx_origin t)"
      using s ok open_on_fields(1)[OF o] by (simp add: txn_ok_def store_ok_def mirrors_def Let_def)
    then show "applied_of (tx_view t1) q o' = txn_applied t q o'"
      by (auto simp: applied_of_def view fold_applied_get[OF wfp] txn_applied_def append_base_def split: option.splits)
  qed
  have "windows_ok (tx_view t1)"
    unfolding view using ok
    by (intro windows_ok_simple(1) fold_applied_wf) (auto simp: txn_ok_def windows_ok_def)
  moreover have "rows_ok (applied_of (tx_view t1)) (win_rows (tx_view t1))"
    unfolding app using ok by (simp add: view txn_ok_def)
  moreover have "mirrors (tx_origin t) w' (tx_view t1)"
    unfolding mirrors_def
  proof (intro conjI allI)
    have wa0: "w_applied (merged t1) = w_applied w"
      using open_on_fields(1)[OF o1] by (simp add: merged_def merge_bytes_fields merge_window_fields)
    have "bt_wf (w_applied w)" using s by (simp add: store_ok_def mirrors_def Let_def)
    with wa0 show "bt_wf (w_applied w')" by (simp add: w'' merge_applied_fields)
    show "bt_get (w_applied w') pid = bt_get (db_applied (tx_view t1)) (pid, tx_origin t)" for pid
      using s ok wa0
      by (auto simp: w'' merge_applied_get[OF wfp] view fold_applied_get[OF wfp] txn_ok_def store_ok_def
          mirrors_def Let_def split: option.splits)
    show "w_windows w' = db_windows (tx_view t1)" "w_window_hw w' = db_window_hw (tx_view t1)"
      "w_staged_bytes w' = total_bytes (db_windows (tx_view t1))"
      using ok m by (simp_all add: w'' merge_applied_fields view txn_ok_def)
  qed
  ultimately show ?thesis
    using db cov app by (simp add: store_ok_def conn view Let_def)
qed

section \<open>The dedup statements\<close>

lemma oldest_subset: "set (oldest_dedup n entries) \<subseteq> fst ` set entries"
proof -
  have "set (take n (sort_key (\<lambda>(_, row). dd_created_wall_ms row) entries)) \<subseteq> set entries"
    using set_take_subset[of n "sort_key (\<lambda>(_, row). dd_created_wall_ms row) entries"] by simp
  then show ?thesis by (auto simp: oldest_dedup_def)
qed

text \<open>A statement that changes the dedup table only.\<close>

definition dedup_stmt :: "'p sql \<Rightarrow> bool" where
  "dedup_stmt stmt \<longleftrightarrow> (\<forall>db db'. stmt db = Inr db' \<longrightarrow>
     (\<exists>d. (bt_wf (db_dedup db) \<longrightarrow> bt_wf d) \<and> db' = db\<lparr>db_dedup := d\<rparr>))"

lemma dedup_stmtI:
  "(\<And>db. stmt db = Inr (db\<lparr>db_dedup := f db\<rparr>)) \<Longrightarrow> (\<And>db. bt_wf (db_dedup db) \<Longrightarrow> bt_wf (f db)) \<Longrightarrow> dedup_stmt stmt"
  unfolding dedup_stmt_def by force

lemma dedup_stmts [simp]:
  "dedup_stmt Inr" "dedup_stmt (sql_put_dedup tenant key row)" "dedup_stmt (sql_mark_acked tenant key)"
  "dedup_stmt (sql_expire_dedup cutoff)" "dedup_stmt (sql_evict_oldest n)"
proof -
  show "dedup_stmt Inr" by (rule dedup_stmtI[of _ db_dedup]) auto
  show "dedup_stmt (sql_put_dedup tenant key row)"
    by (rule dedup_stmtI[of _ "\<lambda>db. bt_insert (tenant, key) row (db_dedup db)"]) (simp_all add: sql_put_dedup_def)
  show "dedup_stmt (sql_mark_acked tenant key)"
    by (rule dedup_stmtI[of _ "\<lambda>db. case bt_get (db_dedup db) (tenant, key) of None \<Rightarrow> db_dedup db
          | Some row \<Rightarrow> bt_insert (tenant, key) (row\<lparr>dd_acked := True\<rparr>) (db_dedup db)"])
      (auto simp: sql_mark_acked_def split: option.splits)
  show "dedup_stmt (sql_expire_dedup cutoff)"
    by (rule dedup_stmtI[of _ "\<lambda>db. filter (\<lambda>(_, row). \<not> dd_created_wall_ms row < cutoff) (db_dedup db)"])
      (simp_all add: sql_expire_dedup_def)
  show "dedup_stmt (sql_evict_oldest n)"
    by (rule dedup_stmtI[of _ "\<lambda>db. filter (\<lambda>(k, _). k \<notin> set (oldest_dedup n (db_dedup db))) (db_dedup db)"])
      (simp_all add: sql_evict_oldest_def)
qed

lemma dedup_stmt_neutral:
  assumes "windows_ok db" and "dedup_stmt stmt" and "stmt db = Inr db'"
  shows "windows_ok db' \<and> win_rows db' = win_rows db \<and> db_applied db' = db_applied db
    \<and> db_windows db' = db_windows db \<and> db_window_hw db' = db_window_hw db"
proof -
  obtain d where "bt_wf (db_dedup db) \<longrightarrow> bt_wf d" "db' = db\<lparr>db_dedup := d\<rparr>"
    using assms(2,3) unfolding dedup_stmt_def by blast
  then show ?thesis using windows_ok_simple(2)[OF assms(1), of d] assms(1) by (simp add: windows_ok_def)
qed

lemma txn_ok_dedup:
  assumes "txn_ok w t" and "tx_execute F stmt t = (r, t')"
    and "dedup_stmt stmt"
  shows "txn_ok w t'" and "win_rows (tx_view t') = win_rows (tx_view t)" and "txn_applied t' = txn_applied t"
    and "pending_coverage t' = pending_coverage t" and "tx_pending_applied t' = tx_pending_applied t"
    and "tx_origin t' = tx_origin t" and "append_base t' = append_base t"
proof -
  have o: "open_on w t" and wo: "windows_ok (tx_view t)" using assms(1) by (auto simp: txn_ok_def)
  show "txn_ok w t'"
    by (rule txn_ok_neutral[OF assms(1,2)]) (rule dedup_stmt_neutral[OF wo assms(3)])
  note to = tx_execute_open[OF assms(2) o]
  show "tx_pending_applied t' = tx_pending_applied t" "tx_origin t' = tx_origin t" by (rule txn_frame[OF to(2)])+
  show "pending_coverage t' = pending_coverage t" "append_base t' = append_base t"
    by (rule txn_frame_more[OF to(2) o to(1)])+
  have "win_rows (tx_view t') = win_rows (tx_view t) \<and> db_applied (tx_view t') = db_applied (tx_view t)"
    using assms(2) o by (cases rule: tx_execute_cases) (use dedup_stmt_neutral[OF wo assms(3)] in auto)
  then show "win_rows (tx_view t') = win_rows (tx_view t)" and "txn_applied t' = txn_applied t"
    using txn_frame(1)[OF to(2)] txn_frame_more(1)[OF to(2) o to(1)]
    by (auto simp: fun_eq_iff txn_applied_def applied_of_def)
qed

text \<open>The transaction is unchanged up to its dedup table.\<close>

definition dedup_only :: "'p writer_inner \<Rightarrow> 'p stage_txn \<Rightarrow> 'p stage_txn \<Rightarrow> bool" where
  "dedup_only w t t' \<longleftrightarrow> txn_ok w t' \<and> win_rows (tx_view t') = win_rows (tx_view t) \<and> txn_applied t' = txn_applied t
     \<and> pending_coverage t' = pending_coverage t \<and> tx_origin t' = tx_origin t \<and> append_base t' = append_base t
     \<and> tx_pending_applied t' = tx_pending_applied t"

lemma dedup_only_execute:
  assumes "txn_ok w t" and "tx_execute F stmt t = (r, t')"
    and "dedup_stmt stmt"
  shows "dedup_only w t t'"
  using txn_ok_dedup[OF assms] by (simp add: dedup_only_def)

lemma dedup_only_trans: "dedup_only w t t' \<Longrightarrow> dedup_only w t' t'' \<Longrightarrow> dedup_only w t t''"
  by (simp add: dedup_only_def)

lemma dedup_lookup_ok:
  assumes "txn_ok w t" and "dedup_lookup F tenant key m t = (Inr found, t')"
  shows "dedup_only w t t' \<and> tx_view t' = tx_view t
    \<and> found = (case bt_get (db_dedup (tx_view t)) (tenant, key) of
         Some row \<Rightarrow> if m \<le> dd_created_wall_ms row
                     then Some \<lparr>de_acked = dd_acked row, de_outcome_json = dd_outcome row\<rparr> else None
       | None \<Rightarrow> None)"
proof -
  have o: "open_on w t" using assms(1) by (simp add: txn_ok_def)
  from assms(2) obtain t1 where x: "tx_execute F Inr t = (Inr (), t1)" and t': "t' = t1"
    and found: "found = (case bt_get (db_dedup (tx_view t1)) (tenant, key) of
         Some row \<Rightarrow> if m \<le> dd_created_wall_ms row
                     then Some \<lparr>de_acked = dd_acked row, de_outcome_json = dd_outcome row\<rparr> else None
       | None \<Rightarrow> None)"
    by (auto simp: dedup_lookup_def and_then_Inr)
  from x o have "tx_view t1 = tx_view t" by (cases rule: tx_execute_cases) auto
  with found t' dedup_only_execute[OF assms(1) x] show ?thesis by simp
qed

lemma resolve_duplicate_ok:
  assumes "txn_ok w t" and "resolve_duplicate E tenant key entry at_rf t = (Inr outcome, t')"
  shows "dedup_only w t t' \<and> (outcome = DuplicateInFlight \<and> \<not> de_acked entry \<and> \<not> at_rf
    \<or> (\<exists>cov. outcome = DuplicateAcked cov \<and> env_of_json E (de_outcome_json entry) = Inr cov))"
proof -
  have refl: "dedup_only w t t" using assms(1) by (simp add: dedup_only_def)
  show ?thesis
    using assms refl dedup_only_execute[OF assms(1) _ dedup_stmts(3)]
    by (auto simp: resolve_duplicate_def dedup_mark_acked_def parse_outcome_def Let_def and_then_Inr
        split: if_splits sum.splits)
qed

lemma length_bt_insert: "length (bt_insert k v m) \<le> Suc (length m)"
  by (induction m) (auto split: if_splits)

lemma dedup_evict_ok:
  assumes "txn_ok w t" and "dedup_evict F now ttl cap t = (Inr k, t')"
  shows "dedup_only w t t'"
    and "length (db_dedup (tx_view t)) \<le> unat cap \<Longrightarrow> bt_get (db_dedup (tx_view t)) key = Some row
      \<Longrightarrow> i64_saturating_sub now ttl \<le> dd_created_wall_ms row \<Longrightarrow> bt_get (db_dedup (tx_view t')) key = Some row"
proof -
  let ?cut = "i64_saturating_sub now ttl"
  from assms(2) obtain t1 t2 where x1: "tx_execute F (sql_expire_dedup ?cut) t = (Inr (), t1)"
    and x2: "tx_execute F Inr t1 = (Inr (), t2)"
    and tail: "(if length (db_dedup (tx_view t2)) \<le> unat cap then (Inr 0, t2)
      else and_then (tx_execute F (sql_evict_oldest (length (db_dedup (tx_view t2)) - unat cap)) t2)
        (\<lambda>_ t. (Inr (of_nat (length (db_dedup (tx_view t2)) - unat cap)), t))) = (Inr k, t')"
    unfolding dedup_evict_def Let_def and_then_Inr_unit by blast
  then have end': "if length (db_dedup (tx_view t2)) \<le> unat cap then t' = t2
      else \<exists>n. tx_execute F (sql_evict_oldest n) t2 = (Inr (), t')"
    by (cases "length (db_dedup (tx_view t2)) \<le> unat cap") (auto simp: and_then_Inr)
  have d1: "dedup_only w t t1" by (rule dedup_only_execute[OF assms(1) x1]) simp
  then have ok1: "txn_ok w t1" by (simp add: dedup_only_def)
  have d2: "dedup_only w t1 t2" by (rule dedup_only_execute[OF ok1 x2]) simp
  then have ok2: "txn_ok w t2" by (simp add: dedup_only_def)
  have d3: "dedup_only w t2 t'"
    using end' dedup_only_execute[OF ok2 _ dedup_stmts(5)] ok2
    by (auto simp: dedup_only_def split: if_splits)
  show "dedup_only w t t'" using dedup_only_trans[OF dedup_only_trans[OF d1 d2] d3] .
  assume small: "length (db_dedup (tx_view t)) \<le> unat cap" and row: "bt_get (db_dedup (tx_view t)) key = Some row"
    and young: "?cut \<le> dd_created_wall_ms row"
  have o: "open_on w t" "open_on w t1" and wf: "bt_wf (db_dedup (tx_view t))"
    using assms(1) ok1 by (auto simp: txn_ok_def windows_ok_def)
  from x1 o(1) have v1: "db_dedup (tx_view t1) = filter (\<lambda>(_, row). \<not> dd_created_wall_ms row < ?cut) (db_dedup (tx_view t))"
    by (cases rule: tx_execute_cases) (auto simp: sql_expire_dedup_def)
  from x2 o(2) have v2: "tx_view t2 = tx_view t1" by (cases rule: tx_execute_cases) auto
  have "length (db_dedup (tx_view t2)) \<le> unat cap"
    using v1 v2 small order_trans[OF length_filter_le] by simp
  with end' have "t' = t2" by simp
  with v1 v2 row young wf show "bt_get (db_dedup (tx_view t')) key = Some row"
    by (simp add: bt_get_filter)
qed

lemma stage_fresh_ok:
  assumes ok: "txn_ok w t" and f: "stage_fresh E cfg now batch p win bs t = (Inr k, t')"
  defines "base \<equiv> append_base t p" and "ps \<equiv> concat (map rb_rows bs)"
  shows "txn_ok w t' \<and> tx_origin t' = tx_origin t \<and> unat base + length ps < 2 ^ 64
    \<and> win_rows (tx_view t') = (win_rows (tx_view t))((dcb_dataset batch, p, win) :=
        win_rows (tx_view t) (dcb_dataset batch, p, win) @ augment_batch ps (tx_origin t) (base + 1))
    \<and> append_base t' = (append_base t)(p := base + of_nat (length ps))
    \<and> tx_pending_applied t' = (if ps = [] then tx_pending_applied t else
        bt_insert p (map_or (base + 1) fst (bt_get (tx_pending_applied t) p), base + of_nat (length ps))
          (tx_pending_applied t))
    \<and> (\<exists>json. env_to_json E (pending_coverage t') = Inr json
        \<and> (length (db_dedup (tx_view t)) < unat (cfg_dedup_max_entries cfg)
            \<longrightarrow> i64_saturating_sub now (cfg_dedup_ttl_ms cfg) \<le> now
            \<longrightarrow> bt_get (db_dedup (tx_view t')) (dcb_tenant batch, dedup_key_of E batch)
                = Some \<lparr>dd_acked = at_rf_v01, dd_outcome = json, dd_created_wall_ms = now\<rparr>))"
proof -
  let ?F = "env_faults E" and ?k = "(dcb_tenant batch, dedup_key_of E batch)"
  from f obtain t1 where a: "append_all ?F (dcb_dataset batch) p win bs t = (Inr (), t1)"
    and tail: "(case env_to_json E (pending_coverage t1) of
        Inl e \<Rightarrow> (Inl (StageBackend (OutcomeEncoding e)), t1)
      | Inr outcome_json \<Rightarrow>
          and_then (engine_err (dedup_insert ?F (dcb_tenant batch) (dedup_key_of E batch) at_rf_v01 outcome_json now t1)) (\<lambda>_ t.
            engine_err (dedup_evict ?F now (cfg_dedup_ttl_ms cfg) (cfg_dedup_max_entries cfg) t))) = (Inr k, t')"
    unfolding stage_fresh_def Let_def and_then_Inr_unit err_into_Inr by blast
  from tail obtain json where j: "env_to_json E (pending_coverage t1) = Inr json"
    by (cases "env_to_json E (pending_coverage t1)") auto
  with tail obtain t2 where
    i: "tx_execute ?F (sql_put_dedup (dcb_tenant batch) (dedup_key_of E batch)
        \<lparr>dd_acked = at_rf_v01, dd_outcome = json, dd_created_wall_ms = now\<rparr>) t1 = (Inr (), t2)"
    and e: "dedup_evict ?F now (cfg_dedup_ttl_ms cfg) (cfg_dedup_max_entries cfg) t2 = (Inr k, t')"
    by (auto simp: and_then_Inr dedup_insert_def)
  note all = txn_ok_append_all[OF ok a]
  then have ok1: "txn_ok w t1" by blast
  have d2: "dedup_only w t1 t2" by (rule dedup_only_execute[OF ok1 i]) simp
  then have ok2: "txn_ok w t2" by (simp add: dedup_only_def)
  note ev = dedup_evict_ok[OF ok2 e]
  have d: "dedup_only w t1 t'" by (rule dedup_only_trans[OF d2 ev(1)])
  have o1: "open_on w t1" using ok1 by (simp add: txn_ok_def)
  from i o1 have v2: "db_dedup (tx_view t2) = bt_insert ?k \<lparr>dd_acked = at_rf_v01, dd_outcome = json, dd_created_wall_ms = now\<rparr>
      (db_dedup (tx_view t))"
    by (cases rule: tx_execute_cases) (use all in \<open>auto simp: sql_put_dedup_def\<close>)
  have keep: "bt_get (db_dedup (tx_view t')) ?k = Some \<lparr>dd_acked = at_rf_v01, dd_outcome = json, dd_created_wall_ms = now\<rparr>"
    if "length (db_dedup (tx_view t)) < unat (cfg_dedup_max_entries cfg)" "i64_saturating_sub now (cfg_dedup_ttl_ms cfg) \<le> now"
    by (rule ev(2)) (use that v2 length_bt_insert[of ?k _ "db_dedup (tx_view t)"] in \<open>auto intro: order_trans Suc_leI\<close>)
  show ?thesis
    using all d j keep unfolding base_def ps_def dedup_only_def by simp
qed

section \<open>The handler\<close>

abbreviation hot :: "'p engine_stager \<Rightarrow> 'p hot_db" where
  "hot s \<equiv> cn_db (w_conn (es_writer s))"

abbreviation stager_ok :: "'p engine_stager \<Rightarrow> bool" where
  "stager_ok s \<equiv> store_ok (es_origin s) (es_writer s)"

lemma current_window_frame:
  "es_writer (snd (current_window cfg now d p s)) = es_writer s"
  "es_origin (snd (current_window cfg now d p s)) = es_origin s"
  "es_trace (snd (current_window cfg now d p s)) = es_trace s"
  by (auto simp: current_window_def Let_def split: option.splits)

lemma dedup_only_commit:
  assumes "txn_ok w t0" and d: "dedup_only w t0 t" and c: "commit_txn F t = (Inr cov, w')"
  shows "store_ok (tx_origin t0) w' \<and> cov = pending_coverage t0
    \<and> win_rows (cn_db (w_conn w')) = win_rows (tx_view t0) \<and> applied_of (cn_db (w_conn w')) = txn_applied t0"
  using commit_ok[OF _ c] d by (auto simp: dedup_only_def)

text \<open>A transaction as \<open>begin\<close> hands it out.\<close>

definition begun :: "'p engine_stager \<Rightarrow> 'p stage_txn \<Rightarrow> bool" where
  "begun s t \<longleftrightarrow> stager_ok s \<and> open_on (es_writer s) t \<and> tx_origin t = es_origin s \<and> tx_view t = hot s
     \<and> tx_pending_applied t = [] \<and> tx_pending_windows t = [] \<and> tx_pending_bytes t = []"

lemma begun_txn:
  assumes "begun s t"
  shows "txn_ok (es_writer s) t" and "append_base t pid = applied_of (hot s) pid (es_origin s)"
    and "txn_applied t = applied_of (hot s)" and "tx_view t = hot s" and "tx_origin t = es_origin s"
    and "tx_pending_applied t = []"
proof -
  note b = assms[unfolded begun_def]
  show "txn_ok (es_writer s) t" by (rule txn_ok_begin) (use b in auto)
  have "bt_get (w_applied (tx_writer t)) q = bt_get (db_applied (hot s)) (q, es_origin s)" for q
    using b open_on_fields(1)[of "es_writer s" t] by (simp add: store_ok_def mirrors_def Let_def)
  then show "append_base t pid = applied_of (hot s) pid (es_origin s)" "txn_applied t = applied_of (hot s)"
    using b by (auto simp: append_base_def applied_of_def txn_applied_def fun_eq_iff)
qed (use assms in \<open>simp_all add: begun_def\<close>)

text \<open>The entry a batch's key has in the dedup window, when it has not expired.\<close>

definition live_entry :: "'p stage_env \<Rightarrow> stager_config \<Rightarrow> int \<Rightarrow> decoded_batch \<Rightarrow> 'p engine_stager \<Rightarrow> dedup_row option" where
  "live_entry E cfg now batch s =
     (case bt_get (db_dedup (hot s)) (dcb_tenant batch, dedup_key_of E batch) of
        Some row \<Rightarrow> if i64_saturating_sub now (cfg_dedup_ttl_ms cfg) \<le> dd_created_wall_ms row then Some row else None
      | None \<Rightarrow> None)"

abbreviation batch_partition :: "decoded_batch \<Rightarrow> partition_id" where
  "batch_partition batch \<equiv> from_tenant_shard (dcb_tenant batch) 0"

abbreviation batch_base :: "decoded_batch \<Rightarrow> 'p engine_stager \<Rightarrow> u64" where
  "batch_base batch s \<equiv> applied_of (hot s) (batch_partition batch) (es_origin s)"

definition batch_coverage :: "decoded_batch \<Rightarrow> 'p engine_stager \<Rightarrow> nat \<Rightarrow> staged_coverage list" where
  "batch_coverage batch s n = [\<lparr>sc_partition = batch_partition batch,
     sc_range = \<lparr>osr_origin = es_origin s, osr_first_seq = batch_base batch s + 1,
                 osr_last_seq = batch_base batch s + of_nat n\<rparr>\<rparr>]"

text \<open>What staging the rows \<open>ps\<close> in a window makes of the store.\<close>

definition staged :: "decoded_batch \<Rightarrow> window_id \<Rightarrow> 'p list \<Rightarrow> 'p engine_stager \<Rightarrow> 'p engine_stager \<Rightarrow> bool" where
  "staged batch window ps s s' \<longleftrightarrow>
     unat (batch_base batch s) + length ps < 2 ^ 64 \<and> stager_ok s' \<and> es_origin s' = es_origin s
     \<and> win_rows (hot s') = (win_rows (hot s))((dcb_dataset batch, batch_partition batch, window) :=
         win_rows (hot s) (dcb_dataset batch, batch_partition batch, window)
         @ augment_batch ps (es_origin s) (batch_base batch s + 1))
     \<and> applied_of (hot s') = (\<lambda>pid origin. if pid = batch_partition batch \<and> origin = es_origin s
         then batch_base batch s + of_nat (length ps) else applied_of (hot s) pid origin)"

definition remembered ::
  "'p stage_env \<Rightarrow> stager_config \<Rightarrow> int \<Rightarrow> decoded_batch \<Rightarrow> staged_coverage list \<Rightarrow> 'p engine_stager \<Rightarrow> 'p engine_stager \<Rightarrow> bool" where
  "remembered E cfg now batch cov s s' \<longleftrightarrow>
     (length (db_dedup (hot s)) < unat (cfg_dedup_max_entries cfg) \<longrightarrow>
      i64_saturating_sub now (cfg_dedup_ttl_ms cfg) \<le> now \<longrightarrow>
      (\<exists>json. env_to_json E cov = Inr json \<and>
         bt_get (db_dedup (hot s')) (dcb_tenant batch, dedup_key_of E batch)
           = Some \<lparr>dd_acked = at_rf_v01, dd_outcome = json, dd_created_wall_ms = now\<rparr>))"

lemma stage_transaction_dup:
  assumes b: "begun s0 t" and s1: "es_writer s1 = es_writer s0" "es_origin s1 = es_origin s0"
    and st: "stage_transaction E cfg now batch (batch_partition batch) window bs t s1 = (Inr outcome, s')"
    and row: "live_entry E cfg now batch s0 = Some row"
  shows "\<exists>cov. outcome = DuplicateAcked cov \<and> env_of_json E (dd_outcome row) = Inr cov \<and> stager_ok s'
    \<and> es_origin s' = es_origin s0 \<and> win_rows (hot s') = win_rows (hot s0) \<and> applied_of (hot s') = applied_of (hot s0)"
proof -
  let ?F = "env_faults E" and ?tn = "dcb_tenant batch" and ?key = "dedup_key_of E batch"
  let ?lk = "dedup_lookup ?F ?tn ?key (i64_saturating_sub now (cfg_dedup_ttl_ms cfg)) t"
  note t = begun_txn[OF b]
  obtain rl t1 where lk: "?lk = (rl, t1)" by (cases ?lk)
  obtain found where rl: "rl = Inr found" using st lk by (cases rl) (auto simp: stage_transaction_def Let_def)
  note look = dedup_lookup_ok[OF t(1) lk[unfolded rl]]
  then have ok1: "txn_ok (es_writer s0) t1" by (simp add: dedup_only_def)
  have entry: "found = Some \<lparr>de_acked = dd_acked row, de_outcome_json = dd_outcome row\<rparr>"
    using look row t(4) by (auto simp: live_entry_def split: option.splits if_splits)
  let ?entry = "\<lparr>de_acked = dd_acked row, de_outcome_json = dd_outcome row\<rparr>"
  obtain rr t2 where rs: "resolve_duplicate E ?tn ?key ?entry at_rf_v01 t1 = (rr, t2)"
    by (cases "resolve_duplicate E ?tn ?key ?entry at_rf_v01 t1")
  obtain rc w2 where cm: "commit_txn ?F t2 = (rc, w2)" by (cases "commit_txn ?F t2")
  from st lk rl entry rs cm obtain cv where o: "rr = Inr outcome" "rc = Inr cv"
    and s': "s' = stager_journal TeDedupCheck (s1\<lparr>es_writer := w2\<rparr>)"
    by (cases rr; cases rc) (auto simp: stage_transaction_def Let_def)
  note res = resolve_duplicate_ok[OF ok1 rs[unfolded o(1)]]
  then obtain cov where cov: "outcome = DuplicateAcked cov" "env_of_json E (dd_outcome row) = Inr cov"
    by (auto simp: at_rf_v01_def)
  have d: "dedup_only (es_writer s0) t t2" using look res dedup_only_trans by blast
  from dedup_only_commit[OF t(1) d cm[unfolded o(2)]] cov s' s1 t show ?thesis
    by (auto simp: stager_journal_def)
qed

lemma stage_transaction_fresh:
  assumes b: "begun s0 t" and s1: "es_writer s1 = es_writer s0" "es_origin s1 = es_origin s0"
    and st: "stage_transaction E cfg now batch (batch_partition batch) window bs t s1 = (Inr outcome, s')"
    and none: "live_entry E cfg now batch s0 = None" and ne: "concat (map rb_rows bs) \<noteq> []"
  shows "outcome = StageCommitted (batch_coverage batch s0 (length (concat (map rb_rows bs))))
    \<and> staged batch window (concat (map rb_rows bs)) s0 s'
    \<and> remembered E cfg now batch (batch_coverage batch s0 (length (concat (map rb_rows bs)))) s0 s'"
proof -
  let ?F = "env_faults E" and ?tn = "dcb_tenant batch" and ?key = "dedup_key_of E batch" and ?pid = "batch_partition batch"
  let ?lk = "dedup_lookup ?F ?tn ?key (i64_saturating_sub now (cfg_dedup_ttl_ms cfg)) t" and ?ps = "concat (map rb_rows bs)"
  note t = begun_txn[OF b]
  obtain rl t1 where lk: "?lk = (rl, t1)" by (cases ?lk)
  obtain found where rl: "rl = Inr found" using st lk by (cases rl) (auto simp: stage_transaction_def Let_def)
  note look = dedup_lookup_ok[OF t(1) lk[unfolded rl]]
  then have ok1: "txn_ok (es_writer s0) t1" by (simp add: dedup_only_def)
  have found: "found = None"
    using look none t(4) by (auto simp: live_entry_def split: option.splits if_splits)
  obtain rf t2 where fr: "stage_fresh E cfg now batch ?pid window bs t1 = (rf, t2)"
    by (cases "stage_fresh E cfg now batch ?pid window bs t1")
  obtain rc w2 where cm: "commit_txn ?F t2 = (rc, w2)" by (cases "commit_txn ?F t2")
  from st lk rl found fr cm obtain k cv where o: "rf = Inr k" "rc = Inr cv" "outcome = StageCommitted cv"
    and s': "s' = (stager_journal TeStageCommit (s1\<lparr>es_writer := w2\<rparr>))\<lparr>es_cap_evictions := es_cap_evictions s1 + k\<rparr>"
    by (cases rf; cases rc) (auto simp: stage_transaction_def Let_def)
  note fresh = stage_fresh_ok[OF ok1 fr[unfolded o(1)]]
  have t1: "append_base t1 = append_base t" "tx_view t1 = hot s0" "tx_origin t1 = es_origin s0" "tx_pending_applied t1 = []"
    using look t by (auto simp: dedup_only_def)
  note cmt = commit_ok[OF conjunct1[OF fresh] cm[unfolded o(2)]]
  have cv: "cv = batch_coverage batch s0 (length ?ps)"
    using cmt fresh t1 t ne by (simp add: pending_coverage_def batch_coverage_def del: concat_eq_Nil_conv)
  have "db_applied (tx_view t2) = db_applied (hot s0)" using fresh by (simp add: txn_ok_def)
  then have "applied_of (tx_view t2) = applied_of (hot s0)" by (simp add: applied_of_def fun_eq_iff)
  then have "applied_of (hot s') = (\<lambda>pid origin. if pid = ?pid \<and> origin = es_origin s0
         then batch_base batch s0 + of_nat (length ?ps) else applied_of (hot s0) pid origin)"
    using cmt fresh t1 t s' by (auto simp: txn_applied_def fun_eq_iff stager_journal_def)
  moreover have "remembered E cfg now batch cv s0 s'"
    using cmt fresh t1 s' by (auto simp: remembered_def stager_journal_def)
  ultimately show ?thesis
    using cmt fresh t1 t s1 s' o cv by (simp add: staged_def stager_journal_def)
qed

text \<open>The four ways \<open>stage_blocking\<close> ends.\<close>

lemma stage_blocking_cases:
  assumes ok: "stager_ok s" and st: "stage_blocking E cfg tick now batch s = (r, s')"
  obtains
    (fail) e where "r = Inl e" and "same_store (es_writer s) (es_writer s')" and "es_origin s' = es_origin s"
  | (vacuous) bs where "r = Inr (StageCommitted [])" and "s' = s"
      and "read_batches E (dcb_records batch) = Inr bs" and "concat (map rb_rows bs) = []"
  | (dup) cov row where "r = Inr (DuplicateAcked cov)" and "stager_ok s'" and "es_origin s' = es_origin s"
      and "win_rows (hot s') = win_rows (hot s)" and "applied_of (hot s') = applied_of (hot s)"
      and "live_entry E cfg now batch s = Some row" and "env_of_json E (dd_outcome row) = Inr cov"
  | (fresh) window bs where "read_batches E (dcb_records batch) = Inr bs" and "concat (map rb_rows bs) \<noteq> []"
      and "r = Inr (StageCommitted (batch_coverage batch s (length (concat (map rb_rows bs)))))"
      and "staged batch window (concat (map rb_rows bs)) s s'"
      and "live_entry E cfg now batch s = None"
      and "remembered E cfg now batch (batch_coverage batch s (length (concat (map rb_rows bs)))) s s'"
      and "window = fst (current_window cfg tick (dcb_dataset batch) (batch_partition batch) (stager_journal TeAccept s))"
proof -
  let ?F = "env_faults E" and ?pid = "batch_partition batch" and ?w = "es_writer s"
  have closed: "cn_txn (w_conn ?w) = None" using ok by (simp add: store_ok_def Let_def)
  show thesis
  proof (cases "stager_admit cfg s")
    case (Inl e)
    with st show thesis by (intro fail) (auto simp: stage_blocking_def)
  next
    case admitted: (Inr u)
    show thesis
    proof (cases "read_batches E (dcb_records batch)")
      case (Inl e)
      with admitted st show thesis by (intro fail) (auto simp: stage_blocking_def Let_def)
    next
      case bs: (Inr bs)
      let ?ps = "concat (map rb_rows bs)"
      have len: "sum_list (map (\<lambda>b. length (rb_rows b)) bs) = length ?ps" by (simp add: length_concat comp_def)
      show thesis
      proof (cases "?ps = []")
        case True
        then have "sum_list (map (\<lambda>b. length (rb_rows b)) bs) = 0" unfolding len by (simp only: list.size)
        with admitted bs st have "r = Inr (StageCommitted []) \<and> s' = s"
          by (auto simp: stage_blocking_def Let_def simp del: sum_list_eq_0_iff)
        then show thesis using vacuous bs True by blast
      next
        case nonempty: False
        then have n0: "sum_list (map (\<lambda>b. length (rb_rows b)) bs) \<noteq> 0" unfolding len by (simp only: length_0_conv simp_thms)
        let ?cw = "current_window cfg tick (dcb_dataset batch) ?pid (stager_journal TeAccept s)"
        obtain window s1 where cw: "?cw = (window, s1)" by (cases ?cw)
        have s1: "es_writer s1 = ?w" "es_origin s1 = es_origin s"
          using current_window_frame[of cfg tick "dcb_dataset batch" ?pid "stager_journal TeAccept s"] cw
          by (auto simp: stager_journal_def)
        obtain rb wb where b: "begin_txn ?F (es_origin s) ?w = (rb, wb)" by (cases "begin_txn ?F (es_origin s) ?w")
        from b closed show thesis
        proof (cases rule: begin_txn_cases)
          case (fail e)
          have "r = Inl (StageBackend (FromEngine e))" "s' = s1\<lparr>es_writer := wb\<rparr>"
            using st admitted bs n0 cw s1 b fail(1) by (simp_all add: stage_blocking_def Let_def del: sum_list_eq_0_iff)
          with fail s1 show thesis by (intro that(1)) simp_all
        next
          case t: (ok t)
          have st': "stage_transaction E cfg now batch ?pid window bs t s1 = (r, s')"
            using admitted bs n0 cw s1 b t(1) st by (simp add: stage_blocking_def Let_def del: sum_list_eq_0_iff)
          have bg: "begun s t" using ok t by (simp add: begun_def)
          show thesis
          proof (cases r)
            case (Inl e)
            have "es_origin s' = es_origin s"
              using st' s1 unfolding Inl
              by (auto simp: stage_transaction_def Let_def stager_journal_def split: prod.splits sum.splits option.splits)
            with Inl s1 stage_transaction_error[OF st'[unfolded Inl], of ?w] t(2) show thesis by (intro that(1))
          next
            case (Inr outcome)
            show thesis
            proof (cases "live_entry E cfg now batch s")
              case (Some row)
              from stage_transaction_dup[OF bg s1 st'[unfolded Inr] Some] Inr Some show thesis by (elim exE conjE, intro that(3)) auto
            next
              case None
              from stage_transaction_fresh[OF bg s1 st'[unfolded Inr] None nonempty] Inr None bs nonempty show thesis
                by (elim conjE, intro that(4)) (auto simp: cw)
            qed
          qed
        qed
      qed
    qed
  qed
qed

end
