(* ===== verification/Hot_System.thy ===== *)
theory Hot_System
  imports Stage_Commit
begin

text \<open>
  The operations of the engine outside a stage transaction (dropping a window, deleting covered rows,
  checkpoint, opening the persisted tables) and that each keeps the invariant of the store.
\<close>

section \<open>The other operations of the engine\<close>

lemma db_execute_cases:
  assumes "db_execute F stmt c = (r, c')"
  obtains (fail) e where "r = Inl e" and "c' = c\<lparr>cn_calls := Suc (cn_calls c)\<rparr>"
  | (ok) db where "r = Inr ()" and "stmt (conn_view c) = Inr db"
      and "c' = (if cn_txn c = None then c\<lparr>cn_calls := Suc (cn_calls c), cn_db := db\<rparr>
                 else c\<lparr>cn_calls := Suc (cn_calls c), cn_txn := Some db\<rparr>)"
  using assms unfolding db_execute_def
  by (cases rule: conn_call_cases) (auto simp: conn_view_def split: sum.splits if_splits)

lemma drop_window_txn_cases:
  assumes "drop_window_txn F table key c = (r, c')" and "cn_txn c = None"
  obtains (fail) e where "r = Inl e" and "cn_db c' = cn_db c"
  | (ok) "r = Inr ()" and "cn_txn c' = None" and "bt_get (db_tables (cn_db c)) table \<noteq> None"
      and "cn_db c' = (cn_db c)\<lparr>db_tables := bt_remove table (db_tables (cn_db c)),
             db_windows := bt_remove key (db_windows (cn_db c))\<rparr>"
proof -
  obtain r1 c1 where b: "db_begin F c = (r1, c1)" by (cases "db_begin F c")
  from b[unfolded db_begin_def] show thesis
  proof (cases rule: conn_call_cases)
    case (fail e)
    with assms b show thesis by (intro that(1)) (auto simp: drop_window_txn_def)
  next
    case began: ok
    then have c1: "cn_db c1 = cn_db c" "cn_txn c1 = Some (cn_db c)" by auto
    obtain r2 c2 where x2: "db_execute F (sql_drop_table table) c1 = (r2, c2)" by (cases "db_execute F (sql_drop_table table) c1")
    from x2 show thesis
    proof (cases rule: db_execute_cases)
      case (fail e)
      with assms b began c1 x2 show thesis by (intro that(1)) (auto simp: drop_window_txn_def)
    next
      case dropped: (ok db1)
      obtain r3 c3 where x3: "db_execute F (sql_unregister_window key) c2 = (r3, c3)"
        by (cases "db_execute F (sql_unregister_window key) c2")
      from x3 show thesis
      proof (cases rule: db_execute_cases)
        case (fail e)
        with assms b began c1 x2 x3 dropped show thesis by (intro that(1)) (auto simp: drop_window_txn_def)
      next
        case unreg: (ok db2)
        obtain r4 c4 where x4: "db_commit F c3 = (r4, c4)" by (cases "db_commit F c3")
        from x4[unfolded db_commit_def] show thesis
        proof (cases rule: conn_call_cases)
          case (fail e)
          with assms b began c1 x2 x3 x4 dropped unreg show thesis by (intro that(1)) (auto simp: drop_window_txn_def)
        next
          case ok
          with assms b began c1 x2 x3 x4 dropped unreg show thesis
            by (intro that(2))
              (auto simp: drop_window_txn_def conn_view_def sql_drop_table_def sql_unregister_window_def split: if_splits)
        qed
      qed
    qed
  qed
qed

lemma windows_ok_drop:
  fixes key :: window_key
  assumes ok: "windows_ok db"
  defines "db' \<equiv> db\<lparr>db_tables := bt_remove (key_table key) (db_tables db), db_windows := bt_remove key (db_windows db)\<rparr>"
  shows "windows_ok db'" and "win_rows db' = (win_rows db)(key := [])"
proof -
  have wf: "bt_wf (db_tables db)" "bt_wf (db_windows db)" using ok by (auto simp: windows_ok_def)
  have keys: "fst ` set (bt_remove k m) = fst ` set m - {k}" for k and m :: "('k, 'v) btree"
    by (auto simp: bt_remove_def image_iff)
  have "inj key_table" by (simp add: inj_def del: key_table.simps)
  then show "windows_ok db'"
    using ok wf unfolding windows_ok_def db'_def by (auto simp: keys image_set_diff split: if_splits)
  show "win_rows db' = (win_rows db)(key := [])"
    using wf by (auto simp: db'_def win_rows_def fun_eq_iff)
qed

lemma rows_ok_bound:
  assumes "rows_ok A R" and "r \<in> set (R (d, p, v))"
  shows "1 \<le> row_seq r" and "row_seq r \<le> A p (row_origin r)"
  using assms by (simp_all add: rows_ok_def)

lemma rows_ok_distinct: "rows_ok A R \<Longrightarrow> distinct (map row_id (R key))"
  unfolding rows_ok_def by (elim conjE allE)

lemma rows_ok_disjoint:
  assumes "rows_ok A R" and "(d, v) \<noteq> (d', v')"
  shows "row_id ` set (R (d, p, v)) \<inter> row_id ` set (R (d', p, v')) = {}"
proof -
  have "\<forall>d p v d' v'. (d, v) \<noteq> (d', v') \<longrightarrow> row_id ` set (R (d, p, v)) \<inter> row_id ` set (R (d', p, v')) = {}"
    using assms(1) unfolding rows_ok_def by (elim conjE)
  then show ?thesis using assms(2) by (elim allE impE)
qed

lemma rows_ok_shrink:
  assumes ok: "rows_ok A R" and sub: "\<And>k. set (R' k) \<subseteq> set (R k)" and dist: "\<And>k. distinct (map row_id (R' k))"
  shows "rows_ok A R'"
  unfolding rows_ok_def
proof (intro conjI allI impI ballI)
  fix d d' :: dataset_id and p :: partition_id and v v' :: window_id
  show "distinct (map row_id (R' k))" for k by (rule dist)
  show "1 \<le> row_seq r" "row_seq r \<le> A p (row_origin r)" if "r \<in> set (R' (d, p, v))" for r
    using rows_ok_bound[OF ok subsetD[OF sub that]] by auto
  assume "(d, v) \<noteq> (d', v')"
  from rows_ok_disjoint[OF ok this]
  show "row_id ` set (R' (d, p, v)) \<inter> row_id ` set (R' (d', p, v')) = {}"
    using image_mono[OF sub[of "(d, p, v)"], of row_id] image_mono[OF sub[of "(d', p, v')"], of row_id] by blast
qed

lemma engine_drop_window_ok:
  assumes ok: "store_ok origin w" and d: "engine_drop_window F ds p win w = (r, w')"
  obtains (fail) e where "r = Inl e" and "same_store w w'"
  | (gone) "r = Inr False" and "w' = w" and "bt_get (db_windows (cn_db (w_conn w))) (ds, p, win) = None"
  | (dropped) "r = Inr True" and "store_ok origin w'"
      and "win_rows (cn_db (w_conn w')) = (win_rows (cn_db (w_conn w)))((ds, p, win) := [])"
      and "db_window_hw (cn_db (w_conn w')) = db_window_hw (cn_db (w_conn w))"
      and "applied_of (cn_db (w_conn w')) = applied_of (cn_db (w_conn w))"
proof -
  let ?db = "cn_db (w_conn w)" and ?key = "(ds, p, win)"
  have s: "cn_txn (w_conn w) = None" "windows_ok ?db" "rows_ok (applied_of ?db) (win_rows ?db)" "mirrors origin w ?db"
    using ok by (auto simp: store_ok_def Let_def)
  then have ww: "w_windows w = db_windows ?db" by (simp add: mirrors_def)
  show thesis
  proof (cases "bt_get (db_windows ?db) ?key")
    case None
    with d ww show thesis by (intro that(2)) (auto simp: engine_drop_window_def)
  next
    case (Some meta)
    then have table: "wme_table meta = key_table ?key" using s(2) by (simp add: windows_ok_def)
    obtain r0 c0 where x: "drop_window_txn F (key_table ?key) ?key (w_conn w) = (r0, c0)"
      by (cases "drop_window_txn F (key_table ?key) ?key (w_conn w)")
    from x s(1) show thesis
    proof (cases rule: drop_window_txn_cases)
      case (fail e)
      with d ww Some table x s(1) show thesis
        by (intro that(1)) (auto simp: engine_drop_window_def same_store_iff db_rollback_def)
    next
      case ok: ok
      then have w': "w' = w\<lparr>w_conn := c0, w_windows := bt_remove ?key (w_windows w),
            w_staged_bytes := w_staged_bytes w - wme_bytes meta\<rparr>" and r: "r = Inr True"
        using d ww Some table x by (auto simp: engine_drop_window_def)
      note wd = windows_ok_drop[OF s(2), of ?key, folded ok(4)]
      have app: "applied_of (cn_db c0) = applied_of ?db" by (simp add: fun_eq_iff applied_of_def ok(4))
      have "rows_ok (applied_of (cn_db c0)) (win_rows (cn_db c0))"
        unfolding app by (rule rows_ok_shrink[OF s(3)]) (use s(3) wd(2) in \<open>auto simp: rows_ok_def\<close>)
      moreover have "mirrors origin w' (cn_db c0)"
        using s(2,4) Some ww by (simp add: mirrors_def w' ok(4) windows_ok_def total_bytes_remove)
      ultimately show thesis
        using ok wd r app by (intro that(3)) (simp_all add: store_ok_def w' Let_def)
    qed
  qed
qed

lemma store_okD:
  assumes "store_ok origin w"
  shows "cn_txn (w_conn w) = None" and "windows_ok (cn_db (w_conn w))"
    and "rows_ok (applied_of (cn_db (w_conn w))) (win_rows (cn_db (w_conn w)))" and "mirrors origin w (cn_db (w_conn w))"
  using assms by (auto simp: store_ok_def Let_def)

lemma on_conn_execute_cases:
  assumes "on_conn (db_execute F stmt) w = (r, w')" and "cn_txn (w_conn w) = None"
  obtains (fail) e where "r = Inl e" and "same_store w w'"
  | (ok) db where "r = Inr ()" and "stmt (cn_db (w_conn w)) = Inr db"
      and "same_store (w\<lparr>w_conn := (w_conn w)\<lparr>cn_db := db\<rparr>\<rparr>) w'"
proof -
  obtain r0 c where x: "db_execute F stmt (w_conn w) = (r0, c)" by (cases "db_execute F stmt (w_conn w)")
  from x show thesis
  proof (cases rule: db_execute_cases)
    case (fail e)
    with assms x show thesis by (intro that(1)) (auto simp: on_conn_def same_store_iff)
  next
    case (ok db)
    with assms x show thesis by (intro that(2)[of db]) (auto simp: on_conn_def same_store_iff conn_view_def)
  qed
qed

lemma store_ok_db:
  assumes ok: "store_ok origin w" and wok: "windows_ok db" and rows: "rows_ok (applied_of db) (win_rows db)"
    and same: "db_applied db = db_applied (cn_db (w_conn w))" "db_windows db = db_windows (cn_db (w_conn w))"
      "db_window_hw db = db_window_hw (cn_db (w_conn w))"
  shows "store_ok origin (w\<lparr>w_conn := (w_conn w)\<lparr>cn_db := db\<rparr>\<rparr>)"
  using store_okD[OF ok] wok rows same by (simp add: store_ok_def mirrors_def Let_def)

lemma delete_covered_rows_ok:
  assumes ok: "store_ok origin w" and d: "delete_covered_rows F (key_table key) P w = (r, w')"
  obtains (fail) e where "r = Inl e" and "same_store w w'"
  | (deleted) "r = Inr ()" and "store_ok origin w'"
      and "win_rows (cn_db (w_conn w')) = (win_rows (cn_db (w_conn w)))(key := filter (\<lambda>r. \<not> P r) (win_rows (cn_db (w_conn w)) key))"
      and "db_window_hw (cn_db (w_conn w')) = db_window_hw (cn_db (w_conn w))"
      and "applied_of (cn_db (w_conn w')) = applied_of (cn_db (w_conn w))"
      and "w_windows w' = w_windows w"
proof -
  note s = store_okD[OF ok]
  from d[unfolded delete_covered_rows_def] s(1) show thesis
  proof (cases rule: on_conn_execute_cases)
    case (fail e) then show thesis by (rule that(1))
  next
    case upd: (ok db)
    note u = windows_ok_update[OF s(2) upd(2)]
    have app: "applied_of db = applied_of (cn_db (w_conn w))" using u(5) by (simp add: applied_of_def fun_eq_iff)
    have dist: "distinct (map row_id (win_rows (cn_db (w_conn w)) k))" for k
      by (rule rows_ok_distinct[OF s(3)])
    have "rows_ok (applied_of db) (win_rows db)"
      unfolding app by (rule rows_ok_shrink[OF s(3)]) (use u(2) dist in \<open>auto simp: distinct_map_filter\<close>)
    from store_ok_same[OF upd(3) store_ok_db[OF ok u(1) this u(5,3,4)]] show thesis
      using upd u app by (intro that(2)) (simp_all add: same_store_iff)
  qed
qed

lemma store_ok_epoch:
  assumes "store_ok origin w"
  shows "store_ok origin (w\<lparr>w_conn := (w_conn w)\<lparr>cn_db := (cn_db (w_conn w))\<lparr>db_wal_epoch := n\<rparr>\<rparr>\<rparr>)"
  using store_okD[OF assms] by (intro store_ok_db assms) (simp_all add: windows_ok_simple applied_of_def[abs_def])

text \<open>A checkpoint, whether it succeeds or not, changes nothing but the epoch.\<close>

definition same_tables :: "'p hot_db \<Rightarrow> 'p hot_db \<Rightarrow> bool" where
  "same_tables db db' \<longleftrightarrow> db'\<lparr>db_wal_epoch := 0\<rparr> = db\<lparr>db_wal_epoch := 0\<rparr>"

lemma same_tables_iff:
  "same_tables db db' \<longleftrightarrow> db_applied db' = db_applied db \<and> db_windows db' = db_windows db \<and> db_dedup db' = db_dedup db
     \<and> db_window_hw db' = db_window_hw db \<and> db_tables db' = db_tables db"
  by (cases db; cases db') (auto simp: same_tables_def)

lemma checkpoint_ok:
  assumes ok: "store_ok origin w" and c: "checkpoint F fsync w = (r, w')"
  shows "store_ok origin w' \<and> same_tables (cn_db (w_conn w)) (cn_db (w_conn w'))"
proof -
  obtain r1 w1 where x1: "on_conn (db_execute F Inr) w = (r1, w1)" by (cases "on_conn (db_execute F Inr) w")
  have s1: "same_store w w1"
    using x1 store_okD(1)[OF ok] by (cases rule: on_conn_execute_cases) (auto simp: same_store_iff)
  then have ok1: "store_ok origin w1" and db1: "cn_db (w_conn w1) = cn_db (w_conn w)"
    using store_ok_same[OF _ ok] by (auto simp: same_store_iff)
  obtain r2 w2 where x2: "on_conn (db_execute F sql_bump_epoch) w1 = (r2, w2)"
    by (cases "on_conn (db_execute F sql_bump_epoch) w1")
  have ok2: "store_ok origin w2 \<and> same_tables (cn_db (w_conn w)) (cn_db (w_conn w2))"
    using x2 store_okD(1)[OF ok1]
  proof (cases rule: on_conn_execute_cases)
    case (fail e)
    with store_ok_same[OF fail(2) ok1] db1 show ?thesis by (auto simp: same_store_iff same_tables_def)
  next
    case (ok db)
    then show ?thesis
      using store_ok_same[OF ok(3)] store_ok_epoch[OF ok1] db1 by (auto simp: sql_bump_epoch_def same_store_iff same_tables_iff)
  qed
  show ?thesis
  proof (cases r1)
    case (Inl e) with c x1 ok1 db1 show ?thesis by (auto simp: checkpoint_def same_tables_def)
  next
    case (Inr u) with c x1 x2 ok2 show ?thesis by (cases r2) (auto simp: checkpoint_def)
  qed
qed

section \<open>Opening the store\<close>

lemma load_applied_get:
  assumes "bt_wf (db_applied db)"
  shows "bt_wf (load_applied origin db) \<and> bt_get (load_applied origin db) pid = bt_get (db_applied db) (pid, origin)"
proof -
  let ?f = "\<lambda>((pid, o'), seq) m. if o' = origin then bt_insert pid seq m else m"
  have "bt_wf (fold ?f xs m) \<and> bt_get (fold ?f xs m) pid = (case bt_get xs (pid, origin) of None \<Rightarrow> bt_get m pid | Some v \<Rightarrow> Some v)"
    if "bt_wf xs" "bt_wf m" for xs m
    using that
  proof (induction xs arbitrary: m)
    case (Cons x xs)
    obtain p o' v where x: "x = ((p, o'), v)" by (metis surj_pair)
    have new: "bt_get xs (p, o') = None" and wf: "bt_wf xs"
      using Cons.prems x by (auto simp: bt_wf_Cons bt_get_None)
    have "bt_wf (?f x m)" using Cons.prems x by simp
    from Cons.IH[OF wf this] show ?case using x new Cons.prems by (auto split: option.splits)
  qed simp
  from this[OF assms bt_wf_empty] show ?thesis by (simp add: load_applied_def bt_empty_def split: option.splits)
qed

text \<open>The statements of \<open>open\<close> outside any transaction touch nothing but the epoch.\<close>

definition opens :: "'p hot_db \<Rightarrow> 'p connection \<Rightarrow> bool" where
  "opens db c \<longleftrightarrow> cn_txn c = None \<and> same_tables db (cn_db c)"

lemma opens_step:
  assumes "opens db c" and "stmt = Inr \<or> stmt = sql_bump_epoch"
  shows "opens db (snd (db_execute F stmt c))"
proof -
  obtain r c' where x: "db_execute F stmt c = (r, c')" by (cases "db_execute F stmt c")
  then have "opens db c'"
    using assms
    by (cases rule: db_execute_cases) (auto simp: opens_def conn_view_def same_tables_iff sql_bump_epoch_def)
  with x show ?thesis by simp
qed

lemma opens_and_then:
  assumes "opens db (snd x)" and "\<And>u c. opens db c \<Longrightarrow> opens db (snd (g u c))"
  shows "opens db (snd (and_then x g))"
  using assms by (cases x; cases "fst x") auto

lemma staging_open_ok:
  assumes wok: "windows_ok db" and rows: "rows_ok (applied_of db) (win_rows db)"
    and o: "staging_open F io fsync origin db = (r, db')"
  shows "same_tables db db' \<and> (\<forall>w. r = Inr w \<longrightarrow> store_ok origin w \<and> cn_db (w_conn w) = db')"
proof (cases io)
  case (Some e)
  with o show ?thesis by (auto simp: staging_open_def same_tables_def)
next
  case None
  let ?nop = "db_execute F Inr"
  let ?run = "and_then (?nop \<lparr>cn_db = db, cn_txn = None, cn_calls = 0\<rparr>) (\<lambda>_ c.
           and_then (?nop c) (\<lambda>_ c.
           and_then (db_execute F sql_bump_epoch c) (\<lambda>_ c.
           and_then (?nop c) (\<lambda>_ c. and_then (?nop c) (\<lambda>_ c. ?nop c)))))"
  obtain rr c where run: "?run = (rr, c)" by (cases ?run)
  have "opens db (snd ?run)"
    by (intro opens_and_then opens_step) (auto simp: opens_def same_tables_def)
  then have c: "cn_txn c = None" "same_tables db (cn_db c)" by (auto simp: run opens_def)
  then have same: "windows_ok (cn_db c)" "applied_of (cn_db c) = applied_of db" "win_rows (cn_db c) = win_rows db"
    using wok by (auto simp: same_tables_iff windows_ok_def applied_of_def win_rows_def fun_eq_iff)
  have wf: "bt_wf (db_applied (cn_db c))" using same(1) by (simp add: windows_ok_def)
  have "store_ok origin \<lparr>w_conn = c, w_applied = load_applied origin (cn_db c), w_windows = load_windows (cn_db c),
      w_window_hw = load_window_hw (cn_db c), w_staged_bytes = total_bytes (load_windows (cn_db c))\<rparr>"
    using c(1) same rows load_applied_get[OF wf]
    by (simp add: store_ok_def mirrors_def load_windows_def load_window_hw_def Let_def)
  with o None run c show ?thesis
    by (cases rr; cases fsync) (auto simp: staging_open_def Let_def)
qed

end
