(* ===== verification/Seal_Surface.thy ===== *)
theory Seal_Surface
  imports Hot_System
begin

text \<open>
  \<open>crates/duckspout-staging/src/seal.rs\<close>: the side of the hot store the drain reads. A seal runs
  queries on a read connection, which sees the committed tables; each counts as one database call of
  the same fault schedule. What the queries ask of a row's own columns (the event time, the key, the
  sort order, whether a column exists) and the engine's conversion to milliseconds are parameters;
  the queries over the system columns \<open>origin\<close> and \<open>seq\<close> are modelled as written. A sealed part is a
  file of the scratch directory. An error is the one the source renders; the rendering of an engine
  error is a parameter.
\<close>

section \<open>The code\<close>

record 'p seal_sql =
  sq_render :: "staging_error \<Rightarrow> string"
  sq_has_column :: "string \<Rightarrow> string \<Rightarrow> bool"
  sq_event_time :: "string \<Rightarrow> 'p staged_row \<Rightarrow> int option"
  sq_epoch_ms :: "int \<Rightarrow> int"
  sq_key :: "string list \<Rightarrow> 'p staged_row \<Rightarrow> string list"
  sq_order :: "string list \<Rightarrow> 'p staged_row list \<Rightarrow> 'p staged_row list"
  sq_scratch_dir :: "string option"

record 'p seal_surface =
  ss_engine :: "'p writer_inner"
  ss_closes :: "window_key \<Rightarrow> int option"
  ss_scratch :: "storage_path \<Rightarrow> 'p staged_row list option"

definition seal_new :: "'p writer_inner \<Rightarrow> 'p seal_surface" where
  "seal_new engine = \<lparr>ss_engine = engine, ss_closes = Map.empty, ss_scratch = Map.empty\<rparr>"

definition note_closed ::
  "dataset_id \<Rightarrow> partition_id \<Rightarrow> window_id \<Rightarrow> int \<Rightarrow> 'p seal_surface \<Rightarrow> 'p seal_surface" where
  "note_closed dataset pid window at_ms s =
     (case ss_closes s (dataset, pid, window) of
        Some _ \<Rightarrow> s
      | None \<Rightarrow> s\<lparr>ss_closes := (ss_closes s)((dataset, pid, window) \<mapsto> at_ms)\<rparr>)"

definition closed_at :: "'p seal_surface \<Rightarrow> window_key \<Rightarrow> int option" where
  "closed_at s key = ss_closes s key"

definition forget_close :: "window_key \<Rightarrow> 'p seal_surface \<Rightarrow> 'p seal_surface" where
  "forget_close key s = s\<lparr>ss_closes := (ss_closes s)(key := None)\<rparr>"

definition drainable_blocking :: "'p seal_surface \<Rightarrow> drainable_window list" where
  "drainable_blocking s =
     List.map_filter (\<lambda>w. map_option (\<lambda>closed_at_ms.
         \<lparr>dw_dataset = wf_dataset w, dw_partition = wf_partition w, dw_window = wf_window w,
          dw_closed_at_ms = closed_at_ms\<rparr>)
       (closed_at s (wf_dataset w, wf_partition w, wf_window w))) (list_windows (ss_engine s))"

text \<open>A query on the read connection: it may fail, and it reads the committed tables.\<close>

definition reader_query ::
  "faults \<Rightarrow> ('p hot_db \<Rightarrow> (duckdb_error, 'a) result) \<Rightarrow> 'p writer_inner \<Rightarrow> (staging_error, 'a) result \<times> 'p writer_inner" where
  "reader_query F q w =
     and_then (on_conn (db_execute F Inr) w) (\<lambda>_ w. (map_err EngineError (q (cn_db (w_conn w))), w))"

definition table_rows :: "string \<Rightarrow> 'p hot_db \<Rightarrow> (duckdb_error, 'p hot_table) result" where
  "table_rows table db =
     (case bt_get (db_tables db) table of None \<Rightarrow> Inl (DbTableMissing table) | Some tb \<Rightarrow> Inr tb)"

text \<open>The gaps-and-islands query: number the rows of each origin by \<open>seq\<close>, group by the difference.\<close>

definition numbered_seqs :: "node_id \<Rightarrow> 'p staged_row list \<Rightarrow> (int \<times> u64) list" where
  "numbered_seqs origin rows =
     map (\<lambda>(i, seq). (uint seq - int i, seq))
       (List.enumerate 1 (sort (map row_seq (filter (\<lambda>r. row_origin r = origin) rows))))"

definition origin_runs :: "'p staged_row list \<Rightarrow> node_id \<Rightarrow> origin_seq_range list" where
  "origin_runs rows origin =
     (let numbered = numbered_seqs origin rows in
      map (\<lambda>run. let seqs = map snd (filter (\<lambda>(r, _). r = run) numbered) in
            \<lparr>osr_origin = origin, osr_first_seq = Min (set seqs), osr_last_seq = Max (set seqs)\<rparr>)
        (remdups (map fst numbered)))"

definition coverage_runs :: "'p staged_row list \<Rightarrow> origin_seq_range list" where
  "coverage_runs rows =
     sort_key (\<lambda>c. (osr_origin c, osr_first_seq c)) (concat (map (origin_runs rows) (remdups (map row_origin rows))))"

definition event_time_bounds :: "'p seal_sql \<Rightarrow> string \<Rightarrow> 'p staged_row list \<Rightarrow> int \<times> int" where
  "event_time_bounds Q col rows =
     (case List.map_filter (sq_event_time Q col) rows of
        [] \<Rightarrow> (0, 0)
      | t # ts \<Rightarrow> (sq_epoch_ms Q (Min (set (t # ts))), sq_epoch_ms Q (Max (set (t # ts)))))"

text \<open>\<open>row_number() OVER (PARTITION BY keys ORDER BY origin, seq) = 1\<close>.\<close>

definition dedup_winners :: "('p staged_row \<Rightarrow> string list) \<Rightarrow> 'p staged_row list \<Rightarrow> 'p staged_row list" where
  "dedup_winners key rows =
     map (\<lambda>k. hd (sort_key row_id (filter (\<lambda>r. key r = k) rows))) (remdups (map key rows))"

definition sealed_rows :: "'p seal_sql \<Rightarrow> string list option \<Rightarrow> 'p staged_row list \<Rightarrow> 'p staged_row list" where
  "sealed_rows Q dedup_key rows =
     (case dedup_key of Some key_cols \<Rightarrow> dedup_winners (sq_key Q key_cols) rows | None \<Rightarrow> rows)"

text \<open>A column list as the query needs it: not empty, and every column known to the table.\<close>

definition bind_columns :: "'p seal_sql \<Rightarrow> string \<Rightarrow> string list \<Rightarrow> (duckdb_error, unit) result" where
  "bind_columns Q columns cols =
     (if cols = [] then Inl (DbFault ''syntax error'')
      else case find (\<lambda>c. \<not> sq_has_column Q columns c) cols of
             Some c \<Rightarrow> Inl (DbFault (''column not found: '' @ c))
           | None \<Rightarrow> Inr ())"

definition check_columns :: "'p seal_sql \<Rightarrow> string list option \<Rightarrow> string \<Rightarrow> (duckdb_error, unit) result" where
  "check_columns Q cols columns = (case cols of None \<Rightarrow> Inr () | Some cs \<Rightarrow> bind_columns Q columns cs)"

text \<open>An engine call made by the surface, with its error rendered.\<close>

definition engine_call ::
  "'p seal_sql \<Rightarrow> ('p writer_inner \<Rightarrow> (staging_error, 'a) result \<times> 'p writer_inner) \<Rightarrow> 'p seal_surface
     \<Rightarrow> (seal_error, 'a) result \<times> 'p seal_surface" where
  "engine_call Q f s =
     (case f (ss_engine s) of (r, w) \<Rightarrow> (map_err (\<lambda>e. SealBackend (sq_render Q e)) r, s\<lparr>ss_engine := w\<rparr>))"

definition seal_reader :: "faults \<Rightarrow> 'p seal_sql \<Rightarrow> 'p seal_surface \<Rightarrow> (seal_error, unit) result \<times> 'p seal_surface" where
  "seal_reader F Q = engine_call Q (on_conn (db_execute F Inr))"

definition seal_query ::
  "faults \<Rightarrow> 'p seal_sql \<Rightarrow> string \<Rightarrow> string list option \<Rightarrow> 'p seal_surface
     \<Rightarrow> (seal_error, 'p staged_row list) result \<times> 'p seal_surface" where
  "seal_query F Q table cols = engine_call Q (reader_query F (\<lambda>db.
     case table_rows table db of
       Inl e \<Rightarrow> Inl e
     | Inr tb \<Rightarrow> (case check_columns Q cols (tb_columns tb) of Inl e \<Rightarrow> Inl e | Inr _ \<Rightarrow> Inr (tb_rows tb))))"

definition part_path :: "string \<Rightarrow> storage_path" where
  "part_path table = ''seal/'' @ table @ ''.parquet''"

definition seal_blocking ::
  "faults \<Rightarrow> 'p seal_sql \<Rightarrow> seal_request \<Rightarrow> 'p seal_surface \<Rightarrow> (seal_error, sealed_part) result \<times> 'p seal_surface" where
  "seal_blocking F Q request s =
     (case window_table (ss_engine s) (sr_dataset request) (sr_partition request) (sr_window request) of
        None \<Rightarrow> (Inl (UnknownWindow (sr_dataset request) (sr_partition request) (sr_window request)), s)
      | Some table \<Rightarrow>
          and_then (seal_reader F Q s) (\<lambda>_ s.
          and_then (seal_query F Q table None s) (\<lambda>total s.
          and_then (seal_query F Q table None s) (\<lambda>runs s.
          and_then (seal_query F Q table (Some [sr_event_time_column request]) s) (\<lambda>times s.
          and_then (seal_query F Q table (sr_dedup_key request) s) (\<lambda>counted s.
          case sq_scratch_dir Q of
            Some e \<Rightarrow> (Inl (SealBackend (''seal scratch dir: '' @ e)), s)
          | None \<Rightarrow>
              and_then (seal_query F Q table (Some (sr_order_by request)) s) (\<lambda>copied s.
                let rows = length (sealed_rows Q (sr_dedup_key request) counted);
                    (event_time_min_ms, event_time_max_ms) = event_time_bounds Q (sr_event_time_column request) times
                in (Inr \<lparr>sp_path = part_path table, sp_rows = of_nat rows,
                         sp_event_time_min_ms = event_time_min_ms, sp_event_time_max_ms = event_time_max_ms,
                         sp_dedup_removed = of_nat (length total) - of_nat rows,
                         sp_origin_coverage = coverage_runs runs\<rparr>,
                    s\<lparr>ss_scratch := (ss_scratch s)(part_path table \<mapsto>
                        sq_order Q (sr_order_by request) (sealed_rows Q (sr_dedup_key request) copied))\<rparr>))))))))"

definition coverage_predicate :: "origin_seq_range list \<Rightarrow> 'p staged_row \<Rightarrow> bool" where
  "coverage_predicate covered r \<longleftrightarrow>
     (\<exists>c\<in>set covered. row_origin r = osr_origin c \<and> osr_first_seq c \<le> row_seq r \<and> row_seq r \<le> osr_last_seq c)"

definition drop_blocking ::
  "faults \<Rightarrow> 'p seal_sql \<Rightarrow> dataset_id \<Rightarrow> partition_id \<Rightarrow> window_id \<Rightarrow> origin_seq_range list \<Rightarrow> 'p seal_surface
     \<Rightarrow> (seal_error, drop_outcome) result \<times> 'p seal_surface" where
  "drop_blocking F Q dataset pid window covered s =
     (case window_table (ss_engine s) dataset pid window of
        None \<Rightarrow> (Inr AlreadyGone, s)
      | Some table \<Rightarrow>
          and_then (seal_reader F Q s) (\<lambda>_ s.
          and_then (seal_query F Q table None s) (\<lambda>rows s.
            let residue = length (filter (\<lambda>r. \<not> coverage_predicate covered r) rows) in
            if residue = 0 then
              and_then (engine_call Q (engine_drop_window F dataset pid window) s) (\<lambda>_ s.
                (Inr Dropped, forget_close (dataset, pid, window) s))
            else
              and_then (engine_call Q (delete_covered_rows F table (coverage_predicate covered)) s) (\<lambda>_ s.
                (Inr (ResidueKept (of_nat residue)), s)))))"

section \<open>Queries leave the store alone\<close>

definition same_surface :: "'p seal_surface \<Rightarrow> 'p seal_surface \<Rightarrow> bool" where
  "same_surface s s' \<longleftrightarrow> same_store (ss_engine s) (ss_engine s') \<and> ss_closes s' = ss_closes s \<and> ss_scratch s' = ss_scratch s"

lemma same_store_trans: "same_store a b \<Longrightarrow> same_store b c \<Longrightarrow> same_store a c"
  by (simp add: same_store_def)

lemma same_surface_trans: "same_surface a b \<Longrightarrow> same_surface b c \<Longrightarrow> same_surface a c"
  using same_store_trans by (auto simp: same_surface_def)

lemma seal_reader_same:
  assumes "seal_reader F Q s = (r, s')" and "cn_txn (w_conn (ss_engine s)) = None"
  shows "same_surface s s'"
proof -
  obtain r0 w where x: "on_conn (db_execute F Inr) (ss_engine s) = (r0, w)" by (cases "on_conn (db_execute F Inr) (ss_engine s)")
  with assms have s': "s' = s\<lparr>ss_engine := w\<rparr>" by (auto simp: seal_reader_def engine_call_def)
  from x assms(2) show ?thesis
    by (cases rule: on_conn_execute_cases) (auto simp: s' same_surface_def same_store_iff)
qed

lemma seal_query_cases:
  assumes "seal_query F Q table cols s = (r, s')" and "cn_txn (w_conn (ss_engine s)) = None"
  obtains (fail) e where "r = Inl e" and "same_surface s s'"
  | (ok) tb where "r = Inr (tb_rows tb)" and "bt_get (db_tables (cn_db (w_conn (ss_engine s)))) table = Some tb"
      and "same_surface s s'"
proof -
  let ?x = "on_conn (db_execute F Inr) (ss_engine s)"
  obtain r0 w where x: "?x = (r0, w)" by (cases ?x)
  have same: "same_store (ss_engine s) w"
    using x assms(2) by (cases rule: on_conn_execute_cases) (auto simp: same_store_iff)
  then have s': "same_surface s s'"
    using assms(1) x
    by (cases r0) (auto simp: seal_query_def engine_call_def reader_query_def same_surface_def split: sum.splits)
  show thesis
  proof (cases r)
    case (Inl e) with s' show thesis by (intro that(1))
  next
    case (Inr rows)
    with assms(1) x same obtain tb where "bt_get (db_tables (cn_db (w_conn (ss_engine s)))) table = Some tb" "r = Inr (tb_rows tb)"
      by (cases r0) (auto simp: seal_query_def engine_call_def reader_query_def table_rows_def same_store_iff
          split: option.splits sum.splits)
    with s' show thesis by (intro that(2))
  qed
qed

section \<open>Dropping a window\<close>

abbreviation sdb :: "'p seal_surface \<Rightarrow> 'p hot_db" where
  "sdb s \<equiv> cn_db (w_conn (ss_engine s))"

lemma same_surface_ok: "same_surface s s' \<Longrightarrow> store_ok origin (ss_engine s) \<Longrightarrow> store_ok origin (ss_engine s')"
  using store_ok_same by (auto simp: same_surface_def)

lemma same_surface_db: "same_surface s s' \<Longrightarrow> sdb s' = sdb s \<and> w_windows (ss_engine s') = w_windows (ss_engine s)"
  by (auto simp: same_surface_def same_store_iff)

lemma window_table_key:
  assumes "store_ok origin w" and "window_table w ds p win = Some table"
  shows "table = key_table (ds, p, win)" and "bt_get (db_windows (cn_db (w_conn w))) (ds, p, win) \<noteq> None"
  using store_okD[OF assms(1)] assms(2) by (auto simp: window_table_def mirrors_def windows_ok_def)

lemma engine_call_eq:
  "engine_call Q f s = (r, s') \<longleftrightarrow>
     (\<exists>r0 w. f (ss_engine s) = (r0, w) \<and> r = map_err (\<lambda>e. SealBackend (sq_render Q e)) r0 \<and> s' = s\<lparr>ss_engine := w\<rparr>)"
  by (auto simp: engine_call_def split: prod.splits)

lemma drop_blocking_cases:
  assumes ok: "store_ok origin (ss_engine s)" and d: "drop_blocking F Q ds p win covered s = (r, s')"
  obtains (fail) e where "r = Inl e" and "same_surface s s'"
  | (gone) "r = Inr AlreadyGone" and "s' = s" and "bt_get (db_windows (sdb s)) (ds, p, win) = None"
  | (dropped) rest where "rest = filter (\<lambda>r. \<not> coverage_predicate covered r) (win_rows (sdb s) (ds, p, win))"
      and "r = Inr (if rest = [] then Dropped else ResidueKept (of_nat (length rest)))"
      and "store_ok origin (ss_engine s')" and "win_rows (sdb s') = (win_rows (sdb s))((ds, p, win) := rest)"
      and "db_window_hw (sdb s') = db_window_hw (sdb s)" and "applied_of (sdb s') = applied_of (sdb s)"
      and "ss_scratch s' = ss_scratch s"
proof (cases "window_table (ss_engine s) ds p win")
  case None
  moreover have "bt_get (db_windows (sdb s)) (ds, p, win) = None"
    using None store_okD(4)[OF ok] by (simp add: window_table_def mirrors_def)
  ultimately show thesis using d by (intro that(2)) (auto simp: drop_blocking_def)
next
  case (Some table)
  note t = window_table_key[OF ok Some]
  obtain r1 s1 where x1: "seal_reader F Q s = (r1, s1)" by (cases "seal_reader F Q s")
  have s1: "same_surface s s1" by (rule seal_reader_same[OF x1 store_okD(1)[OF ok]])
  note ok1 = same_surface_ok[OF s1 ok]
  show thesis
  proof (cases r1)
    case (Inl e) with d Some x1 s1 show thesis by (intro that(1)) (auto simp: drop_blocking_def)
  next
    case r1: (Inr u)
    obtain r2 s2 where x2: "seal_query F Q table None s1 = (r2, s2)" by (cases "seal_query F Q table None s1")
    from x2 store_okD(1)[OF ok1] show thesis
    proof (cases rule: seal_query_cases)
      case (fail e)
      with d Some x1 x2 r1 same_surface_trans[OF s1] show thesis by (intro that(1)) (auto simp: drop_blocking_def)
    next
      case q: (ok tb)
      note s2 = same_surface_trans[OF s1 q(3)]
      note ok2 = same_surface_ok[OF s2 ok] and db2 = same_surface_db[OF s2]
      let ?rest = "filter (\<lambda>r. \<not> coverage_predicate covered r) (win_rows (sdb s) (ds, p, win))"
      have rows: "tb_rows tb = win_rows (sdb s) (ds, p, win)"
        using q(2) same_surface_db[OF s1] t(1) by (simp add: win_rows_def)
      have d2: "(if ?rest = [] then and_then (engine_call Q (engine_drop_window F ds p win) s2) (\<lambda>_ s.
                (Inr Dropped, forget_close (ds, p, win) s))
            else and_then (engine_call Q (delete_covered_rows F table (coverage_predicate covered)) s2) (\<lambda>_ s.
                (Inr (ResidueKept (of_nat (length ?rest))), s))) = (r, s')"
        using d Some x1 x2 r1 q(1) rows by (simp add: drop_blocking_def Let_def split: if_splits)
      show thesis
      proof (cases "?rest = []")
        case True
        obtain r3 w3 where x3: "engine_drop_window F ds p win (ss_engine s2) = (r3, w3)"
          by (cases "engine_drop_window F ds p win (ss_engine s2)")
        from ok2 x3 show thesis
        proof (cases rule: engine_drop_window_ok)
          case (fail e)
          with d2 True x3 s2 show thesis
            by (intro that(1)) (auto simp: engine_call_def same_surface_def intro: same_store_trans)
        next
          case gone
          with t(2) db2 show thesis by simp
        next
          case dropped
          with d2 True x3 db2 s2 show thesis
            by (intro that(3)[of "?rest"]) (auto simp: engine_call_def forget_close_def same_surface_def)
        qed
      next
        case False
        obtain r3 w3 where x3: "delete_covered_rows F (key_table (ds, p, win)) (coverage_predicate covered) (ss_engine s2) = (r3, w3)"
          by (cases "delete_covered_rows F (key_table (ds, p, win)) (coverage_predicate covered) (ss_engine s2)")
        from ok2 x3 show thesis
        proof (cases rule: delete_covered_rows_ok)
          case (fail e)
          with d2 False x3 s2 t(1) show thesis
            by (intro that(1)) (auto simp: engine_call_def same_surface_def intro: same_store_trans)
        next
          case deleted
          with d2 False x3 db2 s2 t(1) show thesis
            by (intro that(3)[of "?rest"]) (auto simp: engine_call_def same_surface_def)
        qed
      qed
    qed
  qed
qed

end
