(* ===== verification/Seal_Runs.thy ===== *)
theory Seal_Runs
  imports Seal_Surface
begin

text \<open>
  What a sealed part says of its window: the coverage query (gaps and islands) returns exactly the
  sequence numbers of the window's rows as maximal runs, and deduplication keeps one row of each key.
\<close>

section \<open>Gaps and islands\<close>

text \<open>The difference the query groups by, and the group of one difference, over a strictly sorted list.\<close>

definition run_of :: "u64 list \<Rightarrow> nat \<Rightarrow> int" where
  "run_of seqs i = uint (seqs ! i) - int (Suc i)"

definition run_group :: "u64 list \<Rightarrow> int \<Rightarrow> u64 set" where
  "run_group seqs g = (!) seqs ` {i. i < length seqs \<and> run_of seqs i = g}"

lemma ssorted_gap:
  assumes "ssorted seqs" and "i \<le> j" and "j < length seqs"
  shows "uint (seqs ! i) + int (j - i) \<le> uint (seqs ! j)"
  using assms(2,3)
proof (induction j)
  case (Suc j)
  show ?case
  proof (cases "i = Suc j")
    case False
    with Suc have "uint (seqs ! i) + int (j - i) \<le> uint (seqs ! j)" by simp
    moreover have "seqs ! j < seqs ! Suc j"
      using assms(1) Suc.prems by (simp add: sorted_wrt_nth_less)
    ultimately show ?thesis using False Suc.prems by (simp add: Suc_diff_le word_less_def)
  qed simp
qed simp

lemma run_mono: "ssorted seqs \<Longrightarrow> i \<le> j \<Longrightarrow> j < length seqs \<Longrightarrow> run_of seqs i \<le> run_of seqs j"
  using ssorted_gap[of seqs i j] by (simp add: run_of_def of_nat_diff)

lemma group_convex:
  assumes s: "ssorted seqs" and "x \<in> run_group seqs g" and "y \<in> run_group seqs g" and "x \<le> z" and "z \<le> y"
  shows "z \<in> run_group seqs g"
proof -
  obtain i j where i: "x = seqs ! i" "i < length seqs" "run_of seqs i = g"
    and j: "y = seqs ! j" "j < length seqs" "run_of seqs j = g"
    using assms(2,3) by (auto simp: run_group_def)
  have xy: "uint x \<le> uint z" "uint z \<le> uint y" using assms(4,5) by (simp_all add: word_le_def)
  have dist_ij: "uint y - uint x = int j - int i" using i j by (simp add: run_of_def)
  define k where "k = i + nat (uint z - uint x)"
  have k: "i \<le> k" "k \<le> j" using xy dist_ij by (auto simp: k_def)
  then have g: "run_of seqs k = g" using run_mono[OF s, of i k] run_mono[OF s, of k j] i j by auto
  then have "uint (seqs ! k) = uint z" using i xy by (simp add: run_of_def k_def)
  then have "seqs ! k = z" by (rule word_uint_eqI)
  with g k j show ?thesis by (auto simp: run_group_def)
qed

lemma group_apart:
  assumes s: "ssorted seqs" and "x \<in> run_group seqs g" and "y \<in> run_group seqs g'" and "g < g'"
  shows "unat x + 1 < unat y"
proof -
  obtain i j where i: "x = seqs ! i" "i < length seqs" "run_of seqs i = g"
    and j: "y = seqs ! j" "j < length seqs" "run_of seqs j = g'"
    using assms(2,3) by (auto simp: run_group_def)
  have "\<not> j \<le> i" using run_mono[OF s, of j i] i j assms(4) by auto
  with i j assms(4) have "uint x + 1 < uint y" by (simp add: run_of_def)
  then show ?thesis unfolding uint_nat by linarith
qed

lemma group_interval:
  assumes "ssorted seqs" and i: "i < length seqs" "g = run_of seqs i"
  shows "run_group seqs g = {Min (run_group seqs g)..Max (run_group seqs g)}"
    and "Min (run_group seqs g) \<in> run_group seqs g" and "Max (run_group seqs g) \<in> run_group seqs g"
proof -
  have fin: "finite (run_group seqs g)" by (simp add: run_group_def)
  moreover have "run_group seqs g \<noteq> {}" using i by (auto simp: run_group_def)
  ultimately show m: "Min (run_group seqs g) \<in> run_group seqs g" "Max (run_group seqs g) \<in> run_group seqs g" by auto
  show "run_group seqs g = {Min (run_group seqs g)..Max (run_group seqs g)}"
  proof (intro equalityI subsetI)
    show "z \<in> run_group seqs g" if "z \<in> {Min (run_group seqs g)..Max (run_group seqs g)}" for z
      by (rule group_convex[OF assms(1) m]) (use that in simp_all)
  qed (simp add: fin)
qed

section \<open>The coverage query\<close>

definition origin_seqs :: "'p staged_row list \<Rightarrow> node_id \<Rightarrow> u64 list" where
  "origin_seqs rows origin = sort (map row_seq (filter (\<lambda>r. row_origin r = origin) rows))"

lemma ssorted_origin_seqs:
  assumes "distinct (map row_id rows)"
  shows "ssorted (origin_seqs rows origin)"
proof -
  have "inj_on row_seq {r \<in> set rows. row_origin r = origin}"
    using assms by (auto simp: distinct_map inj_on_def)
  then have "distinct (origin_seqs rows origin)"
    using assms by (simp add: origin_seqs_def distinct_map)
  then show ?thesis by (simp add: origin_seqs_def strict_sorted_iff)
qed

lemma set_origin_seqs: "seq \<in> set (origin_seqs rows origin) \<longleftrightarrow> (origin, seq) \<in> row_id ` set rows"
  by (force simp: origin_seqs_def)

lemma numbered_seqs_eq:
  "numbered_seqs origin rows = map (\<lambda>i. (run_of (origin_seqs rows origin) i, origin_seqs rows origin ! i))
     [0..<length (origin_seqs rows origin)]"
  unfolding numbered_seqs_def origin_seqs_def[symmetric]
  by (rule nth_equalityI) (simp_all add: nth_enumerate_eq run_of_def)

definition group_range :: "node_id \<Rightarrow> u64 list \<Rightarrow> int \<Rightarrow> origin_seq_range" where
  "group_range origin seqs g =
     \<lparr>osr_origin = origin, osr_first_seq = Min (run_group seqs g), osr_last_seq = Max (run_group seqs g)\<rparr>"

lemma origin_runs_eq:
  "origin_runs rows origin = map (group_range origin (origin_seqs rows origin))
     (remdups (map (run_of (origin_seqs rows origin)) [0..<length (origin_seqs rows origin)]))"
proof -
  let ?seqs = "origin_seqs rows origin"
  have "set (map snd (filter (\<lambda>(r, _). r = g) (numbered_seqs origin rows))) = run_group ?seqs g" for g
    by (force simp: numbered_seqs_eq run_group_def)
  then show ?thesis
    by (simp add: origin_runs_def Let_def group_range_def numbered_seqs_eq comp_def)
qed

definition in_range :: "origin_seq_range \<Rightarrow> node_id \<times> u64 \<Rightarrow> bool" where
  "in_range c = (\<lambda>(origin, seq). origin = osr_origin c \<and> osr_first_seq c \<le> seq \<and> seq \<le> osr_last_seq c)"

text \<open>One range ends before the next begins, with a gap between them when they share the origin.\<close>

definition range_before :: "origin_seq_range \<Rightarrow> origin_seq_range \<Rightarrow> bool" where
  "range_before a b \<longleftrightarrow>
     osr_origin a < osr_origin b \<or> osr_origin a = osr_origin b \<and> unat (osr_last_seq a) + 1 < unat (osr_first_seq b)"

lemma group_range_in:
  assumes "ssorted seqs" and "i < length seqs" "g = run_of seqs i"
  shows "in_range (group_range origin seqs g) (origin', seq) \<longleftrightarrow> origin' = origin \<and> seq \<in> run_group seqs g"
  by (subst group_interval(1)[OF assms]) (auto simp: in_range_def group_range_def)

lemma origin_runs_exact:
  assumes "distinct (map row_id rows)"
  shows "(\<exists>c\<in>set (origin_runs rows origin). in_range c (origin', seq)) \<longleftrightarrow> origin' = origin \<and> (origin, seq) \<in> row_id ` set rows"
proof -
  let ?seqs = "origin_seqs rows origin"
  have "(\<exists>c\<in>set (origin_runs rows origin). in_range c (origin', seq))
      \<longleftrightarrow> (\<exists>i<length ?seqs. in_range (group_range origin ?seqs (run_of ?seqs i)) (origin', seq))"
    by (auto simp: origin_runs_eq)
  also have "\<dots> \<longleftrightarrow> origin' = origin \<and> (\<exists>i<length ?seqs. seq \<in> run_group ?seqs (run_of ?seqs i))"
    using group_range_in[OF ssorted_origin_seqs[OF assms, of origin]] by auto
  also have "\<dots> \<longleftrightarrow> origin' = origin \<and> seq \<in> set ?seqs"
    by (auto simp: run_group_def in_set_conv_nth)
  finally show ?thesis unfolding set_origin_seqs .
qed

lemma origin_runs_apart:
  assumes d: "distinct (map row_id rows)"
  shows "distinct (origin_runs rows origin)"
    and "a \<in> set (origin_runs rows origin) \<Longrightarrow> b \<in> set (origin_runs rows origin) \<Longrightarrow> a \<noteq> b \<Longrightarrow> range_before a b \<or> range_before b a"
    and "a \<in> set (origin_runs rows origin) \<Longrightarrow> osr_origin a = origin \<and> osr_first_seq a \<le> osr_last_seq a"
proof -
  let ?seqs = "origin_seqs rows origin"
  let ?gs = "run_of ?seqs ` {..<length ?seqs}"
  note s = ssorted_origin_seqs[OF d, of origin]
  have mm: "Min (run_group ?seqs g) \<in> run_group ?seqs g" "Max (run_group ?seqs g) \<in> run_group ?seqs g"
    if "g \<in> ?gs" for g using group_interval[OF s] that by auto
  have apart: "range_before (group_range origin ?seqs g) (group_range origin ?seqs g')"
    if "g \<in> ?gs" "g' \<in> ?gs" "g < g'" for g g'
    using group_apart[OF s mm(2)[OF that(1)] mm(1)[OF that(2)] that(3)] by (simp add: range_before_def group_range_def)
  have irrefl: "\<not> range_before (group_range origin ?seqs g) (group_range origin ?seqs g)" if "g \<in> ?gs" for g
  proof -
    have "Min (run_group ?seqs g) \<le> Max (run_group ?seqs g)" using mm[OF that] by (simp add: run_group_def)
    then show ?thesis by (simp add: range_before_def group_range_def word_le_nat_alt)
  qed
  have runs: "set (origin_runs rows origin) = group_range origin ?seqs ` ?gs"
    by (auto simp: origin_runs_eq)
  show "distinct (origin_runs rows origin)"
    unfolding origin_runs_eq distinct_map
  proof (intro conjI inj_onI)
    fix g g' assume g: "g \<in> set (remdups (map (run_of ?seqs) [0..<length ?seqs]))"
      "g' \<in> set (remdups (map (run_of ?seqs) [0..<length ?seqs]))" and eq: "group_range origin ?seqs g = group_range origin ?seqs g'"
    from g have "g \<in> ?gs" "g' \<in> ?gs" by auto
    then show "g = g'" using apart[of g g'] apart[of g' g] irrefl[of g] eq by (cases g g' rule: linorder_cases) auto
  qed simp
  show "range_before a b \<or> range_before b a"
    if ab: "a \<in> set (origin_runs rows origin)" "b \<in> set (origin_runs rows origin)" "a \<noteq> b"
  proof -
    obtain g g' where g: "g \<in> ?gs" "g' \<in> ?gs" "a = group_range origin ?seqs g" "b = group_range origin ?seqs g'"
      using ab(1,2) unfolding runs by blast
    with ab(3) apart[of g g'] apart[of g' g] show ?thesis by (cases g g' rule: linorder_cases) auto
  qed
  show "osr_origin a = origin \<and> osr_first_seq a \<le> osr_last_seq a" if "a \<in> set (origin_runs rows origin)"
  proof -
    obtain g where g: "g \<in> ?gs" "a = group_range origin ?seqs g" using \<open>a \<in> _\<close> unfolding runs by blast
    moreover have "finite (run_group ?seqs g)" by (simp add: run_group_def)
    ultimately show ?thesis using mm[OF g(1)] by (simp add: group_range_def)
  qed
qed

lemma distinct_coverage_runs:
  assumes "distinct (map row_id rows)"
  shows "distinct (concat (map (origin_runs rows) (remdups (map row_origin rows))))"
proof -
  have "distinct (concat (map (origin_runs rows) os))" if "distinct os" for os
    using that
  proof (induction os)
    case (Cons x os)
    have "c \<notin> set (origin_runs rows y)" if "c \<in> set (origin_runs rows x)" "y \<in> set os" for c y
      using origin_runs_apart(3)[OF assms that(1)] origin_runs_apart(3)[OF assms, of c y] that(2) Cons.prems by auto
    then have "set (origin_runs rows x) \<inter> set (concat (map (origin_runs rows) os)) = {}" by auto
    with Cons origin_runs_apart(1)[OF assms] show ?case by simp
  qed simp
  then show ?thesis by simp
qed

lemma coverage_runs_sorted:
  assumes d: "distinct (map row_id rows)"
  shows "sorted_wrt range_before (coverage_runs rows)"
proof -
  let ?runs = "concat (map (origin_runs rows) (remdups (map row_origin rows)))" and ?cs = "coverage_runs rows"
  have st: "sorted (map (\<lambda>c. (osr_origin c, osr_first_seq c)) ?cs)" and dist: "distinct ?cs" and set: "set ?cs = set ?runs"
    using distinct_coverage_runs[OF d] by (simp_all add: coverage_runs_def)
  have "range_before (?cs ! i) (?cs ! j)" if ij: "i < j" "j < length ?cs" for i j
  proof -
    let ?a = "?cs ! i" and ?b = "?cs ! j"
    have "?a \<in> set ?runs" "?b \<in> set ?runs" using ij set by (metis nth_mem order_less_trans)+
    then obtain x y where x: "?a \<in> set (origin_runs rows x)" and y: "?b \<in> set (origin_runs rows y)" by auto
    have ne: "?a \<noteq> ?b" using dist ij by (simp add: nth_eq_iff_index_eq)
    have le: "(osr_origin ?a, osr_first_seq ?a) \<le> (osr_origin ?b, osr_first_seq ?b)"
      using st ij by (fastforce simp: sorted_iff_nth_mono)
    note ax = origin_runs_apart(3)[OF d x] and bx = origin_runs_apart(3)[OF d y]
    show ?thesis
    proof (cases "x = y")
      case True
      with origin_runs_apart(2)[OF d x _ ne] y have "range_before ?a ?b \<or> range_before ?b ?a" by simp
      then show ?thesis using le ax bx True by (auto simp: range_before_def word_le_nat_alt)
    next
      case False
      with le ax bx show ?thesis by (auto simp: range_before_def)
    qed
  qed
  then show ?thesis by (simp add: sorted_wrt_iff_nth_less)
qed

lemma coverage_runs_mem:
  assumes "distinct (map row_id rows)"
  shows "(\<exists>c\<in>set (coverage_runs rows). in_range c (origin, seq)) \<longleftrightarrow> (origin, seq) \<in> row_id ` set rows"
proof -
  have "(\<exists>c\<in>set (coverage_runs rows). in_range c (origin, seq))
      \<longleftrightarrow> (\<exists>o'\<in>row_origin ` set rows. \<exists>c\<in>set (origin_runs rows o'). in_range c (origin, seq))"
    by (simp add: coverage_runs_def)
  then show ?thesis using origin_runs_exact[OF assms] by auto
qed

text \<open>
  Sealed coverage. Over the rows of a window, which carry distinct origins and sequence
  numbers, the gaps-and-islands query returns ranges that contain a pair of origin and sequence number
  exactly when the window has a row with it, in the order of origin and first number, and with a gap
  between two ranges of one origin: the runs are exact and maximal.
\<close>
theorem coverage_runs_exact_and_maximal:
  assumes "distinct (map row_id rows)"
  shows "(\<forall>origin seq. (\<exists>c\<in>set (coverage_runs rows). in_range c (origin, seq)) \<longleftrightarrow> (origin, seq) \<in> row_id ` set rows)
    \<and> sorted_wrt range_before (coverage_runs rows)"
  using coverage_runs_mem[OF assms] coverage_runs_sorted[OF assms] by blast

definition demo_row :: "string \<Rightarrow> string \<Rightarrow> u64 \<Rightarrow> string staged_row" where
  "demo_row p origin seq = \<lparr>row_payload = p, row_origin = NodeId origin, row_seq = seq\<rparr>"

definition demo_rows :: "string staged_row list" where
  "demo_rows = [demo_row ''a'' ''n1'' 3, demo_row ''b'' ''n0'' 7, demo_row ''a'' ''n1'' 2, demo_row ''c'' ''n1'' 5]"

lemma demo_rows_distinct: "distinct (map row_id demo_rows)"
  by (simp add: demo_rows_def demo_row_def)

theorem coverage_runs_exact_and_maximal_witness:
  "distinct (map row_id demo_rows)
   \<and> (\<forall>origin seq. (\<exists>c\<in>set (coverage_runs demo_rows). in_range c (origin, seq)) \<longleftrightarrow> (origin, seq) \<in> row_id ` set demo_rows)
   \<and> sorted_wrt range_before (coverage_runs demo_rows)
   \<and> length (coverage_runs demo_rows) = 3"
proof (intro conjI)
  show "length (coverage_runs demo_rows) = 3" by code_simp
qed (use coverage_runs_exact_and_maximal[OF demo_rows_distinct] demo_rows_distinct in \<open>blast+\<close>)

section \<open>Deduplication\<close>

lemma dedup_winner:
  fixes key :: "'p staged_row \<Rightarrow> string list"
  assumes "distinct (map row_id rows)" and "r \<in> set rows"
  defines "w \<equiv> hd (sort_key row_id (filter (\<lambda>x. key x = key r) rows))"
  shows "w \<in> set rows" and "key w = key r" and "\<And>x. x \<in> set rows \<Longrightarrow> key x = key r \<Longrightarrow> row_id w \<le> row_id x"
proof -
  let ?g = "filter (\<lambda>x. key x = key r) rows"
  let ?s = "sort_key row_id ?g"
  have "r \<in> set ?s" using assms(2) by simp
  then have ne: "?s \<noteq> []" by (metis empty_iff list.set(1))
  then have "w \<in> set ?s" unfolding w_def by (rule hd_in_set)
  then show "w \<in> set rows" "key w = key r" by auto
  show "row_id w \<le> row_id x" if "x \<in> set rows" "key x = key r" for x
  proof -
    have "x \<in> set ?s" using that by simp
    moreover have "sorted (map row_id ?s)" by (rule sorted_sort_key)
    ultimately show ?thesis unfolding w_def using ne by (cases ?s) auto
  qed
qed

text \<open>
  Deduplication. Over the rows of a window, the sealed rows under a dedup key are, for each key
  that occurs, exactly the one row of that key with the smallest origin and sequence number.
\<close>
theorem dedup_keeps_smallest_of_each_key:
  assumes "distinct (map row_id rows)"
  shows "set (sealed_rows Q (Some cols) rows)
      = {r \<in> set rows. \<forall>x\<in>set rows. sq_key Q cols x = sq_key Q cols r \<longrightarrow> row_id r \<le> row_id x}
    \<and> distinct (map (sq_key Q cols) (sealed_rows Q (Some cols) rows))"
proof -
  let ?key = "sq_key Q cols"
  let ?w = "\<lambda>k. hd (sort_key row_id (filter (\<lambda>x. ?key x = k) rows))"
  note w = dedup_winner[OF assms, where key = ?key]
  have rows: "sealed_rows Q (Some cols) rows = map ?w (remdups (map ?key rows))"
    by (simp add: sealed_rows_def dedup_winners_def)
  have "set (sealed_rows Q (Some cols) rows) = {r \<in> set rows. \<forall>x\<in>set rows. ?key x = ?key r \<longrightarrow> row_id r \<le> row_id x}"
  proof (intro equalityI subsetI)
    fix r assume "r \<in> set (sealed_rows Q (Some cols) rows)"
    then obtain x where x: "x \<in> set rows" "r = ?w (?key x)" unfolding rows by auto
    with w[OF x(1)] show "r \<in> {r \<in> set rows. \<forall>x\<in>set rows. ?key x = ?key r \<longrightarrow> row_id r \<le> row_id x}" by auto
  next
    fix r assume r: "r \<in> {r \<in> set rows. \<forall>x\<in>set rows. ?key x = ?key r \<longrightarrow> row_id r \<le> row_id x}"
    then have r': "r \<in> set rows" by simp
    have "row_id r \<le> row_id (?w (?key r))" using r w(1,2)[OF r'] by auto
    moreover have "row_id (?w (?key r)) \<le> row_id r" by (rule w(3)[OF r' r' refl])
    ultimately have "row_id r = row_id (?w (?key r))" by (rule antisym)
    then have "r = ?w (?key r)" using assms r' w(1)[OF r'] by (simp add: distinct_map inj_on_def)
    from image_eqI[where f = ?w and x = "?key r", OF this imageI[where f = ?key, OF r']] show "r \<in> set (sealed_rows Q (Some cols) rows)"
      unfolding rows set_map set_remdups .
  qed
  moreover have "map ?key (sealed_rows Q (Some cols) rows) = map id (remdups (map ?key rows))"
    unfolding rows map_map
  proof (rule map_cong[OF refl])
    fix k assume "k \<in> set (remdups (map ?key rows))"
    then obtain x where "x \<in> set rows" "k = ?key x" by auto
    with w(2)[of x] show "(?key \<circ> ?w) k = id k" by simp
  qed
  ultimately show ?thesis by simp
qed

definition demo_sql :: "string seal_sql" where
  "demo_sql = \<lparr>sq_render = (\<lambda>_. ''e''), sq_has_column = (\<lambda>_ _. True), sq_event_time = (\<lambda>_ r. Some (uint (row_seq r))),
     sq_epoch_ms = (\<lambda>t. t div 1000), sq_key = (\<lambda>_ r. [row_payload r]), sq_order = (\<lambda>_. sort_key row_id),
     sq_scratch_dir = None\<rparr>"

theorem dedup_keeps_smallest_of_each_key_witness:
  "demo_row ''a'' ''n1'' 2 \<in> set (sealed_rows demo_sql (Some [''k'']) demo_rows)
   \<and> demo_row ''a'' ''n1'' 3 \<notin> set (sealed_rows demo_sql (Some [''k'']) demo_rows)
   \<and> distinct (map (sq_key demo_sql [''k'']) (sealed_rows demo_sql (Some [''k'']) demo_rows))"
  using dedup_keeps_smallest_of_each_key[OF demo_rows_distinct, of demo_sql "[''k'']"]
  by (simp add: demo_rows_def demo_row_def demo_sql_def)

section \<open>Sealing and dropping\<close>

lemma and_then_query:
  assumes "and_then (seal_query F Q (key_table key) cols s) g = (Inr x, s')" and "store_ok origin (ss_engine s)"
  obtains (query) s1 where "g (win_rows (sdb s) key) s1 = (Inr x, s')" and "store_ok origin (ss_engine s1)"
    and "same_surface s s1" and "sdb s1 = sdb s"
proof -
  obtain r s1 where q: "seal_query F Q (key_table key) cols s = (r, s1)" by (cases "seal_query F Q (key_table key) cols s")
  from q store_okD(1)[OF assms(2)] show thesis
  proof (cases rule: seal_query_cases)
    case (fail e) with assms(1) q show thesis by simp
  next
    case (ok tb)
    then show thesis
      using assms q same_surface_ok[OF ok(3)] same_surface_db[OF ok(3)]
      by (intro query[of s1]) (simp_all add: win_rows_def)
  qed
qed

lemma seal_blocking_ok:
  assumes ok: "store_ok origin (ss_engine s)" and seal: "seal_blocking F Q req s = (Inr part, s')"
  defines "key \<equiv> (sr_dataset req, sr_partition req, sr_window req)"
  defines "rows \<equiv> win_rows (sdb s) key"
  shows "same_store (ss_engine s) (ss_engine s') \<and> ss_closes s' = ss_closes s
    \<and> sp_origin_coverage part = coverage_runs rows
    \<and> sp_rows part = of_nat (length (sealed_rows Q (sr_dedup_key req) rows))
    \<and> sp_dedup_removed part = of_nat (length rows) - sp_rows part
    \<and> (sp_event_time_min_ms part, sp_event_time_max_ms part) = event_time_bounds Q (sr_event_time_column req) rows
    \<and> ss_scratch s' = (ss_scratch s)(sp_path part \<mapsto> sq_order Q (sr_order_by req) (sealed_rows Q (sr_dedup_key req) rows))"
proof -
  obtain table where t: "window_table (ss_engine s) (sr_dataset req) (sr_partition req) (sr_window req) = Some table"
    using seal by (cases "window_table (ss_engine s) (sr_dataset req) (sr_partition req) (sr_window req)")
      (auto simp: seal_blocking_def)
  have key: "table = key_table key" using window_table_key[OF ok t] by (simp add: key_def)
  obtain r0 s0 where x0: "seal_reader F Q s = (r0, s0)" by (cases "seal_reader F Q s")
  have s0: "same_surface s s0" by (rule seal_reader_same[OF x0 store_okD(1)[OF ok]])
  note ok0 = same_surface_ok[OF s0 ok]
  have db0: "sdb s0 = sdb s" using same_surface_db[OF s0] by simp
  obtain u where r0: "r0 = Inr u" using seal t x0 by (cases r0) (auto simp: seal_blocking_def)
  have dir: "sq_scratch_dir Q = None"
  proof (rule ccontr)
    assume "sq_scratch_dir Q \<noteq> None"
    then obtain e where "sq_scratch_dir Q = Some e" by auto
    with seal show False by (auto simp: seal_blocking_def and_then_Inr split: option.splits)
  qed
  from seal[unfolded seal_blocking_def t x0 r0 and_then_simps key dir option.case] ok0 show ?thesis
  proof (cases rule: and_then_query)
    case (query s1)
    note 1 = this
    from 1(1,2) show ?thesis
    proof (cases rule: and_then_query)
      case (query s2)
      note 2 = this
      from 2(1,2) show ?thesis
      proof (cases rule: and_then_query)
        case (query s3)
        note 3 = this
        from 3(1,2) show ?thesis
        proof (cases rule: and_then_query)
          case (query s4)
          note 4 = this
          from 4(1,2) show ?thesis
          proof (cases rule: and_then_query)
            case (query s5)
            have "same_surface s s5"
              using s0 1(3) 2(3) 3(3) 4(3) query(3) same_surface_trans by blast
            then show ?thesis
              using query(1) db0 1(4) 2(4) 3(4) 4(4)
              by (auto simp: rows_def Let_def same_surface_def split: prod.splits)
          qed
        qed
      qed
    qed
  qed
qed

end
