(* ===== verification/Hot_Life.thy ===== *)
theory Hot_Life
  imports Seal_Runs
begin

text \<open>
  The staging component over its life. A node is down with its tables on disk, or up with the stager
  and the seal surface over one engine; it boots under any origin, stages batches, notes closes,
  seals, drops with any coverage, checkpoints, and crashes at any point between two operations (a
  crash inside one is a failed call followed by a crash). \<open>hot_run\<close> also records what was
  acknowledged to clients and which coverage was passed to a drop.
\<close>

section \<open>Runs\<close>

datatype 'p hot_node = Down "'p hot_db" | Up "'p engine_stager" "'p seal_surface"

fun node_db :: "'p hot_node \<Rightarrow> 'p hot_db" where
  "node_db (Down db) = db"
| "node_db (Up s f) = hot s"

text \<open>The rows an answer acknowledges: the batch's rows under the coverage the answer names.\<close>

definition acked_rows ::
  "'p stage_env \<Rightarrow> decoded_batch \<Rightarrow> (stage_error, stage_outcome) result \<Rightarrow> (dataset_id \<times> partition_id \<times> 'p staged_row) list" where
  "acked_rows E batch r =
     (case (r, read_batches E (dcb_records batch)) of
        (Inr (StageCommitted coverage), Inr bs) \<Rightarrow>
          concat (map (\<lambda>c. map (\<lambda>row. (dcb_dataset batch, sc_partition c, row))
            (augment_batch (concat (map rb_rows bs)) (osr_origin (sc_range c)) (osr_first_seq (sc_range c)))) coverage)
      | _ \<Rightarrow> [])"

inductive hot_run ::
  "(dataset_id \<times> partition_id \<times> 'p staged_row) list \<Rightarrow> (window_key \<times> origin_seq_range list) list \<Rightarrow> 'p hot_node \<Rightarrow> bool" where
  init: "hot_run [] [] (Down db_empty)"
| boot: "hot_run A D (Down db) \<Longrightarrow> staging_open F io fsync origin db = (Inr w, db')
    \<Longrightarrow> hot_run A D (Up (stager_new w origin) (seal_new w))"
| boot_fails: "hot_run A D (Down db) \<Longrightarrow> staging_open F io fsync origin db = (Inl e, db') \<Longrightarrow> hot_run A D (Down db')"
| crash: "hot_run A D (Up s f) \<Longrightarrow> hot_run A D (Down (hot s))"
| stage: "hot_run A D (Up s f) \<Longrightarrow> stage_blocking E cfg tick now batch s = (r, s')
    \<Longrightarrow> hot_run (A @ acked_rows E batch r) D (Up s' (f\<lparr>ss_engine := es_writer s'\<rparr>))"
| close: "hot_run A D (Up s f) \<Longrightarrow> hot_run A D (Up s (note_closed ds pid win at f))"
| seal: "hot_run A D (Up s f) \<Longrightarrow> seal_blocking F Q req f = (r, f')
    \<Longrightarrow> hot_run A D (Up (s\<lparr>es_writer := ss_engine f'\<rparr>) f')"
| drop: "hot_run A D (Up s f) \<Longrightarrow> drop_blocking F Q ds pid win covered f = (r, f')
    \<Longrightarrow> hot_run A (D @ [((ds, pid, win), covered)]) (Up (s\<lparr>es_writer := ss_engine f'\<rparr>) f')"
| checkpoint: "hot_run A D (Up s f) \<Longrightarrow> checkpoint F fsync (es_writer s) = (r, w)
    \<Longrightarrow> hot_run A D (Up (s\<lparr>es_writer := w\<rparr>) (f\<lparr>ss_engine := w\<rparr>))"

fun node_ok :: "'p hot_node \<Rightarrow> bool" where
  "node_ok (Down db) \<longleftrightarrow> windows_ok db \<and> rows_ok (applied_of db) (win_rows db)"
| "node_ok (Up s f) \<longleftrightarrow> stager_ok s \<and> ss_engine f = es_writer s"

text \<open>The acknowledged rows against the tables.\<close>

definition ledgered ::
  "(dataset_id \<times> partition_id \<times> 'p staged_row) list \<Rightarrow> (window_key \<times> origin_seq_range list) list
     \<Rightarrow> (partition_id \<Rightarrow> node_id \<Rightarrow> u64) \<Rightarrow> (window_key \<Rightarrow> 'p staged_row list) \<Rightarrow> bool" where
  "ledgered A D applied R \<longleftrightarrow>
     distinct (map (\<lambda>(ds, pid, r). (pid, row_id r)) A)
     \<and> (\<forall>(ds, pid, r)\<in>set A. row_seq r \<le> applied pid (row_origin r))
     \<and> (\<forall>(ds, pid, r)\<in>set A. (\<exists>win. r \<in> set (R (ds, pid, win)))
          \<or> (\<exists>win covered. ((ds, pid, win), covered) \<in> set D \<and> coverage_predicate covered r))
     \<and> (\<forall>ds pid win. \<forall>r\<in>set (R (ds, pid, win)). (ds, pid, r) \<in> set A)"

definition node_ledgered where
  "node_ledgered A D n \<longleftrightarrow> ledgered A D (applied_of (node_db n)) (win_rows (node_db n))"

lemma ledgered_drop:
  assumes l: "ledgered A D applied R"
    and R': "R' = R(key := filter (\<lambda>r. \<not> coverage_predicate covered r) (R key))"
  shows "ledgered A (D @ [(key, covered)]) applied R'"
proof -
  have "(\<exists>win. r \<in> set (R' (ds, pid, win)))
      \<or> (\<exists>win c. ((ds, pid, win), c) \<in> set (D @ [(key, covered)]) \<and> coverage_predicate c r)"
    if "(ds, pid, r) \<in> set A" for ds pid r
  proof -
    from l that consider win where "r \<in> set (R (ds, pid, win))"
      | "\<exists>win c. ((ds, pid, win), c) \<in> set D \<and> coverage_predicate c r"
      unfolding ledgered_def by fastforce
    then show ?thesis
    proof cases
      case 1
      then show ?thesis by (cases "(ds, pid, win) = key"; cases "coverage_predicate covered r") (auto simp: R')
    qed auto
  qed
  moreover have "set (R' k) \<subseteq> set (R k)" for k by (auto simp: R')
  ultimately show ?thesis using l unfolding ledgered_def by blast
qed

lemma ledgered_stage:
  assumes l: "ledgered A D applied R" and fits: "unat base + length ps < 2 ^ 64" and base: "base = applied pid origin"
    and R': "R' = R((ds, pid, win) := R (ds, pid, win) @ augment_batch ps origin (base + 1))"
    and applied': "applied' = (\<lambda>p o'. if p = pid \<and> o' = origin then base + of_nat (length ps) else applied p o')"
  shows "ledgered (A @ map (\<lambda>row. (ds, pid, row)) (augment_batch ps origin (base + 1))) D applied' R'"
proof -
  let ?new = "augment_batch ps origin (base + 1)"
  note new = augment_batch_row[OF fits, of _ origin]
  note parts = l[unfolded ledgered_def]
  have le: "applied p o' \<le> applied' p o'" for p o'
    using base unat_add_of_nat[OF fits] by (simp add: applied' word_le_nat_alt)
  have "distinct (map (\<lambda>(ds, pid, r). (pid, row_id r)) (map (\<lambda>row. (ds, pid, row)) ?new))"
    using augment_batch_distinct[OF fits, of origin] by (auto simp: distinct_map inj_on_def)
  moreover have "(\<lambda>(ds, pid, r). (pid, row_id r)) x \<noteq> (pid, row_id r)" if "x \<in> set A" "r \<in> set ?new" for x r
  proof -
    obtain d q s where x: "x = (d, q, s)" by (metis surj_pair)
    with parts that(1) have "row_seq s \<le> applied q (row_origin s)" by fastforce
    with new[OF that(2)] base show ?thesis by (auto simp: x)
  qed
  ultimately have dist: "distinct (map (\<lambda>(ds, pid, r). (pid, row_id r)) (A @ map (\<lambda>row. (ds, pid, row)) ?new))"
    using parts by auto
  have bound: "row_seq r \<le> applied' q (row_origin r)" if "(d, q, r) \<in> set A" for d q r
  proof -
    have "row_seq r \<le> applied q (row_origin r)" using parts that by fastforce
    then show ?thesis using le order_trans by blast
  qed
  have bound': "row_seq r \<le> applied' pid (row_origin r)" if "r \<in> set ?new" for r
    using new[OF that] by (simp add: applied')
  have sub: "set (R k) \<subseteq> set (R' k)" for k by (auto simp: R')
  have kept: "(\<exists>v. r \<in> set (R' (d, q, v))) \<or> (\<exists>v c. ((d, q, v), c) \<in> set D \<and> coverage_predicate c r)"
    if "(d, q, r) \<in> set A" for d q r
    using parts that sub by fastforce
  have kept': "\<exists>v. r \<in> set (R' (ds, pid, v))" if "r \<in> set ?new" for r
    using that by (intro exI[of _ win]) (simp add: R')
  have acked: "(d, q, r) \<in> set (A @ map (\<lambda>row. (ds, pid, row)) ?new)" if "r \<in> set (R' (d, q, v))" for d q v r
    using parts that by (auto simp: R' split: if_splits)
  show ?thesis
    unfolding ledgered_def
  proof (intro conjI ballI allI)
    fix x assume "x \<in> set (A @ map (\<lambda>row. (ds, pid, row)) ?new)"
    moreover obtain d q r where x: "x = (d, q, r)" by (metis surj_pair)
    ultimately consider "(d, q, r) \<in> set A" | "d = ds" "q = pid" "r \<in> set ?new" by auto
    then have both: "row_seq r \<le> applied' q (row_origin r)
        \<and> ((\<exists>v. r \<in> set (R' (d, q, v))) \<or> (\<exists>v c. ((d, q, v), c) \<in> set D \<and> coverage_predicate c r))"
    proof cases
      case 1 then show ?thesis using bound[OF 1] kept[OF 1] by (intro conjI)
    next
      case 2 then show ?thesis using bound'[OF 2(3)] kept'[OF 2(3)] by blast
    qed
    show "case x of (ds, pid, r) \<Rightarrow> row_seq r \<le> applied' pid (row_origin r)"
      unfolding x prod.case by (rule conjunct1[OF both])
    show "case x of (ds, pid, r) \<Rightarrow> (\<exists>win. r \<in> set (R' (ds, pid, win)))
          \<or> (\<exists>win covered. ((ds, pid, win), covered) \<in> set D \<and> coverage_predicate covered r)"
      unfolding x prod.case by (rule conjunct2[OF both])
  qed (use dist acked in blast)+
qed

lemma ledgered_frame: "ledgered A D applied R \<Longrightarrow> ledgered A (D @ E) applied R"
  unfolding ledgered_def by fastforce

section \<open>The invariant\<close>

lemma db_empty_ok: "windows_ok db_empty" "rows_ok (applied_of db_empty) (win_rows db_empty)"
  by (simp_all add: windows_ok_def rows_ok_def db_empty_def bt_empty_def win_rows_def)

lemma same_tables_views:
  assumes "same_tables db db'"
  shows "applied_of db' = applied_of db" and "win_rows db' = win_rows db" and "windows_ok db' = windows_ok db"
  using assms by (auto simp: same_tables_iff applied_of_def win_rows_def windows_ok_def fun_eq_iff)

lemma same_store_db: "same_store w w' \<Longrightarrow> cn_db (w_conn w') = cn_db (w_conn w)"
  by (simp add: same_store_iff)

lemma stage_step:
  assumes ok: "stager_ok s" and l: "ledgered A D (applied_of (hot s)) (win_rows (hot s))"
    and st: "stage_blocking E cfg tick now batch s = (r, s')"
  shows "stager_ok s' \<and> ledgered (A @ acked_rows E batch r) D (applied_of (hot s')) (win_rows (hot s'))"
  using ok st
proof (cases rule: stage_blocking_cases)
  case (fail e)
  with ok l show ?thesis using store_ok_same by (auto simp: acked_rows_def dest: same_store_db)
next
  case vacuous
  with ok l show ?thesis by (auto simp: acked_rows_def split: sum.splits)
next
  case (dup cov row)
  with l show ?thesis by (simp add: acked_rows_def)
next
  case (fresh window bs)
  let ?ps = "concat (map rb_rows bs)" and ?pid = "batch_partition batch"
  have A: "acked_rows E batch r = map (\<lambda>row. (dcb_dataset batch, ?pid, row)) (augment_batch ?ps (es_origin s) (batch_base batch s + 1))"
    using fresh(1,3) by (simp add: acked_rows_def batch_coverage_def)
  note sg = fresh(4)[unfolded staged_def]
  show ?thesis
    unfolding A using ledgered_stage[OF l, of _ ?ps ?pid "es_origin s"] sg by blast
qed

text \<open>A seal only reads: whatever it answers, the store is the one it found.\<close>

definition reads :: "'p seal_surface \<Rightarrow> 'p seal_surface \<Rightarrow> bool" where
  "reads f f' \<longleftrightarrow> cn_txn (w_conn (ss_engine f)) = None \<and> same_store (ss_engine f) (ss_engine f')"

lemma reads_and_then:
  assumes "reads f (snd x)" and "\<And>u f1. reads f f1 \<Longrightarrow> reads f (snd (g u f1))"
  shows "reads f (snd (and_then x g))"
  using assms by (cases x; cases "fst x") auto

lemma reads_query: "reads f f1 \<Longrightarrow> reads f (snd (seal_query F Q table cols f1))"
  and reads_reader: "reads f f1 \<Longrightarrow> reads f (snd (seal_reader F Q f1))"
proof -
  assume r: "reads f f1"
  then have closed: "cn_txn (w_conn (ss_engine f1)) = None" by (simp add: reads_def same_store_iff)
  have step: "reads f f2" if "same_surface f1 f2" for f2
    using r that same_store_trans by (auto simp: reads_def same_surface_def)
  show "reads f (snd (seal_query F Q table cols f1))"
  proof -
    obtain q f2 where q: "seal_query F Q table cols f1 = (q, f2)" by (cases "seal_query F Q table cols f1")
    then have "same_surface f1 f2" using closed by (cases rule: seal_query_cases) auto
    with q step show ?thesis by simp
  qed
  show "reads f (snd (seal_reader F Q f1))"
    using seal_reader_same[OF _ closed] by (cases "seal_reader F Q f1") (auto intro: step)
qed

lemma reads_scratch: "reads f f1 \<Longrightarrow> reads f (f1\<lparr>ss_scratch := x\<rparr>)"
  by (simp add: reads_def)

lemma seal_blocking_same:
  assumes "store_ok origin (ss_engine f)" and "seal_blocking F Q req f = (r, f')"
  shows "same_store (ss_engine f) (ss_engine f')"
proof -
  have "reads f f" using store_okD(1)[OF assms(1)] by (simp add: reads_def)
  then have "reads f (snd (seal_blocking F Q req f))"
    unfolding seal_blocking_def
    by (auto intro!: reads_and_then reads_query reads_reader reads_scratch simp: Let_def split: option.splits prod.splits)
  with assms(2) show ?thesis by (simp add: reads_def)
qed

lemma drop_step:
  assumes ok: "store_ok origin (ss_engine f)" and l: "ledgered A D (applied_of (sdb f)) (win_rows (sdb f))"
    and d: "drop_blocking F Q ds pid win covered f = (r, f')"
  shows "store_ok origin (ss_engine f')
    \<and> ledgered A (D @ [((ds, pid, win), covered)]) (applied_of (sdb f')) (win_rows (sdb f'))"
  using ok d
proof (cases rule: drop_blocking_cases)
  case (fail e)
  with same_surface_ok[OF fail(2) ok] same_surface_db[OF fail(2)] ledgered_frame[OF l] show ?thesis by simp
next
  case gone
  with ok l ledgered_frame show ?thesis by blast
next
  case (dropped rest)
  then show ?thesis using ledgered_drop[OF l dropped(4)[unfolded dropped(1)]] by simp
qed

lemma hot_run_inv:
  "hot_run A D n \<Longrightarrow> node_ok n \<and> node_ledgered A D n"
proof (induction rule: hot_run.induct)
  case init
  show ?case using db_empty_ok by (simp add: node_ledgered_def ledgered_def win_rows_def db_empty_def bt_empty_def)
next
  case (boot A D db F io fsync origin w db')
  then have "same_tables db (cn_db (w_conn w))" and "store_ok origin w"
    using staging_open_ok[OF _ _ boot.hyps(2)] by auto
  with boot.IH same_tables_views[OF this(1)] show ?case
    by (simp add: stager_new_def seal_new_def node_ledgered_def)
next
  case (boot_fails A D db F io fsync origin e db')
  then have "same_tables db db'" using staging_open_ok[OF _ _ boot_fails.hyps(2)] by auto
  from boot_fails.IH same_tables_views[OF this] show ?case by (simp add: node_ledgered_def)
next
  case (crash A D s f)
  then show ?case using store_okD[of "es_origin s" "es_writer s"] by (simp add: node_ledgered_def)
next
  case (stage A D s f E cfg tick now batch r s')
  then show ?case using stage_step[of s A D, OF _ _ stage.hyps(2)] by (simp add: node_ledgered_def)
next
  case (close A D s f ds pid win at)
  then show ?case by (simp add: node_ledgered_def note_closed_def split: option.splits)
next
  case (seal A D s f F Q req r f')
  then have ok: "store_ok (es_origin s) (ss_engine f)" by simp
  note same = seal_blocking_same[OF ok seal.hyps(2)]
  from store_ok_same[OF same ok] same_store_db[OF same] seal.IH show ?case by (simp add: node_ledgered_def)
next
  case (drop A D s f F Q ds pid win covered r f')
  then show ?case using drop_step[OF _ _ drop.hyps(2), of "es_origin s" A D] by (simp add: node_ledgered_def)
next
  case (checkpoint A D s f F fsync r w)
  then have "store_ok (es_origin s) w" and "same_tables (hot s) (cn_db (w_conn w))"
    using checkpoint_ok[OF _ checkpoint.hyps(2), of "es_origin s"] by auto
  with checkpoint.IH same_tables_views[OF this(2)] show ?case by (simp add: node_ledgered_def)
qed

section \<open>A concrete run\<close>

text \<open>A node that boots on empty tables and stages one batch of two rows; the claims below are applied to it.\<close>

abbreviation no_faults :: faults where
  "no_faults \<equiv> (\<lambda>_. None)"

definition demo_cov :: "staged_coverage list" where
  "demo_cov = [\<lparr>sc_partition = from_tenant_shard (TenantId ''t'') 0,
     sc_range = \<lparr>osr_origin = NodeId ''n1'', osr_first_seq = 1, osr_last_seq = 2\<rparr>\<rparr>]"

definition demo_env :: "string stage_env" where
  "demo_env = \<lparr>env_faults = no_faults,
     env_ipc = (\<lambda>_. Inr [Inr \<lparr>rb_fields = [\<lparr>af_name = ''k'', af_type = AUtf8, af_nullable = False\<rparr>],
                             rb_rows = [''a'', ''b''], rb_column_sizes = [Inr 2]\<rparr>]),
     env_sha256 = id,
     env_to_json = (\<lambda>c. if c = demo_cov then Inr ''J'' else Inl ''unsupported''),
     env_of_json = (\<lambda>j. if j = ''J'' then Inr demo_cov else Inl ''unsupported'')\<rparr>"

definition demo_cfg :: stager_config where
  "demo_cfg = \<lparr>cfg_window_nanos = 1000, cfg_dedup_ttl_ms = 60000, cfg_dedup_max_entries = 100, cfg_hot_max_bytes = 100000\<rparr>"

definition demo_batch :: decoded_batch where
  "demo_batch = \<lparr>dcb_dataset = DatasetId ''d'', dcb_kind = Event, dcb_tenant = TenantId ''t'',
     dcb_idempotency_key = Some ''k'', dcb_records = ''r''\<rparr>"

definition demo_w0 :: "string writer_inner" where
  "demo_w0 = projr (fst (staging_open no_faults None None (NodeId ''n1'') db_empty))"

definition demo_s0 :: "string engine_stager" where
  "demo_s0 = stager_new demo_w0 (NodeId ''n1'')"

definition demo_s1 :: "string engine_stager" where
  "demo_s1 = snd (stage_blocking demo_env demo_cfg 0 1000000 demo_batch demo_s0)"

definition demo_f1 :: "string seal_surface" where
  "demo_f1 = (seal_new demo_w0)\<lparr>ss_engine := es_writer demo_s1\<rparr>"

definition demo_key :: window_key where
  "demo_key = (DatasetId ''d'', from_tenant_shard (TenantId ''t'') 0, 0)"

lemmas call_defs = db_execute_def conn_call_def conn_view_def on_conn_def Let_def

lemmas open_defs = staging_open_def sql_bump_epoch_def db_empty_def bt_empty_def load_applied_def load_windows_def
  load_window_hw_def total_bytes_def

lemmas stage_defs = stager_new_def stage_blocking_def stager_admit_def read_batches_def current_window_def begin_txn_def
  db_begin_def stager_journal_def stage_transaction_def dedup_lookup_def tx_execute_def stage_fresh_def append_batch_def
  ensure_window_def sql_create_table_def sql_register_window_def sql_raise_hw_def sql_update_table_def sql_add_bytes_def
  bt_upsert_def append_base_def u64_checked_add_def highest_window_id_def dedup_insert_def sql_put_dedup_def dedup_evict_def
  sql_expire_dedup_def commit_txn_def db_commit_def sql_set_applied_def pending_coverage_def merge_window_def merge_bytes_def
  merge_applied_def i64_saturating_sub_def i64_min_def i64_max_def dedup_key_of_def at_rf_v01_def
  eq_ignore_ascii_case_def

lemmas demo_defs = demo_env_def demo_cfg_def demo_batch_def demo_cov_def

lemma open_succeeds: "staging_open no_faults None None origin db
    = (Inr (projr (fst (staging_open no_faults None None origin db))), db\<lparr>db_wal_epoch := db_wal_epoch db + 1\<rparr>)"
  by (simp add: open_defs call_defs)

lemma demo_w0_eq: "demo_w0 = \<lparr>w_conn = \<lparr>cn_db = db_empty\<lparr>db_wal_epoch := 1\<rparr>, cn_txn = None, cn_calls = 6\<rparr>,
    w_applied = [], w_windows = [], w_window_hw = [], w_staged_bytes = 0\<rparr>"
  unfolding demo_w0_def by (simp add: open_defs call_defs)

lemma demo_columns: "column_defs [\<lparr>af_name = ''k'', af_type = AUtf8, af_nullable = False\<rparr>]
    = Inr (CHR 0x22 # ''k'' @ [CHR 0x22] @ '' VARCHAR NOT NULL, '')"
  by code_simp

lemma demo_admits: "from_measure 0 100000 False = Normal" "from_measure 2 100000 False = Normal"
  by (simp_all add: from_measure_def at_percent_def ladder_consts)

lemma demo_stage: "stage_blocking demo_env demo_cfg 0 1000000 demo_batch demo_s0 = (Inr (StageCommitted demo_cov), demo_s1)"
proof -
  have "fst (stage_blocking demo_env demo_cfg 0 1000000 demo_batch demo_s0) = Inr (StageCommitted demo_cov)"
    unfolding demo_s0_def demo_w0_eq
    by (simp add: open_defs call_defs stage_defs demo_admits demo_columns demo_defs)
  then show ?thesis unfolding demo_s1_def by (metis prod.collapse)
qed

lemma demo_s1_hot: "win_rows (hot demo_s1) demo_key = augment_batch [''a'', ''b''] (NodeId ''n1'') 1"
    "w_staged_bytes (es_writer demo_s1) = 2" "es_origin demo_s1 = NodeId ''n1''"
    "bt_get (db_windows (hot demo_s1)) demo_key \<noteq> None"
  unfolding demo_s1_def demo_s0_def demo_w0_eq demo_key_def
  by (simp_all add: open_defs call_defs stage_defs demo_admits demo_columns demo_defs win_rows_def)

lemma demo_run0: "hot_run [] [] (Up demo_s0 (seal_new demo_w0))"
  unfolding demo_s0_def demo_w0_def
  by (rule hot_run.boot[OF hot_run.init open_succeeds])

definition demo_acked :: "(dataset_id \<times> partition_id \<times> string staged_row) list" where
  "demo_acked = acked_rows demo_env demo_batch (Inr (StageCommitted demo_cov))"

lemma demo_run1: "hot_run demo_acked [] (Up demo_s1 demo_f1)"
  using hot_run.stage[OF demo_run0 demo_stage] by (simp add: demo_acked_def demo_f1_def)

lemma demo_acked_eq: "demo_acked = map (\<lambda>row. (DatasetId ''d'', from_tenant_shard (TenantId ''t'') 0, row))
    (augment_batch [''a'', ''b''] (NodeId ''n1'') 1)"
  by (simp add: demo_acked_def acked_rows_def demo_defs read_batches_def)

text \<open>
  C18 (Hot store invariant). Whatever a node stages, seals, drops and checkpoints, with any call failing,
  and however often it crashes and reboots under whatever origin: in a running node the in-memory
  registries equal the committed tables (applied numbers of the node's origin, windows, high-water
  marks, staged bytes), every registered window has its table under its own name and none is above its
  high-water mark, and per partition the staged rows carry distinct pairs of origin and sequence
  number, numbered from 1 up to the applied number of their origin.
\<close>
theorem hot_store_invariant:
  assumes "hot_run acked drops (Up s f)"
  shows "store_ok (es_origin s) (es_writer s)"
  using hot_run_inv[OF assms] by simp

theorem hot_store_invariant_witness:
  "hot_run demo_acked [] (Up demo_s1 demo_f1) \<and> store_ok (es_origin demo_s1) (es_writer demo_s1)
   \<and> win_rows (hot demo_s1) demo_key \<noteq> []"
  using hot_store_invariant[OF demo_run1] demo_run1 demo_s1_hot(1) by (simp add: augment_batch_def)

text \<open>
  C17 (Acknowledged rows are kept). Every row a stage answer acknowledged is, after any further history
  of the node, still in a window of its dataset and partition, unless its origin and sequence number
  were in a coverage passed to a drop of such a window.
\<close>
theorem acked_rows_survive:
  assumes "hot_run acked drops n" and "(ds, pid, r) \<in> set acked"
  shows "(\<exists>win. r \<in> set (win_rows (node_db n) (ds, pid, win)))
    \<or> (\<exists>win covered. ((ds, pid, win), covered) \<in> set drops \<and> coverage_predicate covered r)"
  using hot_run_inv[OF assms(1)] assms(2) unfolding node_ledgered_def ledgered_def by fastforce

theorem acked_rows_survive_witness:
  "\<exists>ds pid r. (ds, pid, r) \<in> set demo_acked \<and> (\<exists>win. r \<in> set (win_rows (node_db (Up demo_s1 demo_f1)) (ds, pid, win)))"
proof -
  have "demo_acked \<noteq> []" by (simp add: demo_acked_eq augment_batch_def)
  then obtain ds pid r where mem: "(ds, pid, r) \<in> set demo_acked" by (metis list.set_intros(1) neq_Nil_conv surj_pair)
  with acked_rows_survive[OF demo_run1 mem] show ?thesis by auto
qed



end
