(* ===== verification/Stage_Claims.thy ===== *)
theory Stage_Claims
  imports Hot_Life
begin

text \<open>
  What clients and the drain can rely on, at every state a node can reach: a stage call is atomic, a
  retried batch is answered from the dedup window, a restart rebuilds the registries, and a drop
  removes exactly the covered rows.
\<close>

section \<open>Atomicity\<close>



section \<open>Retries\<close>

lemma execute_no_faults:
  "open_on w t \<Longrightarrow> stmt (tx_view t) = Inr db \<Longrightarrow>
     \<exists>t'. tx_execute no_faults stmt t = (Inr (), t') \<and> open_on w t' \<and> t'\<lparr>tx_writer := tx_writer t\<rparr> = t \<and> tx_view t' = db"
proof -
  assume o: "open_on w t" and db: "stmt (tx_view t) = Inr db"
  obtain r t' where x: "tx_execute no_faults stmt t = (r, t')" by (cases "tx_execute no_faults stmt t")
  from x o show ?thesis
  proof (cases rule: tx_execute_cases)
    case (fail e)
    with x db show ?thesis
      by (auto simp: tx_execute_def on_conn_def db_execute_def conn_call_def Let_def conn_view_def split: if_splits)
  next
    case (ok db')
    with x db show ?thesis by auto
  qed
qed

lemma begin_no_faults:
  assumes "stager_ok s"
  obtains t w where "begin_txn no_faults (es_origin s) (es_writer s) = (Inr t, w)" and "begun s t"
proof -
  have closed: "cn_txn (w_conn (es_writer s)) = None" by (rule store_okD(1)[OF assms])
  let ?b = "begin_txn no_faults (es_origin s) (es_writer s)"
  obtain r w where b: "?b = (r, w)" by (cases ?b)
  from b closed show thesis
  proof (cases rule: begin_txn_cases)
    case (fail e)
    with b show thesis by (auto simp: begin_txn_def on_conn_def db_begin_def conn_call_def Let_def)
  next
    case (ok t)
    with b assms show thesis by (intro that) (auto simp: begun_def)
  qed
qed

lemma commit_no_faults:
  assumes "open_on w t" and "tx_pending_applied t = []"
  obtains w' where "commit_txn no_faults t = (Inr (pending_coverage t), w')"
  using assms that
  by (auto simp: commit_txn_def on_conn_def db_commit_def conn_call_def Let_def pending_coverage_def)

text \<open>A batch whose key has a live, acknowledged entry is answered with the stored outcome.\<close>

lemma duplicate_answered:
  assumes ok: "stager_ok s" and admit: "stager_admit cfg s = Inr ()" and faults: "env_faults E = no_faults"
    and bs: "read_batches E (dcb_records batch) = Inr bs" "concat (map rb_rows bs) \<noteq> []"
    and row: "live_entry E cfg now batch s = Some row" "dd_acked row" "env_of_json E (dd_outcome row) = Inr cov"
  shows "fst (stage_blocking E cfg tick now batch s) = Inr (DuplicateAcked cov)"
proof -
  let ?pid = "batch_partition batch" and ?tn = "dcb_tenant batch" and ?key = "dedup_key_of E batch"
  let ?cut = "i64_saturating_sub now (cfg_dedup_ttl_ms cfg)"
  let ?cw = "current_window cfg tick (dcb_dataset batch) ?pid (stager_journal TeAccept s)"
  obtain window s1 where cw: "?cw = (window, s1)" by (cases ?cw)
  have s1: "es_writer s1 = es_writer s" "es_origin s1 = es_origin s"
    using current_window_frame[of cfg tick "dcb_dataset batch" ?pid "stager_journal TeAccept s"] cw
    by (auto simp: stager_journal_def)
  obtain t w where b: "begin_txn no_faults (es_origin s) (es_writer s) = (Inr t, w)" and bg: "begun s t"
    by (rule begin_no_faults[OF ok])
  have o: "open_on (es_writer s) t" and pa: "tx_pending_applied t = []" and v: "tx_view t = hot s"
    using bg by (auto simp: begun_def)
  obtain t1 where x: "tx_execute no_faults Inr t = (Inr (), t1)" and o1: "open_on (es_writer s) t1"
    and fr: "t1\<lparr>tx_writer := tx_writer t\<rparr> = t" and v1: "tx_view t1 = tx_view t"
    using execute_no_faults[OF o, of Inr] by blast
  have "tx_pending_applied t1 = []" using pa fr by (metis stage_txn.select_convs(3) stage_txn.surjective stage_txn.update_convs(1))
  then obtain w' where c: "commit_txn no_faults t1 = (Inr (pending_coverage t1), w')"
    using commit_no_faults[OF o1] by blast
  have lk: "dedup_lookup no_faults ?tn ?key ?cut t = (Inr (Some \<lparr>de_acked = dd_acked row, de_outcome_json = dd_outcome row\<rparr>), t1)"
    using row(1) v v1 x by (auto simp: dedup_lookup_def live_entry_def split: option.splits if_splits)
  have "resolve_duplicate E ?tn ?key \<lparr>de_acked = dd_acked row, de_outcome_json = dd_outcome row\<rparr> at_rf_v01 t1
      = (Inr (DuplicateAcked cov), t1)"
    using row by (simp add: resolve_duplicate_def Let_def parse_outcome_def)
  then have "fst (stage_transaction E cfg now batch ?pid window bs t s1) = Inr (DuplicateAcked cov)"
    using lk c faults by (simp add: stage_transaction_def Let_def)
  moreover have "sum_list (map (\<lambda>b. length (rb_rows b)) bs) \<noteq> 0"
    using bs(2) by (simp add: length_concat[symmetric] comp_def)
  ultimately show ?thesis
    using admit bs cw s1 b faults by (simp add: stage_blocking_def Let_def del: sum_list_eq_0_iff)
qed

text \<open>
  C21 (A retry is answered, not staged again). A batch was committed with a coverage at a reachable state
  while the dedup window had room. At any later reachable state, a reboot in between or not, that still
  holds the batch's entry within its time to live, the same batch presented again is answered as a
  duplicate with the very coverage of the first answer, and no row and no applied number changes. The
  JSON codec of the stored outcome reads back what it wrote; the retry is admitted and its database
  calls succeed.
\<close>
theorem retry_answered_with_first_coverage:
  assumes "hot_run acked drops (Up s f)"
    and "stage_blocking E cfg tick now batch s = (Inr (StageCommitted cov), s')" and "cov \<noteq> []"
    and "length (db_dedup (hot s)) < unat (cfg_dedup_max_entries cfg)"
    and "0 \<le> cfg_dedup_ttl_ms cfg" and "i64_min \<le> now"
    and "\<And>c json. env_to_json E c = Inr json \<Longrightarrow> env_of_json E json = Inr c"
    and "hot_run acked' drops' (Up s2 f2)"
    and "bt_get (db_dedup (hot s2)) (dcb_tenant batch, dedup_key_of E batch)
       = bt_get (db_dedup (hot s')) (dcb_tenant batch, dedup_key_of E batch)"
    and "i64_saturating_sub now' (cfg_dedup_ttl_ms cfg) \<le> now" and "stager_admit cfg s2 = Inr ()"
    and "stage_blocking (E\<lparr>env_faults := no_faults\<rparr>) cfg tick' now' batch s2 = (r, s3)"
  shows "r = Inr (DuplicateAcked cov) \<and> win_rows (hot s3) = win_rows (hot s2) \<and> applied_of (hot s3) = applied_of (hot s2)"
proof -
  let ?E = "E\<lparr>env_faults := no_faults\<rparr>"
  have ok: "stager_ok s" and ok2: "stager_ok s2" using hot_run_inv[OF assms(1)] hot_run_inv[OF assms(8)] by auto
  have cut: "i64_saturating_sub now (cfg_dedup_ttl_ms cfg) \<le> now" using assms(5,6) by (simp add: i64_saturating_sub_def)
  obtain bs json where bs: "read_batches E (dcb_records batch) = Inr bs" "concat (map rb_rows bs) \<noteq> []"
    and json: "env_to_json E cov = Inr json"
    and entry: "bt_get (db_dedup (hot s')) (dcb_tenant batch, dedup_key_of E batch)
      = Some \<lparr>dd_acked = at_rf_v01, dd_outcome = json, dd_created_wall_ms = now\<rparr>"
    using ok assms(2)
  proof (cases rule: stage_blocking_cases)
    case (fresh window bs)
    then obtain json where "env_to_json E cov = Inr json"
      "bt_get (db_dedup (hot s')) (dcb_tenant batch, dedup_key_of E batch)
        = Some \<lparr>dd_acked = at_rf_v01, dd_outcome = json, dd_created_wall_ms = now\<rparr>"
      using assms(4) cut by (auto simp: remembered_def)
    with fresh(1,2) that show thesis by blast
  qed (use assms(3) in auto)
  have key: "dedup_key_of ?E batch = dedup_key_of E batch" by (cases "dcb_idempotency_key batch") (simp_all add: dedup_key_of_def)
  have live: "live_entry ?E cfg now' batch s2 = Some \<lparr>dd_acked = at_rf_v01, dd_outcome = json, dd_created_wall_ms = now\<rparr>"
    using assms(9,10) entry key by (simp add: live_entry_def)
  have "fst (stage_blocking ?E cfg tick' now' batch s2) = Inr (DuplicateAcked cov)"
    by (rule duplicate_answered[OF ok2 assms(11) _ _ bs(2) live])
      (use bs(1) assms(7)[OF json] in \<open>simp_all add: read_batches_def at_rf_v01_def\<close>)
  then have r: "r = Inr (DuplicateAcked cov)" using assms(12) by simp
  from ok2 assms(12) show ?thesis by (cases rule: stage_blocking_cases) (auto simp: r)
qed

theorem retry_answered_with_first_coverage_witness:
  "fst (stage_blocking demo_env demo_cfg 500 1000500 demo_batch demo_s1) = Inr (DuplicateAcked demo_cov)
   \<and> win_rows (hot (snd (stage_blocking demo_env demo_cfg 500 1000500 demo_batch demo_s1))) = win_rows (hot demo_s1)"
proof -
  let ?again = "stage_blocking demo_env demo_cfg 500 1000500 demo_batch demo_s1"
  have env: "demo_env\<lparr>env_faults := no_faults\<rparr> = demo_env" by (simp add: demo_env_def)
  have "length (db_dedup (hot demo_s0)) < unat (cfg_dedup_max_entries demo_cfg)"
    by (simp add: demo_s0_def demo_w0_eq stager_new_def db_empty_def bt_empty_def demo_cfg_def)
  moreover have "0 \<le> cfg_dedup_ttl_ms demo_cfg" "i64_min \<le> 1000000"
    "i64_saturating_sub 1000500 (cfg_dedup_ttl_ms demo_cfg) \<le> 1000000"
    by (simp_all add: demo_cfg_def i64_min_def i64_saturating_sub_def i64_max_def)
  moreover have "env_of_json demo_env json = Inr c" if "env_to_json demo_env c = Inr json" for c json
    using that by (auto simp: demo_env_def split: if_splits)
  moreover have "stager_admit demo_cfg demo_s1 = Inr ()"
    by (simp add: stager_admit_def demo_s1_hot demo_cfg_def demo_admits)
  moreover have "demo_cov \<noteq> []" by (simp add: demo_cov_def)
  ultimately show ?thesis
    using retry_answered_with_first_coverage[OF demo_run0 demo_stage _ _ _ _ _ demo_run1 refl _ _ ,
        of 1000500 500 "fst ?again" "snd ?again"] by (simp add: env)
qed

section \<open>Restarts\<close>

lemma mirrorsD:
  assumes "mirrors origin w db"
  shows "bt_wf (w_applied w)" and "bt_get (w_applied w) pid = bt_get (db_applied db) (pid, origin)"
    and "w_windows w = db_windows db" and "w_window_hw w = db_window_hw db" and "w_staged_bytes w = total_bytes (db_windows db)"
  using assms by (simp_all add: mirrors_def)

text \<open>
  C22 (A restart rebuilds the registries). When a node stops at any reachable state and boots again under
  the same origin on the tables it left, with the calls of the boot succeeding, it holds exactly the
  applied numbers, windows, high-water marks and staged bytes it had, and the same rows.
\<close>
theorem restart_rebuilds_registries:
  assumes "hot_run acked drops (Up s f)" and "staging_open F io fsync (es_origin s) (hot s) = (Inr w, db)"
  shows "w_applied w = w_applied (es_writer s) \<and> w_windows w = w_windows (es_writer s)
    \<and> w_window_hw w = w_window_hw (es_writer s) \<and> w_staged_bytes w = w_staged_bytes (es_writer s)
    \<and> win_rows (cn_db (w_conn w)) = win_rows (hot s)"
proof -
  have ok: "stager_ok s" using hot_run_inv[OF assms(1)] by simp
  note s = store_okD[OF ok]
  have open': "store_ok (es_origin s) w" and same: "same_tables (hot s) (cn_db (w_conn w))"
    using staging_open_ok[OF s(2,3) assms(2)] by auto
  note m = mirrorsD[OF s(4)] and m' = mirrorsD[OF store_okD(4)[OF open']]
  have dbs: "db_applied (cn_db (w_conn w)) = db_applied (hot s)" using same by (simp add: same_tables_iff)
  have "w_applied w = w_applied (es_writer s)" by (rule bt_ext[OF m'(1) m(1)]) (simp only: m(2) m'(2) dbs)
  with m(3-5) m'(3-5) same same_tables_views(2)[OF same] show ?thesis by (simp add: same_tables_iff)
qed

theorem restart_rebuilds_registries_witness:
  "\<exists>w. fst (staging_open no_faults None None (es_origin demo_s1) (hot demo_s1)) = Inr w
     \<and> w_windows w = w_windows (es_writer demo_s1) \<and> win_rows (cn_db (w_conn w)) demo_key = win_rows (hot demo_s1) demo_key
     \<and> win_rows (hot demo_s1) demo_key \<noteq> []"
proof -
  let ?o = "staging_open no_faults None None (es_origin demo_s1) (hot demo_s1)"
  have o: "?o = (Inr (projr (fst ?o)), (hot demo_s1)\<lparr>db_wal_epoch := db_wal_epoch (hot demo_s1) + 1\<rparr>)" by (rule open_succeeds)
  have "win_rows (hot demo_s1) demo_key \<noteq> []" by (simp add: demo_s1_hot(1) augment_batch_def)
  moreover have "fst ?o = Inr (projr (fst ?o))" using o by (metis fst_conv)
  ultimately show ?thesis using restart_rebuilds_registries[OF demo_run1 o] by (intro exI[of _ "projr (fst ?o)"]) simp
qed

section \<open>Drops\<close>

text \<open>
  C23 (A drop removes exactly the covered rows). At every reachable state, a drop that fails or finds the
  window gone changes no row; a drop that succeeds removes from the window exactly the rows whose origin
  and sequence number the coverage contains, keeps the others in their order and every other window as
  it is, and answers \<open>Dropped\<close> just when nothing is left, the number of rows left otherwise.
\<close>
theorem drop_removes_exactly_covered:
  assumes "hot_run acked drops (Up s f)" and "drop_blocking F Q ds pid win covered f = (r, f')"
  shows "win_rows (sdb f') = (if r = Inr Dropped \<or> (\<exists>n. r = Inr (ResidueKept n))
        then (win_rows (sdb f))((ds, pid, win) := filter (\<lambda>x. \<not> coverage_predicate covered x) (win_rows (sdb f) (ds, pid, win)))
        else win_rows (sdb f))
    \<and> (r = Inr Dropped \<longrightarrow> win_rows (sdb f') (ds, pid, win) = [])
    \<and> (\<forall>n. r = Inr (ResidueKept n) \<longrightarrow> win_rows (sdb f') (ds, pid, win) \<noteq> []
          \<and> n = of_nat (length (win_rows (sdb f') (ds, pid, win))))"
proof -
  have "store_ok (es_origin s) (ss_engine f)" using hot_run_inv[OF assms(1)] by simp
  from this assms(2) show ?thesis
  proof (cases rule: drop_blocking_cases)
    case (fail e)
    then show ?thesis using same_surface_db[OF fail(2)] by simp
  next
    case (dropped rest)
    then show ?thesis by auto
  qed simp
qed

lemma demo_drop: "fst (drop_blocking no_faults demo_sql (fst demo_key) (fst (snd demo_key)) (snd (snd demo_key))
      [\<lparr>osr_origin = NodeId ''n1'', osr_first_seq = 1, osr_last_seq = 1\<rparr>] demo_f1) = Inr (ResidueKept 1)"
  unfolding demo_f1_def demo_s1_def demo_s0_def demo_w0_eq demo_key_def
  by (simp add: open_defs call_defs stage_defs demo_admits demo_columns demo_defs seal_new_def drop_blocking_def
      window_table_def seal_reader_def engine_call_def seal_query_def reader_query_def table_rows_def check_columns_def
      coverage_predicate_def augment_batch_def delete_covered_rows_def)

theorem drop_removes_exactly_covered_witness:
  "win_rows (sdb (snd (drop_blocking no_faults demo_sql (fst demo_key) (fst (snd demo_key)) (snd (snd demo_key))
      [\<lparr>osr_origin = NodeId ''n1'', osr_first_seq = 1, osr_last_seq = 1\<rparr>] demo_f1))) demo_key
   = [\<lparr>row_payload = ''b'', row_origin = NodeId ''n1'', row_seq = 2\<rparr>]"
proof -
  let ?d = "drop_blocking no_faults demo_sql (fst demo_key) (fst (snd demo_key)) (snd (snd demo_key))
      [\<lparr>osr_origin = NodeId ''n1'', osr_first_seq = 1, osr_last_seq = 1\<rparr>] demo_f1"
  have "?d = (Inr (ResidueKept 1), snd ?d)" using demo_drop by (metis prod.collapse)
  from drop_removes_exactly_covered[OF demo_run1 this] show ?thesis
    by (simp add: demo_f1_def demo_s1_hot(1) augment_batch_def coverage_predicate_def)
qed

text \<open>
  A sealed window is dropped whole. At every reachable state, when a window was sealed and the
  coverage of its part is passed to the drop of the same window with no row staged in between, a drop
  that does not fail answers \<open>Dropped\<close>, leaves no row of the window and every other window as it was;
  and the part accounts for every row of the window: the file has one row per kept row, and kept and
  removed rows add up.
\<close>
theorem sealed_window_drops_whole:
  assumes "hot_run acked drops (Up s f)" and "seal_blocking F Q req f = (Inr part, f1)"
    and "drop_blocking F' Q' (sr_dataset req) (sr_partition req) (sr_window req) (sp_origin_coverage part) f1 = (Inr outcome, f2)"
  shows "outcome = Dropped
    \<and> win_rows (sdb f2) = (win_rows (sdb f))((sr_dataset req, sr_partition req, sr_window req) := [])
    \<and> ss_scratch f2 (sp_path part) = Some (sq_order Q (sr_order_by req)
         (sealed_rows Q (sr_dedup_key req) (win_rows (sdb f) (sr_dataset req, sr_partition req, sr_window req))))
    \<and> sp_rows part + sp_dedup_removed part
       = of_nat (length (win_rows (sdb f) (sr_dataset req, sr_partition req, sr_window req)))"
proof -
  let ?key = "(sr_dataset req, sr_partition req, sr_window req)"
  let ?rows = "win_rows (sdb f) ?key"
  have ok: "store_ok (es_origin s) (ss_engine f)" using hot_run_inv[OF assms(1)] by simp
  note sealed = seal_blocking_ok[OF ok assms(2)]
  then have same: "same_store (ss_engine f) (ss_engine f1)" by blast
  note ok1 = store_ok_same[OF same ok] and db1 = same_store_db[OF same]
  have d: "distinct (map row_id ?rows)" by (rule rows_ok_distinct[OF store_okD(3)[OF ok]])
  have cov: "coverage_predicate (sp_origin_coverage part) r" if "r \<in> set ?rows" for r
  proof -
    have "\<exists>c\<in>set (coverage_runs ?rows). in_range c (row_id r)"
      unfolding coverage_runs_mem[OF d] using that by (rule imageI)
    then show ?thesis using sealed by (auto simp: coverage_predicate_def in_range_def)
  qed
  have reg: "bt_get (db_windows (sdb f)) ?key \<noteq> None"
    using assms(2) window_table_key(2)[OF ok]
    by (cases "window_table (ss_engine f) (sr_dataset req) (sr_partition req) (sr_window req)") (auto simp: seal_blocking_def)
  from ok1 assms(3) show ?thesis
  proof (cases rule: drop_blocking_cases)
    case (dropped rest)
    then have "rest = []" using cov db1 by (simp add: filter_empty_conv)
    with dropped sealed db1 show ?thesis by simp
  qed (use reg db1 in simp_all)
qed

definition demo_request :: seal_request where
  "demo_request = \<lparr>sr_dataset = fst demo_key, sr_partition = fst (snd demo_key), sr_window = snd (snd demo_key),
     sr_order_by = [''k''], sr_event_time_column = ''k'', sr_dedup_key = None\<rparr>"

lemma demo_seal: "\<not> isl (fst (seal_blocking no_faults demo_sql demo_request demo_f1))"
  unfolding demo_f1_def demo_s1_def demo_s0_def demo_w0_eq demo_key_def demo_request_def demo_sql_def
  by (simp add: open_defs call_defs stage_defs demo_admits demo_columns demo_defs seal_new_def seal_blocking_def
      window_table_def seal_reader_def engine_call_def seal_query_def reader_query_def table_rows_def check_columns_def
      bind_columns_def split: prod.splits)

lemma demo_seal_drop: "\<not> isl (fst (drop_blocking no_faults demo_sql (sr_dataset demo_request) (sr_partition demo_request)
    (sr_window demo_request) covered (snd (seal_blocking no_faults demo_sql demo_request demo_f1))))"
  unfolding demo_f1_def demo_s1_def demo_s0_def demo_w0_eq demo_key_def demo_request_def demo_sql_def
  by (simp add: open_defs call_defs stage_defs demo_admits demo_columns demo_defs seal_new_def seal_blocking_def
      window_table_def seal_reader_def engine_call_def seal_query_def reader_query_def table_rows_def check_columns_def
      bind_columns_def drop_blocking_def delete_covered_rows_def engine_drop_window_def drop_window_txn_def
      sql_drop_table_def sql_unregister_window_def forget_close_def split: prod.splits)

theorem sealed_window_drops_whole_witness:
  "\<exists>part f1 f2. seal_blocking no_faults demo_sql demo_request demo_f1 = (Inr part, f1)
     \<and> drop_blocking no_faults demo_sql (sr_dataset demo_request) (sr_partition demo_request) (sr_window demo_request)
         (sp_origin_coverage part) f1 = (Inr Dropped, f2)
     \<and> win_rows (sdb f2) demo_key = [] \<and> win_rows (sdb demo_f1) demo_key \<noteq> []"
proof -
  let ?s = "seal_blocking no_faults demo_sql demo_request demo_f1"
  obtain part where s: "?s = (Inr part, snd ?s)" using demo_seal by (metis prod.collapse sum.collapse(2))
  let ?d = "drop_blocking no_faults demo_sql (sr_dataset demo_request) (sr_partition demo_request)
      (sr_window demo_request) (sp_origin_coverage part) (snd ?s)"
  obtain outcome where d: "?d = (Inr outcome, snd ?d)" using demo_seal_drop by (metis prod.collapse sum.collapse(2))
  have "win_rows (sdb demo_f1) demo_key \<noteq> []" by (simp add: demo_f1_def demo_s1_hot(1) augment_batch_def)
  moreover have "(sr_dataset demo_request, sr_partition demo_request, sr_window demo_request) = demo_key"
    by (simp add: demo_request_def)
  ultimately show ?thesis using sealed_window_drops_whole[OF demo_run1 s d] s d by (metis fun_upd_same)
qed

section \<open>Guarded scans\<close>

lemma scan_loop_all:
  assumes "scan_loop g started scanned items = Inr batches" and "scanned \<le> sg_max_bytes g"
  shows "batches = map fst items \<and> (\<exists>ns. map (\<lambda>(_, sizes, _). record_batch_content_bytes sizes) items = map Inr ns
    \<and> min (2 ^ 64 - 1) (unat scanned + sum_list (map unat ns)) \<le> unat (sg_max_bytes g))"
  using assms
proof (induction items arbitrary: scanned batches)
  case Nil
  then show ?case by (auto simp: word_le_nat_alt intro!: exI[of _ "[]"])
next
  case (Cons item items)
  obtain b sizes now where item: "item = (b, sizes, now)" by (metis surj_pair)
  from Cons.prems(1) item obtain n bs where n: "record_batch_content_bytes sizes = Inr n"
    and le: "u64_saturating_add scanned n \<le> sg_max_bytes g"
    and rec: "scan_loop g started (u64_saturating_add scanned n) items = Inr bs" and batches: "batches = b # bs"
    by (auto simp: Let_def split: sum.splits if_splits)
  from Cons.IH[OF rec le] obtain ns where ns: "bs = map fst items"
    "map (\<lambda>(_, sizes, _). record_batch_content_bytes sizes) items = map Inr ns"
    "min (2 ^ 64 - 1) (unat (u64_saturating_add scanned n) + sum_list (map unat ns)) \<le> unat (sg_max_bytes g)" by blast
  from ns(3) have "min (2 ^ 64 - 1) (unat scanned + sum_list (map unat (n # ns))) \<le> unat (sg_max_bytes g)"
    unfolding unat_saturating_add by (auto simp: min_def split: if_splits)
  with ns batches item n show ?case by (auto intro!: exI[of _ "n # ns"])
qed

text \<open>
  A guarded scan never truncates. A scan that answers returns every batch that arrived, in order, and
  the sizes it measured add up to at most the byte budget (as far as 64 bits count them); a scan that
  would exceed the budget or the deadline is an error, never a shorter answer.
\<close>
theorem scan_returns_all_within_budget:
  assumes "scan_loop g started 0 items = Inr batches"
  shows "batches = map fst items \<and> (\<exists>ns. map (\<lambda>(_, sizes, _). record_batch_content_bytes sizes) items = map Inr ns
    \<and> min (2 ^ 64 - 1) (sum_list (map unat ns)) \<le> unat (sg_max_bytes g))"
  using scan_loop_all[OF assms] by simp

theorem scan_returns_all_within_budget_witness:
  "scan_loop \<lparr>sg_max_bytes = 10, sg_deadline_nanos = 5\<rparr> 100 0 [(''x'', [Inr 4], 101), (''y'', [Inr 6], 105)] = Inr [''x'', ''y'']
   \<and> scan_loop \<lparr>sg_max_bytes = 9, sg_deadline_nanos = 5\<rparr> 100 0 [(''x'', [Inr 4], 101), (''y'', [Inr 6], 105)]
     = Inl (ScanBudgetExceeded 10 9)
   \<and> (\<exists>ns. map (\<lambda>(_, sizes, _). record_batch_content_bytes sizes) [(''x'', [Inr 4], 101 :: u64), (''y'', [Inr 6], 105)] = map Inr ns
      \<and> min (2 ^ 64 - 1) (sum_list (map unat ns)) \<le> unat (sg_max_bytes \<lparr>sg_max_bytes = 10, sg_deadline_nanos = 5\<rparr>))"
proof -
  let ?g = "\<lparr>sg_max_bytes = 10, sg_deadline_nanos = 5\<rparr>" and ?items = "[(''x'', [Inr 4], 101), (''y'', [Inr 6], 105)]"
  have ok: "scan_loop ?g 100 0 ?items = Inr [''x'', ''y'']"
    and over: "scan_loop \<lparr>sg_max_bytes = 9, sg_deadline_nanos = 5\<rparr> 100 0 ?items = Inl (ScanBudgetExceeded 10 9)"
    by (simp_all add: Let_def u64_saturating_add_def)
  from scan_returns_all_within_budget[OF ok] ok over show ?thesis by blast
qed

end
