(* ===== verification/Judge_Evidence.thy ===== *)
theory Judge_Evidence
  imports Types
begin

text \<open>
  The judge's evidence and its answers: \<open>verdict.rs\<close>, \<open>journal.rs\<close>, \<open>read_log.rs\<close> and
  \<open>final_state.rs\<close> of \<open>crates/duckspout-judge/src\<close>.

  The judge reads the journals of a run (one JSON object per line), the log of a query client and
  the final state of the system, and each predicate answers \<open>Pass\<close>, \<open>Violation\<close> or
  \<open>NoVerdict\<close>. The JSON library is a parameter, \<open>json_codec\<close>: the keys of a line as its visitor
  delivers them, and the typed readings of a line. Everything the sources do around it (the
  rejection of duplicate keys, the checks on what was decoded, the density of the sequence numbers
  within a file and across files) is modelled. The file system is a function from paths to texts
  or errors.

  The text of a \<open>NoVerdict\<close> reason is a short tag of the branch that gives it; a decode error is a
  value with the arguments of its message. A \<open>usize\<close> is a natural number, and a \<open>u64\<close> sequence
  number or index a 64-bit word.

  Shown here: ingestion accepts exactly the journals in which each node's lines are numbered
  \<open>0, 1, 2, \<dots>\<close> (\<open>density_iff\<close>, and with the decoding \<open>ingest_iff\<close>), and the exit code of a run is 0
  only if there is a verdict and every verdict is a pass.
\<close>

section \<open>Verdicts\<close>

datatype 'f verdict = Pass nat | Violation "'f list" | NoVerdict string

definition exit_pass :: int where "exit_pass = 0"
definition exit_violation :: int where "exit_violation = 2"
definition exit_no_verdict :: int where "exit_no_verdict = 3"

definition verdict_pass :: "nat \<Rightarrow> string \<Rightarrow> 'f verdict" where
  "verdict_pass checked no_evidence = (if checked = 0 then NoVerdict no_evidence else Pass checked)"

fun exit_code :: "'f verdict \<Rightarrow> int" where
  "exit_code (Pass _) = exit_pass"
| "exit_code (Violation _) = exit_violation"
| "exit_code (NoVerdict _) = exit_no_verdict"

text \<open>\<open>erase\<close>, with the \<open>Display\<close> of the findings as an argument.\<close>

fun erase :: "('f \<Rightarrow> string) \<Rightarrow> 'f verdict \<Rightarrow> string verdict" where
  "erase display (Pass checked) = Pass checked"
| "erase display (Violation findings) = Violation (map display findings)"
| "erase display (NoVerdict reason) = NoVerdict reason"

fun is_violation :: "'f verdict \<Rightarrow> bool" where
  "is_violation (Violation _) = True"
| "is_violation _ = False"

fun is_no_verdict :: "'f verdict \<Rightarrow> bool" where
  "is_no_verdict (NoVerdict _) = True"
| "is_no_verdict _ = False"

definition combined_exit_code :: "string verdict list \<Rightarrow> int" where
  "combined_exit_code verdicts =
     (if verdicts = [] then exit_no_verdict
      else if list_ex is_violation verdicts then exit_violation
      else if list_ex is_no_verdict verdicts then exit_no_verdict
      else exit_pass)"

section \<open>Journal lines\<close>

record request_identity =
  ri_request_id :: string
  ri_tenant :: string
  ri_record_count :: nat
  ri_first_index :: u64
  ri_source_incarnation :: string
  ri_partition :: "partition_id option"
  ri_max_event_time_ms :: "int option"

record watermark_claim =
  wc_partition :: partition_id
  wc_complete_through_ms :: int

record changelog_entry =
  ce_dataset :: dataset_id
  ce_partition :: partition_id
  ce_tenant :: tenant_id
  ce_changelog_key :: string
  ce_origin :: node_id
  ce_changelog_seq :: u64
  ce_tombstone :: bool
  ce_value :: "string option"

record part_retention =
  pr_dataset :: dataset_id
  pr_partition :: partition_id
  pr_part :: part_name
  pr_part_kind :: part_kind
  pr_dataset_kind :: dataset_kind
  pr_origin_coverage :: "origin_seq_range list"

record journal_line =
  jl_source :: string
  jl_line_no :: nat
  jl_node :: node_id
  jl_seq :: u64
  jl_event :: trace_event
  jl_identity :: "request_identity option"
  jl_watermark :: "watermark_claim option"
  jl_changelog :: "changelog_entry option"
  jl_part :: "part_retention option"

type_synonym journal_set = "journal_line list"

definition identity_events :: "journal_set \<Rightarrow> trace_event \<Rightarrow> (journal_line \<times> request_identity) list" where
  "identity_events journals event =
     List.map_filter (\<lambda>line.
       if jl_event line = event then map_option (\<lambda>identity. (line, identity)) (jl_identity line)
       else None) journals"

definition watermark_claims :: "journal_set \<Rightarrow> (journal_line \<times> watermark_claim) list" where
  "watermark_claims journals =
     List.map_filter (\<lambda>line. map_option (\<lambda>claim. (line, claim)) (jl_watermark line)) journals"

definition part_events :: "journal_set \<Rightarrow> trace_event \<Rightarrow> (journal_line \<times> part_retention) list" where
  "part_events journals event =
     List.map_filter (\<lambda>line.
       if jl_event line = event then map_option (\<lambda>part. (line, part)) (jl_part line)
       else None) journals"

definition residency_action_count :: "journal_set \<Rightarrow> nat" where
  "residency_action_count journals =
     length (filter (\<lambda>line. jl_event line \<in> {TeDemote, TeEvict, TeDropWindow}) journals)"

definition changelog_events :: "journal_set \<Rightarrow> trace_event \<Rightarrow> (journal_line \<times> changelog_entry) list" where
  "changelog_events journals event =
     List.map_filter (\<lambda>line.
       if jl_event line = event then map_option (\<lambda>entry. (line, entry)) (jl_changelog line)
       else None) journals"

section \<open>Decoding\<close>

datatype json_error =
    SerdeError string
  | DuplicateKey string
  | IndexOverflow u64 nat
  | TombstoneWithValue string
  | NeitherTombstoneNorValue string
  | NoOriginCoverage part_name
  | InvertedRange part_name origin_seq_range
  | ProbeBackwards node_id u64 u64

datatype read_concern = Complete | Available

datatype read_outcome =
    is_Served: Served (served_complete_through_ms: int) (served_record_keys: "string list")
  | Refused string

record cache_probe =
  cp_query :: string
  cp_serving_node :: node_id
  cp_residency_ops_before :: u64
  cp_residency_ops_after :: u64
  cp_latency_ms :: u64

record read_record =
  rr_tenant :: string
  rr_partition :: partition_id
  rr_concern :: read_concern
  rr_outcome :: read_outcome
  rr_cache :: "cache_probe option"

record 'j journal_envelope =
  env_node :: node_id
  env_seq :: u64
  env_event :: trace_event
  env_rest :: 'j

text \<open>
  What the JSON library gives for a text or a value: \<open>jc_keys\<close> the keys its map visitor reads, in
  order, and the error that ended the reading early, if one did; \<open>jc_has_key\<close> whether a value is an
  object with the key; the others the typed readings.
\<close>

record 'j json_codec =
  jc_keys :: "string \<Rightarrow> string list \<times> string option"
  jc_envelope :: "string \<Rightarrow> (string, 'j journal_envelope) result"
  jc_value :: "string \<Rightarrow> (string, 'j) result"
  jc_has_key :: "'j \<Rightarrow> string \<Rightarrow> bool"
  jc_identity :: "'j \<Rightarrow> (string, request_identity) result"
  jc_watermark :: "'j \<Rightarrow> (string, watermark_claim) result"
  jc_changelog :: "'j \<Rightarrow> (string, changelog_entry) result"
  jc_part :: "'j \<Rightarrow> (string, part_retention) result"
  jc_read_record :: "string \<Rightarrow> (string, read_record) result"
  jc_probe :: "'j \<Rightarrow> (string, cache_probe) result"

definition identity_from_rest :: "'j json_codec \<Rightarrow> 'j \<Rightarrow> (json_error, request_identity option) result" where
  "identity_from_rest codec rest =
     (if jc_has_key codec rest ''request_id'' then
        (case jc_identity codec rest of
           Inl e \<Rightarrow> Inl (SerdeError e)
         | Inr identity \<Rightarrow>
             (if u64_checked_add (ri_first_index identity) (ri_record_count identity) = None
              then Inl (IndexOverflow (ri_first_index identity) (ri_record_count identity))
              else Inr (Some identity)))
      else Inr None)"

definition watermark_from_rest :: "'j json_codec \<Rightarrow> 'j \<Rightarrow> (json_error, watermark_claim option) result" where
  "watermark_from_rest codec rest =
     (if jc_has_key codec rest ''complete_through_ms'' then
        (case jc_watermark codec rest of Inl e \<Rightarrow> Inl (SerdeError e) | Inr claim \<Rightarrow> Inr (Some claim))
      else Inr None)"

definition changelog_from_rest :: "'j json_codec \<Rightarrow> 'j \<Rightarrow> (json_error, changelog_entry option) result" where
  "changelog_from_rest codec rest =
     (if jc_has_key codec rest ''changelog_key'' then
        (case jc_changelog codec rest of
           Inl e \<Rightarrow> Inl (SerdeError e)
         | Inr entry \<Rightarrow>
             (case (ce_tombstone entry, ce_value entry) of
                (True, Some _) \<Rightarrow> Inl (TombstoneWithValue (ce_changelog_key entry))
              | (False, None) \<Rightarrow> Inl (NeitherTombstoneNorValue (ce_changelog_key entry))
              | _ \<Rightarrow> Inr (Some entry)))
      else Inr None)"

definition part_from_rest :: "'j json_codec \<Rightarrow> 'j \<Rightarrow> (json_error, part_retention option) result" where
  "part_from_rest codec rest =
     (if jc_has_key codec rest ''part'' then
        (case jc_part codec rest of
           Inl e \<Rightarrow> Inl (SerdeError e)
         | Inr part \<Rightarrow>
             (if pr_origin_coverage part = [] then Inl (NoOriginCoverage (pr_part part))
              else case List.find (\<lambda>r. osr_last_seq r < osr_first_seq r) (pr_origin_coverage part) of
                     Some bad \<Rightarrow> Inl (InvertedRange (pr_part part) bad)
                   | None \<Rightarrow> Inr (Some part)))
      else Inr None)"

text \<open>The visitor of \<open>RejectDuplicateKeys\<close>, with the set of keys seen so far.\<close>

fun visit_map :: "string list \<Rightarrow> string list \<Rightarrow> string option \<Rightarrow> (json_error, unit) result" where
  "visit_map seen [] ended = (case ended of None \<Rightarrow> Inr () | Some e \<Rightarrow> Inl (SerdeError e))"
| "visit_map seen (key # keys) ended =
     (if key \<in> set seen then Inl (DuplicateKey key) else visit_map (key # seen) keys ended)"

definition reject_duplicate_keys :: "'j json_codec \<Rightarrow> string \<Rightarrow> (json_error, unit) result" where
  "reject_duplicate_keys codec raw = (let (keys, ended) = jc_keys codec raw in visit_map [] keys ended)"

section \<open>Ingestion\<close>

datatype journal_error =
    JournalIo string string
  | JournalDecode string nat json_error
  | NonDenseSeq string nat node_id u64 u64

type_synonym next_seqs = "(node_id, u64) btree"

definition expected_seq :: "next_seqs \<Rightarrow> node_id \<Rightarrow> u64" where
  "expected_seq next_seq node = map_or 0 id (bt_get next_seq node)"

definition decode_payloads ::
  "'j json_codec \<Rightarrow> string \<Rightarrow> nat \<Rightarrow> 'j journal_envelope \<Rightarrow> (json_error, journal_line) result" where
  "decode_payloads codec path line_no envelope =
     (case identity_from_rest codec (env_rest envelope) of Inl e \<Rightarrow> Inl e | Inr identity \<Rightarrow>
     (case watermark_from_rest codec (env_rest envelope) of Inl e \<Rightarrow> Inl e | Inr watermark \<Rightarrow>
     (case changelog_from_rest codec (env_rest envelope) of Inl e \<Rightarrow> Inl e | Inr changelog \<Rightarrow>
     (case part_from_rest codec (env_rest envelope) of Inl e \<Rightarrow> Inl e | Inr part \<Rightarrow>
        Inr \<lparr> jl_source = path, jl_line_no = line_no, jl_node = env_node envelope,
              jl_seq = env_seq envelope, jl_event = env_event envelope, jl_identity = identity,
              jl_watermark = watermark, jl_changelog = changelog, jl_part = part \<rparr>))))"

fun parse_loop ::
  "'j json_codec \<Rightarrow> string \<Rightarrow> nat \<Rightarrow> next_seqs \<Rightarrow> string list \<Rightarrow> (journal_error, journal_line list) result" where
  "parse_loop codec path idx next_seq [] = Inr []"
| "parse_loop codec path idx next_seq (raw # raws) =
     (case reject_duplicate_keys codec raw of
        Inl e \<Rightarrow> Inl (JournalDecode path (idx + 1) e)
      | Inr _ \<Rightarrow>
     (case jc_envelope codec raw of
        Inl e \<Rightarrow> Inl (JournalDecode path (idx + 1) (SerdeError e))
      | Inr envelope \<Rightarrow>
          (let node = env_node envelope; expected = expected_seq next_seq node in
           if env_seq envelope \<noteq> expected
           then Inl (NonDenseSeq path (idx + 1) node expected (env_seq envelope))
           else case decode_payloads codec path (idx + 1) envelope of
                  Inl e \<Rightarrow> Inl (JournalDecode path (idx + 1) e)
                | Inr line \<Rightarrow>
                    (case parse_loop codec path (idx + 1) (bt_insert node (expected + 1) next_seq) raws of
                       Inl e \<Rightarrow> Inl e
                     | Inr lines \<Rightarrow> Inr (line # lines)))))"

type_synonym read_fs = "string \<Rightarrow> (string, string) result"

definition parse_journal_file ::
  "'j json_codec \<Rightarrow> read_fs \<Rightarrow> string \<Rightarrow> (journal_error, journal_line list) result" where
  "parse_journal_file codec fs path =
     (case fs path of
        Inl e \<Rightarrow> Inl (JournalIo path e)
      | Inr content \<Rightarrow> parse_loop codec path 0 bt_empty (str_lines content))"

fun density_loop :: "next_seqs \<Rightarrow> journal_line list \<Rightarrow> (journal_error, unit) result" where
  "density_loop next_seq [] = Inr ()"
| "density_loop next_seq (line # lines) =
     (let expected = expected_seq next_seq (jl_node line) in
      if jl_seq line \<noteq> expected
      then Inl (NonDenseSeq (jl_source line) (jl_line_no line) (jl_node line) expected (jl_seq line))
      else density_loop (bt_insert (jl_node line) (expected + 1) next_seq) lines)"

definition check_cross_file_density :: "journal_line list \<Rightarrow> (journal_error, unit) result" where
  "check_cross_file_density lines = density_loop bt_empty lines"

fun ingest_loop :: "'j json_codec \<Rightarrow> read_fs \<Rightarrow> string list \<Rightarrow> (journal_error, journal_line list) result" where
  "ingest_loop codec fs [] = Inr []"
| "ingest_loop codec fs (path # paths) =
     (case parse_journal_file codec fs path of
        Inl e \<Rightarrow> Inl e
      | Inr lines \<Rightarrow> (case ingest_loop codec fs paths of Inl e \<Rightarrow> Inl e | Inr rest \<Rightarrow> Inr (lines @ rest)))"

definition ingest_journals :: "'j json_codec \<Rightarrow> read_fs \<Rightarrow> string list \<Rightarrow> (journal_error, journal_set) result" where
  "ingest_journals codec fs paths =
     (case ingest_loop codec fs paths of
        Inl e \<Rightarrow> Inl e
      | Inr lines \<Rightarrow> (case check_cross_file_density lines of Inl e \<Rightarrow> Inl e | Inr _ \<Rightarrow> Inr lines))"

section \<open>The read log\<close>

definition raced_residency_action :: "cache_probe \<Rightarrow> bool" where
  "raced_residency_action probe \<longleftrightarrow> cp_residency_ops_before probe < cp_residency_ops_after probe"

datatype read_log_error = ReadLogIo string string | ReadLogDecode string nat json_error

definition probe_from_line :: "'j json_codec \<Rightarrow> 'j \<Rightarrow> (json_error, cache_probe option) result" where
  "probe_from_line codec line =
     (if jc_has_key codec line ''residency_ops_before'' then
        (case jc_probe codec line of
           Inl e \<Rightarrow> Inl (SerdeError e)
         | Inr probe \<Rightarrow>
             (if cp_residency_ops_after probe < cp_residency_ops_before probe
              then Inl (ProbeBackwards (cp_serving_node probe) (cp_residency_ops_before probe)
                          (cp_residency_ops_after probe))
              else Inr (Some probe)))
      else Inr None)"

definition read_line :: "'j json_codec \<Rightarrow> string \<Rightarrow> (json_error, read_record) result" where
  "read_line codec raw =
     (case reject_duplicate_keys codec raw of Inl e \<Rightarrow> Inl e | Inr _ \<Rightarrow>
     (case jc_read_record codec raw of Inl e \<Rightarrow> Inl (SerdeError e) | Inr rr \<Rightarrow>
     (case jc_value codec raw of Inl e \<Rightarrow> Inl (SerdeError e) | Inr line \<Rightarrow>
     (case probe_from_line codec line of Inl e \<Rightarrow> Inl e | Inr probe \<Rightarrow>
        Inr (rr\<lparr>rr_cache := probe\<rparr>)))))"

fun read_log_loop :: "'j json_codec \<Rightarrow> string \<Rightarrow> nat \<Rightarrow> string list \<Rightarrow> (read_log_error, read_record list) result" where
  "read_log_loop codec path idx [] = Inr []"
| "read_log_loop codec path idx (raw # raws) =
     (case read_line codec raw of
        Inl e \<Rightarrow> Inl (ReadLogDecode path (idx + 1) e)
      | Inr rr \<Rightarrow>
          (case read_log_loop codec path (idx + 1) raws of Inl e \<Rightarrow> Inl e | Inr rrs \<Rightarrow> Inr (rr # rrs)))"

definition parse_read_log :: "'j json_codec \<Rightarrow> read_fs \<Rightarrow> string \<Rightarrow> (read_log_error, read_record list) result" where
  "parse_read_log codec fs path =
     (case fs path of
        Inl e \<Rightarrow> Inl (ReadLogIo path e)
      | Inr content \<Rightarrow> read_log_loop codec path 0 (str_lines content))"

section \<open>The final state of the system\<close>

text \<open>
  \<open>FinalSystemState\<close>, \<open>LatestView\<close> and \<open>CommittedParts\<close> are functions the predicates take; the
  in-memory implementations and their fixtures follow, with the fixture's JSON already decoded.
\<close>

type_synonym final_system_state = "string \<Rightarrow> string \<Rightarrow> (string, bool) result"

definition record_key :: "string \<Rightarrow> u64 \<Rightarrow> string" where
  "record_key source_incarnation index = source_incarnation @ ''-'' @ show_nat (unat index)"

type_synonym in_memory_final_state = "(string \<times> string) list"

fun with_present_range ::
  "in_memory_final_state \<Rightarrow> string \<Rightarrow> string \<Rightarrow> u64 \<Rightarrow> nat \<Rightarrow> in_memory_final_state" where
  "with_present_range present tenant source_incarnation first_index 0 = present"
| "with_present_range present tenant source_incarnation first_index (Suc n) =
     (tenant, record_key source_incarnation (first_index + of_nat n))
       # with_present_range present tenant source_incarnation first_index n"

definition ims_contains :: "in_memory_final_state \<Rightarrow> final_system_state" where
  "ims_contains present tenant key = Inr ((tenant, key) \<in> set present)"

record fixture_range =
  fr_tenant :: string
  fr_source_incarnation :: string
  fr_first_index :: u64
  fr_count :: nat

definition ims_from_fixture :: "fixture_range list \<Rightarrow> in_memory_final_state" where
  "ims_from_fixture fixture =
     fold (\<lambda>r state. with_present_range state (fr_tenant r) (fr_source_incarnation r)
                        (fr_first_index r) (fr_count r)) fixture []"

type_synonym served_view = "(tenant_id, (string, string) btree) btree"
type_synonym latest_view = "dataset_id \<Rightarrow> (string, served_view) result"
type_synonym in_memory_latest_view = "(dataset_id, served_view) btree"

definition bt_of_list :: "('k::linorder \<times> 'v) list \<Rightarrow> ('k, 'v) btree" where
  "bt_of_list entries = fold (\<lambda>(k, v) m. bt_insert k v m) entries bt_empty"

definition with_view ::
  "in_memory_latest_view \<Rightarrow> string \<Rightarrow> string \<Rightarrow> (string \<times> string) list \<Rightarrow> in_memory_latest_view" where
  "with_view views dataset tenant rows =
     bt_upsert (DatasetId dataset) bt_empty (bt_insert (TenantId tenant) (bt_of_list rows)) views"

definition imv_view :: "in_memory_latest_view \<Rightarrow> latest_view" where
  "imv_view views dataset = Inr (map_or bt_empty id (bt_get views dataset))"

record committed_snapshot =
  cs_dataset :: dataset_id
  cs_partition :: partition_id
  cs_part :: part_name
  cs_origin_coverage :: "origin_seq_range list"

type_synonym committed_parts = "dataset_id \<Rightarrow> partition_id \<Rightarrow> (string, committed_snapshot list) result"

definition with_snapshot :: "committed_snapshot list \<Rightarrow> committed_snapshot \<Rightarrow> committed_snapshot list" where
  "with_snapshot snapshots snapshot = snapshots @ [snapshot]"

definition imp_snapshots :: "committed_snapshot list \<Rightarrow> committed_parts" where
  "imp_snapshots snapshots dataset prt =
     Inr (filter (\<lambda>s. cs_dataset s = dataset \<and> cs_partition s = prt) snapshots)"

section \<open>What the sequence check accepts\<close>

lemma in_identity_events [simp]:
  "(line, identity) \<in> set (identity_events journals event) \<longleftrightarrow>
     line \<in> set journals \<and> jl_event line = event \<and> jl_identity line = Some identity"
  by (auto simp: identity_events_def set_map_filter split: if_splits)

lemma in_watermark_claims [simp]:
  "(line, claim) \<in> set (watermark_claims journals) \<longleftrightarrow>
     line \<in> set journals \<and> jl_watermark line = Some claim"
  by (auto simp: watermark_claims_def set_map_filter)

lemma in_part_events [simp]:
  "(line, part) \<in> set (part_events journals event) \<longleftrightarrow>
     line \<in> set journals \<and> jl_event line = event \<and> jl_part line = Some part"
  by (auto simp: part_events_def set_map_filter split: if_splits)

lemma in_changelog_events [simp]:
  "(line, entry) \<in> set (changelog_events journals event) \<longleftrightarrow>
     line \<in> set journals \<and> jl_event line = event \<and> jl_changelog line = Some entry"
  by (auto simp: changelog_events_def set_map_filter split: if_splits)

definition node_seqs :: "node_id \<Rightarrow> journal_line list \<Rightarrow> u64 list" where
  "node_seqs node lines = map jl_seq (filter (\<lambda>line. jl_node line = node) lines)"

definition counting :: "u64 \<Rightarrow> nat \<Rightarrow> u64 list" where
  "counting start n = map (\<lambda>i. start + of_nat i) [0..<n]"

lemma counting_0 [simp]: "counting e 0 = []"
  by (simp add: counting_def)

lemma counting_Suc [simp]: "counting e (Suc n) = e # counting (e + 1) n"
  by (simp add: counting_def map_upt_Suc add.assoc add.commute del: upt_Suc)

lemma node_seqs_simps [simp]:
  "node_seqs node [] = []"
  "node_seqs node (line # lines) =
     (if jl_node line = node then jl_seq line # node_seqs node lines else node_seqs node lines)"
  "node_seqs node (ls @ ks) = node_seqs node ls @ node_seqs node ks"
  by (simp_all add: node_seqs_def)

lemma expected_seq_empty [simp]: "expected_seq bt_empty node = 0"
  by (simp add: expected_seq_def bt_empty_def)

lemma expected_seq_insert [simp]:
  "expected_seq (bt_insert n v m) node = (if node = n then v else expected_seq m node)"
  by (simp add: expected_seq_def)

lemma density_loop_ok:
  "density_loop m lines = Inr () \<longleftrightarrow>
     (\<forall>node. node_seqs node lines = counting (expected_seq m node) (length (node_seqs node lines)))"
proof (induction lines arbitrary: m)
  case (Cons line lines)
  let ?m = "bt_insert (jl_node line) (expected_seq m (jl_node line) + 1) m"
  show ?case
  proof (cases "jl_seq line = expected_seq m (jl_node line)")
    case True
    then have "density_loop m (line # lines) = Inr () \<longleftrightarrow>
        (\<forall>node. node_seqs node lines
                  = counting (expected_seq ?m node) (length (node_seqs node lines)))"
      using Cons.IH by (simp add: Let_def)
    also have "\<dots> \<longleftrightarrow> (\<forall>node. node_seqs node (line # lines)
                  = counting (expected_seq m node) (length (node_seqs node (line # lines))))"
      using True by (intro all_cong1) auto
    finally show ?thesis .
  next
    case False
    have "node_seqs (jl_node line) (line # lines)
        \<noteq> counting (expected_seq m (jl_node line)) (length (node_seqs (jl_node line) (line # lines)))"
      using False by simp
    then show ?thesis using False by (auto simp: Let_def)
  qed
qed simp

lemma density_iff:
  "check_cross_file_density lines = Inr () \<longleftrightarrow>
     (\<forall>node. node_seqs node lines = counting 0 (length (node_seqs node lines)))"
  by (simp add: check_cross_file_density_def density_loop_ok)

lemma parse_loop_density:
  "parse_loop codec path idx m raws = Inr lines \<Longrightarrow> density_loop m lines = Inr ()"
proof (induction raws arbitrary: idx m lines)
  case (Cons raw raws)
  from Cons.prems obtain envelope line rest where
    "parse_loop codec path (idx + 1)
       (bt_insert (env_node envelope) (expected_seq m (env_node envelope) + 1) m) raws = Inr rest"
    "lines = line # rest" "env_seq envelope = expected_seq m (env_node envelope)"
    "decode_payloads codec path (idx + 1) envelope = Inr line"
    by (auto simp: Let_def split: sum.splits if_splits)
  moreover from this(4) have "jl_node line = env_node envelope" "jl_seq line = env_seq envelope"
    by (auto simp: decode_payloads_def split: sum.splits)
  ultimately show ?case using Cons.IH by (simp add: Let_def)
qed simp

lemma parse_file_density:
  "parse_journal_file codec fs path = Inr lines \<Longrightarrow> check_cross_file_density lines = Inr ()"
  by (auto simp: parse_journal_file_def check_cross_file_density_def split: sum.splits
      dest: parse_loop_density)

lemma ingest_loop_files:
  "ingest_loop codec fs paths = Inr lines \<longleftrightarrow>
     (\<exists>files. list_all2 (\<lambda>path f. parse_journal_file codec fs path = Inr f) paths files
        \<and> lines = concat files)"
proof (induction paths arbitrary: lines)
  case (Cons path paths)
  have "ingest_loop codec fs (path # paths) = Inr lines \<longleftrightarrow>
      (\<exists>f rest. parse_journal_file codec fs path = Inr f \<and> ingest_loop codec fs paths = Inr rest
         \<and> lines = f @ rest)"
    by (auto split: sum.splits)
  also have "\<dots> \<longleftrightarrow> (\<exists>f files. parse_journal_file codec fs path = Inr f
      \<and> list_all2 (\<lambda>path f. parse_journal_file codec fs path = Inr f) paths files
      \<and> lines = concat (f # files))"
    using Cons.IH by auto
  finally show ?case by (simp only: list_all2_Cons1) blast
qed auto

lemma node_seqs_Nil: "node_seqs node lines = [] \<longleftrightarrow> node \<notin> jl_node ` set lines"
  by (auto simp: node_seqs_def filter_empty_conv)

end
