(* ===== verification/Judge_Demo.thy ===== *)
theory Judge_Demo
  imports Judge_Evidence
begin

text \<open>
  The evidence of one small run that every rule of the judge accepts, as values: the journals of a
  load generator and of the nodes \<open>a\<close> and \<open>b\<close>, the log of a query client, and the final state. The
  witnesses of the judge's theorems are evaluated on it; \<open>Judge_Run\<close> puts it into files.
\<close>

definition demo_line :: "string \<Rightarrow> nat \<Rightarrow> string \<Rightarrow> u64 \<Rightarrow> trace_event \<Rightarrow> journal_line" where
  "demo_line source line_no node seq event =
     \<lparr>jl_source = source, jl_line_no = line_no, jl_node = NodeId node, jl_seq = seq, jl_event = event,
      jl_identity = None, jl_watermark = None, jl_changelog = None, jl_part = None\<rparr>"

definition demo_identity :: request_identity where
  "demo_identity =
     \<lparr>ri_request_id = ''r1'', ri_tenant = ''t'', ri_record_count = 2, ri_first_index = 0,
      ri_source_incarnation = ''i'', ri_partition = Some (PartitionId ''p''),
      ri_max_event_time_ms = Some 50\<rparr>"

definition demo_claim :: "int \<Rightarrow> watermark_claim" where
  "demo_claim ms = \<lparr>wc_partition = PartitionId ''p'', wc_complete_through_ms = ms\<rparr>"

definition demo_entry :: changelog_entry where
  "demo_entry =
     \<lparr>ce_dataset = DatasetId ''d'', ce_partition = PartitionId ''p'', ce_tenant = TenantId ''t'',
      ce_changelog_key = ''k'', ce_origin = NodeId ''a'', ce_changelog_seq = 5, ce_tombstone = False,
      ce_value = Some ''v''\<rparr>"

definition demo_range :: origin_seq_range where
  "demo_range = \<lparr>osr_origin = NodeId ''a'', osr_first_seq = 1, osr_last_seq = 10\<rparr>"

definition demo_part :: part_retention where
  "demo_part =
     \<lparr>pr_dataset = DatasetId ''d'', pr_partition = PartitionId ''p'', pr_part = PartName ''x'',
      pr_part_kind = Primary, pr_dataset_kind = Changelog, pr_origin_coverage = [demo_range]\<rparr>"

definition demo_ack :: journal_line where
  "demo_ack = (demo_line ''lg'' 1 ''lg'' 0 TeClientAck)
     \<lparr>jl_identity := Some demo_identity, jl_watermark := Some (demo_claim 0),
      jl_changelog := Some demo_entry\<rparr>"

definition demo_advert :: journal_line where
  "demo_advert = (demo_line ''a'' 2 ''a'' 1 TeClaimAdvertise)\<lparr>jl_watermark := Some (demo_claim 100)\<rparr>"

definition demo_expire :: journal_line where
  "demo_expire = (demo_line ''a'' 5 ''a'' 4 TeExpire)\<lparr>jl_part := Some demo_part\<rparr>"

definition demo_journals :: journal_set where
  "demo_journals =
     [demo_ack,
      (demo_line ''a'' 1 ''a'' 0 TeLakeCommitOk)\<lparr>jl_watermark := Some (demo_claim 100)\<rparr>,
      demo_advert,
      demo_line ''a'' 3 ''a'' 2 TeForward,
      demo_line ''a'' 4 ''a'' 3 TeDemote,
      demo_expire,
      demo_line ''b'' 1 ''b'' 0 TePeerApply]"

definition demo_probe :: "u64 \<Rightarrow> u64 \<Rightarrow> u64 \<Rightarrow> cache_probe" where
  "demo_probe before after latency =
     \<lparr>cp_query = ''q'', cp_serving_node = NodeId ''a'', cp_residency_ops_before = before,
      cp_residency_ops_after = after, cp_latency_ms = latency\<rparr>"

definition demo_read :: "u64 \<Rightarrow> u64 \<Rightarrow> u64 \<Rightarrow> read_record" where
  "demo_read before after latency =
     \<lparr>rr_tenant = ''t'', rr_partition = PartitionId ''p'', rr_concern = Complete,
      rr_outcome = Served 60 [''i-0'', ''i-1''], rr_cache = Some (demo_probe before after latency)\<rparr>"

definition demo_reads :: "read_record list" where
  "demo_reads = [demo_read 0 0 5, demo_read 0 0 6, demo_read 1 1 5, demo_read 0 1 6]"

definition demo_fixture :: "fixture_range list" where
  "demo_fixture = [\<lparr>fr_tenant = ''t'', fr_source_incarnation = ''i'', fr_first_index = 0, fr_count = 2\<rparr>]"

definition demo_views :: in_memory_latest_view where
  "demo_views = [(DatasetId ''d'', [(TenantId ''t'', [(''k'', ''v'')])])]"

definition demo_snapshot :: committed_snapshot where
  "demo_snapshot =
     \<lparr>cs_dataset = DatasetId ''d'', cs_partition = PartitionId ''p'', cs_part = PartName ''s'',
      cs_origin_coverage = [demo_range]\<rparr>"

lemmas demo_defs =
  demo_line_def demo_identity_def demo_claim_def demo_entry_def demo_range_def demo_part_def
  demo_ack_def demo_advert_def demo_expire_def demo_journals_def demo_probe_def demo_read_def
  demo_reads_def demo_fixture_def demo_views_def demo_snapshot_def

end
