(* ===== verification/Judge_Zero_Lost.thy ===== *)
theory Judge_Zero_Lost
  imports Judge_Demo
begin

text \<open>
  \<open>crates/duckspout-judge/src/predicates/zero_acked_lost.rs\<close>: every record of every acknowledged
  request of a tenant that is not a system tenant is present in the final system. The warning on
  standard error for acknowledgements of system tenants is left out; it changes nothing.

  The locale \<open>final_state_reader\<close> is the interface to a final system that answers every query: a
  verdict is then exactly the presence of every acknowledged record. It is interpreted on the
  in-memory state.
\<close>

section \<open>The predicate\<close>

definition system_tenant_prefix :: char where
  "system_tenant_prefix = CHR ''_''"

record acked_lost_finding =
  alf_request_id :: string
  alf_tenant :: string
  alf_missing_indices :: "u64 list"

definition is_checkable :: "request_identity \<Rightarrow> bool" where
  "is_checkable identity \<longleftrightarrow>
     \<not> starts_with_char system_tenant_prefix (ri_tenant identity) \<and> 0 < ri_record_count identity"

text \<open>The indices \<open>first..end\<close> of an acknowledged request, in ascending order.\<close>

definition u64_range :: "u64 \<Rightarrow> u64 \<Rightarrow> u64 list" where
  "u64_range first bound = map of_nat [unat first..<unat bound]"

fun missing_loop :: "final_system_state \<Rightarrow> request_identity \<Rightarrow> u64 list \<Rightarrow> (string, u64 list) result" where
  "missing_loop final_state identity [] = Inr []"
| "missing_loop final_state identity (index # indices) =
     (case final_state (ri_tenant identity) (record_key (ri_source_incarnation identity) index) of
        Inl e \<Rightarrow> Inl e
      | Inr found \<Rightarrow>
          (case missing_loop final_state identity indices of
             Inl e \<Rightarrow> Inl e
           | Inr missing \<Rightarrow> Inr (if found then missing else index # missing)))"

fun acks_loop ::
  "final_system_state \<Rightarrow> request_identity list \<Rightarrow> acked_lost_finding list
     \<Rightarrow> (string, acked_lost_finding list) result" where
  "acks_loop final_state [] findings = Inr findings"
| "acks_loop final_state (identity # acks) findings =
     (case u64_checked_add (ri_first_index identity) (ri_record_count identity) of
        None \<Rightarrow> Inl ''index overflow''
      | Some bound \<Rightarrow>
          (case missing_loop final_state identity (u64_range (ri_first_index identity) bound) of
             Inl e \<Rightarrow> Inl ''final-system query failed''
           | Inr missing \<Rightarrow>
               acks_loop final_state acks
                 (if missing \<noteq> []
                  then findings @ [\<lparr>alf_request_id = ri_request_id identity,
                                    alf_tenant = ri_tenant identity,
                                    alf_missing_indices = missing\<rparr>]
                  else findings)))"

definition checkable_acks :: "journal_set \<Rightarrow> request_identity list" where
  "checkable_acks journals = filter is_checkable (map snd (identity_events journals TeClientAck))"

definition zero_acked_lost_check :: "journal_set \<Rightarrow> final_system_state \<Rightarrow> acked_lost_finding verdict" where
  "zero_acked_lost_check journals final_state =
     (let acks = checkable_acks journals in
      if acks = [] then NoVerdict ''no checkable ClientAck''
      else case acks_loop final_state acks [] of
             Inl reason \<Rightarrow> NoVerdict reason
           | Inr findings \<Rightarrow>
               (if findings = [] then verdict_pass (length acks) ''no checkable ClientAck''
                else Violation findings))"

section \<open>What a verdict says\<close>

text \<open>The records an acknowledgement covers, as keys of the final system.\<close>

definition acked_indices :: "request_identity \<Rightarrow> u64 set" where
  "acked_indices identity = (\<lambda>i. ri_first_index identity + of_nat i) ` {..<ri_record_count identity}"

definition no_overflow :: "request_identity \<Rightarrow> bool" where
  "no_overflow identity \<longleftrightarrow> unat (ri_first_index identity) + ri_record_count identity < 2 ^ 64"

definition answer :: "final_system_state \<Rightarrow> request_identity \<Rightarrow> u64 \<Rightarrow> (string, bool) result" where
  "answer final_state identity index =
     final_state (ri_tenant identity) (record_key (ri_source_incarnation identity) index)"

lemma set_u64_range:
  assumes "unat first + n < 2 ^ 64"
  shows "set (u64_range first (first + of_nat n)) = (\<lambda>i. first + of_nat i) ` {..<n}"
proof -
  have "unat (first + of_nat n) = unat first + n"
    using assms by (simp add: unat_word_ariths unsigned_of_nat take_bit_nat_eq_self)
  moreover have "{unat first..<unat first + n} = (\<lambda>i. unat first + i) ` {..<n}"
    by (auto simp: image_iff intro: bexI[where x = "x - unat first" for x])
      (metis le_add_diff_inverse lessThan_iff nat_add_left_cancel_less)
  ultimately show ?thesis by (simp add: u64_range_def image_image)
qed

lemma missing_loop_eval:
  "missing_loop final_state identity indices =
     (if \<forall>i\<in>set indices. \<not> isl (answer final_state identity i)
      then Inr (filter (\<lambda>i. answer final_state identity i = Inr False) indices)
      else Inl (projl (missing_loop final_state identity indices)))"
  by (induction indices) (auto simp: answer_def split: sum.splits if_splits)

definition lost_indices :: "final_system_state \<Rightarrow> request_identity \<Rightarrow> u64 list" where
  "lost_indices final_state identity =
     filter (\<lambda>i. answer final_state identity i = Inr False)
       (u64_range (ri_first_index identity) (ri_first_index identity + of_nat (ri_record_count identity)))"

definition lost_findings :: "final_system_state \<Rightarrow> request_identity list \<Rightarrow> acked_lost_finding list" where
  "lost_findings final_state acks =
     map (\<lambda>identity. \<lparr>alf_request_id = ri_request_id identity, alf_tenant = ri_tenant identity,
                      alf_missing_indices = lost_indices final_state identity\<rparr>)
       (filter (\<lambda>identity. lost_indices final_state identity \<noteq> []) acks)"

text \<open>The whole range of an acknowledgement could be asked for, and every query was answered.\<close>

definition answered :: "final_system_state \<Rightarrow> request_identity \<Rightarrow> bool" where
  "answered final_state identity \<longleftrightarrow>
     no_overflow identity \<and> (\<forall>i\<in>acked_indices identity. \<not> isl (answer final_state identity i))"

lemma acks_loop_Cons:
  "(answered final_state identity \<longrightarrow> acks_loop final_state (identity # acks) findings
      = acks_loop final_state acks (findings @ lost_findings final_state [identity]))
   \<and> (\<not> answered final_state identity \<longrightarrow> isl (acks_loop final_state (identity # acks) findings))"
proof (cases "no_overflow identity")
  case True
  then have add: "u64_checked_add (ri_first_index identity) (ri_record_count identity)
      = Some (ri_first_index identity + of_nat (ri_record_count identity))"
    by (simp add: checked_add_Some no_overflow_def)
  let ?range = "u64_range (ri_first_index identity)
                  (ri_first_index identity + of_nat (ri_record_count identity))"
  have set: "set ?range = acked_indices identity"
    using True by (simp add: set_u64_range acked_indices_def no_overflow_def)
  show ?thesis
  proof (cases "\<forall>i\<in>acked_indices identity. \<not> isl (answer final_state identity i)")
    case ok: True
    then have "missing_loop final_state identity ?range = Inr (lost_indices final_state identity)"
      using set by (subst missing_loop_eval) (simp add: lost_indices_def)
    with ok True add show ?thesis by (simp add: answered_def lost_findings_def)
  next
    case bad: False
    then have "\<exists>e. missing_loop final_state identity ?range = Inl e"
      using set by (subst missing_loop_eval) auto
    with bad add show ?thesis by (auto simp: answered_def)
  qed
next
  case False
  then show ?thesis by (simp add: u64_checked_add_def no_overflow_def answered_def)
qed

lemma acks_loop_ok:
  "\<forall>a\<in>set acks. answered final_state a \<Longrightarrow>
     acks_loop final_state acks findings = Inr (findings @ lost_findings final_state acks)"
proof (induction acks arbitrary: findings)
  case Nil
  then show ?case by (simp add: lost_findings_def)
next
  case (Cons identity acks)
  then have "acks_loop final_state (identity # acks) findings
      = Inr ((findings @ lost_findings final_state [identity]) @ lost_findings final_state acks)"
    using acks_loop_Cons[of final_state identity acks findings]
    by (simp del: acks_loop.simps append_assoc)
  then show ?case by (simp add: lost_findings_def del: acks_loop.simps)
qed

lemma acks_loop_failed:
  "\<not> (\<forall>a\<in>set acks. answered final_state a) \<Longrightarrow> isl (acks_loop final_state acks findings)"
proof (induction acks arbitrary: findings)
  case (Cons identity acks)
  then show ?case
    using acks_loop_Cons[of final_state identity acks findings]
    by (cases "answered final_state identity") (simp_all del: acks_loop.simps)
qed simp

lemma lost_Nil:
  assumes "answered final_state identity"
  shows "lost_indices final_state identity = []
     \<longleftrightarrow> (\<forall>i\<in>acked_indices identity. answer final_state identity i = Inr True)"
proof -
  have "set (u64_range (ri_first_index identity)
          (ri_first_index identity + of_nat (ri_record_count identity))) = acked_indices identity"
    using assms by (simp add: set_u64_range acked_indices_def no_overflow_def answered_def)
  then have "lost_indices final_state identity = [] \<longleftrightarrow>
      (\<forall>i\<in>acked_indices identity. answer final_state identity i \<noteq> Inr False)"
    by (simp add: lost_indices_def filter_empty_conv)
  then show ?thesis using assms by (auto simp: answered_def) (metis isl_def sum.exhaust_sel)
qed

lemma lost_findings_Nil: "lost_findings final_state acks = [] \<longleftrightarrow> (\<forall>a\<in>set acks. lost_indices final_state a = [])"
  by (simp add: lost_findings_def filter_empty_conv)

lemma zero_check_eval:
  "zero_acked_lost_check journals final_state =
     (if checkable_acks journals = [] then NoVerdict ''no checkable ClientAck''
      else if \<forall>a\<in>set (checkable_acks journals). answered final_state a
      then (if lost_findings final_state (checkable_acks journals) = []
            then Pass (length (checkable_acks journals))
            else Violation (lost_findings final_state (checkable_acks journals)))
      else NoVerdict (projl (acks_loop final_state (checkable_acks journals) [])))"
  using acks_loop_ok[of "checkable_acks journals" final_state "[]"]
    acks_loop_failed[of "checkable_acks journals" final_state "[]"]
  by (cases "acks_loop final_state (checkable_acks journals) []")
    (auto simp: zero_acked_lost_check_def Let_def verdict_pass_def)

text \<open>
  C26 (Zero acked lost). The judge passes a run exactly when at least one acknowledgement with
  records of a tenant that is not a system tenant was journaled and every record of every such
  acknowledgement was asked for, without overflow of its index range, and found present. A failed
  query or a missing record never gives a pass.
\<close>
theorem zero_acked_lost_pass_iff:
  "zero_acked_lost_check journals final_state = Pass n \<longleftrightarrow>
     n = length (checkable_acks journals) \<and> 0 < n
       \<and> (\<forall>a\<in>set (checkable_acks journals).
            unat (ri_first_index a) + ri_record_count a < 2 ^ 64
            \<and> (\<forall>i<ri_record_count a.
                 final_state (ri_tenant a)
                   (record_key (ri_source_incarnation a) (ri_first_index a + of_nat i)) = Inr True))"
proof -
  have present: "answered final_state a \<and> lost_indices final_state a = [] \<longleftrightarrow>
      unat (ri_first_index a) + ri_record_count a < 2 ^ 64
      \<and> (\<forall>i<ri_record_count a.
           final_state (ri_tenant a)
             (record_key (ri_source_incarnation a) (ri_first_index a + of_nat i)) = Inr True)" for a
    using lost_Nil[of final_state a]
    by (auto simp: answered_def no_overflow_def acked_indices_def answer_def)
  have "zero_acked_lost_check journals final_state = Pass n \<longleftrightarrow>
      n = length (checkable_acks journals) \<and> 0 < n
      \<and> (\<forall>a\<in>set (checkable_acks journals). answered final_state a \<and> lost_indices final_state a = [])"
    by (auto simp: zero_check_eval lost_findings_Nil)
  then show ?thesis by (simp only: present)
qed

lemma demo_zero_pass:
  "zero_acked_lost_check demo_journals (ims_contains (ims_from_fixture demo_fixture)) = Pass 1"
  by code_simp

theorem zero_acked_lost_pass_iff_witness:
  "zero_acked_lost_check demo_journals (ims_contains (ims_from_fixture demo_fixture)) = Pass 1
   \<and> ims_contains (ims_from_fixture demo_fixture) ''t'' (record_key ''i'' 1) = Inr True"
proof
  have a: "demo_identity \<in> set (checkable_acks demo_journals)" by code_simp
  have "\<forall>i<ri_record_count demo_identity. ims_contains (ims_from_fixture demo_fixture) (ri_tenant demo_identity)
      (record_key (ri_source_incarnation demo_identity) (ri_first_index demo_identity + of_nat i)) = Inr True"
    using demo_zero_pass a unfolding zero_acked_lost_pass_iff by blast
  from this[rule_format, of 1]
  show "ims_contains (ims_from_fixture demo_fixture) ''t'' (record_key ''i'' 1) = Inr True"
    by (simp add: demo_identity_def)
qed (rule demo_zero_pass)

section \<open>A final system that answers every query\<close>

locale final_state_reader =
  fixes contains :: "string \<Rightarrow> string \<Rightarrow> (string, bool) result"
    and present :: "(string \<times> string) set"
  assumes contains_eq: "contains tenant key = Inr ((tenant, key) \<in> present)"
begin

lemma answered_iff: "answered contains a \<longleftrightarrow> no_overflow a"
  by (simp add: answered_def answer_def contains_eq)

text \<open>With index ranges that fit, only a run without evidence stays without a verdict.\<close>

lemma verdict_decided:
  assumes "\<And>a. a \<in> set (checkable_acks journals) \<Longrightarrow> no_overflow a"
    and "checkable_acks journals \<noteq> []"
  shows "zero_acked_lost_check journals contains
    = (if \<forall>a\<in>set (checkable_acks journals). lost_indices contains a = []
       then Pass (length (checkable_acks journals))
       else Violation (lost_findings contains (checkable_acks journals)))"
  using assms by (simp add: zero_check_eval answered_iff lost_findings_Nil)

end

interpretation ims: final_state_reader "ims_contains state" "set state" for state
  by unfold_locales (simp add: ims_contains_def)

end
