(* ===== verification/Judge_Watermark.thy ===== *)
theory Judge_Watermark
  imports Judge_Zero_Lost
begin

text \<open>
  \<open>crates/duckspout-judge/src/predicates/watermark_honesty.rs\<close>: every advertised watermark is
  backed by a journaled commit, every \<open>complete\<close> read is served over coverage that exists, and it
  holds every record owed under its watermark.

  \<open>coverage_of\<close> sorts each node's coverage lines by sequence number and replaces each value by the
  running maximum, so that the two bounds are one lookup each; \<open>advertisement_bound\<close> and
  \<open>run_wide_bound_exact\<close> show that the lookups give the maxima they stand for. The source's sort is
  unstable; lines with equal sequence numbers are never told apart by a bound, and the journal has
  none. \<open>partition_point\<close> is the length of the prefix that satisfies the predicate, which is what
  the library documents for a slice the predicate partitions; the slices are sorted.
\<close>

section \<open>Claims and coverage\<close>

definition coverage_sources :: "trace_event list" where
  "coverage_sources = [TeLakeCommitOk, TeDeclareLoss, TeLakeCommitIndeterminate, TeReconcile]"

datatype watermark_finding =
    UnbackedAdvertisement node_id partition_id int int
  | UnprovenCoverage partition_id int int
  | MissingUnderWatermark partition_id int string string "string list"

record owed_batch =
  ob_identity :: request_identity
  ob_partition :: partition_id
  ob_max_event_time_ms :: int

definition ob_record_keys :: "owed_batch \<Rightarrow> string list" where
  "ob_record_keys batch =
     btset_of (map (\<lambda>offset. record_key (ri_source_incarnation (ob_identity batch))
                                (ri_first_index (ob_identity batch) + of_nat offset))
                   [0..<ri_record_count (ob_identity batch)])"

record claim =
  cl_node :: node_id
  cl_seq :: u64
  cl_event :: trace_event
  cl_watermark :: watermark_claim

definition is_advertisement :: "claim \<Rightarrow> bool" where
  "is_advertisement c \<longleftrightarrow> cl_event c \<notin> set coverage_sources \<and> cl_event c \<noteq> TeLakeCommitAbort"

definition initial_watermark_ms :: int where
  "initial_watermark_ms = 0"

type_synonym wm_lines = "(u64 \<times> int) list"
type_synonym wm_coverage = "(partition_id, (node_id, wm_lines) btree) btree"

fun running_loop :: "int \<Rightarrow> wm_lines \<Rightarrow> wm_lines" where
  "running_loop running [] = []"
| "running_loop running ((seq, ms) # lines) =
     (let running' = max running ms in (seq, running') # running_loop running' lines)"

definition push_claim :: "claim \<Rightarrow> wm_coverage \<Rightarrow> wm_coverage" where
  "push_claim c per_node =
     bt_upsert (wc_partition (cl_watermark c)) bt_empty
       (bt_upsert (cl_node c) []
          (\<lambda>lines. lines @ [(cl_seq c, wc_complete_through_ms (cl_watermark c))])) per_node"

definition coverage_of :: "claim list \<Rightarrow> wm_coverage" where
  "coverage_of claims =
     map (\<lambda>(p, by_node). (p, map (\<lambda>(n, lines).
            (n, running_loop initial_watermark_ms (sort_key fst lines))) by_node))
       (fold push_claim (filter (\<lambda>c. cl_event c \<in> set coverage_sources) claims) bt_empty)"

definition last_ms :: "wm_lines \<Rightarrow> int option" where
  "last_ms lines = (if lines = [] then None else Some (snd (last lines)))"

definition run_wide_bound :: "wm_coverage \<Rightarrow> partition_id \<Rightarrow> int" where
  "run_wide_bound coverage p =
     map_or initial_watermark_ms
       (\<lambda>by_node. map_or initial_watermark_ms id
          (max_by_key id (List.map_filter (\<lambda>(n, lines). last_ms lines) by_node)))
       (bt_get coverage p)"

definition partition_point :: "('a \<Rightarrow> bool) \<Rightarrow> 'a list \<Rightarrow> nat" where
  "partition_point pred xs = length (takeWhile pred xs)"

definition own_prefix :: "wm_lines \<Rightarrow> u64 \<Rightarrow> int" where
  "own_prefix lines seq =
     (let before = partition_point (\<lambda>(line_seq, ms). line_seq < seq) lines in
      if before = 0 then initial_watermark_ms else snd (lines ! (before - 1)))"

definition bound_for_advertisement :: "wm_coverage \<Rightarrow> partition_id \<Rightarrow> node_id \<Rightarrow> u64 \<Rightarrow> int" where
  "bound_for_advertisement coverage p node seq =
     (case bt_get coverage p of
        None \<Rightarrow> initial_watermark_ms
      | Some by_node \<Rightarrow>
          (let others = map_or initial_watermark_ms id
                 (max_by_key id (List.map_filter (\<lambda>(n, lines). last_ms lines)
                    (filter (\<lambda>(n, lines). n \<noteq> node) by_node)));
               own = map_or initial_watermark_ms (\<lambda>lines. own_prefix lines seq) (bt_get by_node node)
           in max others own))"

section \<open>Losses and owed records\<close>

record loss_scope =
  ls_partitions :: "partition_id list"
  ls_unknown :: bool

definition loss_scope_of :: "journal_set \<Rightarrow> loss_scope" where
  "loss_scope_of journals =
     fold (\<lambda>line scope.
             if jl_event line = TeDeclareLoss
             then case jl_watermark line of
                    Some c \<Rightarrow> scope\<lparr>ls_partitions := wc_partition c # ls_partitions scope\<rparr>
                  | None \<Rightarrow> scope\<lparr>ls_unknown := True\<rparr>
             else scope) journals \<lparr>ls_partitions = [], ls_unknown = False\<rparr>"

definition excuses :: "loss_scope \<Rightarrow> partition_id \<Rightarrow> bool" where
  "excuses scope p \<longleftrightarrow> ls_unknown scope \<or> p \<in> set (ls_partitions scope)"

definition missing_under_watermark ::
  "read_record \<Rightarrow> int \<Rightarrow> string list \<Rightarrow> owed_batch list \<Rightarrow> watermark_finding list" where
  "missing_under_watermark rr complete_through_ms record_keys owed =
     List.map_filter (\<lambda>batch.
         let missing = filter (\<lambda>key. key \<notin> set record_keys) (ob_record_keys batch) in
         if missing \<noteq> []
         then Some (MissingUnderWatermark (rr_partition rr) complete_through_ms
                      (ri_request_id (ob_identity batch)) (ri_tenant (ob_identity batch)) missing)
         else None)
       (filter (\<lambda>batch. ob_partition batch = rr_partition rr
                        \<and> ri_tenant (ob_identity batch) = rr_tenant rr
                        \<and> ob_max_event_time_ms batch \<le> complete_through_ms) owed)"

definition owed_batch_of :: "journal_line \<Rightarrow> request_identity \<Rightarrow> owed_batch option" where
  "owed_batch_of line identity =
     (case ri_partition identity of None \<Rightarrow> None | Some p \<Rightarrow>
     (case ri_max_event_time_ms identity of None \<Rightarrow> None | Some max_event_time_ms \<Rightarrow>
     (case jl_watermark line of None \<Rightarrow> None | Some disclosed \<Rightarrow>
        (if max_event_time_ms \<le> wc_complete_through_ms disclosed
            \<or> ri_record_count identity = 0
            \<or> starts_with_char system_tenant_prefix (ri_tenant identity)
         then None
         else Some \<lparr>ob_identity = identity, ob_partition = p,
                    ob_max_event_time_ms = max_event_time_ms\<rparr>))))"

definition owed_batches :: "journal_set \<Rightarrow> owed_batch list" where
  "owed_batches journals =
     List.map_filter (\<lambda>(line, identity). owed_batch_of line identity)
       (identity_events journals TeClientAck)"

section \<open>The predicate\<close>

record tally =
  ta_advertisements :: nat
  ta_reads :: nat
  ta_missing_rule_reads :: nat

definition tally_vacuity :: "tally \<Rightarrow> watermark_finding verdict option" where
  "tally_vacuity t =
     (if ta_advertisements t = 0 then Some (NoVerdict ''nothing advertised'')
      else if ta_reads t = 0 then Some (NoVerdict ''no complete read served'')
      else if ta_missing_rule_reads t = 0 then Some (NoVerdict ''missing-record rule never ran'')
      else None)"

definition claim_step :: "wm_coverage \<Rightarrow> claim \<Rightarrow> tally \<times> watermark_finding list \<Rightarrow> tally \<times> watermark_finding list" where
  "claim_step coverage c acc =
     (let (t, findings) = acc;
          bound = bound_for_advertisement coverage (wc_partition (cl_watermark c)) (cl_node c) (cl_seq c)
      in (t\<lparr>ta_advertisements := ta_advertisements t + 1\<rparr>,
          if bound < wc_complete_through_ms (cl_watermark c)
          then findings @ [UnbackedAdvertisement (cl_node c) (wc_partition (cl_watermark c))
                             (wc_complete_through_ms (cl_watermark c)) bound]
          else findings))"

definition read_step ::
  "wm_coverage \<Rightarrow> loss_scope \<Rightarrow> owed_batch list \<Rightarrow> read_record
     \<Rightarrow> tally \<times> watermark_finding list \<Rightarrow> tally \<times> watermark_finding list" where
  "read_step coverage loss owed rr acc =
     (let (t, findings) = acc in
      if rr_concern rr \<noteq> Complete then (t, findings)
      else case rr_outcome rr of
        Refused _ \<Rightarrow> (t, findings)
      | Served complete_through_ms record_keys \<Rightarrow>
          (let t1 = t\<lparr>ta_reads := ta_reads t + 1\<rparr>;
               bound = run_wide_bound coverage (rr_partition rr);
               findings1 = (if bound < complete_through_ms
                            then findings @ [UnprovenCoverage (rr_partition rr) complete_through_ms bound]
                            else findings)
           in if \<not> excuses loss (rr_partition rr)
              then (t1\<lparr>ta_missing_rule_reads := ta_missing_rule_reads t1 + 1\<rparr>,
                    findings1 @ missing_under_watermark rr complete_through_ms record_keys owed)
              else (t1, findings1)))"

definition claims_of :: "journal_set \<Rightarrow> claim list" where
  "claims_of journals =
     map (\<lambda>(line, watermark). \<lparr>cl_node = jl_node line, cl_seq = jl_seq line,
            cl_event = jl_event line, cl_watermark = watermark\<rparr>) (watermark_claims journals)"

definition watermark_honesty_check :: "journal_set \<Rightarrow> read_record list \<Rightarrow> watermark_finding verdict" where
  "watermark_honesty_check journals reads =
     (let claims = claims_of journals in
      if claims = [] then NoVerdict ''no watermark value''
      else
        (let coverage = coverage_of claims;
             loss = loss_scope_of journals;
             owed = owed_batches journals;
             acc1 = fold (claim_step coverage) (filter is_advertisement claims)
                      (\<lparr>ta_advertisements = 0, ta_reads = 0, ta_missing_rule_reads = 0\<rparr>, []);
             (t, findings) = fold (read_step coverage loss owed) reads acc1
         in if findings \<noteq> [] then Violation findings
            else case tally_vacuity t of
                   Some vacuous \<Rightarrow> vacuous
                 | None \<Rightarrow> verdict_pass (ta_advertisements t + ta_reads t) ''nothing was checked''))"

section \<open>The bounds are maxima\<close>

lemma running_last:
  "lines \<noteq> [] \<Longrightarrow> snd (last (running_loop r lines)) = fold max (map snd lines) r"
proof (induction lines arbitrary: r)
  case (Cons e lines)
  obtain seq ms where e: "e = (seq, ms)" by (cases e)
  show ?case
  proof (cases "lines = []")
    case False
    moreover from this have "running_loop (max r ms) lines \<noteq> []"
      by (cases lines) (auto simp: Let_def)
    ultimately show ?thesis using Cons.IH[of "max r ms"] e by (simp add: Let_def max.commute)
  qed (simp add: e Let_def max.commute)
qed simp

lemma running_Nil [simp]: "running_loop r lines = [] \<longleftrightarrow> lines = []"
  by (cases lines) (auto simp: Let_def)

lemma takeWhile_running:
  "takeWhile (\<lambda>(s, ms). P s) (running_loop r lines) = running_loop r (takeWhile (\<lambda>(s, ms). P s) lines)"
  by (induction lines arbitrary: r) (auto simp: Let_def)

lemma takeWhile_sorted:
  fixes q :: "'k::linorder"
  shows "sorted (map fst xs) \<Longrightarrow> takeWhile (\<lambda>(s, ms). s < q) xs = filter (\<lambda>(s, ms). s < q) xs"
proof (induction xs)
  case (Cons x xs)
  then have "\<not> fst x < q \<Longrightarrow> filter (\<lambda>(s, ms). s < q) xs = []"
    by (force simp: filter_empty_conv)
  with Cons show ?case by (cases x) auto
qed simp

lemma fold_max_le: "fold max xs (r :: int) \<le> c \<longleftrightarrow> r \<le> c \<and> (\<forall>x\<in>set xs. x \<le> c)"
  by (induction xs arbitrary: r) auto

lemma own_prefix_le:
  "own_prefix (running_loop 0 (sort_key fst lines)) seq \<le> c \<longleftrightarrow>
     0 \<le> c \<and> (\<forall>(s, ms)\<in>set lines. s < seq \<longrightarrow> ms \<le> c)"
proof -
  let ?run = "running_loop 0 (sort_key fst lines)"
  let ?pre = "filter (\<lambda>(s, ms). s < seq) (sort_key fst lines)"
  have tw: "takeWhile (\<lambda>(s, ms). s < seq) ?run = running_loop 0 ?pre"
    using takeWhile_running[of "\<lambda>s. s < seq"] takeWhile_sorted[of "sort_key fst lines" seq]
    by simp
  have "own_prefix ?run seq = fold max (map snd ?pre) 0"
  proof (cases "?pre = []")
    case True
    then show ?thesis using tw
      by (simp add: own_prefix_def partition_point_def initial_watermark_ms_def)
  next
    case False
    let ?n = "length (running_loop 0 ?pre)"
    have "?n \<noteq> 0" using False by simp
    moreover from this have "?run ! (?n - 1) = last (running_loop 0 ?pre)"
      using takeWhile_nth[of "?n - 1" "\<lambda>(s, ms). s < seq" ?run] tw by (simp add: last_conv_nth)
    ultimately have "own_prefix ?run seq = snd (last (running_loop 0 ?pre))"
      using tw by (simp add: own_prefix_def partition_point_def Let_def)
    then show ?thesis using running_last[OF False] by simp
  qed
  then show ?thesis by (auto simp: fold_max_le)
qed

lemma last_running:
  "last_ms (running_loop 0 (sort_key fst lines)) =
     (if lines = [] then None else Some (fold max (map snd (sort_key fst lines)) 0))"
proof -
  have "sort_key fst lines = [] \<longleftrightarrow> lines = []"
    by (metis length_0_conv length_sort)
  then show ?thesis using running_last[of "sort_key fst lines" 0] by (simp add: last_ms_def)
qed

definition raw_lines :: "claim list \<Rightarrow> partition_id \<Rightarrow> node_id \<Rightarrow> wm_lines" where
  "raw_lines claims p n =
     map (\<lambda>c. (cl_seq c, wc_complete_through_ms (cl_watermark c)))
       (filter (\<lambda>c. wc_partition (cl_watermark c) = p \<and> cl_node c = n) claims)"

definition cov_lines :: "wm_coverage \<Rightarrow> partition_id \<Rightarrow> node_id \<Rightarrow> wm_lines" where
  "cov_lines cov p n = map_or [] (\<lambda>by_node. map_or [] id (bt_get by_node n)) (bt_get cov p)"

definition cov_ok :: "wm_coverage \<Rightarrow> bool" where
  "cov_ok cov \<longleftrightarrow> bt_wf cov \<and> (\<forall>p by_node. bt_get cov p = Some by_node \<longrightarrow> bt_wf by_node)"

lemma push_claim_ok: "cov_ok cov \<Longrightarrow> cov_ok (push_claim c cov)"
  by (auto simp: cov_ok_def push_claim_def bt_empty_def map_or_def split: option.splits)

lemma cov_lines_push:
  "cov_lines (push_claim c cov) p n = cov_lines cov p n @ raw_lines [c] p n"
  by (auto simp: cov_lines_def push_claim_def raw_lines_def map_or_def bt_empty_def split: option.splits)

lemma fold_push:
  "cov_ok cov \<Longrightarrow> cov_ok (fold push_claim claims cov)
     \<and> cov_lines (fold push_claim claims cov) p n = cov_lines cov p n @ raw_lines claims p n"
proof (induction claims arbitrary: cov)
  case (Cons c claims)
  have "raw_lines (c # claims) p n = raw_lines [c] p n @ raw_lines claims p n"
    by (simp add: raw_lines_def)
  with Cons show ?case by (simp add: push_claim_ok cov_lines_push)
qed (simp add: raw_lines_def)

abbreviation sources :: "claim list \<Rightarrow> claim list" where
  "sources claims \<equiv> filter (\<lambda>c. cl_event c \<in> set coverage_sources) claims"

text \<open>The nodes of a partition and their lines, as the bounds iterate over them.\<close>

abbreviation prepared :: "(node_id, wm_lines) btree \<Rightarrow> (node_id, wm_lines) btree" where
  "prepared by_node \<equiv> map (\<lambda>(n, lines). (n, running_loop 0 (sort_key fst lines))) by_node"

lemma coverage_at:
  obtains (none) "bt_get (coverage_of claims) p = None"
    and "\<And>n. raw_lines (sources claims) p n = []"
  | (some) by_node where "bt_wf by_node"
    and "\<And>n. map_or [] id (bt_get by_node n) = raw_lines (sources claims) p n"
    and "bt_get (coverage_of claims) p = Some (prepared by_node)"
proof -
  let ?cov = "fold push_claim (sources claims) bt_empty"
  have "cov_ok bt_empty" by (simp add: cov_ok_def bt_empty_def)
  from fold_push[OF this, of "sources claims"]
  have ok: "cov_ok ?cov" and lines: "cov_lines ?cov p n = raw_lines (sources claims) p n" for n
    by (simp_all add: cov_lines_def bt_empty_def)
  have get: "bt_get (coverage_of claims) p = map_option prepared (bt_get ?cov p)"
    unfolding coverage_of_def initial_watermark_ms_def by (rule bt_get_map_entries)
  show thesis
  proof (cases "bt_get ?cov p")
    case None
    then show thesis using none get lines by (simp add: cov_lines_def)
  next
    case (Some by_node)
    then show thesis using some[of by_node] ok get lines by (simp add: cov_ok_def cov_lines_def)
  qed
qed

text \<open>The greatest last value of the nodes that satisfy a predicate.\<close>

definition tops :: "(node_id \<Rightarrow> bool) \<Rightarrow> (node_id, wm_lines) btree \<Rightarrow> int list" where
  "tops P by_node = List.map_filter (\<lambda>(n, lines). last_ms lines) (filter (\<lambda>(n, lines). P n) by_node)"

lemma in_tops:
  "x \<in> set (tops P (prepared by_node)) \<longleftrightarrow>
     (\<exists>n lines. (n, lines) \<in> set by_node \<and> P n \<and> lines \<noteq> []
        \<and> x = fold max (map snd (sort_key fst lines)) 0)"
proof -
  have "x \<in> set (tops P (prepared by_node)) \<longleftrightarrow> (\<exists>e\<in>set by_node. P (fst e)
      \<and> last_ms (running_loop 0 (sort_key fst (snd e))) = Some x)"
    by (auto simp: tops_def set_map_filter split_beta)
  then show ?thesis by (auto simp: last_running Bex_def split: if_splits)
qed

lemma in_tops_nonneg: "x \<in> set (tops P (prepared by_node)) \<Longrightarrow> 0 \<le> x"
  using fold_max_le[of _ 0 x] by (auto simp: in_tops)

lemma tops_nonneg: "0 \<le> map_or 0 id (max_by_key id (tops P (prepared by_node)))"
  using max_by_key_Some[of id "tops P (prepared by_node)"] in_tops_nonneg
  by (cases "max_by_key id (tops P (prepared by_node))") auto

lemma max_by_key_le:
  assumes "\<And>x. x \<in> set xs \<Longrightarrow> 0 \<le> x"
  shows "map_or 0 id (max_by_key id xs) \<le> (c :: int) \<and> 0 \<le> c \<longleftrightarrow> 0 \<le> c \<and> (\<forall>x\<in>set xs. x \<le> c)"
  using max_by_key_Some[of id xs] max_by_key_None[of id xs]
  by (cases "max_by_key id xs") (auto intro: order_trans)

lemma tops_le:
  assumes "bt_wf by_node"
  shows "map_or 0 id (max_by_key id (tops P (prepared by_node))) \<le> c
       \<and> 0 \<le> c
    \<longleftrightarrow> 0 \<le> c \<and> (\<forall>n. P n \<longrightarrow> (\<forall>(s, ms)\<in>set (map_or [] id (bt_get by_node n)). ms \<le> c))"
proof -
  let ?tops = "tops P (prepared by_node)"
  have per_node: "(\<forall>lines. (n, lines) \<in> set by_node \<longrightarrow> (\<forall>(s, ms)\<in>set lines. ms \<le> c))
      \<longleftrightarrow> (\<forall>(s, ms)\<in>set (map_or [] id (bt_get by_node n)). ms \<le> c)" for n
    using bt_get_Some[OF assms, of n, symmetric] by (cases "bt_get by_node n") auto
  from max_by_key_le[of ?tops c, OF in_tops_nonneg]
  have "map_or 0 id (max_by_key id ?tops) \<le> c \<and> 0 \<le> c \<longleftrightarrow> 0 \<le> c \<and> (\<forall>x\<in>set ?tops. x \<le> c)" .
  also have "(\<forall>x\<in>set ?tops. x \<le> c) \<longleftrightarrow> (\<forall>n lines. (n, lines) \<in> set by_node \<longrightarrow> P n
      \<longrightarrow> lines \<noteq> [] \<longrightarrow> fold max (map snd (sort_key fst lines)) 0 \<le> c)"
    unfolding Ball_def in_tops by blast
  also have "0 \<le> c \<and> \<dots> \<longleftrightarrow> 0 \<le> c \<and> (\<forall>n lines. (n, lines) \<in> set by_node \<longrightarrow> P n
      \<longrightarrow> (\<forall>(s, ms)\<in>set lines. ms \<le> c))"
    unfolding fold_max_le by (fastforce simp: split_beta)
  also have "\<dots> \<longleftrightarrow> 0 \<le> c \<and> (\<forall>n. P n \<longrightarrow> (\<forall>(s, ms)\<in>set (map_or [] id (bt_get by_node n)). ms \<le> c))"
    using per_node by blast
  finally show ?thesis .
qed

text \<open>What a bound ranges over: the coverage lines of the partition that may back the claim.\<close>

definition backing :: "claim list \<Rightarrow> partition_id \<Rightarrow> (node_id \<Rightarrow> u64 \<Rightarrow> bool) \<Rightarrow> int set" where
  "backing claims p P =
     {wc_complete_through_ms (cl_watermark c) | c. c \<in> set claims
        \<and> cl_event c \<in> set coverage_sources \<and> wc_partition (cl_watermark c) = p
        \<and> P (cl_node c) (cl_seq c)}"

lemma finite_backing [simp]: "finite (backing claims p P)"
proof -
  have "backing claims p P \<subseteq> (\<lambda>c. wc_complete_through_ms (cl_watermark c)) ` set claims"
    by (auto simp: backing_def)
  then show ?thesis by (rule finite_subset) simp
qed

lemma backing_raw:
  "(\<forall>ms\<in>backing claims p P. ms \<le> c) \<longleftrightarrow>
     (\<forall>n. \<forall>(s, ms)\<in>set (raw_lines (sources claims) p n). P n s \<longrightarrow> ms \<le> c)"
  by (auto simp: backing_def raw_lines_def)

lemma eq_by_upper_bounds:
  fixes a b :: "'a::linorder"
  assumes "\<And>c. a \<le> c \<longleftrightarrow> b \<le> c"
  shows "a = b"
  using assms[of a] assms[of b] by (simp add: antisym)

lemma run_wide_bound_exact:
  "run_wide_bound (coverage_of claims) p = Max (insert 0 (backing claims p (\<lambda>n s. True)))"
proof (cases rule: coverage_at[of claims p])
  case none
  have "run_wide_bound (coverage_of claims) p \<le> c
      \<longleftrightarrow> Max (insert 0 (backing claims p (\<lambda>n s. True))) \<le> c" for c
    using none by (simp add: run_wide_bound_def initial_watermark_ms_def backing_raw)
  then show ?thesis by (rule eq_by_upper_bounds)
next
  case (some by_node)
  let ?b = "run_wide_bound (coverage_of claims) p"
  have b: "?b = map_or 0 id (max_by_key id (tops (\<lambda>n. True) (prepared by_node)))"
    by (simp add: run_wide_bound_def some(3) tops_def initial_watermark_ms_def split_beta)
  have le: "?b \<le> c \<and> 0 \<le> c \<longleftrightarrow> 0 \<le> c \<and> (\<forall>ms\<in>backing claims p (\<lambda>n s. True). ms \<le> c)" for c
    unfolding b tops_le[OF some(1)] some(2) backing_raw by simp
  moreover have "0 \<le> ?b" unfolding b by (rule tops_nonneg)
  ultimately have "?b \<le> c \<longleftrightarrow> Max (insert 0 (backing claims p (\<lambda>n s. True))) \<le> c" for c
    by (auto intro: order_trans)
  then show ?thesis by (rule eq_by_upper_bounds)
qed

lemma advertisement_bound:
  "bound_for_advertisement (coverage_of claims) p node seq
     = Max (insert 0 (backing claims p (\<lambda>n s. n \<noteq> node \<or> s < seq)))"
proof (cases rule: coverage_at[of claims p])
  case none
  have "bound_for_advertisement (coverage_of claims) p node seq \<le> c
      \<longleftrightarrow> Max (insert 0 (backing claims p (\<lambda>n s. n \<noteq> node \<or> s < seq))) \<le> c" for c
    using none by (simp add: bound_for_advertisement_def initial_watermark_ms_def backing_raw)
  then show ?thesis by (rule eq_by_upper_bounds)
next
  case (some by_node)
  let ?others = "map_or 0 id (max_by_key id (tops (\<lambda>n. n \<noteq> node) (prepared by_node)))"
  let ?own = "own_prefix (running_loop 0 (sort_key fst (raw_lines (sources claims) p node))) seq"
  have own: "map_or 0 (\<lambda>lines. own_prefix lines seq) (bt_get (prepared by_node) node) = ?own"
    using some(2)[of node]
    by (cases "bt_get by_node node")
      (auto simp: bt_get_map_entries own_prefix_def partition_point_def initial_watermark_ms_def)
  have b: "bound_for_advertisement (coverage_of claims) p node seq = max ?others ?own"
    using own by (simp add: bound_for_advertisement_def some(3) tops_def initial_watermark_ms_def split_beta Let_def)
  have "max ?others ?own \<le> c \<longleftrightarrow> (?others \<le> c \<and> 0 \<le> c) \<and> ?own \<le> c" for c
    by (auto simp: own_prefix_le)
  also have "\<dots> c \<longleftrightarrow> 0 \<le> c \<and> (\<forall>ms\<in>backing claims p (\<lambda>n s. n \<noteq> node \<or> s < seq). ms \<le> c)" for c
    unfolding tops_le[OF some(1)] some(2) own_prefix_le backing_raw by fast
  finally have "max ?others ?own \<le> c
      \<longleftrightarrow> Max (insert 0 (backing claims p (\<lambda>n s. n \<noteq> node \<or> s < seq))) \<le> c" for c
    by simp
  then show ?thesis unfolding b by (rule eq_by_upper_bounds)
qed

section \<open>What a pass certifies\<close>

definition honest_claim :: "wm_coverage \<Rightarrow> claim \<Rightarrow> bool" where
  "honest_claim coverage c \<longleftrightarrow> wc_complete_through_ms (cl_watermark c)
     \<le> bound_for_advertisement coverage (wc_partition (cl_watermark c)) (cl_node c) (cl_seq c)"

lemma claim_fold:
  assumes "fold (claim_step coverage) cs (t, fs) = (t', fs')"
  shows "t' = t\<lparr>ta_advertisements := ta_advertisements t + length cs\<rparr>
     \<and> (fs' = [] \<longleftrightarrow> fs = [] \<and> (\<forall>c\<in>set cs. honest_claim coverage c))"
  using assms
proof (induction cs arbitrary: t fs)
  case (Cons c cs)
  obtain t1 fs1 where step: "claim_step coverage c (t, fs) = (t1, fs1)" by fastforce
  then have "t1 = t\<lparr>ta_advertisements := ta_advertisements t + 1\<rparr>
      \<and> (fs1 = [] \<longleftrightarrow> fs = [] \<and> honest_claim coverage c)"
    by (auto simp: claim_step_def Let_def honest_claim_def split: if_splits)
  moreover from step Cons.prems have "fold (claim_step coverage) cs (t1, fs1) = (t', fs')" by simp
  ultimately show ?case using Cons.IH[of t1 fs1] by auto
qed simp

definition complete_served :: "read_record \<Rightarrow> bool" where
  "complete_served rr \<longleftrightarrow> rr_concern rr = Complete \<and> is_Served (rr_outcome rr)"

text \<open>A read is served over coverage that existed and, outside a declared loss, holds what is owed.\<close>

definition owes :: "owed_batch list \<Rightarrow> read_record \<Rightarrow> owed_batch set" where
  "owes owed rr = {batch \<in> set owed. ob_partition batch = rr_partition rr
     \<and> ri_tenant (ob_identity batch) = rr_tenant rr
     \<and> ob_max_event_time_ms batch \<le> served_complete_through_ms (rr_outcome rr)}"

definition honest_read :: "wm_coverage \<Rightarrow> loss_scope \<Rightarrow> owed_batch list \<Rightarrow> read_record \<Rightarrow> bool" where
  "honest_read coverage loss owed rr \<longleftrightarrow>
     served_complete_through_ms (rr_outcome rr) \<le> run_wide_bound coverage (rr_partition rr)
     \<and> (excuses loss (rr_partition rr)
        \<or> (\<forall>batch\<in>owes owed rr. set (ob_record_keys batch) \<subseteq> set (served_record_keys (rr_outcome rr))))"

lemma map_filter_Nil: "List.map_filter f xs = [] \<longleftrightarrow> (\<forall>x\<in>set xs. f x = None)"
  by (auto simp: List.map_filter_def filter_empty_conv)

lemma missing_Nil:
  assumes "rr_outcome rr = Served ms keys"
  shows "missing_under_watermark rr ms keys owed = [] \<longleftrightarrow>
     (\<forall>batch\<in>owes owed rr. set (ob_record_keys batch) \<subseteq> set keys)"
  using assms
  by (auto simp: missing_under_watermark_def map_filter_Nil owes_def Let_def filter_empty_conv)

lemma read_step_eq:
  "read_step coverage loss owed rr (t, fs) = (t', fs') \<Longrightarrow>
     t' = (if complete_served rr
           then t\<lparr>ta_reads := ta_reads t + 1,
                  ta_missing_rule_reads := ta_missing_rule_reads t
                     + (if excuses loss (rr_partition rr) then 0 else 1)\<rparr>
           else t)
     \<and> (fs' = [] \<longleftrightarrow> fs = [] \<and> (complete_served rr \<longrightarrow> honest_read coverage loss owed rr))"
  by (cases "rr_outcome rr"; auto simp: read_step_def complete_served_def honest_read_def
        missing_Nil Let_def split: if_splits; blast)

lemma read_fold:
  assumes "fold (read_step coverage loss owed) rs (t, fs) = (t', fs')"
  shows "ta_advertisements t' = ta_advertisements t
     \<and> ta_reads t' = ta_reads t + length (filter complete_served rs)
     \<and> (0 < ta_missing_rule_reads t' \<longleftrightarrow> 0 < ta_missing_rule_reads t
         \<or> (\<exists>rr\<in>set rs. complete_served rr \<and> \<not> excuses loss (rr_partition rr)))
     \<and> (fs' = [] \<longleftrightarrow> fs = []
         \<and> (\<forall>rr\<in>set rs. complete_served rr \<longrightarrow> honest_read coverage loss owed rr))"
  using assms
proof (induction rs arbitrary: t fs)
  case (Cons rr rs)
  obtain t1 fs1 where step: "read_step coverage loss owed rr (t, fs) = (t1, fs1)"
    by (cases "read_step coverage loss owed rr (t, fs)")
  with Cons.prems have "fold (read_step coverage loss owed) rs (t1, fs1) = (t', fs')" by simp
  from Cons.IH[OF this] read_step_eq[OF step] show ?case by (auto split: if_splits)
qed simp

lemma loss_scope_excuses:
  "excuses (loss_scope_of journals) p \<longleftrightarrow>
     (\<exists>line\<in>set journals. jl_event line = TeDeclareLoss
        \<and> (case jl_watermark line of None \<Rightarrow> True | Some c \<Rightarrow> wc_partition c = p))"
proof -
  let ?f = "\<lambda>line scope.
      if jl_event line = TeDeclareLoss
      then case jl_watermark line of
             Some c \<Rightarrow> scope\<lparr>ls_partitions := wc_partition c # ls_partitions scope\<rparr>
           | None \<Rightarrow> scope\<lparr>ls_unknown := True\<rparr>
      else scope"
  have "excuses (fold ?f journals scope) p \<longleftrightarrow> excuses scope p \<or>
      (\<exists>line\<in>set journals. jl_event line = TeDeclareLoss
        \<and> (case jl_watermark line of None \<Rightarrow> True | Some c \<Rightarrow> wc_partition c = p))" for scope
    by (induction journals arbitrary: scope) (auto simp: excuses_def split: option.splits)
  then show ?thesis by (simp add: loss_scope_of_def excuses_def)
qed

lemma honesty_pass_iff:
  fixes journals reads
  defines "claims \<equiv> claims_of journals"
  defines "adverts \<equiv> filter is_advertisement claims"
    and "served \<equiv> filter complete_served reads"
    and "loss \<equiv> loss_scope_of journals"
  shows "watermark_honesty_check journals reads = Pass n \<longleftrightarrow>
     n = length adverts + length served \<and> adverts \<noteq> []
     \<and> (\<exists>rr\<in>set served. \<not> excuses loss (rr_partition rr))
     \<and> (\<forall>c\<in>set adverts. honest_claim (coverage_of claims) c)
     \<and> (\<forall>rr\<in>set served. honest_read (coverage_of claims) loss (owed_batches journals) rr)"
proof -
  define t0 :: tally where "t0 = \<lparr>ta_advertisements = 0, ta_reads = 0, ta_missing_rule_reads = 0\<rparr>"
  obtain t1 fs1 where one: "fold (claim_step (coverage_of claims)) adverts (t0, []) = (t1, fs1)"
    by fastforce
  obtain t fs where two:
    "fold (read_step (coverage_of claims) loss (owed_batches journals)) reads (t1, fs1) = (t, fs)"
    by fastforce
  have run: "watermark_honesty_check journals reads =
      (if claims = [] then NoVerdict ''no watermark value''
       else if fs \<noteq> [] then Violation fs
       else case tally_vacuity t of
              Some vacuous \<Rightarrow> vacuous
            | None \<Rightarrow> verdict_pass (ta_advertisements t + ta_reads t) ''nothing was checked'')"
    using one two by (simp add: watermark_honesty_check_def Let_def claims_def adverts_def loss_def t0_def)
  note c = claim_fold[OF one] and r = read_fold[OF two]
  have counts: "ta_advertisements t = length adverts" "ta_reads t = length served"
    "0 < ta_missing_rule_reads t \<longleftrightarrow> (\<exists>rr\<in>set served. \<not> excuses loss (rr_partition rr))"
    using c r by (auto simp: t0_def served_def)
  have clean: "fs = [] \<longleftrightarrow> (\<forall>c\<in>set adverts. honest_claim (coverage_of claims) c)
      \<and> (\<forall>rr\<in>set served. honest_read (coverage_of claims) loss (owed_batches journals) rr)"
    using c r by (auto simp: served_def)
  have "watermark_honesty_check journals reads = Pass n \<longleftrightarrow> fs = [] \<and> adverts \<noteq> []
      \<and> served \<noteq> [] \<and> 0 < ta_missing_rule_reads t \<and> n = length adverts + length served"
    by (auto simp: run tally_vacuity_def verdict_pass_def counts(1,2) adverts_def)
  then show ?thesis unfolding counts(3) clean by auto
qed

text \<open>
  C27 (Watermark honesty). The judge passes a run exactly when a watermark was advertised and a
  \<open>complete\<close> read was served outside every declared loss, and: each advertised value is at most 0 or
  at most a value committed for its partition by another node, or by the same node on an earlier
  line; no \<open>complete\<close> read was served above what was committed for its partition; and each read
  outside a declared loss holds every record of every batch acknowledged to its tenant for its
  partition with an event time the read's watermark has passed and the disclosed one had not.
\<close>
theorem watermark_honesty_pass_iff:
  fixes journals reads
  defines "adverts \<equiv> filter is_advertisement (claims_of journals)"
    and "served \<equiv> filter complete_served reads"
  shows "watermark_honesty_check journals reads = Pass n \<longleftrightarrow>
     n = length adverts + length served \<and> adverts \<noteq> []
     \<and> (\<exists>rr\<in>set served. \<not> excuses (loss_scope_of journals) (rr_partition rr))
     \<and> (\<forall>c\<in>set adverts. wc_complete_through_ms (cl_watermark c)
          \<le> Max (insert 0 (backing (claims_of journals) (wc_partition (cl_watermark c))
                             (\<lambda>node seq. node \<noteq> cl_node c \<or> seq < cl_seq c))))
     \<and> (\<forall>rr\<in>set served.
          served_complete_through_ms (rr_outcome rr)
            \<le> Max (insert 0 (backing (claims_of journals) (rr_partition rr) (\<lambda>node seq. True)))
          \<and> (excuses (loss_scope_of journals) (rr_partition rr)
             \<or> (\<forall>batch\<in>owes (owed_batches journals) rr.
                  set (ob_record_keys batch) \<subseteq> set (served_record_keys (rr_outcome rr)))))"
  unfolding adverts_def served_def honesty_pass_iff honest_claim_def honest_read_def
    advertisement_bound run_wide_bound_exact ..

theorem watermark_honesty_pass_iff_witness:
  "watermark_honesty_check demo_journals demo_reads = Pass 6
   \<and> 60 \<le> Max (insert 0 (backing (claims_of demo_journals) (PartitionId ''p'') (\<lambda>node seq. True)))"
proof
  show pass: "watermark_honesty_check demo_journals demo_reads = Pass 6" by code_simp
  have "demo_read 0 0 5 \<in> set (filter complete_served demo_reads)"
    by (simp add: demo_reads_def complete_served_def demo_read_def)
  with pass have "served_complete_through_ms (rr_outcome (demo_read 0 0 5))
      \<le> Max (insert 0 (backing (claims_of demo_journals) (rr_partition (demo_read 0 0 5)) (\<lambda>node seq. True)))"
    unfolding watermark_honesty_pass_iff by blast
  then show "60 \<le> Max (insert 0 (backing (claims_of demo_journals) (PartitionId ''p'') (\<lambda>node seq. True)))"
    by (simp add: demo_read_def)
qed

end
