(* ===== verification/Judge_Latest.thy ===== *)
theory Judge_Latest
  imports Judge_Demo
begin

text \<open>
  The two predicates on changelog datasets: \<open>predicates/latest_view.rs\<close> (the latest view serves,
  for every acknowledged row, the value of the entry that wins the fold by origin and sequence
  number) and \<open>predicates/retention_honesty.rs\<close> (no part of a changelog expires before a committed
  snapshot covers its arrival ranges, and no acknowledged row loses its last value through an
  expiry). The latest view and the committed parts are functions.

  \<open>fold_winners_greatest\<close> relates the fold to the greatest entry of each row;
  \<open>latest_loop_ok\<close> and \<open>last_values_loop_ok\<close> say what the loops over the winners count and find.
\<close>

section \<open>The fold of the changelog\<close>

type_synonym row_key = "dataset_id \<times> tenant_id \<times> string"
type_synonym record_slot = "dataset_id \<times> partition_id \<times> node_id \<times> u64"

record latest_view_finding =
  lv_row :: row_key
  lv_expected :: "string option"
  lv_served :: "string option"

definition slot_of :: "changelog_entry \<Rightarrow> record_slot" where
  "slot_of entry = (ce_dataset entry, ce_partition entry, ce_origin entry, ce_changelog_seq entry)"

definition row_of :: "changelog_entry \<Rightarrow> row_key" where
  "row_of entry = (ce_dataset entry, ce_tenant entry, ce_changelog_key entry)"

definition fold_order :: "changelog_entry \<Rightarrow> node_id \<times> u64" where
  "fold_order entry = (ce_origin entry, ce_changelog_seq entry)"

fun dedup_loop ::
  "changelog_entry list \<Rightarrow> (record_slot, changelog_entry) btree
     \<Rightarrow> (string, (record_slot, changelog_entry) btree) result" where
  "dedup_loop [] by_record = Inr by_record"
| "dedup_loop (entry # acked) by_record =
     (case bt_get by_record (slot_of entry) of
        Some previous \<Rightarrow>
          (if previous \<noteq> entry then Inl ''record acked twice with different content''
           else dedup_loop acked (bt_insert (slot_of entry) entry by_record))
      | None \<Rightarrow> dedup_loop acked (bt_insert (slot_of entry) entry by_record))"

definition dedup_records ::
  "changelog_entry list \<Rightarrow> (string, (record_slot, changelog_entry) btree) result" where
  "dedup_records acked = dedup_loop acked bt_empty"

definition winner_step ::
  "changelog_entry \<Rightarrow> (row_key, changelog_entry) btree \<Rightarrow> (row_key, changelog_entry) btree" where
  "winner_step entry winners =
     (case bt_get winners (row_of entry) of
        Some seen \<Rightarrow> (if fold_order entry \<le> fold_order seen then winners
                      else bt_insert (row_of entry) entry winners)
      | None \<Rightarrow> bt_insert (row_of entry) entry winners)"

definition fold_winners ::
  "(record_slot, changelog_entry) btree \<Rightarrow> (row_key, changelog_entry) btree" where
  "fold_winners by_record = fold winner_step (map snd by_record) bt_empty"

definition winning_value :: "changelog_entry \<Rightarrow> string option" where
  "winning_value entry = (if ce_tombstone entry then None else ce_value entry)"

definition unresolved_rows :: "journal_set \<Rightarrow> row_key list" where
  "unresolved_rows journals =
     btset_of (map (\<lambda>(line, entry). row_of entry) (changelog_events journals TeClientTimeout))"

definition acked_entries :: "journal_set \<Rightarrow> changelog_entry list" where
  "acked_entries journals = map snd (changelog_events journals TeClientAck)"

section \<open>The latest view\<close>

definition served_value :: "(dataset_id, served_view) btree \<Rightarrow> row_key \<Rightarrow> string option" where
  "served_value served_views row =
     (case row of (dataset, tenant, key) \<Rightarrow>
        Option.bind (bt_get served_views dataset) (\<lambda>view.
          Option.bind (bt_get view tenant) (\<lambda>rows. bt_get rows key)))"

fun read_views ::
  "latest_view \<Rightarrow> dataset_id list \<Rightarrow> (dataset_id, served_view) btree
     \<Rightarrow> (string, (dataset_id, served_view) btree) result" where
  "read_views view [] served_views = Inr served_views"
| "read_views view (dataset # datasets) served_views =
     (case view dataset of
        Inl e \<Rightarrow> Inl ''latest-view query failed''
      | Inr rows \<Rightarrow> read_views view datasets (bt_insert dataset rows served_views))"

fun latest_loop ::
  "row_key list \<Rightarrow> (dataset_id, served_view) btree \<Rightarrow> (row_key \<times> changelog_entry) list
     \<Rightarrow> nat \<Rightarrow> latest_view_finding list \<Rightarrow> nat \<times> latest_view_finding list" where
  "latest_loop unresolved served_views [] checked findings = (checked, findings)"
| "latest_loop unresolved served_views ((row, winner) # winners) checked findings =
     (if row \<in> set unresolved then latest_loop unresolved served_views winners checked findings
      else
        (let expected = winning_value winner; served = served_value served_views row in
         latest_loop unresolved served_views winners (checked + 1)
           (if served \<noteq> expected
            then findings @ [\<lparr>lv_row = row, lv_expected = expected, lv_served = served\<rparr>]
            else findings)))"

definition latest_view_check :: "journal_set \<Rightarrow> latest_view \<Rightarrow> latest_view_finding verdict" where
  "latest_view_check journals view =
     (let acked = acked_entries journals in
      if acked = [] then NoVerdict ''no acked changelog entry''
      else case dedup_records acked of
        Inl reason \<Rightarrow> NoVerdict reason
      | Inr by_record \<Rightarrow>
          (let unresolved = unresolved_rows journals;
               winners = fold_winners by_record;
               datasets = btset_of (map (\<lambda>(row, winner). fst row) winners)
           in case read_views view datasets bt_empty of
                Inl reason \<Rightarrow> NoVerdict reason
              | Inr served_views \<Rightarrow>
                  (let (checked, findings) = latest_loop unresolved served_views winners 0 [] in
                   if findings = [] then verdict_pass checked ''every acked row timed out''
                   else Violation findings)))"

section \<open>Retention\<close>

datatype retention_finding =
    UncoveredExpiry dataset_id partition_id part_name "origin_seq_range list" nat
  | LastValueUnreachable row_key "string option" "string option" part_name

definition covers_arrival :: "committed_snapshot \<Rightarrow> origin_seq_range list \<Rightarrow> bool" where
  "covers_arrival snapshot expired =
     list_all (\<lambda>r. list_ex (\<lambda>covering.
         osr_origin covering = osr_origin r
         \<and> osr_first_seq covering \<le> osr_first_seq r
         \<and> osr_last_seq r \<le> osr_last_seq covering) (cs_origin_coverage snapshot)) expired"

definition coverage_contains :: "origin_seq_range list \<Rightarrow> changelog_entry \<Rightarrow> bool" where
  "coverage_contains coverage entry =
     list_ex (\<lambda>r. osr_origin r = ce_origin entry
                   \<and> osr_first_seq r \<le> ce_changelog_seq entry
                   \<and> ce_changelog_seq entry \<le> osr_last_seq r) coverage"

definition expired_holder :: "part_retention list \<Rightarrow> row_key \<Rightarrow> changelog_entry \<Rightarrow> part_retention option" where
  "expired_holder expired row winner =
     List.find (\<lambda>part. pr_dataset part = fst row \<and> pr_partition part = ce_partition winner
                       \<and> coverage_contains (pr_origin_coverage part) winner) expired"

definition cached_view ::
  "latest_view \<Rightarrow> (dataset_id, served_view) btree \<Rightarrow> dataset_id
     \<Rightarrow> (string, (dataset_id, served_view) btree) result" where
  "cached_view view served_views dataset =
     (if bt_get served_views dataset \<noteq> None then Inr served_views
      else case view dataset of
             Inl e \<Rightarrow> Inl ''latest-view query failed''
           | Inr rows \<Rightarrow> Inr (bt_insert dataset rows served_views))"

fun last_values_loop ::
  "latest_view \<Rightarrow> row_key list \<Rightarrow> part_retention list \<Rightarrow> (row_key \<times> changelog_entry) list
     \<Rightarrow> (dataset_id, served_view) btree \<Rightarrow> nat \<Rightarrow> retention_finding list
     \<Rightarrow> (string, nat \<times> retention_finding list) result" where
  "last_values_loop view unresolved expired [] served_views checked findings = Inr (checked, findings)"
| "last_values_loop view unresolved expired ((row, winner) # winners) served_views checked findings =
     (if row \<in> set unresolved
      then last_values_loop view unresolved expired winners served_views checked findings
      else case expired_holder expired row winner of
        None \<Rightarrow> last_values_loop view unresolved expired winners served_views checked findings
      | Some holder \<Rightarrow>
          (case cached_view view served_views (fst row) of
             Inl e \<Rightarrow> Inl e
           | Inr served_views' \<Rightarrow>
               (let expected = winning_value winner; served = served_value served_views' row in
                last_values_loop view unresolved expired winners served_views' (checked + 1)
                  (if served \<noteq> expected
                   then findings @ [LastValueUnreachable row expected served (pr_part holder)]
                   else findings))))"

definition check_last_values ::
  "journal_set \<Rightarrow> part_retention list \<Rightarrow> latest_view \<Rightarrow> (string, nat \<times> retention_finding list) result" where
  "check_last_values journals expired view =
     (let acked = acked_entries journals in
      if acked = [] then Inr (0, [])
      else case dedup_records acked of
             Inl reason \<Rightarrow> Inl reason
           | Inr by_record \<Rightarrow>
               last_values_loop view (unresolved_rows journals) expired (fold_winners by_record)
                 bt_empty 0 [])"

definition is_guarded :: "part_retention \<Rightarrow> bool" where
  "is_guarded part \<longleftrightarrow> pr_dataset_kind part = Changelog \<and> pr_part_kind part \<noteq> Snapshot"

type_synonym covering_map = "(dataset_id \<times> partition_id, committed_snapshot list) btree"

fun read_snapshots ::
  "committed_parts \<Rightarrow> (dataset_id \<times> partition_id) list \<Rightarrow> covering_map \<Rightarrow> (string, covering_map) result" where
  "read_snapshots parts [] covering = Inr covering"
| "read_snapshots parts (scope # scopes) covering =
     (case parts (fst scope) (snd scope) of
        Inl e \<Rightarrow> Inl ''committed-parts query failed''
      | Inr snapshots \<Rightarrow> read_snapshots parts scopes (bt_insert scope snapshots covering))"

definition expiry_finding :: "covering_map \<Rightarrow> part_retention \<Rightarrow> retention_finding option" where
  "expiry_finding covering part =
     (let snapshots = map_or [] id (bt_get covering (pr_dataset part, pr_partition part)) in
      if \<not> list_ex (\<lambda>snapshot. covers_arrival snapshot (pr_origin_coverage part)) snapshots
      then Some (UncoveredExpiry (pr_dataset part) (pr_partition part) (pr_part part)
                   (pr_origin_coverage part) (length snapshots))
      else None)"

definition retention_honesty_check ::
  "journal_set \<Rightarrow> committed_parts \<Rightarrow> latest_view \<Rightarrow> retention_finding verdict" where
  "retention_honesty_check journals parts view =
     (let expired = map snd (part_events journals TeExpire) in
      if expired = [] then NoVerdict ''no Expire line''
      else
        (let guarded = filter is_guarded expired;
             scopes = btset_of (map (\<lambda>part. (pr_dataset part, pr_partition part)) guarded)
         in case read_snapshots parts scopes bt_empty of
              Inl reason \<Rightarrow> NoVerdict reason
            | Inr covering \<Rightarrow>
                (case check_last_values journals expired view of
                   Inl reason \<Rightarrow> NoVerdict reason
                 | Inr (rows_checked, row_findings) \<Rightarrow>
                     (let findings = List.map_filter (expiry_finding covering) guarded @ row_findings;
                          expiries_checked = length guarded
                      in if findings \<noteq> [] then Violation findings
                         else if expiries_checked = 0 then NoVerdict ''no guarded expiry''
                         else if rows_checked = 0 then NoVerdict ''no winner in an expired part''
                         else verdict_pass (expiries_checked + rows_checked) ''nothing was checked''))))"

section \<open>The winners are the greatest entries\<close>

lemma dedup_loop_ok:
  assumes "dedup_loop acked m = Inr by_record" and "bt_wf m"
  shows "bt_wf by_record \<and> snd ` set by_record = snd ` set m \<union> set acked"
  using assms
proof (induction acked arbitrary: m)
  case (Cons entry acked)
  from Cons.prems have same: "bt_get m (slot_of entry) \<in> {None, Some entry}"
    and rest: "dedup_loop acked (bt_insert (slot_of entry) entry m) = Inr by_record"
    by (auto split: option.splits if_splits)
  have "snd ` set (bt_insert (slot_of entry) entry m) = insert entry (snd ` set m)"
  proof (cases "bt_get m (slot_of entry)")
    case None
    then show ?thesis by (simp add: bt_insert_fresh)
  next
    case (Some e)
    then show ?thesis using same Cons.prems(2) bt_get_SomeD[OF Some]
      by (force simp: bt.insert_lookup image_iff)
  qed
  with Cons.IH[OF rest] Cons.prems(2) show ?case by simp
qed simp

fun greatest_of :: "changelog_entry set \<Rightarrow> row_key \<Rightarrow> changelog_entry option \<Rightarrow> bool" where
  "greatest_of S row None \<longleftrightarrow> row \<notin> row_of ` S"
| "greatest_of S row (Some e) \<longleftrightarrow> e \<in> S \<and> row_of e = row
     \<and> (\<forall>e'\<in>S. row_of e' = row \<longrightarrow> fold_order e' \<le> fold_order e)"

lemma greatest_of_other:
  "row_of x \<noteq> row \<Longrightarrow> greatest_of S row r \<Longrightarrow> greatest_of (insert x S) row r"
  by (cases r) auto

lemma winner_step_greatest:
  assumes "\<And>row. greatest_of S row (bt_get m row)"
  shows "greatest_of (insert x S) row (bt_get (winner_step x m) row)"
proof (cases "row = row_of x")
  case True
  then show ?thesis using assms[of row]
    by (cases "bt_get m row") (auto simp: winner_step_def image_iff intro: order_trans)
next
  case False
  then have "bt_get (winner_step x m) row = bt_get m row"
    by (simp add: winner_step_def split: option.splits)
  with False assms[of row] greatest_of_other[of x row S "bt_get m row"] show ?thesis by simp
qed

lemma fold_winner_step:
  "bt_wf m \<Longrightarrow> (\<And>row. greatest_of S row (bt_get m row)) \<Longrightarrow>
     bt_wf (fold winner_step entries m)
     \<and> greatest_of (S \<union> set entries) row (bt_get (fold winner_step entries m) row)"
proof (induction entries arbitrary: m S)
  case (Cons x entries)
  have "bt_wf (winner_step x m)"
    using Cons.prems(1) by (simp add: winner_step_def split: option.splits)
  from Cons.IH[OF this winner_step_greatest[OF Cons.prems(2)]] show ?case by simp
qed simp

lemma fold_winners_greatest:
  assumes "dedup_records acked = Inr by_record"
  shows "bt_wf (fold_winners by_record)"
    and "greatest_of (set acked) row (bt_get (fold_winners by_record) row)"
proof -
  have entries: "set (map snd by_record) = set acked"
    using dedup_loop_ok[of acked bt_empty by_record] assms
    by (simp add: dedup_records_def bt_empty_def)
  have "bt_wf (bt_empty :: (row_key, changelog_entry) btree)"
    and "greatest_of {} r (bt_get bt_empty r)" for r
    by (simp_all add: bt_empty_def)
  from fold_winner_step[OF this, of "map snd by_record", folded fold_winners_def]
  show "bt_wf (fold_winners by_record)"
    and "greatest_of (set acked) row (bt_get (fold_winners by_record) row)"
    unfolding entries by simp_all
qed

section \<open>What the loops establish\<close>

lemma read_views_ok:
  assumes "read_views view datasets m = Inr served_views"
    and "\<And>d v. bt_get m d = Some v \<Longrightarrow> view d = Inr v"
  shows "\<And>d v. bt_get served_views d = Some v \<Longrightarrow> view d = Inr v"
    and "\<And>d. d \<in> set datasets \<Longrightarrow> bt_get served_views d \<noteq> None"
    and "\<And>d. bt_get m d \<noteq> None \<Longrightarrow> bt_get served_views d \<noteq> None"
proof -
  have "(\<forall>d v. bt_get served_views d = Some v \<longrightarrow> view d = Inr v)
      \<and> (\<forall>d. d \<in> set datasets \<or> bt_get m d \<noteq> None \<longrightarrow> bt_get served_views d \<noteq> None)"
    using assms
  proof (induction datasets arbitrary: m)
    case (Cons d datasets)
    from Cons.prems(1) obtain v where v: "view d = Inr v"
      and rest: "read_views view datasets (bt_insert d v m) = Inr served_views"
      by (auto split: sum.splits)
    have "view d' = Inr v'" if "bt_get (bt_insert d v m) d' = Some v'" for d' v'
      using that v Cons.prems(2) by (auto split: if_splits)
    from Cons.IH[OF rest this] show ?case by auto
  qed auto
  then show "\<And>d v. bt_get served_views d = Some v \<Longrightarrow> view d = Inr v"
    and "\<And>d. d \<in> set datasets \<Longrightarrow> bt_get served_views d \<noteq> None"
    and "\<And>d. bt_get m d \<noteq> None \<Longrightarrow> bt_get served_views d \<noteq> None"
    by blast+
qed

text \<open>The value a row has in the view of its dataset, when that view can be read.\<close>

definition view_value :: "latest_view \<Rightarrow> row_key \<Rightarrow> (string, string option) result" where
  "view_value view row =
     (case view (fst row) of
        Inl e \<Rightarrow> Inl e
      | Inr served \<Rightarrow> Inr (Option.bind (bt_get served (fst (snd row)))
                              (\<lambda>rows. bt_get rows (snd (snd row)))))"

lemma served_value_view:
  assumes "bt_get served_views (fst row) = Some v" and "view (fst row) = Inr v"
  shows "view_value view row = Inr (served_value served_views row)"
  using assms by (cases row) (simp add: view_value_def served_value_def)

lemma latest_loop_ok:
  "latest_loop unresolved served_views winners checked findings = (n, fs) \<Longrightarrow>
     n = checked + length (filter (\<lambda>(row, w). row \<notin> set unresolved) winners)
     \<and> (fs = [] \<longleftrightarrow> findings = [] \<and> (\<forall>(row, w)\<in>set winners.
          row \<notin> set unresolved \<longrightarrow> served_value served_views row = winning_value w))"
proof (induction winners arbitrary: checked findings)
  case (Cons x winners)
  obtain row w where x: "x = (row, w)" by (cases x)
  show ?case
  proof (cases "row \<in> set unresolved")
    case True
    then show ?thesis using Cons x by simp
  next
    case False
    let ?fs = "if served_value served_views row \<noteq> winning_value w
      then findings @ [\<lparr>lv_row = row, lv_expected = winning_value w,
                        lv_served = served_value served_views row\<rparr>] else findings"
    from Cons.prems False x have "latest_loop unresolved served_views winners (checked + 1) ?fs = (n, fs)"
      by (simp add: Let_def)
    from Cons.IH[OF this] False x show ?thesis by auto
  qed
qed simp

lemma cached_view_ok:
  assumes "cached_view view m d = Inr m'" and "\<And>d v. bt_get m d = Some v \<Longrightarrow> view d = Inr v"
  shows "(\<forall>d v. bt_get m' d = Some v \<longrightarrow> view d = Inr v) \<and> (\<exists>v. bt_get m' d = Some v)"
  using assms by (auto simp: cached_view_def split: if_splits sum.splits option.splits)

definition at_risk :: "row_key list \<Rightarrow> part_retention list \<Rightarrow> row_key \<times> changelog_entry \<Rightarrow> bool" where
  "at_risk unresolved expired x \<longleftrightarrow>
     fst x \<notin> set unresolved \<and> expired_holder expired (fst x) (snd x) \<noteq> None"

lemma last_values_loop_ok:
  "last_values_loop view unresolved expired winners m checked findings = Inr (n, fs) \<Longrightarrow>
   (\<And>d v. bt_get m d = Some v \<Longrightarrow> view d = Inr v) \<Longrightarrow>
     n = checked + length (filter (at_risk unresolved expired) winners)
     \<and> (fs = [] \<longleftrightarrow> findings = [] \<and> (\<forall>x\<in>set winners. at_risk unresolved expired x
          \<longrightarrow> view_value view (fst x) = Inr (winning_value (snd x))))"
proof (induction winners arbitrary: m checked findings)
  case (Cons x winners)
  obtain row w where x: "x = (row, w)" by (cases x)
  show ?case
  proof (cases "at_risk unresolved expired x")
    case False
    then have "last_values_loop view unresolved expired winners m checked findings = Inr (n, fs)"
      using Cons.prems(1) x by (auto simp: at_risk_def split: if_splits)
    from Cons.IH[OF this Cons.prems(2)] False show ?thesis by simp
  next
    case True
    then obtain holder where holder: "row \<notin> set unresolved" "expired_holder expired row w = Some holder"
      using x by (auto simp: at_risk_def)
    with Cons.prems(1) x obtain m' where m': "cached_view view m (fst row) = Inr m'"
      and rest: "last_values_loop view unresolved expired winners m' (checked + 1)
          (if served_value m' row \<noteq> winning_value w
           then findings @ [LastValueUnreachable row (winning_value w) (served_value m' row) (pr_part holder)]
           else findings) = Inr (n, fs)"
      by (auto simp: Let_def split: sum.splits)
    from cached_view_ok[OF m' Cons.prems(2)] obtain v where
      agree: "\<And>d v. bt_get m' d = Some v \<Longrightarrow> view d = Inr v" and v: "bt_get m' (fst row) = Some v"
      by blast
    have "view_value view row = Inr (served_value m' row)"
      using served_value_view[where row = row and view = view, OF v agree[OF v]] .
    with Cons.IH[OF rest agree] True x show ?thesis by auto
  qed
qed simp

lemma read_snapshots_ok:
  "read_snapshots parts scopes m = Inr covering \<Longrightarrow>
   (\<forall>s\<in>set scopes. \<exists>snapshots. parts (fst s) (snd s) = Inr snapshots \<and> bt_get covering s = Some snapshots)
   \<and> (\<forall>s. s \<notin> set scopes \<longrightarrow> bt_get covering s = bt_get m s)"
proof (induction scopes arbitrary: m)
  case (Cons s scopes)
  from Cons.prems obtain snapshots where "parts (fst s) (snd s) = Inr snapshots"
    and "read_snapshots parts scopes (bt_insert s snapshots m) = Inr covering"
    by (auto split: sum.splits)
  with Cons.IH[OF this(2)] show ?case by (cases s; cases "s \<in> set scopes") auto
qed simp

section \<open>What a pass certifies\<close>

lemma dedup_loop_iff:
  "bt_wf m \<Longrightarrow> (\<And>s e. bt_get m s = Some e \<Longrightarrow> s = slot_of e) \<Longrightarrow>
     \<not> isl (dedup_loop acked m) \<longleftrightarrow> inj_on slot_of (snd ` set m \<union> set acked)"
proof (induction acked arbitrary: m)
  case Nil
  have "e = e'" if "(s, e) \<in> set m" "(s', e') \<in> set m" "slot_of e = slot_of e'" for s s' e e'
    using that Nil bt_get_Some[OF Nil(1)] by (metis option.inject)
  then show ?case by (force intro!: inj_onI)
next
  case (Cons x acked)
  show ?case
  proof (cases "bt_get m (slot_of x) \<in> {None, Some x}")
    case True
    let ?m = "bt_insert (slot_of x) x m"
    have get: "bt_get ?m s = Some e \<Longrightarrow> s = slot_of e" for s e
      using Cons.prems(2) by (auto split: if_splits)
    have "snd ` set ?m = insert x (snd ` set m)"
    proof (cases "bt_get m (slot_of x)")
      case (Some e)
      then show ?thesis using True Cons.prems(1) bt_get_SomeD[OF Some]
        by (force simp: bt.insert_lookup image_iff)
    qed (simp add: bt_insert_fresh)
    moreover have "dedup_loop (x # acked) m = dedup_loop acked ?m"
      using True by (auto split: option.splits)
    ultimately show ?thesis using Cons.IH[of ?m, OF _ get] Cons.prems(1) by simp
  next
    case False
    then obtain e where e: "bt_get m (slot_of x) = Some e" "e \<noteq> x" by auto
    then have "e \<in> snd ` set m" "slot_of e = slot_of x"
      using bt_get_SomeD[OF e(1)] Cons.prems(2)[OF e(1)] by force+
    then have "\<not> inj_on slot_of (snd ` set m \<union> set (x # acked))"
      using e(2) by (metis UnI1 UnI2 inj_onD list.set_intros(1))
    with e show ?thesis by simp
  qed
qed

lemma dedup_records_iff: "\<not> isl (dedup_records acked) \<longleftrightarrow> inj_on slot_of (set acked)"
  using dedup_loop_iff[of bt_empty acked] by (simp add: dedup_records_def bt_empty_def)

lemma winners_keys:
  assumes "dedup_records acked = Inr by_record"
  shows "fst ` set (fold_winners by_record) = row_of ` set acked"
proof (rule set_eqI)
  fix row
  have "bt_get (fold_winners by_record) row = None \<longleftrightarrow> row \<notin> row_of ` set acked"
    using fold_winners_greatest(2)[OF assms, of row]
    by (cases "bt_get (fold_winners by_record) row") auto
  then show "row \<in> fst ` set (fold_winners by_record) \<longleftrightarrow> row \<in> row_of ` set acked"
    unfolding bt_get_None by blast
qed

lemma winners_count:
  assumes "dedup_records acked = Inr by_record"
  shows "length (filter (\<lambda>(row, w). P row) (fold_winners by_record))
    = card {row \<in> row_of ` set acked. P row}"
proof -
  let ?f = "filter (\<lambda>(row, w). P row) (fold_winners by_record)"
  have "bt_wf ?f" using fold_winners_greatest(1)[OF assms] by simp
  then have "distinct (map fst ?f)" by (simp add: bt_wf_def ssorted_distinct)
  then have "length ?f = card (set (map fst ?f))" using distinct_card by fastforce
  also have "set (map fst ?f) = {row \<in> fst ` set (fold_winners by_record). P row}" by force
  finally show ?thesis unfolding winners_keys[OF assms] .
qed

text \<open>The acknowledged entry that comes last, of its row, in the order of the fold.\<close>

definition last_entry :: "changelog_entry list \<Rightarrow> changelog_entry \<Rightarrow> bool" where
  "last_entry acked e \<longleftrightarrow> e \<in> set acked
     \<and> (\<forall>e'\<in>set acked. row_of e' = row_of e \<longrightarrow> e' = e \<or> fold_order e' < fold_order e)"

definition no_ties :: "changelog_entry list \<Rightarrow> bool" where
  "no_ties acked \<longleftrightarrow> inj_on (\<lambda>e. (row_of e, fold_order e)) (set acked)"

lemma in_winners:
  assumes "dedup_records acked = Inr by_record" and "no_ties acked"
  shows "(row, e) \<in> set (fold_winners by_record) \<longleftrightarrow> row = row_of e \<and> last_entry acked e"
proof -
  note g = fold_winners_greatest(2)[OF assms(1)] and
    get = bt_get_Some[OF fold_winners_greatest(1)[OF assms(1)], symmetric]
  have tie: "e' = e''" if "e' \<in> set acked" "e'' \<in> set acked" "row_of e' = row_of e''"
    "fold_order e' = fold_order e''" for e' e''
    using that assms(2) by (auto simp: no_ties_def inj_on_def)
  show ?thesis
  proof
    assume "(row, e) \<in> set (fold_winners by_record)"
    with g[of row] have "e \<in> set acked" "row = row_of e"
      "\<And>e'. e' \<in> set acked \<Longrightarrow> row_of e' = row \<Longrightarrow> fold_order e' \<le> fold_order e"
      by (auto simp: get)
    then show "row = row_of e \<and> last_entry acked e"
      using tie by (fastforce simp: last_entry_def order_less_le)
  next
    assume e: "row = row_of e \<and> last_entry acked e"
    then have "bt_get (fold_winners by_record) row \<noteq> None"
      using g[of row] by (cases "bt_get (fold_winners by_record) row") (auto simp: last_entry_def)
    then obtain w where w: "bt_get (fold_winners by_record) row = Some w" by blast
    with g[of row] e have "w \<in> set acked" "row_of w = row_of e" "fold_order e \<le> fold_order w"
      by (auto simp: last_entry_def)
    with e have "w = e" by (auto simp: last_entry_def)
    with w show "(row, e) \<in> set (fold_winners by_record)" by (simp add: get)
  qed
qed

lemma ball_winners:
  assumes "dedup_records acked = Inr by_record" and "no_ties acked"
  shows "(\<forall>(row, w)\<in>set (fold_winners by_record). P row w) \<longleftrightarrow> (\<forall>e. last_entry acked e \<longrightarrow> P (row_of e) e)"
proof -
  have "(\<forall>(row, w)\<in>set (fold_winners by_record). P row w) \<longleftrightarrow>
      (\<forall>row w. (row, w) \<in> set (fold_winners by_record) \<longrightarrow> P row w)"
    by (simp add: Ball_def split_beta)
  then show ?thesis unfolding in_winners[OF assms] by blast
qed

lemma read_views_isl: "isl (read_views view ds m) \<longleftrightarrow> (\<exists>d\<in>set ds. isl (view d))"
  by (induction ds arbitrary: m) (auto split: sum.splits)

lemma view_value_served:
  assumes "read_views view datasets bt_empty = Inr served_views" and "fst row \<in> set datasets"
  shows "view_value view row = Inr (served_value served_views row)"
proof -
  have "bt_get served_views (fst row) \<noteq> None"
    by (rule read_views_ok(2)[OF assms(1) _ assms(2)]) (simp add: bt_empty_def)
  then obtain v where v: "bt_get served_views (fst row) = Some v" by blast
  have "view (fst row) = Inr v"
    by (rule read_views_ok(1)[OF assms(1) _ v]) (simp add: bt_empty_def)
  with served_value_view[where row = row and view = view, OF v] show ?thesis by blast
qed

text \<open>
  C28 (Latest view). When no two acknowledged changelog entries of a row share origin and sequence
  number, the judge passes a run exactly when no record was acknowledged with two contents, every
  dataset's latest view can be read, at least one row is free of timed-out writes, and for each
  such row the view serves the value of the row's last entry in the order of origin and sequence
  number (and nothing, if that entry is a tombstone).
\<close>
theorem latest_view_pass_iff:
  assumes "no_ties (acked_entries journals)"
  shows "latest_view_check journals view = Pass n \<longleftrightarrow>
     inj_on slot_of (set (acked_entries journals))
     \<and> (\<forall>e\<in>set (acked_entries journals). \<not> isl (view (ce_dataset e)))
     \<and> n = card {row \<in> row_of ` set (acked_entries journals). row \<notin> set (unresolved_rows journals)}
     \<and> 0 < n
     \<and> (\<forall>e. last_entry (acked_entries journals) e \<and> row_of e \<notin> set (unresolved_rows journals)
          \<longrightarrow> view_value view (row_of e) = Inr (winning_value e))"
proof (cases "dedup_records (acked_entries journals)")
  case (Inl reason)
  then have "\<not> inj_on slot_of (set (acked_entries journals))"
    using dedup_records_iff[of "acked_entries journals"] by simp
  with Inl show ?thesis by (simp add: latest_view_check_def Let_def)
next
  case (Inr by_record)
  let ?acked = "acked_entries journals" and ?un = "set (unresolved_rows journals)"
  let ?winners = "fold_winners by_record"
  let ?datasets = "btset_of (map (\<lambda>(row, winner). fst row) ?winners)"
  have inj: "inj_on slot_of (set ?acked)"
    using dedup_records_iff[of ?acked] Inr by simp
  have ds: "set ?datasets = ce_dataset ` set ?acked"
  proof -
    have "set ?datasets = fst ` fst ` set ?winners" by (auto simp: image_image split_beta)
    then show ?thesis unfolding winners_keys[OF Inr] by (simp add: image_image row_of_def)
  qed
  show ?thesis
  proof (cases "read_views view ?datasets bt_empty")
    case (Inl reason)
    then have "\<exists>e\<in>set ?acked. isl (view (ce_dataset e))"
      using read_views_isl[of view ?datasets bt_empty] unfolding ds by simp
    with Inl Inr show ?thesis by (auto simp: latest_view_check_def Let_def)
  next
    case served: (Inr served_views)
    then have readable: "\<forall>e\<in>set ?acked. \<not> isl (view (ce_dataset e))"
      using read_views_isl[of view ?datasets bt_empty] unfolding ds by simp
    obtain checked findings where
      loop: "latest_loop (unresolved_rows journals) served_views ?winners 0 [] = (checked, findings)"
      by fastforce
    note ok = latest_loop_ok[OF loop, unfolded winners_count[OF Inr]]
    have "(\<forall>(row, w)\<in>set ?winners. row \<notin> ?un \<longrightarrow> served_value served_views row = winning_value w)
        \<longleftrightarrow> (\<forall>e. last_entry ?acked e \<and> row_of e \<notin> ?un
              \<longrightarrow> served_value served_views (row_of e) = winning_value e)"
      unfolding ball_winners[OF Inr assms] by blast
    also have "\<dots> \<longleftrightarrow> (\<forall>e. last_entry ?acked e \<and> row_of e \<notin> ?un
              \<longrightarrow> view_value view (row_of e) = Inr (winning_value e))"
    proof -
      have "view_value view (row_of e) = Inr (served_value served_views (row_of e))"
        if "last_entry ?acked e" for e
        using that view_value_served[OF served] ds by (auto simp: last_entry_def row_of_def)
      then show ?thesis by auto
    qed
    finally have clean: "findings = [] \<longleftrightarrow> (\<forall>e. last_entry ?acked e \<and> row_of e \<notin> ?un
        \<longrightarrow> view_value view (row_of e) = Inr (winning_value e))"
      using ok by simp
    have count: "checked = card {row \<in> row_of ` set ?acked. row \<notin> ?un}" using ok by simp
    have "?acked = [] \<Longrightarrow> checked = 0" by (simp add: count)
    then have "latest_view_check journals view = Pass n
        \<longleftrightarrow> findings = [] \<and> n = checked \<and> 0 < n"
      using Inr served loop
      by (auto simp: latest_view_check_def Let_def verdict_pass_def)
    then show ?thesis using inj readable clean count by blast
  qed
qed

theorem latest_view_pass_iff_witness:
  "view_value (imv_view demo_views) (DatasetId ''d'', TenantId ''t'', ''k'') = Inr (Some ''v'')"
proof -
  have ties: "no_ties (acked_entries demo_journals)" by code_simp
  have pass: "latest_view_check demo_journals (imv_view demo_views) = Pass 1" by code_simp
  have acked: "acked_entries demo_journals = [demo_entry]" by code_simp
  have "last_entry (acked_entries demo_journals) demo_entry"
    and "row_of demo_entry \<notin> set (unresolved_rows demo_journals)"
    by (simp add: acked last_entry_def) code_simp
  with pass have "view_value (imv_view demo_views) (row_of demo_entry) = Inr (winning_value demo_entry)"
    unfolding latest_view_pass_iff[OF ties] by blast
  then show ?thesis by (simp add: demo_entry_def row_of_def winning_value_def)
qed

lemma expired_part:
  assumes "line \<in> set journals" and "jl_event line = event" and "jl_part line = Some part"
  shows "part \<in> set (map snd (part_events journals event))"
proof -
  have "(line, part) \<in> set (part_events journals event)" using assms by simp
  then show ?thesis unfolding set_map by (rule image_eqI[rotated]) simp
qed

lemma covers_arrival_seqs:
  "covers_arrival snapshot expired \<Longrightarrow> r \<in> set expired \<Longrightarrow> osr_first_seq r \<le> seq \<Longrightarrow>
     seq \<le> osr_last_seq r \<Longrightarrow>
     \<exists>c\<in>set (cs_origin_coverage snapshot). osr_origin c = osr_origin r
        \<and> osr_first_seq c \<le> seq \<and> seq \<le> osr_last_seq c"
  by (fastforce simp: covers_arrival_def list_all_iff list_ex_iff intro: order_trans)

lemma retention_pass_cases:
  assumes "retention_honesty_check journals parts view = Pass n"
  obtains covering rows by_record where
    "read_snapshots parts (btset_of (map (\<lambda>part. (pr_dataset part, pr_partition part))
        (filter is_guarded (map snd (part_events journals TeExpire))))) bt_empty = Inr covering"
    and "\<And>part. part \<in> set (map snd (part_events journals TeExpire)) \<Longrightarrow> is_guarded part \<Longrightarrow>
        expiry_finding covering part = None"
    and "dedup_records (acked_entries journals) = Inr by_record"
    and "last_values_loop view (unresolved_rows journals) (map snd (part_events journals TeExpire))
        (fold_winners by_record) bt_empty 0 [] = Inr (rows, [])"
    and "0 < rows"
proof -
  let ?expired = "map snd (part_events journals TeExpire)"
  from assms obtain covering rows where
    c: "read_snapshots parts (btset_of (map (\<lambda>part. (pr_dataset part, pr_partition part))
        (filter is_guarded ?expired))) bt_empty = Inr covering"
    and l: "check_last_values journals ?expired view = Inr (rows, [])" and r: "0 < rows"
    and e: "List.map_filter (expiry_finding covering) (filter is_guarded ?expired) = []"
    by (auto simp: retention_honesty_check_def Let_def split: if_splits sum.splits prod.splits)
  from l r obtain by_record where "dedup_records (acked_entries journals) = Inr by_record"
    "last_values_loop view (unresolved_rows journals) ?expired (fold_winners by_record) bt_empty 0 []
       = Inr (rows, [])"
    by (auto simp: check_last_values_def Let_def split: if_splits sum.splits)
  moreover have "\<And>part. part \<in> set ?expired \<Longrightarrow> is_guarded part \<Longrightarrow> expiry_finding covering part = None"
    using e by (auto simp: List.map_filter_def filter_empty_conv)
  ultimately show thesis using that c r by blast
qed

text \<open>
  C29 (Retention honesty, expiries). If the judge passes a run, then for every journaled expiry of a
  changelog part that is not a snapshot the committed parts hold one snapshot that covers, origin
  by origin, every arrival sequence number of the expired part.
\<close>
theorem retention_pass_covered:
  assumes "retention_honesty_check journals parts view = Pass n"
    and "line \<in> set journals" and "jl_event line = TeExpire" and "jl_part line = Some part"
    and "pr_dataset_kind part = Changelog" and "pr_part_kind part \<noteq> Snapshot"
  shows "\<exists>snapshots. parts (pr_dataset part) (pr_partition part) = Inr snapshots
    \<and> (\<exists>s\<in>set snapshots. \<forall>r\<in>set (pr_origin_coverage part). \<forall>seq.
         osr_first_seq r \<le> seq \<and> seq \<le> osr_last_seq r \<longrightarrow>
         (\<exists>c\<in>set (cs_origin_coverage s). osr_origin c = osr_origin r
            \<and> osr_first_seq c \<le> seq \<and> seq \<le> osr_last_seq c))"
proof -
  let ?scope = "(pr_dataset part, pr_partition part)"
  have g: "part \<in> set (map snd (part_events journals TeExpire))" "is_guarded part"
    using expired_part[OF assms(2-4)] assms(5,6) by (simp_all add: is_guarded_def)
  from assms(1) obtain covering where
    c: "read_snapshots parts (btset_of (map (\<lambda>part. (pr_dataset part, pr_partition part))
        (filter is_guarded (map snd (part_events journals TeExpire))))) bt_empty = Inr covering"
    and none: "expiry_finding covering part = None"
    by (rule retention_pass_cases) (use g in blast)
  from g have "?scope \<in> set (btset_of (map (\<lambda>part. (pr_dataset part, pr_partition part))
      (filter is_guarded (map snd (part_events journals TeExpire)))))" by auto
  with read_snapshots_ok[OF c] obtain snapshots where
    s: "parts (pr_dataset part) (pr_partition part) = Inr snapshots"
      "bt_get covering ?scope = Some snapshots" by fastforce
  with none obtain snapshot where "snapshot \<in> set snapshots"
    "covers_arrival snapshot (pr_origin_coverage part)"
    by (auto simp: expiry_finding_def Let_def list_ex_iff split: if_splits)
  with s(1) show ?thesis using covers_arrival_seqs by blast
qed

lemma demo_retention_pass:
  "retention_honesty_check demo_journals (imp_snapshots [demo_snapshot]) (imv_view demo_views) = Pass 2"
  by code_simp

lemma demo_expire_in: "demo_expire \<in> set demo_journals" "jl_event demo_expire = TeExpire"
  "jl_part demo_expire = Some demo_part"
  by (simp_all add: demo_journals_def demo_expire_def demo_line_def)

theorem retention_pass_covered_witness:
  "\<exists>snapshots. imp_snapshots [demo_snapshot] (pr_dataset demo_part) (pr_partition demo_part) = Inr snapshots
    \<and> (\<exists>s\<in>set snapshots. \<exists>c\<in>set (cs_origin_coverage s). osr_origin c = osr_origin demo_range
            \<and> osr_first_seq c \<le> 7 \<and> 7 \<le> osr_last_seq c)"
proof -
  have "pr_dataset_kind demo_part = Changelog" "pr_part_kind demo_part \<noteq> Snapshot"
    "demo_range \<in> set (pr_origin_coverage demo_part)"
    "osr_first_seq demo_range \<le> 7 \<and> 7 \<le> osr_last_seq demo_range"
    by (simp_all add: demo_part_def demo_range_def)
  with retention_pass_covered[OF demo_retention_pass demo_expire_in] show ?thesis by meson
qed

text \<open>
  Retention honesty, last values. If the judge passes a run in which no two acknowledged
  entries of a row share origin and sequence number, then every row without a timed-out write whose
  last entry lies in the arrival range of an expired part is still served with that entry's value.
\<close>
theorem retention_pass_last_values:
  assumes "retention_honesty_check journals parts view = Pass n"
    and "no_ties (acked_entries journals)"
    and "last_entry (acked_entries journals) e" and "row_of e \<notin> set (unresolved_rows journals)"
    and "line \<in> set journals" and "jl_event line = TeExpire" and "jl_part line = Some part"
    and "pr_dataset part = ce_dataset e" and "pr_partition part = ce_partition e"
    and "coverage_contains (pr_origin_coverage part) e"
  shows "view_value view (row_of e) = Inr (winning_value e)"
proof -
  let ?expired = "map snd (part_events journals TeExpire)"
  from assms(1) obtain rows by_record where
    d: "dedup_records (acked_entries journals) = Inr by_record"
    and l: "last_values_loop view (unresolved_rows journals) ?expired (fold_winners by_record)
        bt_empty 0 [] = Inr (rows, [])"
    by (rule retention_pass_cases)
  have none: "bt_get bt_empty d = Some v \<Longrightarrow> view d = Inr v" for d v by (simp add: bt_empty_def)
  have "(row_of e, e) \<in> set (fold_winners by_record)"
    using in_winners[OF d assms(2)] assms(3) by blast
  moreover have "part \<in> set ?expired" by (rule expired_part[OF assms(5-7)])
  then have "at_risk (unresolved_rows journals) ?expired (row_of e, e)"
    using assms(4,8-10) by (auto simp: at_risk_def expired_holder_def find_None_iff row_of_def)
  ultimately show ?thesis using last_values_loop_ok[OF l none] by fastforce
qed

theorem retention_pass_last_values_witness:
  "view_value (imv_view demo_views) (row_of demo_entry) = Inr (winning_value demo_entry)"
proof (rule retention_pass_last_values[OF demo_retention_pass _ _ _ demo_expire_in])
  have acked: "acked_entries demo_journals = [demo_entry]" by code_simp
  show "last_entry (acked_entries demo_journals) demo_entry" by (simp add: acked last_entry_def)
qed (code_simp)+

end
