(* ===== verification/Judge_Cache.thy ===== *)
theory Judge_Cache
  imports Judge_Demo
begin

text \<open>
  \<open>crates/duckspout-judge/src/predicates/cache_transparency.rs\<close>: reads of one question are answered
  with the same records whatever the state of the cache, and a read that overlaps a residency
  action is neither refused nor held up by it.

  The reads are grouped by question (\<open>bt_group\<close>); within a group the answers are compared with the
  one at the lowest residency count. Keys of records are compared as sets, which is what the
  source's ordered sets are.
\<close>

section \<open>Questions\<close>

definition default_max_racing_read_ms :: u64 where
  "default_max_racing_read_ms = 1000"

definition min_unraced_baseline_samples :: nat where
  "min_unraced_baseline_samples = 3"

instantiation read_concern :: linorder
begin

definition less_eq_read_concern :: "read_concern \<Rightarrow> read_concern \<Rightarrow> bool" where
  "less_eq_read_concern a b \<longleftrightarrow> a = Complete \<or> b = Available"

definition less_read_concern :: "read_concern \<Rightarrow> read_concern \<Rightarrow> bool" where
  "less_read_concern a b \<longleftrightarrow> a = Complete \<and> b = Available"

instance
proof
  fix x y z :: read_concern
  show "x < y \<longleftrightarrow> x \<le> y \<and> \<not> y \<le> x" "x \<le> x" "x \<le> y \<or> y \<le> x"
    "x \<le> y \<Longrightarrow> y \<le> z \<Longrightarrow> x \<le> z" "x \<le> y \<Longrightarrow> y \<le> x \<Longrightarrow> x = y"
    by (cases x; cases y; cases z; simp add: less_eq_read_concern_def less_read_concern_def)+
qed

end

type_synonym question = "string \<times> partition_id \<times> string \<times> int"
type_synonym lock_question = "node_id \<times> string \<times> partition_id \<times> string \<times> read_concern"

datatype cache_finding =
    RowSetDiffers question u64 u64 "string list" "string list"
  | BlockedRead lock_question u64 u64 nat u64
  | RefusedWhileRacing lock_question string

definition lock_question_of :: "read_record \<Rightarrow> cache_probe \<Rightarrow> lock_question" where
  "lock_question_of rr probe =
     (cp_serving_node probe, rr_tenant rr, rr_partition rr, cp_query probe, rr_concern rr)"

definition unraced_baseline :: "u64 list \<Rightarrow> u64 option" where
  "unraced_baseline latencies =
     (if length latencies < min_unraced_baseline_samples then None
      else let sorted_latencies = sort latencies; i = length latencies div 2 in
           if i < length sorted_latencies then Some (sorted_latencies ! i) else None)"

section \<open>Equal answers\<close>

definition answer_of :: "read_record \<Rightarrow> cache_probe \<Rightarrow> (question \<times> (u64 \<times> string list)) option" where
  "answer_of rr probe =
     (if rr_concern rr \<noteq> Complete then None
      else case rr_outcome rr of
        Served complete_through_ms record_keys \<Rightarrow>
          Some ((rr_tenant rr, rr_partition rr, cp_query probe, complete_through_ms),
                (cp_residency_ops_before probe, record_keys))
      | Refused _ \<Rightarrow> None)"

definition rest_step ::
  "question \<Rightarrow> u64 \<times> string list \<Rightarrow> u64 \<times> string list \<Rightarrow> nat \<times> cache_finding list \<Rightarrow> nat \<times> cache_finding list" where
  "rest_step question reference other acc =
     (let (reference_ops, reference_keys) = reference;
          (other_ops, other_keys) = other;
          (checked, findings) = acc
      in (if other_ops \<noteq> reference_ops then checked + 1 else checked,
          if set other_keys \<noteq> set reference_keys
          then findings @ [RowSetDiffers question reference_ops other_ops
                             (filter (\<lambda>k. k \<notin> set other_keys) reference_keys)
                             (filter (\<lambda>k. k \<notin> set reference_keys) other_keys)]
          else findings))"

definition group_step ::
  "question \<times> (u64 \<times> string list) list \<Rightarrow> nat \<times> cache_finding list \<Rightarrow> nat \<times> cache_finding list" where
  "group_step entry acc =
     (let (question, grp) = entry in
      case sort_key fst grp of
        [] \<Rightarrow> acc
      | reference # rest \<Rightarrow> fold (rest_step question reference) rest acc)"

definition check_equivalence :: "(read_record \<times> cache_probe) list \<Rightarrow> nat \<times> cache_finding list" where
  "check_equivalence probed =
     (let answers = bt_group (List.map_filter (\<lambda>(rr, probe). answer_of rr probe) probed) in
      fold group_step answers (0, []))"

section \<open>No blocking\<close>

definition is_unraced_served :: "read_record \<times> cache_probe \<Rightarrow> bool" where
  "is_unraced_served rp \<longleftrightarrow> \<not> raced_residency_action (snd rp) \<and> is_Served (rr_outcome (fst rp))"

definition unraced_latencies :: "(read_record \<times> cache_probe) list \<Rightarrow> (lock_question, u64 list) btree" where
  "unraced_latencies probed =
     bt_group (map (\<lambda>(rr, probe). (lock_question_of rr probe, cp_latency_ms probe))
                (filter is_unraced_served probed))"

definition served_unraced_ops :: "(read_record \<times> cache_probe) list \<Rightarrow> (lock_question, u64 list) btree" where
  "served_unraced_ops probed =
     bt_group (map (\<lambda>(rr, probe). (lock_question_of rr probe, cp_residency_ops_before probe))
                (filter is_unraced_served probed))"

definition baselines_of :: "(lock_question, u64 list) btree \<Rightarrow> (lock_question, u64 \<times> nat) btree" where
  "baselines_of latencies =
     List.map_filter (\<lambda>(question, ls).
       map_option (\<lambda>median. (question, (median, length ls))) (unraced_baseline ls)) latencies"

definition blocking_step ::
  "(lock_question, u64 \<times> nat) btree \<Rightarrow> (lock_question, u64 list) btree \<Rightarrow> u64
     \<Rightarrow> read_record \<times> cache_probe \<Rightarrow> nat \<times> cache_finding list \<Rightarrow> nat \<times> cache_finding list" where
  "blocking_step baselines served_ops ceiling_ms rp acc =
     (let (rr, probe) = rp; (checked, findings) = acc in
      if \<not> raced_residency_action probe then (checked, findings)
      else
        (let question = lock_question_of rr probe in
         case rr_outcome rr of
           Served _ _ \<Rightarrow>
             (case bt_get baselines question of
                None \<Rightarrow> (checked, findings)
              | Some (baseline_ms, baseline_samples) \<Rightarrow>
                  (checked + 1,
                   if ceiling_ms < cp_latency_ms probe \<and> baseline_ms < cp_latency_ms probe
                   then findings @ [BlockedRead question (cp_latency_ms probe) baseline_ms
                                      baseline_samples ceiling_ms]
                   else findings))
         | Refused reason \<Rightarrow>
             (case bt_get served_ops question of
                None \<Rightarrow> (checked, findings)
              | Some ops \<Rightarrow>
                  (if list_ex (\<lambda>o'. o' \<le> cp_residency_ops_before probe) ops
                      \<and> list_ex (\<lambda>o'. cp_residency_ops_after probe \<le> o') ops
                   then (checked + 1, findings @ [RefusedWhileRacing question reason])
                   else (checked, findings)))))"

definition check_no_blocking :: "(read_record \<times> cache_probe) list \<Rightarrow> u64 \<Rightarrow> nat \<times> cache_finding list" where
  "check_no_blocking probed ceiling_ms =
     fold (blocking_step (baselines_of (unraced_latencies probed)) (served_unraced_ops probed) ceiling_ms)
       probed (0, [])"

section \<open>The predicate\<close>

definition probed_reads :: "read_record list \<Rightarrow> (read_record \<times> cache_probe) list" where
  "probed_reads reads = List.map_filter (\<lambda>rr. map_option (\<lambda>probe. (rr, probe)) (rr_cache rr)) reads"

definition cache_transparency_check ::
  "journal_set \<Rightarrow> read_record list \<Rightarrow> u64 \<Rightarrow> cache_finding verdict" where
  "cache_transparency_check journals reads max_racing_read_ms =
     (let probed = probed_reads reads;
          residency_evidence = (0 < residency_action_count journals);
          (equivalence_checked, equivalence_findings) = check_equivalence probed;
          (lock_checked, lock_findings) =
            (if residency_evidence then check_no_blocking probed max_racing_read_ms else (0, []));
          findings = equivalence_findings @ lock_findings
      in if findings \<noteq> [] then Violation findings
         else if probed = [] then NoVerdict ''no cache probe''
         else if \<not> residency_evidence then NoVerdict ''no residency action journaled''
         else if equivalence_checked = 0 then NoVerdict ''no question at two cache states''
         else if lock_checked = 0 then NoVerdict ''no racing read judged''
         else verdict_pass (equivalence_checked + lock_checked) ''nothing was checked'')"

section \<open>What the loops find\<close>

lemma rest_fold:
  "fold (rest_step q ref) rest (n, fs) = (n', fs') \<Longrightarrow>
     n' = n + length (filter (\<lambda>other. fst other \<noteq> fst ref) rest)
     \<and> (fs' = [] \<longleftrightarrow> fs = [] \<and> (\<forall>other\<in>set rest. set (snd other) = set (snd ref)))"
proof (induction rest arbitrary: n fs)
  case (Cons other rest)
  obtain n1 fs1 where step: "rest_step q ref other (n, fs) = (n1, fs1)" by fastforce
  with Cons.prems have "fold (rest_step q ref) rest (n1, fs1) = (n', fs')" by simp
  from Cons.IH[OF this] step show ?case
    by (auto simp: rest_step_def Let_def split: prod.splits if_splits)
qed simp

text \<open>The answers of a group agree, and how many of them are at another cache state than the first.\<close>

definition agree :: "(u64 \<times> string list) list \<Rightarrow> bool" where
  "agree grp \<longleftrightarrow> (\<forall>a\<in>set grp. \<forall>b\<in>set grp. set (snd a) = set (snd b))"

definition two_states :: "(u64 \<times> string list) list \<Rightarrow> bool" where
  "two_states grp \<longleftrightarrow> (\<exists>a\<in>set grp. \<exists>b\<in>set grp. fst a \<noteq> fst b)"

lemma group_step_ok:
  assumes "group_step (q, grp) (n, fs) = (n', fs')"
  shows "(n' = n \<longleftrightarrow> \<not> two_states grp) \<and> n \<le> n' \<and> (fs' = [] \<longleftrightarrow> fs = [] \<and> agree grp)"
proof (cases "sort_key fst grp")
  case Nil
  then have "grp = []" by (metis length_0_conv length_sort)
  with assms Nil show ?thesis by (simp add: group_step_def two_states_def agree_def)
next
  case (Cons ref rest)
  then have fold: "fold (rest_step q ref) rest (n, fs) = (n', fs')"
    using assms by (simp add: group_step_def)
  have members: "set grp = insert ref (set rest)" using Cons by (metis list.simps(15) set_sort)
  have "two_states grp \<longleftrightarrow> (\<exists>other\<in>set rest. fst other \<noteq> fst ref)"
    unfolding two_states_def members by (metis insert_iff)
  then have "filter (\<lambda>other. fst other \<noteq> fst ref) rest = [] \<longleftrightarrow> \<not> two_states grp"
    by (auto simp: filter_empty_conv)
  moreover have "agree grp \<longleftrightarrow> (\<forall>other\<in>set rest. set (snd other) = set (snd ref))"
    unfolding agree_def members by auto
  ultimately show ?thesis using rest_fold[OF fold] by auto
qed

lemma group_fold:
  "fold group_step answers (n, fs) = (n', fs') \<Longrightarrow>
     n \<le> n' \<and> (n' = n \<longleftrightarrow> (\<forall>x\<in>set answers. \<not> two_states (snd x)))
     \<and> (fs' = [] \<longleftrightarrow> fs = [] \<and> (\<forall>x\<in>set answers. agree (snd x)))"
proof (induction answers arbitrary: n fs)
  case (Cons entry answers)
  obtain q grp where e: "entry = (q, grp)" by (cases entry)
  obtain n1 fs1 where step: "group_step entry (n, fs) = (n1, fs1)" by fastforce
  with Cons.prems have "fold group_step answers (n1, fs1) = (n', fs')" by simp
  from Cons.IH[OF this] group_step_ok[OF step[unfolded e]] e show ?case by auto
qed simp

text \<open>
  The answers of one run: the served \<open>complete\<close> reads that carry a probe, with the question each
  answers, the cache state it was served at and the keys it returned.
\<close>

definition answers_of :: "read_record list \<Rightarrow> (question \<times> (u64 \<times> string list)) list" where
  "answers_of reads = List.map_filter (\<lambda>(rr, probe). answer_of rr probe) (probed_reads reads)"

lemma check_equivalence_ok:
  assumes "check_equivalence (probed_reads reads) = (n, fs)"
  shows "0 < n \<longleftrightarrow> (\<exists>q a b. (q, a) \<in> set (answers_of reads) \<and> (q, b) \<in> set (answers_of reads)
            \<and> fst a \<noteq> fst b)"
    and "fs = [] \<longleftrightarrow> (\<forall>q a b. (q, a) \<in> set (answers_of reads) \<and> (q, b) \<in> set (answers_of reads)
            \<longrightarrow> set (snd a) = set (snd b))"
proof -
  let ?as = "answers_of reads"
  have "fold group_step (bt_group ?as) (0, []) = (n, fs)"
    using assms by (simp add: check_equivalence_def answers_of_def Let_def)
  note g = group_fold[OF this]
  have "0 < n \<longleftrightarrow> (\<exists>x\<in>set (bt_group ?as). two_states (snd x))" using g by auto
  also have "\<dots> \<longleftrightarrow> (\<exists>q a b. (q, a) \<in> set ?as \<and> (q, b) \<in> set ?as \<and> fst a \<noteq> fst b)"
    unfolding two_states_def by (rule bt_group_pairs)
  finally show "0 < n \<longleftrightarrow> (\<exists>q a b. (q, a) \<in> set ?as \<and> (q, b) \<in> set ?as \<and> fst a \<noteq> fst b)" .
  have "fs \<noteq> [] \<longleftrightarrow> (\<exists>x\<in>set (bt_group ?as). \<not> agree (snd x))" using g by auto
  also have "\<dots> \<longleftrightarrow> (\<exists>q a b. (q, a) \<in> set ?as \<and> (q, b) \<in> set ?as \<and> set (snd a) \<noteq> set (snd b))"
    unfolding agree_def using bt_group_pairs[of ?as "\<lambda>a b. set (snd a) \<noteq> set (snd b)"] by simp
  finally show "fs = [] \<longleftrightarrow> (\<forall>q a b. (q, a) \<in> set ?as \<and> (q, b) \<in> set ?as \<longrightarrow> set (snd a) = set (snd b))"
    by blast
qed

section \<open>Racing reads\<close>

text \<open>A racing read the predicate judges, and one it reports.\<close>

definition lq :: "read_record \<times> cache_probe \<Rightarrow> lock_question" where
  "lq rp = lock_question_of (fst rp) (snd rp)"

definition bracketed :: "u64 list \<Rightarrow> cache_probe \<Rightarrow> bool" where
  "bracketed ops probe \<longleftrightarrow> (\<exists>x\<in>set ops. x \<le> cp_residency_ops_before probe)
     \<and> (\<exists>x\<in>set ops. cp_residency_ops_after probe \<le> x)"

fun blocked ::
  "(lock_question, u64 \<times> nat) btree \<Rightarrow> (lock_question, u64 list) btree \<Rightarrow> u64
     \<Rightarrow> read_record \<times> cache_probe \<Rightarrow> bool" where
  "blocked B S ceiling rp \<longleftrightarrow> raced_residency_action (snd rp) \<and>
     (if is_Served (rr_outcome (fst rp))
      then \<exists>median samples. bt_get B (lq rp) = Some (median, samples)
             \<and> ceiling < cp_latency_ms (snd rp) \<and> median < cp_latency_ms (snd rp)
      else \<exists>ops. bt_get S (lq rp) = Some ops \<and> bracketed ops (snd rp))"

lemma blocking_step_ok:
  "blocking_step B S ceiling rp (n, fs) = (n', fs') \<Longrightarrow>
     n \<le> n' \<and> (fs' = [] \<longleftrightarrow> fs = [] \<and> \<not> blocked B S ceiling rp)"
  by (cases rp; cases "rr_outcome (fst rp)")
    (auto simp: blocking_step_def lq_def bracketed_def list_ex_iff Let_def
      split: if_splits option.splits)

lemma blocking_fold:
  "fold (blocking_step B S ceiling) rps (n, fs) = (n', fs') \<Longrightarrow>
     fs' = [] \<longleftrightarrow> fs = [] \<and> (\<forall>rp\<in>set rps. \<not> blocked B S ceiling rp)"
proof (induction rps arbitrary: n fs)
  case (Cons rp rps)
  obtain n1 fs1 where step: "blocking_step B S ceiling rp (n, fs) = (n1, fs1)" by fastforce
  with Cons.prems have "fold (blocking_step B S ceiling) rps (n1, fs1) = (n', fs')" by simp
  from Cons.IH[OF this] blocking_step_ok[OF step] show ?case by auto
qed simp

text \<open>The reads of a lock question that were served with no residency action in between.\<close>

definition unraced_of :: "read_record list \<Rightarrow> lock_question \<Rightarrow> (read_record \<times> cache_probe) list" where
  "unraced_of reads q = filter (\<lambda>rp. is_unraced_served rp \<and> lq rp = q) (probed_reads reads)"

lemma group_filter:
  "map snd (filter (\<lambda>e. fst e = k) (map (\<lambda>x. (f x, g x)) (filter P xs)))
     = map g (filter (\<lambda>x. P x \<and> f x = k) xs)"
  by (induction xs) auto

lemma bt_get_unraced:
  "bt_get (bt_group (map (\<lambda>(rr, probe). (lock_question_of rr probe, f probe))
       (filter is_unraced_served (probed_reads reads)))) q =
     (if unraced_of reads q = [] then None else Some (map (f \<circ> snd) (unraced_of reads q)))"
proof -
  have fun_eq: "(\<lambda>(rr, probe). (lock_question_of rr probe, f probe)) = (\<lambda>rp. (lq rp, (f \<circ> snd) rp))"
    by (auto simp: lq_def)
  have "q \<in> fst ` set (map (\<lambda>rp. (lq rp, (f \<circ> snd) rp)) (filter is_unraced_served (probed_reads reads)))
      \<longleftrightarrow> unraced_of reads q \<noteq> []"
    by (force simp: unraced_of_def filter_empty_conv)
  then show ?thesis unfolding fun_eq bt_get_group group_filter unraced_of_def[symmetric] by simp
qed

lemma bt_get_baselines:
  assumes "bt_wf latencies"
  shows "bt_get (baselines_of latencies) q =
     Option.bind (bt_get latencies q) (\<lambda>ls. map_option (\<lambda>median. (median, length ls)) (unraced_baseline ls))"
  using assms
proof (induction latencies)
  case (Cons e latencies)
  obtain k ls where e: "e = (k, ls)" by (cases e)
  have "bt_get latencies k = None" using Cons.prems e by (auto simp: bt_wf_Cons bt_get_None)
  with Cons e show ?case
    by (cases "unraced_baseline ls") (auto simp: baselines_of_def bt_wf_Cons)
qed (simp add: baselines_of_def)

lemma baseline_lookup:
  "bt_get (baselines_of (unraced_latencies (probed_reads reads))) q =
     (let ls = map (cp_latency_ms \<circ> snd) (unraced_of reads q) in
      if length ls < 3 then None else Some (sort ls ! (length ls div 2), length ls))"
proof -
  have "bt_wf (unraced_latencies (probed_reads reads))" by (simp add: unraced_latencies_def)
  from bt_get_baselines[OF this] show ?thesis
    by (auto simp: unraced_latencies_def bt_get_unraced unraced_baseline_def Let_def
        min_unraced_baseline_samples_def)
qed

lemma cache_pass_facts:
  assumes "cache_transparency_check journals reads ceiling = Pass n"
  shows "\<forall>q a b. (q, a) \<in> set (answers_of reads) \<and> (q, b) \<in> set (answers_of reads)
           \<longrightarrow> set (snd a) = set (snd b)"
    and "\<exists>q a b. (q, a) \<in> set (answers_of reads) \<and> (q, b) \<in> set (answers_of reads) \<and> fst a \<noteq> fst b"
    and "\<forall>rp\<in>set (probed_reads reads).
           \<not> blocked (baselines_of (unraced_latencies (probed_reads reads)))
                (served_unraced_ops (probed_reads reads)) ceiling rp"
proof -
  obtain e es where eq: "check_equivalence (probed_reads reads) = (e, es)" by fastforce
  obtain l ls where bl: "check_no_blocking (probed_reads reads) ceiling = (l, ls)" by fastforce
  have "0 < residency_action_count journals" "es = []" "ls = []" "0 < e"
    using assms eq bl by (auto simp: cache_transparency_check_def Let_def split: if_splits)
  with check_equivalence_ok[OF eq] blocking_fold[OF bl[unfolded check_no_blocking_def]]
  show "\<forall>q a b. (q, a) \<in> set (answers_of reads) \<and> (q, b) \<in> set (answers_of reads)
           \<longrightarrow> set (snd a) = set (snd b)"
    and "\<exists>q a b. (q, a) \<in> set (answers_of reads) \<and> (q, b) \<in> set (answers_of reads) \<and> fst a \<noteq> fst b"
    and "\<forall>rp\<in>set (probed_reads reads).
           \<not> blocked (baselines_of (unraced_latencies (probed_reads reads)))
                (served_unraced_ops (probed_reads reads)) ceiling rp"
    by blast+
qed

lemma in_probed: "(rr, probe) \<in> set (probed_reads reads) \<longleftrightarrow> rr \<in> set reads \<and> rr_cache rr = Some probe"
  by (auto simp: probed_reads_def set_map_filter)

lemma in_answers:
  "rr \<in> set reads \<Longrightarrow> rr_cache rr = Some probe \<Longrightarrow> rr_concern rr = Complete \<Longrightarrow>
   rr_outcome rr = Served ms ks \<Longrightarrow>
   ((rr_tenant rr, rr_partition rr, cp_query probe, ms), (cp_residency_ops_before probe, ks))
     \<in> set (answers_of reads)"
  unfolding answers_of_def set_map_filter using in_probed[of rr probe reads]
  by (auto simp: answer_of_def intro!: bexI[of _ "(rr, probe)"])

text \<open>
  C30 (Cache transparency). If the judge passes a run, any two \<open>complete\<close> reads of it that carry a
  cache probe and were served at the same watermark to the same query of a tenant's partition
  returned the same records, whatever the state of the cache each was served from.
\<close>
theorem cache_pass_same_answers:
  assumes "cache_transparency_check journals reads ceiling = Pass n"
    and "rr \<in> set reads" and "rr_cache rr = Some probe"
    and "rr_concern rr = Complete" and "rr_outcome rr = Served ms ks"
    and "rr' \<in> set reads" and "rr_cache rr' = Some probe'"
    and "rr_concern rr' = Complete" and "rr_outcome rr' = Served ms ks'"
    and "rr_tenant rr' = rr_tenant rr" and "rr_partition rr' = rr_partition rr"
    and "cp_query probe' = cp_query probe"
  shows "set ks = set ks'"
proof -
  let ?q = "(rr_tenant rr, rr_partition rr, cp_query probe, ms)"
  have "(?q, cp_residency_ops_before probe, ks) \<in> set (answers_of reads)"
    by (rule in_answers[OF assms(2-5)])
  moreover have "(?q, cp_residency_ops_before probe', ks') \<in> set (answers_of reads)"
    using in_answers[OF assms(6-9)] unfolding assms(10-12) .
  ultimately show ?thesis
    using cache_pass_facts(1)[OF assms(1), rule_format, of ?q "(cp_residency_ops_before probe, ks)"
        "(cp_residency_ops_before probe', ks')"] by simp
qed

theorem cache_pass_same_answers_witness:
  "set (served_record_keys (rr_outcome (demo_read 0 0 5))) = set (served_record_keys (rr_outcome (demo_read 1 1 5)))"
proof (rule cache_pass_same_answers[of demo_journals demo_reads 1000 2 "demo_read 0 0 5" "demo_probe 0 0 5" 60 _
      "demo_read 1 1 5" "demo_probe 1 1 5"])
  show "cache_transparency_check demo_journals demo_reads 1000 = Pass 2" by code_simp
qed (simp_all add: demo_reads_def demo_read_def demo_probe_def)

text \<open>
  Racing reads are not held up. If the judge passes a run with a latency ceiling, then a read
  served while a residency action ran on its node took no longer than the ceiling or no longer than
  the median of the at least three reads of the same question served with none running.
\<close>
theorem cache_pass_not_blocked:
  assumes "cache_transparency_check journals reads ceiling = Pass n"
    and "rr \<in> set reads" and "rr_cache rr = Some probe" and "raced_residency_action probe"
    and "is_Served (rr_outcome rr)"
    and "ls = map (cp_latency_ms \<circ> snd) (unraced_of reads (lock_question_of rr probe))"
    and "3 \<le> length ls"
  shows "cp_latency_ms probe \<le> ceiling \<or> cp_latency_ms probe \<le> sort ls ! (length ls div 2)"
proof -
  have "(rr, probe) \<in> set (probed_reads reads)" using assms(2,3) by (simp add: in_probed)
  with cache_pass_facts(3)[OF assms(1)]
  have "\<not> blocked (baselines_of (unraced_latencies (probed_reads reads)))
      (served_unraced_ops (probed_reads reads)) ceiling (rr, probe)" by blast
  then show ?thesis
    using assms(4-7) by (auto simp: lq_def baseline_lookup Let_def)
qed

theorem cache_pass_not_blocked_witness:
  "cp_latency_ms (demo_probe 0 1 6) \<le> 1000 \<or> cp_latency_ms (demo_probe 0 1 6) \<le> sort [5, 6, 5] ! (length [5, 6, 5 :: u64] div 2)"
proof (rule cache_pass_not_blocked)
  show "cache_transparency_check demo_journals demo_reads 1000 = Pass 2" by code_simp
  show "demo_read 0 1 6 \<in> set demo_reads" by (simp add: demo_reads_def)
  show "rr_cache (demo_read 0 1 6) = Some (demo_probe 0 1 6)" by (simp add: demo_read_def)
  show "[5, 6, 5] = map (cp_latency_ms \<circ> snd) (unraced_of demo_reads (lock_question_of (demo_read 0 1 6) (demo_probe 0 1 6)))"
    by code_simp
qed (simp_all add: demo_read_def demo_probe_def raced_residency_action_def)

end
