(* ===== verification/Judge_Vacuity.thy ===== *)
theory Judge_Vacuity
  imports Judge_Demo
begin

text \<open>
  The run-level evidence and the rules that keep an empty run from passing: \<open>fault_ledger.rs\<close>,
  \<open>run_manifest.rs\<close>, \<open>summary.rs\<close> and \<open>vacuity.rs\<close> of \<open>crates/duckspout-judge/src\<close>.

  \<open>run_codec\<close> adds to the JSON parameter the readings these files use. The comparison of the
  fraction of ambiguous outcomes with its ceiling is floating-point arithmetic; \<open>exceeds\<close>, an
  argument of the functions that use it, stands for \<open>fraction_of(numerator, denominator) > ceiling\<close>.
  The findings on summaries leave out the reason text and the ceiling they print.

  \<open>ledger_window\<close> relates a parsed ledger to its lines: each fault has one window, and a phase of it
  is the time of the one line of that phase.
\<close>

section \<open>The run manifest\<close>

record node_run =
  nr_name :: string
  nr_journal_path :: string
  nr_journal_lines :: u64
  nr_last_progress_at_ms :: "u64 option"
  nr_exited_early :: bool

record run_manifest =
  rm_started_at_ms :: u64
  rm_ended_at_ms :: u64
  rm_sample_interval_ms :: u64
  rm_nodes :: "node_run list"

definition rm_last_progress_at_ms :: "run_manifest \<Rightarrow> u64 option" where
  "rm_last_progress_at_ms manifest =
     max_by_key id (List.map_filter nr_last_progress_at_ms (rm_nodes manifest))"

definition node_host :: "string \<Rightarrow> string" where
  "node_host node = takeWhile (\<lambda>c. c \<noteq> CHR ''/'') node"

section \<open>The fault ledger\<close>

datatype fault_phase = Armed | Started | Ended

record fault_line =
  fl_fault_id :: string
  fl_kind :: string
  fl_target_node :: string
  fl_phase :: fault_phase
  fl_at_ms :: u64

record fault_window =
  fw_fault_id :: string
  fw_kind :: string
  fw_target_node :: string
  fw_armed_at_ms :: "u64 option"
  fw_started_at_ms :: "u64 option"
  fw_ended_at_ms :: "u64 option"

record run_summary =
  rs_sent :: u64
  rs_acked :: u64
  rs_timed_out :: u64
  rs_rejected :: u64
  rs_ambiguous :: u64

record 'j run_codec = "'j json_codec" +
  rc_fault_line :: "string \<Rightarrow> (string, fault_line) result"
  rc_manifest :: "string \<Rightarrow> (string, run_manifest) result"
  rc_summary :: "string \<Rightarrow> (string, run_summary) result"
  rc_final_state :: "string \<Rightarrow> (string, fixture_range list) result"
  rc_latest_view :: "string \<Rightarrow> (string, in_memory_latest_view) result"
  rc_committed_parts :: "string \<Rightarrow> (string, committed_snapshot list) result"

definition terminal_fault_kinds :: "string list" where
  "terminal_fault_kinds = [''node_kill'', ''membership_leave'', ''flight_kill_mid_stream'']"

record alibi_tolerance =
  at_start_slack_ms :: u64
  at_end_slack_ms :: u64

definition fw_is_terminal :: "fault_window \<Rightarrow> bool" where
  "fw_is_terminal window \<longleftrightarrow> fw_kind window \<in> set terminal_fault_kinds"

definition fw_covers :: "fault_window \<Rightarrow> u64 \<Rightarrow> u64 \<Rightarrow> alibi_tolerance \<Rightarrow> bool" where
  "fw_covers window from_ms until_ms tolerance =
     (case fw_started_at_ms window of
        None \<Rightarrow> False
      | Some started \<Rightarrow>
          (if u64_saturating_add from_ms (at_start_slack_ms tolerance) < started then False
           else case fw_ended_at_ms window of
                  None \<Rightarrow> True
                | Some ended \<Rightarrow> until_ms \<le> u64_saturating_add ended (at_end_slack_ms tolerance)))"

type_synonym fault_ledger = "fault_window list"

definition windows_targeting :: "fault_ledger \<Rightarrow> string \<Rightarrow> fault_window list" where
  "windows_targeting ledger node =
     filter (\<lambda>w. node_host (fw_target_node w) = node_host node) ledger"

definition iter_min :: "'a::linorder list \<Rightarrow> 'a option" where
  "iter_min xs = (if xs = [] then None else Some (fold min (tl xs) (hd xs)))"

definition terminal_horizon :: "fault_ledger \<Rightarrow> string \<Rightarrow> u64 option" where
  "terminal_horizon ledger node =
     iter_min (List.map_filter fw_started_at_ms (filter fw_is_terminal (windows_targeting ledger node)))"

datatype fault_ledger_error =
    LedgerIo string string
  | LedgerDecode string nat json_error
  | RepeatedPhase string nat string fault_phase
  | InconsistentWindow string nat string "string \<times> string" "string \<times> string"

fun phase_slot :: "fault_phase \<Rightarrow> fault_window \<Rightarrow> u64 option" where
  "phase_slot Armed window = fw_armed_at_ms window"
| "phase_slot Started window = fw_started_at_ms window"
| "phase_slot Ended window = fw_ended_at_ms window"

fun set_phase :: "fault_phase \<Rightarrow> u64 \<Rightarrow> fault_window \<Rightarrow> fault_window" where
  "set_phase Armed at_ms window = window\<lparr>fw_armed_at_ms := Some at_ms\<rparr>"
| "set_phase Started at_ms window = window\<lparr>fw_started_at_ms := Some at_ms\<rparr>"
| "set_phase Ended at_ms window = window\<lparr>fw_ended_at_ms := Some at_ms\<rparr>"

definition new_window :: "fault_line \<Rightarrow> fault_window" where
  "new_window line =
     \<lparr>fw_fault_id = fl_fault_id line, fw_kind = fl_kind line, fw_target_node = fl_target_node line,
      fw_armed_at_ms = None, fw_started_at_ms = None, fw_ended_at_ms = None\<rparr>"

definition apply_line ::
  "string \<Rightarrow> nat \<Rightarrow> fault_line \<Rightarrow> (string, fault_window) btree
     \<Rightarrow> (fault_ledger_error, (string, fault_window) btree) result" where
  "apply_line path line_no line windows =
     (let window = map_or (new_window line) id (bt_get windows (fl_fault_id line)) in
      if fw_kind window \<noteq> fl_kind line \<or> fw_target_node window \<noteq> fl_target_node line
      then Inl (InconsistentWindow path line_no (fl_fault_id line)
                  (fl_kind line, fl_target_node line) (fw_kind window, fw_target_node window))
      else if phase_slot (fl_phase line) window \<noteq> None
      then Inl (RepeatedPhase path line_no (fl_fault_id line) (fl_phase line))
      else Inr (bt_insert (fl_fault_id line) (set_phase (fl_phase line) (fl_at_ms line) window) windows))"

definition ledger_line :: "'j run_codec \<Rightarrow> string \<Rightarrow> (json_error, fault_line) result" where
  "ledger_line codec raw =
     (case reject_duplicate_keys (json_codec.truncate codec) raw of
        Inl e \<Rightarrow> Inl e
      | Inr _ \<Rightarrow> (case rc_fault_line codec raw of Inl e \<Rightarrow> Inl (SerdeError e) | Inr line \<Rightarrow> Inr line))"

fun ledger_loop ::
  "'j run_codec \<Rightarrow> string \<Rightarrow> nat \<Rightarrow> string list \<Rightarrow> (string, fault_window) btree
     \<Rightarrow> (fault_ledger_error, (string, fault_window) btree) result" where
  "ledger_loop codec path idx [] windows = Inr windows"
| "ledger_loop codec path idx (raw # raws) windows =
     (case ledger_line codec raw of
        Inl e \<Rightarrow> Inl (LedgerDecode path (idx + 1) e)
      | Inr line \<Rightarrow>
          (case apply_line path (idx + 1) line windows of
             Inl e \<Rightarrow> Inl e
           | Inr windows' \<Rightarrow> ledger_loop codec path (idx + 1) raws windows'))"

definition parse_fault_ledger ::
  "'j run_codec \<Rightarrow> read_fs \<Rightarrow> string \<Rightarrow> (fault_ledger_error, fault_ledger) result" where
  "parse_fault_ledger codec fs path =
     (case fs path of
        Inl e \<Rightarrow> Inl (LedgerIo path e)
      | Inr content \<Rightarrow>
          (case ledger_loop codec path 0 (str_lines content) bt_empty of
             Inl e \<Rightarrow> Inl e
           | Inr windows \<Rightarrow> Inr (map snd windows)))"

text \<open>\<open>RunManifest::from_json\<close> and \<open>parse_run_manifest\<close>.\<close>

definition manifest_from_json :: "'j run_codec \<Rightarrow> string \<Rightarrow> (json_error, run_manifest) result" where
  "manifest_from_json codec content =
     (case reject_duplicate_keys (json_codec.truncate codec) content of
        Inl e \<Rightarrow> Inl e
      | Inr _ \<Rightarrow> (case rc_manifest codec content of Inl e \<Rightarrow> Inl (SerdeError e) | Inr m \<Rightarrow> Inr m))"

datatype manifest_error = ManifestIo string string | ManifestDecode string json_error

definition parse_run_manifest :: "'j run_codec \<Rightarrow> read_fs \<Rightarrow> string \<Rightarrow> (manifest_error, run_manifest) result" where
  "parse_run_manifest codec fs path =
     (case fs path of
        Inl e \<Rightarrow> Inl (ManifestIo path e)
      | Inr content \<Rightarrow> map_err (ManifestDecode path) (manifest_from_json codec content))"

section \<open>Load-generator summaries\<close>

datatype summary_finding =
    Unreadable string
  | UnresolvedInFlight string u64 u64
  | AmbiguousFractionExceeded string u64 u64

definition resolved_total :: "run_summary \<Rightarrow> u64" where
  "resolved_total s = rs_acked s + rs_timed_out s + rs_rejected s + rs_ambiguous s"

definition summary_path_for :: "string \<Rightarrow> string" where
  "summary_path_for journal_path = journal_path @ ''.summary.json''"

definition loadgen_journal_sources :: "journal_set \<Rightarrow> string list" where
  "loadgen_journal_sources journals =
     btset_of (map jl_source (filter (\<lambda>line. jl_identity line \<noteq> None) journals))"

definition summary_findings ::
  "'j run_codec \<Rightarrow> read_fs \<Rightarrow> (u64 \<Rightarrow> u64 \<Rightarrow> bool) \<Rightarrow> string \<Rightarrow> summary_finding list" where
  "summary_findings codec fs exceeds journal_path =
     (case fs (summary_path_for journal_path) of
        Inl _ \<Rightarrow> [Unreadable journal_path]
      | Inr content \<Rightarrow>
          (case rc_summary codec content of
             Inl _ \<Rightarrow> [Unreadable journal_path]
           | Inr summary \<Rightarrow>
               (let resolved = resolved_total summary in
                (if resolved < rs_sent summary
                 then [UnresolvedInFlight journal_path (rs_sent summary) resolved] else [])
                @ (if 0 < resolved \<and> exceeds (rs_ambiguous summary) resolved
                   then [AmbiguousFractionExceeded journal_path (rs_ambiguous summary) resolved]
                   else []))))"

definition check_summaries ::
  "'j run_codec \<Rightarrow> read_fs \<Rightarrow> (u64 \<Rightarrow> u64 \<Rightarrow> bool) \<Rightarrow> journal_set \<Rightarrow> (summary_finding list, unit) result" where
  "check_summaries codec fs exceeds journals =
     (let findings = concat (map (summary_findings codec fs exceeds) (loadgen_journal_sources journals)) in
      if findings = [] then Inr () else Inl findings)"

section \<open>Vacuity rules\<close>

datatype vacuity_finding =
    NotApplicable string
  | ArmedButUnfired string string string
  | NoCrossNodeContention nat
  | NodeNeverJournaled string
  | NodeJournalNotIngested string u64
  | NodeExitedEarly string
  | NodeJournalStopped string u64 u64
  | LoadgenSummary summary_finding

definition check_fault_schedule :: "fault_ledger option \<Rightarrow> (vacuity_finding list, nat) result" where
  "check_fault_schedule ledger =
     (case ledger of
        None \<Rightarrow> Inl [NotApplicable ''no fault log'']
      | Some windows \<Rightarrow>
          (if windows = [] then Inl [NotApplicable ''no fault window'']
           else
             (let findings = map (\<lambda>w. ArmedButUnfired (fw_fault_id w) (fw_kind w) (fw_target_node w))
                               (filter (\<lambda>w. fw_started_at_ms w = None) windows)
              in if findings = [] then Inr (length windows) else Inl findings)))"

definition hosts_journaling :: "journal_set \<Rightarrow> string list \<Rightarrow> trace_event \<Rightarrow> string list" where
  "hosts_journaling journals roster event =
     btset_of (filter (\<lambda>host. host \<in> set roster)
       (map (\<lambda>line. node_host (node_str (jl_node line)))
         (filter (\<lambda>line. jl_event line = event) journals)))"

type_synonym contention_pair = "string \<times> string \<times> string"

definition cross_pairs :: "string \<Rightarrow> string list \<Rightarrow> string list \<Rightarrow> contention_pair list" where
  "cross_pairs relation from to =
     btset_of (concat (map (\<lambda>a. map (\<lambda>b. (relation, a, b)) (filter (\<lambda>b. a \<noteq> b) to)) from))"

definition check_cross_node_contention ::
  "journal_set \<Rightarrow> run_manifest option \<Rightarrow> (vacuity_finding list, nat) result" where
  "check_cross_node_contention journals manifest =
     (case manifest of
        None \<Rightarrow> Inl [NotApplicable ''no run manifest'']
      | Some m \<Rightarrow>
          (let roster = btset_of (map nr_name (rm_nodes m)) in
           if length roster < 2 then Inl [NotApplicable ''fewer than two nodes'']
           else
             (let forwarders = hosts_journaling journals roster TeForward;
                  appliers = hosts_journaling journals roster TePeerApply;
                  takers = hosts_journaling journals roster TeTakeoverDrain;
                  holders = btset_of (hosts_journaling journals roster TeClaimAdvertise
                              @ hosts_journaling journals roster TeLakeCommitOk);
                  pairs = btset_of (cross_pairs ''replication'' forwarders appliers
                              @ cross_pairs ''ownership'' takers holders);
                  attesters = hosts_journaling journals roster TeReceipt;
                  evidence = length pairs + length attesters
              in if evidence = 0 then Inl [NoCrossNodeContention (length roster)] else Inr evidence)))"

text \<open>The closures \<open>covered\<close> and \<open>terminal_at\<close> of \<open>check_node_continuity\<close>.\<close>

definition alibi :: "fault_ledger option \<Rightarrow> alibi_tolerance \<Rightarrow> string \<Rightarrow> u64 \<Rightarrow> u64 \<Rightarrow> bool" where
  "alibi ledger tolerance node from until =
     (case ledger of
        None \<Rightarrow> False
      | Some windows \<Rightarrow> list_ex (\<lambda>w. fw_covers w from until tolerance) (windows_targeting windows node))"

definition terminal_at :: "fault_ledger option \<Rightarrow> string \<Rightarrow> u64 option" where
  "terminal_at ledger node = Option.bind ledger (\<lambda>windows. terminal_horizon windows node)"

definition node_finding ::
  "fault_ledger option \<Rightarrow> run_manifest \<Rightarrow> string list \<Rightarrow> u64 \<Rightarrow> u64 \<Rightarrow> node_run \<Rightarrow> vacuity_finding option" where
  "node_finding ledger manifest ingested run_last_progress budget_ms node =
     (let tolerance = \<lparr>at_start_slack_ms = u64_saturating_add budget_ms (rm_sample_interval_ms manifest),
                       at_end_slack_ms = rm_sample_interval_ms manifest\<rparr>;
          horizon = min (map_or run_last_progress id (terminal_at ledger (nr_name node))) run_last_progress
      in case nr_last_progress_at_ms node of
           None \<Rightarrow>
             (if \<not> alibi ledger tolerance (nr_name node) (rm_started_at_ms manifest) horizon
              then Some (NodeNeverJournaled (nr_name node)) else None)
         | Some last_progress \<Rightarrow>
             (if nr_name node \<notin> set ingested
              then Some (NodeJournalNotIngested (nr_name node) (nr_journal_lines node))
              else if nr_exited_early node \<and> terminal_at ledger (nr_name node) = None
              then Some (NodeExitedEarly (nr_name node))
              else
                (let silent_ms = u64_saturating_sub horizon last_progress in
                 if budget_ms < silent_ms \<and> \<not> alibi ledger tolerance (nr_name node) last_progress horizon
                 then Some (NodeJournalStopped (nr_name node) silent_ms budget_ms) else None)))"

definition check_node_continuity ::
  "journal_set \<Rightarrow> run_manifest option \<Rightarrow> fault_ledger option \<Rightarrow> u64 \<Rightarrow> (vacuity_finding list, nat) result" where
  "check_node_continuity journals manifest ledger budget_ms =
     (case manifest of
        None \<Rightarrow> Inl [NotApplicable ''no run manifest'']
      | Some m \<Rightarrow>
          (if rm_nodes m = [] then Inl [NotApplicable ''empty roster'']
           else case rm_last_progress_at_ms m of
             None \<Rightarrow> Inl [NotApplicable ''no node journaled'']
           | Some run_last_progress \<Rightarrow>
               (let ingested = btset_of (map (\<lambda>line. node_host (node_str (jl_node line))) journals);
                    findings = List.map_filter
                      (node_finding ledger m ingested run_last_progress budget_ms) (rm_nodes m)
                in if findings = [] then Inr (length (rm_nodes m)) else Inl findings)))"

definition check_loadgen_outcomes ::
  "'j run_codec \<Rightarrow> read_fs \<Rightarrow> (u64 \<Rightarrow> u64 \<Rightarrow> bool) \<Rightarrow> journal_set \<Rightarrow> (vacuity_finding list, nat) result" where
  "check_loadgen_outcomes codec fs exceeds journals =
     (let sources = loadgen_journal_sources journals in
      if sources = [] then Inl [NotApplicable ''no loadgen journal'']
      else case check_summaries codec fs exceeds journals of
             Inr _ \<Rightarrow> Inr (length sources)
           | Inl findings \<Rightarrow> Inl (map LoadgenSummary findings))"

definition to_verdict ::
  "(vacuity_finding \<Rightarrow> string) \<Rightarrow> (vacuity_finding list, nat) result \<Rightarrow> vacuity_finding verdict" where
  "to_verdict display r =
     (case r of
        Inr checked \<Rightarrow> verdict_pass checked ''nothing was checked''
      | Inl findings \<Rightarrow> NoVerdict (intercalate ''; '' (map display findings)))"

record vacuity_inputs =
  vi_journals :: journal_set
  vi_ledger :: "fault_ledger option"
  vi_manifest :: "run_manifest option"
  vi_exceeds :: "u64 \<Rightarrow> u64 \<Rightarrow> bool"
  vi_max_journal_silence_ms :: u64

definition check_all ::
  "'j run_codec \<Rightarrow> read_fs \<Rightarrow> (vacuity_finding \<Rightarrow> string) \<Rightarrow> vacuity_inputs
     \<Rightarrow> (string \<times> vacuity_finding verdict) list" where
  "check_all codec fs display inputs =
     [(''vacuity/fault-schedule-fired'', to_verdict display (check_fault_schedule (vi_ledger inputs))),
      (''vacuity/cross-node-contention'',
         to_verdict display (check_cross_node_contention (vi_journals inputs) (vi_manifest inputs))),
      (''vacuity/node-journal-continuity'',
         to_verdict display (check_node_continuity (vi_journals inputs) (vi_manifest inputs)
           (vi_ledger inputs) (vi_max_journal_silence_ms inputs))),
      (''vacuity/loadgen-outcome-quality'',
         to_verdict display (check_loadgen_outcomes codec fs (vi_exceeds inputs) (vi_journals inputs)))]"

section \<open>A ledger is its lines\<close>

fun apply_lines ::
  "string \<Rightarrow> nat \<Rightarrow> fault_line list \<Rightarrow> (string, fault_window) btree
     \<Rightarrow> (fault_ledger_error, (string, fault_window) btree) result" where
  "apply_lines path idx [] windows = Inr windows"
| "apply_lines path idx (line # lines) windows =
     (case apply_line path (idx + 1) line windows of
        Inl e \<Rightarrow> Inl e
      | Inr windows' \<Rightarrow> apply_lines path (idx + 1) lines windows')"

lemma ledger_loop_lines:
  "ledger_loop codec path idx raws windows = Inr windows' \<longleftrightarrow>
     (\<exists>lines. list_all2 (\<lambda>raw line. ledger_line codec raw = Inr line) raws lines
        \<and> apply_lines path idx lines windows = Inr windows')"
proof (induction raws arbitrary: idx windows)
  case (Cons raw raws)
  show ?case
  proof (cases "ledger_line codec raw")
    case (Inr line)
    then show ?thesis
      using Cons.IH by (auto simp: list_all2_Cons1 split: sum.splits)
  qed (simp add: list_all2_Cons1)
qed auto

text \<open>Every window stands for its lines: one window per fault, one line per recorded phase.\<close>

definition window_of :: "fault_line set \<Rightarrow> string \<Rightarrow> fault_window \<Rightarrow> bool" where
  "window_of lines fid w \<longleftrightarrow> fw_fault_id w = fid
     \<and> (\<forall>l\<in>lines. fl_fault_id l = fid \<longrightarrow> fl_kind l = fw_kind w \<and> fl_target_node l = fw_target_node w)
     \<and> (\<forall>ph t. phase_slot ph w = Some t \<longleftrightarrow>
          (\<exists>l\<in>lines. fl_fault_id l = fid \<and> fl_phase l = ph \<and> fl_at_ms l = t))"

definition ledger_inv :: "fault_line set \<Rightarrow> (string, fault_window) btree \<Rightarrow> bool" where
  "ledger_inv lines windows \<longleftrightarrow> bt_wf windows
     \<and> (\<forall>fid. bt_get windows fid = None \<longleftrightarrow> fid \<notin> fl_fault_id ` lines)
     \<and> (\<forall>fid w. bt_get windows fid = Some w \<longrightarrow> window_of lines fid w)"

lemma phase_slot_set [simp]:
  "phase_slot ph (set_phase ph' t w) = (if ph = ph' then Some t else phase_slot ph w)"
  "fw_fault_id (set_phase ph' t w) = fw_fault_id w" "fw_kind (set_phase ph' t w) = fw_kind w"
  "fw_target_node (set_phase ph' t w) = fw_target_node w"
  by (cases ph; cases ph'; simp; fail | cases ph'; simp)+

lemma new_window_simps [simp]:
  "phase_slot ph (new_window l) = None" "fw_fault_id (new_window l) = fl_fault_id l"
  "fw_kind (new_window l) = fl_kind l" "fw_target_node (new_window l) = fl_target_node l"
  by (cases ph) (simp_all add: new_window_def)

lemma set_phase_window:
  assumes "window_of lines (fl_fault_id l) w \<or> (w = new_window l \<and> fl_fault_id l \<notin> fl_fault_id ` lines)"
    and "fw_kind w = fl_kind l" and "fw_target_node w = fl_target_node l"
    and "phase_slot (fl_phase l) w = None"
  shows "window_of (insert l lines) (fl_fault_id l) (set_phase (fl_phase l) (fl_at_ms l) w)"
proof -
  have old: "phase_slot ph w = Some t \<longleftrightarrow>
      (\<exists>l'\<in>lines. fl_fault_id l' = fl_fault_id l \<and> fl_phase l' = ph \<and> fl_at_ms l' = t)" for ph t
    using assms(1) by (auto simp: window_of_def image_iff)
  have "fl_phase l' \<noteq> fl_phase l" if "l' \<in> lines" "fl_fault_id l' = fl_fault_id l" for l'
    using that assms(4) old[of "fl_phase l'" "fl_at_ms l'"] by auto
  with assms old show ?thesis by (auto simp: window_of_def image_iff)
qed

lemma window_of_other: "fl_fault_id l \<noteq> fid \<Longrightarrow> window_of lines fid w \<Longrightarrow> window_of (insert l lines) fid w"
  by (auto simp: window_of_def)

lemma apply_line_inv:
  assumes "apply_line path n l windows = Inr windows'" and "ledger_inv lines windows"
  shows "ledger_inv (insert l lines) windows'"
proof -
  define w where "w = map_or (new_window l) id (bt_get windows (fl_fault_id l))"
  from assms(1) have eq: "windows' = bt_insert (fl_fault_id l) (set_phase (fl_phase l) (fl_at_ms l) w) windows"
    and kind: "fw_kind w = fl_kind l" "fw_target_node w = fl_target_node l"
    and slot: "phase_slot (fl_phase l) w = None"
    by (auto simp: apply_line_def w_def Let_def split: if_splits)
  have "window_of lines (fl_fault_id l) w \<or> (w = new_window l \<and> fl_fault_id l \<notin> fl_fault_id ` lines)"
  proof (cases "bt_get windows (fl_fault_id l)")
    case None
    then have "fl_fault_id l \<notin> fl_fault_id ` lines" using assms(2) unfolding ledger_inv_def by blast
    with None show ?thesis by (simp add: w_def)
  qed (use assms(2) in \<open>simp add: w_def ledger_inv_def\<close>)
  from set_phase_window[OF this kind slot] assms(2) show ?thesis
    by (auto simp: ledger_inv_def eq intro: window_of_other)
qed

lemma apply_lines_inv:
  "apply_lines path idx ls windows = Inr windows' \<Longrightarrow> ledger_inv lines windows \<Longrightarrow>
     ledger_inv (set ls \<union> lines) windows'"
proof (induction ls arbitrary: idx windows lines)
  case (Cons l ls)
  from Cons.prems(1) obtain w1 where step: "apply_line path (idx + 1) l windows = Inr w1"
    and rest: "apply_lines path (idx + 1) ls w1 = Inr windows'" by (auto split: sum.splits)
  from Cons.IH[OF rest apply_line_inv[OF step Cons.prems(2)]] show ?case by simp
qed simp

lemma ledger_window:
  assumes "parse_fault_ledger codec fs path = Inr ledger"
  obtains content lines where "fs path = Inr content"
    and "list_all2 (\<lambda>raw line. ledger_line codec raw = Inr line) (str_lines content) lines"
    and "\<And>w. w \<in> set ledger \<Longrightarrow> window_of (set lines) (fw_fault_id w) w"
    and "fw_fault_id ` set ledger = fl_fault_id ` set lines"
proof -
  from assms obtain content windows where c: "fs path = Inr content"
    and loop: "ledger_loop codec path 0 (str_lines content) bt_empty = Inr windows"
    and l: "ledger = map snd windows"
    by (auto simp: parse_fault_ledger_def split: sum.splits)
  from loop obtain lines where d: "list_all2 (\<lambda>raw line. ledger_line codec raw = Inr line) (str_lines content) lines"
    and a: "apply_lines path 0 lines bt_empty = Inr windows"
    unfolding ledger_loop_lines by blast
  have "ledger_inv {} bt_empty" by (simp add: ledger_inv_def bt_empty_def)
  from apply_lines_inv[OF a this] have inv: "ledger_inv (set lines) windows" by simp
  then have get: "bt_get windows fid = Some w \<longleftrightarrow> (fid, w) \<in> set windows" for fid w
    by (simp add: ledger_inv_def bt_get_Some)
  have win: "window_of (set lines) fid w" if "(fid, w) \<in> set windows" for fid w
    using that inv by (auto simp: ledger_inv_def get[symmetric])
  then have w: "w \<in> set ledger \<Longrightarrow> window_of (set lines) (fw_fault_id w) w" for w
    unfolding l by (force simp: window_of_def)
  have "fw_fault_id ` set ledger = fst ` set windows"
    using win unfolding l by (force simp: window_of_def image_image intro!: image_cong)
  also have "\<dots> = fl_fault_id ` set lines"
    using inv by (auto simp: ledger_inv_def bt_get_None)
  finally show thesis using that c d w by blast
qed

text \<open>
  The fault schedule fired. If a fault ledger parses and the schedule rule accepts it, then
  the file has at least one line and for every fault that any line of it names there is a line that
  records its start.
\<close>
theorem fault_schedule_fired:
  assumes "parse_fault_ledger codec fs path = Inr ledger"
    and "check_fault_schedule (Some ledger) = Inr n"
  shows "\<exists>content lines. fs path = Inr content \<and> lines \<noteq> []
    \<and> list_all2 (\<lambda>raw line. ledger_line codec raw = Inr line) (str_lines content) lines
    \<and> (\<forall>line\<in>set lines. \<exists>start\<in>set lines. fl_fault_id start = fl_fault_id line \<and> fl_phase start = Started)"
proof -
  from assms(1) obtain content lines where c: "fs path = Inr content"
    and d: "list_all2 (\<lambda>raw line. ledger_line codec raw = Inr line) (str_lines content) lines"
    and win: "\<And>w. w \<in> set ledger \<Longrightarrow> window_of (set lines) (fw_fault_id w) w"
    and ids: "fw_fault_id ` set ledger = fl_fault_id ` set lines"
    by (rule ledger_window) blast
  from assms(2) have ne: "ledger \<noteq> []" and started: "\<And>w. w \<in> set ledger \<Longrightarrow> fw_started_at_ms w \<noteq> None"
    by (auto simp: check_fault_schedule_def Let_def filter_empty_conv split: if_splits)
  have "\<exists>start\<in>set lines. fl_fault_id start = fl_fault_id line \<and> fl_phase start = Started"
    if line: "line \<in> set lines" for line
  proof -
    from line ids obtain w where w: "w \<in> set ledger" "fw_fault_id w = fl_fault_id line" by force
    from started[OF w(1)] obtain t where "phase_slot Started w = Some t" by auto
    with win[OF w(1)] w(2) show ?thesis unfolding window_of_def by metis
  qed
  moreover have "lines \<noteq> []" using ne ids by auto
  ultimately show ?thesis using c d by blast
qed

end
