(* ===== verification/Judge_Run.thy ===== *)
theory Judge_Run
  imports Judge_Watermark Judge_Latest Judge_Cache Judge_Vacuity
begin

text \<open>
  \<open>runner.rs\<close> of \<open>crates/duckspout-judge/src\<close>: one run of the judge, from the arguments to the exit
  code. The rendering of the findings (\<open>Display\<close>) is a parameter, \<open>displays\<close>; the printed report
  and the command line of \<open>main.rs\<close> are left out.

  \<open>run_pass_facts\<close> reduces exit code 0 to the verdicts of the rules, from which
  \<open>judge_certifies\<close> reads off what a passing run certifies.
\<close>

section \<open>The run\<close>

record displays =
  di_acked_lost :: "acked_lost_finding \<Rightarrow> string"
  di_watermark :: "watermark_finding \<Rightarrow> string"
  di_latest_view :: "latest_view_finding \<Rightarrow> string"
  di_retention :: "retention_finding \<Rightarrow> string"
  di_cache :: "cache_finding \<Rightarrow> string"
  di_vacuity :: "vacuity_finding \<Rightarrow> string"

record run_args =
  ra_journals :: "string list"
  ra_final_state_fixture :: "string option"
  ra_read_log :: "string option"
  ra_latest_view_fixture :: "string option"
  ra_committed_parts_fixture :: "string option"
  ra_fault_log :: "string option"
  ra_run_manifest :: "string option"
  ra_exceeds :: "u64 \<Rightarrow> u64 \<Rightarrow> bool"
  ra_max_journal_silence_ms :: u64
  ra_max_racing_read_ms :: u64

record predicate_report =
  pp_predicate :: string
  pp_verdict :: "string verdict"

datatype ingestion_error =
    IngestJournal journal_error
  | IngestReadLog read_log_error
  | IngestLedger fault_ledger_error
  | IngestManifest manifest_error

datatype run_outcome =
    IngestionFailed ingestion_error
  | Judged (journal_count: nat) (line_count: nat) (reports: "predicate_report list")

fun outcome_exit_code :: "run_outcome \<Rightarrow> int" where
  "outcome_exit_code (IngestionFailed _) = exit_no_verdict"
| "outcome_exit_code (Judged _ _ rs) = combined_exit_code (map pp_verdict rs)"

definition load_fixture ::
  "read_fs \<Rightarrow> string option \<Rightarrow> string \<Rightarrow> (string \<Rightarrow> (string, 't) result) \<Rightarrow> (string, 't) result" where
  "load_fixture fs path absent decode =
     (case path of
        None \<Rightarrow> Inl absent
      | Some p \<Rightarrow>
          (case fs p of
             Inl e \<Rightarrow> Inl (''reading '' @ p @ '': '' @ e)
           | Inr content \<Rightarrow> (case decode content of Inl e \<Rightarrow> Inl (p @ '': '' @ e) | Inr x \<Rightarrow> Inr x)))"

definition zero_acked_lost_report ::
  "'j run_codec \<Rightarrow> read_fs \<Rightarrow> displays \<Rightarrow> run_args \<Rightarrow> journal_set \<Rightarrow> predicate_report" where
  "zero_acked_lost_report codec fs di args journals =
     \<lparr>pp_predicate = ''zero-acked-lost'',
      pp_verdict =
        (case load_fixture fs (ra_final_state_fixture args) ''no final-state fixture'' (rc_final_state codec) of
           Inr fixture \<Rightarrow> erase (di_acked_lost di)
             (zero_acked_lost_check journals (ims_contains (ims_from_fixture fixture)))
         | Inl reason \<Rightarrow> NoVerdict reason)\<rparr>"

definition watermark_honesty_report ::
  "displays \<Rightarrow> journal_set \<Rightarrow> read_record list \<Rightarrow> predicate_report" where
  "watermark_honesty_report di journals reads =
     \<lparr>pp_predicate = ''watermark-honesty'',
      pp_verdict = erase (di_watermark di) (watermark_honesty_check journals reads)\<rparr>"

definition latest_view_report ::
  "'j run_codec \<Rightarrow> read_fs \<Rightarrow> displays \<Rightarrow> run_args \<Rightarrow> journal_set \<Rightarrow> predicate_report" where
  "latest_view_report codec fs di args journals =
     \<lparr>pp_predicate = ''latest-view'',
      pp_verdict =
        (case load_fixture fs (ra_latest_view_fixture args) ''no latest-view fixture'' (rc_latest_view codec) of
           Inr views \<Rightarrow> erase (di_latest_view di) (latest_view_check journals (imv_view views))
         | Inl reason \<Rightarrow> NoVerdict reason)\<rparr>"

definition retention_honesty_report ::
  "'j run_codec \<Rightarrow> read_fs \<Rightarrow> displays \<Rightarrow> run_args \<Rightarrow> journal_set \<Rightarrow> predicate_report" where
  "retention_honesty_report codec fs di args journals =
     \<lparr>pp_predicate = ''retention-honesty'',
      pp_verdict =
        (case (load_fixture fs (ra_committed_parts_fixture args) ''no committed-parts fixture''
                 (rc_committed_parts codec),
               load_fixture fs (ra_latest_view_fixture args) ''no latest-view fixture''
                 (rc_latest_view codec)) of
           (Inr parts, Inr views) \<Rightarrow>
             erase (di_retention di)
               (retention_honesty_check journals (imp_snapshots parts) (imv_view views))
         | (Inl reason, _) \<Rightarrow> NoVerdict reason
         | (Inr _, Inl reason) \<Rightarrow> NoVerdict reason)\<rparr>"

definition cache_transparency_report ::
  "displays \<Rightarrow> run_args \<Rightarrow> journal_set \<Rightarrow> read_record list \<Rightarrow> predicate_report" where
  "cache_transparency_report di args journals reads =
     \<lparr>pp_predicate = ''cache-transparency'',
      pp_verdict = erase (di_cache di)
        (cache_transparency_check journals reads (ra_max_racing_read_ms args))\<rparr>"

definition vacuity_reports ::
  "'j run_codec \<Rightarrow> read_fs \<Rightarrow> displays \<Rightarrow> run_args \<Rightarrow> journal_set \<Rightarrow> fault_ledger option
     \<Rightarrow> run_manifest option \<Rightarrow> predicate_report list" where
  "vacuity_reports codec fs di args journals ledger manifest =
     map (\<lambda>(rule, v). \<lparr>pp_predicate = rule, pp_verdict = erase (di_vacuity di) v\<rparr>)
       (check_all codec fs (di_vacuity di)
          \<lparr>vi_journals = journals, vi_ledger = ledger, vi_manifest = manifest,
           vi_exceeds = ra_exceeds args, vi_max_journal_silence_ms = ra_max_journal_silence_ms args\<rparr>)"

text \<open>An optional input: absent, or parsed with its error.\<close>

definition optional :: "('p \<Rightarrow> ('e, 'a) result) \<Rightarrow> 'p option \<Rightarrow> ('e, 'a option) result" where
  "optional parse path =
     (case path of
        None \<Rightarrow> Inr None
      | Some p \<Rightarrow> (case parse p of Inl e \<Rightarrow> Inl e | Inr x \<Rightarrow> Inr (Some x)))"

definition judge_run :: "'j run_codec \<Rightarrow> read_fs \<Rightarrow> displays \<Rightarrow> run_args \<Rightarrow> run_outcome" where
  "judge_run codec fs di args =
     (case ingest_journals (json_codec.truncate codec) fs (ra_journals args) of
        Inl e \<Rightarrow> IngestionFailed (IngestJournal e)
      | Inr journals \<Rightarrow>
     (case optional (parse_read_log (json_codec.truncate codec) fs) (ra_read_log args) of
        Inl e \<Rightarrow> IngestionFailed (IngestReadLog e)
      | Inr read_log \<Rightarrow>
          (let reads = map_or [] id read_log in
     (case optional (parse_fault_ledger codec fs) (ra_fault_log args) of
        Inl e \<Rightarrow> IngestionFailed (IngestLedger e)
      | Inr ledger \<Rightarrow>
     (case optional (parse_run_manifest codec fs) (ra_run_manifest args) of
        Inl e \<Rightarrow> IngestionFailed (IngestManifest e)
      | Inr manifest \<Rightarrow>
          Judged (length (ra_journals args)) (length journals)
            ([zero_acked_lost_report codec fs di args journals,
              watermark_honesty_report di journals reads,
              latest_view_report codec fs di args journals,
              retention_honesty_report codec fs di args journals,
              cache_transparency_report di args journals reads]
             @ vacuity_reports codec fs di args journals ledger manifest))))))"

section \<open>Exit codes\<close>

lemma erase_Pass [simp]: "erase display v = Pass n \<longleftrightarrow> v = Pass n"
  by (cases v) auto

lemma pass_exit:
  "combined_exit_code vs = 0 \<longleftrightarrow> vs \<noteq> [] \<and> (\<forall>v\<in>set vs. \<exists>n. v = Pass n)"
proof -
  have "(\<exists>n. v = Pass n) \<longleftrightarrow> \<not> is_violation v \<and> \<not> is_no_verdict v" for v :: "string verdict"
    by (cases v) auto
  then show ?thesis
    by (auto simp: combined_exit_code_def exit_pass_def exit_violation_def exit_no_verdict_def
        list_ex_iff)
qed

text \<open>
  Exit codes. The combined exit code of a list of verdicts is 0 exactly when there is a
  verdict and all are passes, 2 exactly when one is a violation, and 3 otherwise.
\<close>
theorem combined_exit_code_spec:
  "combined_exit_code vs =
     (if \<exists>fs. Violation fs \<in> set vs then 2
      else if vs \<noteq> [] \<and> set vs \<subseteq> range Pass then 0 else 3)"
proof -
  have "list_ex is_violation vs \<longleftrightarrow> (\<exists>fs. Violation fs \<in> set vs)"
    by (metis (full_types) is_violation.elims(2) is_violation.simps(1) list_ex_iff)
  moreover have "list_ex is_no_verdict vs \<longleftrightarrow> (\<exists>r. NoVerdict r \<in> set vs)"
    by (metis (full_types) is_no_verdict.elims(2) is_no_verdict.simps(1) list_ex_iff)
  moreover have "(set vs \<subseteq> range Pass) \<longleftrightarrow> \<not> (\<exists>fs. Violation fs \<in> set vs) \<and> \<not> (\<exists>r. NoVerdict r \<in> set vs)"
    by (auto simp: image_iff) (metis verdict.exhaust)
  ultimately show ?thesis
    by (auto simp: combined_exit_code_def exit_pass_def exit_violation_def exit_no_verdict_def)
qed

section \<open>What ingestion accepts\<close>

text \<open>
  Dense journals. Ingestion succeeds exactly when every file parses and, over all files in the
  order given, the lines of each node carry the sequence numbers \<open>0, 1, 2, \<dots>\<close> in this order; the
  result is then all lines of all files.
\<close>
theorem ingest_accepts_iff:
  "ingest_journals codec fs paths = Inr journals \<longleftrightarrow>
     (\<exists>files. list_all2 (\<lambda>path file. parse_journal_file codec fs path = Inr file) paths files
        \<and> journals = concat files)
     \<and> (\<forall>node. map jl_seq (filter (\<lambda>line. jl_node line = node) journals)
          = map of_nat [0..<length (filter (\<lambda>line. jl_node line = node) journals)])"
proof -
  have "ingest_journals codec fs paths = Inr journals \<longleftrightarrow>
      ingest_loop codec fs paths = Inr journals \<and> check_cross_file_density journals = Inr ()"
    by (auto simp: ingest_journals_def split: sum.splits)
  then show ?thesis
    unfolding ingest_loop_files density_iff by (simp add: node_seqs_def counting_def)
qed

lemma nth_counting: "i < n \<Longrightarrow> counting s n ! i = s + of_nat i"
  by (simp add: counting_def)

lemma counting_0_nth: "xs = counting 0 (length xs) \<Longrightarrow> i < length xs \<Longrightarrow> xs ! i = of_nat i"
  by (metis nth_counting add_0)

text \<open>
  One journal per node. In a run of fewer than \<open>2^64\<close> journal lines that ingestion accepts, the
  lines of a node are all in one file: a file given twice, or a journal cut in two, is refused.
\<close>
theorem node_in_one_file:
  assumes "ingest_journals codec fs (before @ p # between @ q # rest) = Inr journals"
    and "length journals < 2 ^ 64"
    and "parse_journal_file codec fs p = Inr file" and "parse_journal_file codec fs q = Inr file'"
    and "line \<in> set file" and "line' \<in> set file'"
  shows "jl_node line \<noteq> jl_node line'"
proof
  assume same: "jl_node line = jl_node line'"
  let ?node = "jl_node line" and ?ok = "\<lambda>path file. parse_journal_file codec fs path = Inr file"
  from assms(1) have "ingest_loop codec fs (before @ p # between @ q # rest) = Inr journals"
    and dense: "check_cross_file_density journals = Inr ()"
    by (auto simp: ingest_journals_def split: sum.splits)
  then obtain files where "list_all2 ?ok (before @ p # between @ q # rest) files"
    and j: "journals = concat files" unfolding ingest_loop_files by blast
  then obtain fs1 fs2 fs3 where j: "journals = concat fs1 @ file @ concat fs2 @ file' @ concat fs3"
    using assms(3,4) by (auto simp: list_all2_append1 list_all2_Cons1)
  define pre where "pre = node_seqs ?node (concat fs1 @ file @ concat fs2)"
  have seqs: "node_seqs ?node journals = pre @ node_seqs ?node file' @ node_seqs ?node (concat fs3)"
    by (simp add: j pre_def)
  have ne: "pre \<noteq> []" "node_seqs ?node file' \<noteq> []"
    using assms(5) by (auto simp: pre_def node_seqs_Nil) (use assms(6) same in \<open>auto simp: node_seqs_Nil\<close>)
  have "hd (node_seqs ?node file') = 0"
    using parse_file_density[OF assms(4)] ne(2) counting_0_nth[of "node_seqs ?node file'" 0]
    by (simp add: density_iff hd_conv_nth)
  moreover have "node_seqs ?node journals = counting 0 (length (node_seqs ?node journals))"
    using dense unfolding density_iff by blast
  then have "node_seqs ?node journals ! length pre = of_nat (length pre)"
    by (rule counting_0_nth) (simp add: seqs ne)
  then have "hd (node_seqs ?node file') = of_nat (length pre)"
    by (simp add: seqs ne hd_conv_nth nth_append)
  moreover have "unat (of_nat (length pre) :: u64) = length pre"
  proof -
    have "length (node_seqs ?node journals) \<le> length journals" by (simp add: node_seqs_def)
    then have "length pre < 2 ^ 64" using assms(2) by (simp add: seqs)
    then show ?thesis by (simp add: unsigned_of_nat take_bit_nat_eq_self)
  qed
  ultimately have "length pre = 0" by simp
  with ne(1) show False by simp
qed

section \<open>The example run in files\<close>

text \<open>
  A table as JSON library: a line of a file is a key of the table, its reading the value. The files
  hold the example run of \<open>Judge_Demo\<close>.
\<close>

definition demo_table :: "(string \<times> journal_line) list" where
  "demo_table = zip [''1'', ''2'', ''3'', ''4'', ''5'', ''6'', ''7''] demo_journals"

definition demo_read_table :: "(string \<times> read_record) list" where
  "demo_read_table = zip [''w'', ''x'', ''y'', ''z''] demo_reads"

definition table_lookup :: "(string \<times> 'a) list \<Rightarrow> string \<Rightarrow> (string, 'a) result" where
  "table_lookup table raw = (case map_of table raw of None \<Rightarrow> Inl ''syntax'' | Some x \<Rightarrow> Inr x)"

definition present :: "'a option \<Rightarrow> (string, 'a) result" where
  "present x = (case x of None \<Rightarrow> Inl ''missing field'' | Some y \<Rightarrow> Inr y)"

text \<open>The value of a line is a journal line together with the cache probe of a read, if any.\<close>

type_synonym demo_json = "journal_line \<times> cache_probe option"

definition demo_envelope :: "journal_line \<Rightarrow> demo_json journal_envelope" where
  "demo_envelope line =
     \<lparr>env_node = jl_node line, env_seq = jl_seq line, env_event = jl_event line, env_rest = (line, None)\<rparr>"

definition demo_has_key :: "demo_json \<Rightarrow> string \<Rightarrow> bool" where
  "demo_has_key j key =
     (if key = ''request_id'' then jl_identity (fst j) \<noteq> None
      else if key = ''complete_through_ms'' then jl_watermark (fst j) \<noteq> None
      else if key = ''changelog_key'' then jl_changelog (fst j) \<noteq> None
      else if key = ''part'' then jl_part (fst j) \<noteq> None
      else key = ''residency_ops_before'' \<and> snd j \<noteq> None)"

definition demo_node :: "string \<Rightarrow> node_run" where
  "demo_node name = \<lparr>nr_name = name, nr_journal_path = name, nr_journal_lines = 1,
     nr_last_progress_at_ms = Some 100, nr_exited_early = False\<rparr>"

definition demo_codec :: "demo_json run_codec" where
  "demo_codec =
     \<lparr>jc_keys = (\<lambda>raw. ([raw], None)),
      jc_envelope = (\<lambda>raw. case table_lookup demo_table raw of Inl e \<Rightarrow> Inl e | Inr l \<Rightarrow> Inr (demo_envelope l)),
      jc_value = (\<lambda>raw. case table_lookup demo_read_table raw of
                          Inl e \<Rightarrow> Inl e | Inr r \<Rightarrow> Inr (demo_line [] 0 [] 0 TeAccept, rr_cache r)),
      jc_has_key = demo_has_key,
      jc_identity = (\<lambda>j. present (jl_identity (fst j))),
      jc_watermark = (\<lambda>j. present (jl_watermark (fst j))),
      jc_changelog = (\<lambda>j. present (jl_changelog (fst j))),
      jc_part = (\<lambda>j. present (jl_part (fst j))),
      jc_read_record = (\<lambda>raw. case table_lookup demo_read_table raw of
                               Inl e \<Rightarrow> Inl e | Inr r \<Rightarrow> Inr (r\<lparr>rr_cache := None\<rparr>)),
      jc_probe = (\<lambda>j. present (snd j)),
      rc_fault_line = (\<lambda>raw. Inr \<lparr>fl_fault_id = ''f'', fl_kind = ''pause'', fl_target_node = ''b'',
                                  fl_phase = (if raw = ''s'' then Started else Ended), fl_at_ms = 10\<rparr>),
      rc_manifest = (\<lambda>raw. Inr \<lparr>rm_started_at_ms = 0, rm_ended_at_ms = 200, rm_sample_interval_ms = 10,
                                rm_nodes = [demo_node ''a'', demo_node ''b'']\<rparr>),
      rc_summary = (\<lambda>raw. Inr \<lparr>rs_sent = 1, rs_acked = 1, rs_timed_out = 0, rs_rejected = 0, rs_ambiguous = 0\<rparr>),
      rc_final_state = (\<lambda>raw. Inr demo_fixture),
      rc_latest_view = (\<lambda>raw. Inr demo_views),
      rc_committed_parts = (\<lambda>raw. Inr [demo_snapshot])\<rparr>"

definition demo_files :: "(string \<times> string) list" where
  "demo_files =
     [(''lg'', [CHR ''1'', CHR 0x0A]),
      (''a'', [CHR ''2'', CHR 0x0A, CHR ''3'', CHR 0x0A, CHR ''4'', CHR 0x0A, CHR ''5'', CHR 0x0A, CHR ''6'', CHR 0x0A]),
      (''b'', [CHR ''7'', CHR 0x0A]),
      (''reads'', [CHR ''w'', CHR 0x0A, CHR ''x'', CHR 0x0A, CHR ''y'', CHR 0x0A, CHR ''z'', CHR 0x0A]),
      (''faults'', [CHR ''s'', CHR 0x0A, CHR ''e'', CHR 0x0A]),
      (''lg.summary.json'', []), (''fixture'', [])]"

definition demo_fs :: read_fs where
  "demo_fs path = (case map_of demo_files path of None \<Rightarrow> Inl ''no such file'' | Some t \<Rightarrow> Inr t)"

definition demo_args :: run_args where
  "demo_args =
     \<lparr>ra_journals = [''lg'', ''a'', ''b''], ra_final_state_fixture = Some ''fixture'',
      ra_read_log = Some ''reads'', ra_latest_view_fixture = Some ''fixture'',
      ra_committed_parts_fixture = Some ''fixture'', ra_fault_log = Some ''faults'',
      ra_run_manifest = Some ''fixture'', ra_exceeds = (\<lambda>n d. False),
      ra_max_journal_silence_ms = 30000, ra_max_racing_read_ms = default_max_racing_read_ms\<rparr>"

definition demo_displays :: displays where
  "demo_displays =
     \<lparr>di_acked_lost = (\<lambda>f. []), di_watermark = (\<lambda>f. []), di_latest_view = (\<lambda>f. []),
      di_retention = (\<lambda>f. []), di_cache = (\<lambda>f. []), di_vacuity = (\<lambda>f. [])\<rparr>"

theorem ingest_accepts_iff_witness:
  "ingest_journals (json_codec.truncate demo_codec) demo_fs [''lg'', ''a'', ''b''] = Inr demo_journals
   \<and> map jl_seq (filter (\<lambda>line. jl_node line = NodeId ''a'') demo_journals) = map of_nat [0..<5]"
proof
  show ok: "ingest_journals (json_codec.truncate demo_codec) demo_fs [''lg'', ''a'', ''b''] = Inr demo_journals"
    by code_simp
  have "length (filter (\<lambda>line. jl_node line = NodeId ''a'') demo_journals) = 5" by code_simp
  with ok show "map jl_seq (filter (\<lambda>line. jl_node line = NodeId ''a'') demo_journals) = map of_nat [0..<5]"
    unfolding ingest_accepts_iff by metis
qed

theorem node_in_one_file_witness:
  "jl_node demo_advert \<noteq> jl_node (demo_line ''b'' 1 ''b'' 0 TePeerApply)"
proof (rule node_in_one_file)
  show "ingest_journals (json_codec.truncate demo_codec) demo_fs ([''lg''] @ ''a'' # [] @ ''b'' # []) = Inr demo_journals"
    by code_simp
  show "length demo_journals < 2 ^ 64" by (simp add: demo_journals_def)
  show "parse_journal_file (json_codec.truncate demo_codec) demo_fs ''a'' = Inr (take 5 (drop 1 demo_journals))"
    by code_simp
  show "parse_journal_file (json_codec.truncate demo_codec) demo_fs ''b''
      = Inr [demo_line ''b'' 1 ''b'' 0 TePeerApply]"
    by code_simp
qed (simp_all add: demo_journals_def)

section \<open>What a passing run certifies\<close>

lemma run_pass_facts:
  assumes "outcome_exit_code (judge_run codec fs di args) = 0"
  obtains journals reads ledger where
    "ingest_journals (json_codec.truncate codec) fs (ra_journals args) = Inr journals"
    and "optional (parse_read_log (json_codec.truncate codec) fs) (ra_read_log args) = Inr reads"
    and "optional (parse_fault_ledger codec fs) (ra_fault_log args) = Inr ledger"
    and "\<exists>n. pp_verdict (zero_acked_lost_report codec fs di args journals) = Pass n"
    and "\<exists>n. pp_verdict (watermark_honesty_report di journals (map_or [] id reads)) = Pass n"
    and "\<exists>n. pp_verdict (cache_transparency_report di args journals (map_or [] id reads)) = Pass n"
    and "\<exists>n. to_verdict (di_vacuity di) (check_fault_schedule ledger) = Pass n"
  using assms
  by (auto simp: judge_run_def Let_def pass_exit exit_no_verdict_def vacuity_reports_def check_all_def
      split: sum.splits)

lemma zero_report_pass:
  assumes "pp_verdict (zero_acked_lost_report codec fs di args journals) = Pass n"
  obtains fixture where
    "load_fixture fs (ra_final_state_fixture args) ''no final-state fixture'' (rc_final_state codec) = Inr fixture"
    and "zero_acked_lost_check journals (ims_contains (ims_from_fixture fixture)) = Pass n"
  using assms by (auto simp: zero_acked_lost_report_def split: sum.splits)

lemma schedule_pass:
  assumes "to_verdict di (check_fault_schedule ledger) = Pass n"
  obtains windows where "ledger = Some windows" and "windows \<noteq> []"
    and "\<And>w. w \<in> set windows \<Longrightarrow> fw_started_at_ms w \<noteq> None"
  using assms
  by (auto simp: to_verdict_def check_fault_schedule_def Let_def filter_empty_conv
      split: sum.splits option.splits if_splits)

lemma acked_present:
  assumes "zero_acked_lost_check journals (ims_contains state) = Pass n"
    and "line \<in> set journals" and "jl_event line = TeClientAck" and "jl_identity line = Some a"
    and "is_checkable a" and "i < ri_record_count a"
  shows "(ri_tenant a, record_key (ri_source_incarnation a) (ri_first_index a + of_nat i)) \<in> set state"
proof -
  have "(line, a) \<in> set (identity_events journals TeClientAck)" using assms(2-4) by simp
  from imageI[OF this, of snd] have "a \<in> set (checkable_acks journals)"
    using assms(5) by (simp add: checkable_acks_def)
  moreover from assms(1) have "\<forall>a\<in>set (checkable_acks journals). no_overflow a \<and> lost_indices (ims_contains state) a = []"
    by (auto simp: zero_check_eval lost_findings_Nil ims.answered_iff split: if_splits)
  ultimately have "answer (ims_contains state) a (ri_first_index a + of_nat i) = Inr True"
    using lost_Nil[of "ims_contains state" a] assms(6)
    by (auto simp: ims.answered_iff acked_indices_def)
  then show ?thesis by (simp add: answer_def ims_contains_def)
qed

lemma advert_backed:
  assumes "watermark_honesty_check journals reads = Pass n"
    and "line \<in> set journals" and "jl_watermark line = Some c"
    and "jl_event line \<notin> set coverage_sources" and "jl_event line \<noteq> TeLakeCommitAbort"
  shows "wc_complete_through_ms c \<le> Max (insert 0 (backing (claims_of journals) (wc_partition c)
           (\<lambda>node seq. node \<noteq> jl_node line \<or> seq < jl_seq line)))"
proof -
  define cl where "cl = \<lparr>cl_node = jl_node line, cl_seq = jl_seq line, cl_event = jl_event line, cl_watermark = c\<rparr>"
  have "(line, c) \<in> set (watermark_claims journals)" using assms(2,3) by simp
  then have "cl \<in> set (claims_of journals)" by (force simp: claims_of_def cl_def)
  then have "cl \<in> set (filter is_advertisement (claims_of journals))"
    using assms(4,5) by (simp add: is_advertisement_def cl_def)
  with assms(1) have "honest_claim (coverage_of (claims_of journals)) cl"
    unfolding honesty_pass_iff by blast
  then show ?thesis by (simp add: honest_claim_def advertisement_bound cl_def)
qed

text \<open>
  C25 (What exit code 0 certifies). If the judge exits with 0, its journals were ingested; every
  record of every journaled acknowledgement of a tenant that is not a system tenant is in the final
  state it was given; every advertised watermark is at most 0 or at most a value that another node
  committed for the partition, or the same node on an earlier line; and a fault ledger was given, it
  is not empty, and every fault of it started.
\<close>
theorem judge_certifies:
  assumes "outcome_exit_code (judge_run codec fs di args) = 0"
  shows "\<exists>journals fixture path windows.
     ingest_journals (json_codec.truncate codec) fs (ra_journals args) = Inr journals
     \<and> load_fixture fs (ra_final_state_fixture args) ''no final-state fixture'' (rc_final_state codec) = Inr fixture
     \<and> (\<forall>line\<in>set journals. \<forall>a i. jl_event line = TeClientAck \<and> jl_identity line = Some a
          \<and> is_checkable a \<and> i < ri_record_count a \<longrightarrow>
          (ri_tenant a, record_key (ri_source_incarnation a) (ri_first_index a + of_nat i))
            \<in> set (ims_from_fixture fixture))
     \<and> (\<forall>line\<in>set journals. \<forall>c. jl_watermark line = Some c
          \<and> jl_event line \<notin> set coverage_sources \<and> jl_event line \<noteq> TeLakeCommitAbort \<longrightarrow>
          wc_complete_through_ms c \<le> Max (insert 0 (backing (claims_of journals) (wc_partition c)
             (\<lambda>node seq. node \<noteq> jl_node line \<or> seq < jl_seq line))))
     \<and> ra_fault_log args = Some path \<and> parse_fault_ledger codec fs path = Inr windows
     \<and> windows \<noteq> [] \<and> (\<forall>w\<in>set windows. fw_started_at_ms w \<noteq> None)"
proof -
  from assms obtain journals reads ledger n1 n2 n3 where
    j: "ingest_journals (json_codec.truncate codec) fs (ra_journals args) = Inr journals"
    and l: "optional (parse_fault_ledger codec fs) (ra_fault_log args) = Inr ledger"
    and z: "pp_verdict (zero_acked_lost_report codec fs di args journals) = Pass n1"
    and w: "watermark_honesty_check journals (map_or [] id reads) = Pass n2"
    and s: "to_verdict (di_vacuity di) (check_fault_schedule ledger) = Pass n3"
    by (rule run_pass_facts) (auto simp: watermark_honesty_report_def)
  from z obtain fixture where f: "load_fixture fs (ra_final_state_fixture args) ''no final-state fixture''
      (rc_final_state codec) = Inr fixture"
    and p: "zero_acked_lost_check journals (ims_contains (ims_from_fixture fixture)) = Pass n1"
    by (rule zero_report_pass)
  from s obtain windows where win: "ledger = Some windows" "windows \<noteq> []"
    "\<And>w. w \<in> set windows \<Longrightarrow> fw_started_at_ms w \<noteq> None"
    by (rule schedule_pass) blast
  from l win(1) obtain path where "ra_fault_log args = Some path" "parse_fault_ledger codec fs path = Inr windows"
    by (auto simp: optional_def split: option.splits sum.splits)
  with j f win(2,3) acked_present[OF p] advert_backed[OF w] show ?thesis by blast
qed

theorem judge_certifies_witness:
  "\<exists>journals. ingest_journals (json_codec.truncate demo_codec) demo_fs (ra_journals demo_args) = Inr journals
     \<and> outcome_exit_code (judge_run demo_codec demo_fs demo_displays demo_args) = 0"
proof -
  have "outcome_exit_code (judge_run demo_codec demo_fs demo_displays demo_args) = 0" by code_simp
  with judge_certifies[OF this] show ?thesis by blast
qed

theorem fault_schedule_fired_witness:
  "\<exists>content lines. demo_fs ''faults'' = Inr content \<and> lines \<noteq> []
     \<and> list_all2 (\<lambda>raw line. ledger_line demo_codec raw = Inr line) (str_lines content) lines"
proof -
  have "parse_fault_ledger demo_codec demo_fs ''faults''
      = Inr [\<lparr>fw_fault_id = ''f'', fw_kind = ''pause'', fw_target_node = ''b'', fw_armed_at_ms = None,
              fw_started_at_ms = Some 10, fw_ended_at_ms = Some 10\<rparr>]" (is "_ = Inr ?ledger")
    by code_simp
  moreover have "check_fault_schedule (Some ?ledger) = Inr 1" by code_simp
  ultimately show ?thesis using fault_schedule_fired by blast
qed

end
