(* ===== verification/Accept_Otlp.thy ===== *)
theory Accept_Otlp
  imports Stager
begin

text \<open>
  \<open>crates/duckspout-accept/src/otlp.rs\<close> and \<open>crates/duckspout-types/src/otlp.rs\<close>: the OTLP adapter. The generated protobuf messages are the
  datatypes and records below, with the fields the adapter reads. A double is its 64 bits. The
  text of a JSON value (\<open>to_string\<close>) and the Arrow IPC writer are parameters; the check of
  \<open>RecordBatch::try_new\<close> that all columns have one length is modelled.
\<close>

section \<open>Error classes\<close>

datatype grpc_code = InvalidArgument | Unavailable | ResourceExhausted

fun grpc_code_number :: "grpc_code \<Rightarrow> nat" where
  "grpc_code_number InvalidArgument = 3"
| "grpc_code_number ResourceExhausted = 8"
| "grpc_code_number Unavailable = 14"

datatype otlp_error_class =
    MalformedPermanent | PayloadTooLarge | InflightOverCap | OtlpThrottled | OtlpRefusingIngest
  | ReceiptShortfall | OtlpDuplicateInFlight | StorageFailure

fun class_grpc_code :: "otlp_error_class \<Rightarrow> grpc_code" where
  "class_grpc_code MalformedPermanent = InvalidArgument"
| "class_grpc_code PayloadTooLarge = ResourceExhausted"
| "class_grpc_code InflightOverCap = Unavailable"
| "class_grpc_code OtlpThrottled = Unavailable"
| "class_grpc_code OtlpRefusingIngest = Unavailable"
| "class_grpc_code ReceiptShortfall = Unavailable"
| "class_grpc_code OtlpDuplicateInFlight = Unavailable"
| "class_grpc_code StorageFailure = Unavailable"

definition carries_retry_info :: "otlp_error_class \<Rightarrow> bool" where
  "carries_retry_info c \<longleftrightarrow> class_grpc_code c = Unavailable"

record grpc_status =
  st_code :: grpc_code
  st_message :: string
  st_retry_info_ms :: "u64 option"

definition to_tonic_status :: "otlp_error_class \<Rightarrow> string \<Rightarrow> u64 \<Rightarrow> grpc_status" where
  "to_tonic_status c detail retry_after_ms =
     \<lparr>st_code = class_grpc_code c, st_message = ''duckspout: '' @ detail,
      st_retry_info_ms = (if carries_retry_info c then Some retry_after_ms else None)\<rparr>"

record wire_error =
  we_grpc_code :: grpc_code
  we_retry_info :: bool

definition map_error :: "otlp_error_class \<Rightarrow> wire_error" where
  "map_error c = \<lparr>we_grpc_code = class_grpc_code c, we_retry_info = carries_retry_info c\<rparr>"

section \<open>Messages\<close>

datatype any_value = AnyValue "pb_value option"
and pb_value =
    StringValue string
  | BoolValue bool
  | IntValue int
  | DoubleValue u64
  | ArrayValue "any_value list"
  | KvlistValue "key_value list"
  | BytesValue string
  | StringValueStrindex int
and key_value = KeyValue string int "any_value option"

record log_record =
  lr_time_unix_nano :: u64
  lr_observed_time_unix_nano :: u64
  lr_severity_number :: int
  lr_severity_text :: string
  lr_body :: "any_value option"
  lr_attributes :: "key_value list"
  lr_dropped_attributes_count :: nat
  lr_flags :: nat
  lr_trace_id :: string
  lr_span_id :: string
  lr_event_name :: string

record scope_logs =
  sl_scope :: "(string \<times> string) option"
  sl_log_records :: "log_record list"

record resource_logs =
  rl_resource :: "key_value list option"
  rl_scope_logs :: "scope_logs list"

type_synonym export_request = "resource_logs list"

section \<open>Values\<close>

datatype json_value =
    JNull
  | JBool bool
  | JInt int
  | JFloat u64
  | JString string
  | JArray "json_value list"
  | JObject "(string, json_value) btree"

text \<open>\<open>serde_json::Number::from_f64\<close>: no number for a NaN or an infinity, whose exponent bits are all ones.\<close>

definition f64_is_finite :: "u64 \<Rightarrow> bool" where
  "f64_is_finite b \<longleftrightarrow> (unat b div 2 ^ 52) mod 2 ^ 11 \<noteq> 2 ^ 11 - 1"

definition hex :: "string \<Rightarrow> string" where
  "hex bytes = concat (map hex2 bytes)"

text \<open>\<open>collect\<close> into a JSON object: a later pair replaces an earlier one with the same key.\<close>

definition json_object :: "(string \<times> json_value) list \<Rightarrow> json_value" where
  "json_object kvs = JObject (fold (\<lambda>(k, v) m. bt_insert k v m) kvs bt_empty)"

text \<open>The two conversions, with the counter \<open>strindex_ignored\<close> threaded through.\<close>

function (sequential) any_value_to_json :: "any_value \<Rightarrow> u64 \<Rightarrow> json_value \<times> u64" and
  values_to_json :: "any_value list \<Rightarrow> u64 \<Rightarrow> json_value list \<times> u64" and
  kvs_pairs :: "key_value list \<Rightarrow> u64 \<Rightarrow> (string \<times> json_value) list \<times> u64"
where
  "any_value_to_json (AnyValue None) n = (JNull, n)"
| "any_value_to_json (AnyValue (Some (StringValue s))) n = (JString s, n)"
| "any_value_to_json (AnyValue (Some (BoolValue b))) n = (JBool b, n)"
| "any_value_to_json (AnyValue (Some (IntValue i))) n = (JInt i, n)"
| "any_value_to_json (AnyValue (Some (DoubleValue d))) n = (if f64_is_finite d then JFloat d else JNull, n)"
| "any_value_to_json (AnyValue (Some (ArrayValue vs))) n = (case values_to_json vs n of (js, n) \<Rightarrow> (JArray js, n))"
| "any_value_to_json (AnyValue (Some (KvlistValue kvs))) n = (case kvs_pairs kvs n of (ps, n) \<Rightarrow> (json_object ps, n))"
| "any_value_to_json (AnyValue (Some (BytesValue b))) n = (JString (hex b), n)"
| "any_value_to_json (AnyValue (Some (StringValueStrindex i))) n = (JNull, n + 1)"
| "values_to_json [] n = ([], n)"
| "values_to_json (v # vs) n =
     (case any_value_to_json v n of (j, n) \<Rightarrow> case values_to_json vs n of (js, n) \<Rightarrow> (j # js, n))"
| "kvs_pairs [] n = ([], n)"
| "kvs_pairs (KeyValue key strindex value # kvs) n =
     (if strindex \<noteq> 0 then kvs_pairs kvs (n + 1)
      else case (case value of None \<Rightarrow> (JNull, n) | Some v \<Rightarrow> any_value_to_json v n) of
        (j, n) \<Rightarrow> case kvs_pairs kvs n of (ps, n) \<Rightarrow> ((key, j) # ps, n))"
  by pat_completeness auto

termination
  by (relation "measure (\<lambda>x. case x of Inl (v, _) \<Rightarrow> size v | Inr (Inl (vs, _)) \<Rightarrow> size_list size vs
        | Inr (Inr (kvs, _)) \<Rightarrow> size_list size kvs)") auto

definition kvs_to_json :: "key_value list \<Rightarrow> u64 \<Rightarrow> json_value \<times> u64" where
  "kvs_to_json kvs n = (case kvs_pairs kvs n of (ps, n) \<Rightarrow> (json_object ps, n))"

fun body_to_string :: "(json_value \<Rightarrow> string) \<Rightarrow> any_value \<Rightarrow> u64 \<Rightarrow> string option \<times> u64" where
  "body_to_string render (AnyValue (Some (StringValue s))) n = (Some s, n)"
| "body_to_string render (AnyValue (Some (StringValueStrindex i))) n = (None, n + 1)"
| "body_to_string render (AnyValue (Some other)) n =
     (case any_value_to_json (AnyValue (Some other)) n of (j, n) \<Rightarrow> (Some (render j), n))"
| "body_to_string render (AnyValue None) n = (None, n)"

definition nanos_to_micros :: "u64 \<Rightarrow> int" where
  "nanos_to_micros nanos = (let micros = int (unat nanos div 1000) in if micros \<le> i64_max then micros else i64_max)"

definition some_nonempty :: "string \<Rightarrow> string option" where
  "some_nonempty raw = (if raw = [] then None else Some raw)"

definition some_hex :: "string \<Rightarrow> string option" where
  "some_hex bytes = (if bytes = [] then None else Some (hex bytes))"


section \<open>Columns\<close>

record log_columns =
  lc_ts :: "int list"
  lc_observed_ts :: "int option list"
  lc_severity_number :: "int list"
  lc_severity_text :: "string option list"
  lc_body :: "string option list"
  lc_attrs :: "string list"
  lc_resource_attrs :: "string list"
  lc_scope_name :: "string option list"
  lc_scope_version :: "string option list"
  lc_trace_id :: "string option list"
  lc_span_id :: "string option list"
  lc_flags :: "nat list"
  lc_event_name :: "string option list"
  lc_dropped_attributes_count :: "nat list"

definition columns_empty :: log_columns where
  "columns_empty = \<lparr>lc_ts = [], lc_observed_ts = [], lc_severity_number = [], lc_severity_text = [], lc_body = [],
     lc_attrs = [], lc_resource_attrs = [], lc_scope_name = [], lc_scope_version = [], lc_trace_id = [],
     lc_span_id = [], lc_flags = [], lc_event_name = [], lc_dropped_attributes_count = []\<rparr>"

definition columns_len :: "log_columns \<Rightarrow> nat" where
  "columns_len c = length (lc_ts c)"

definition event_nanos :: "log_record \<Rightarrow> u64" where
  "event_nanos r = (if lr_time_unix_nano r \<noteq> 0 then lr_time_unix_nano r else lr_observed_time_unix_nano r)"

definition columns_push ::
  "(json_value \<Rightarrow> string) \<Rightarrow> log_record \<Rightarrow> string \<Rightarrow> string option \<Rightarrow> string option \<Rightarrow> log_columns \<times> u64 \<Rightarrow> log_columns \<times> u64" where
  "columns_push render r resource_attrs scope_name scope_version = (\<lambda>(c, n).
     let (body, n) = (case lr_body r of None \<Rightarrow> (None, n) | Some b \<Rightarrow> body_to_string render b n);
         (attrs, n) = kvs_to_json (lr_attributes r) n
     in (\<lparr>lc_ts = lc_ts c @ [nanos_to_micros (event_nanos r)],
          lc_observed_ts = lc_observed_ts c @ [if lr_observed_time_unix_nano r = 0 then None
            else Some (nanos_to_micros (lr_observed_time_unix_nano r))],
          lc_severity_number = lc_severity_number c @ [lr_severity_number r],
          lc_severity_text = lc_severity_text c @ [some_nonempty (lr_severity_text r)],
          lc_body = lc_body c @ [body],
          lc_attrs = lc_attrs c @ [render attrs],
          lc_resource_attrs = lc_resource_attrs c @ [resource_attrs],
          lc_scope_name = lc_scope_name c @ [scope_name],
          lc_scope_version = lc_scope_version c @ [scope_version],
          lc_trace_id = lc_trace_id c @ [some_hex (lr_trace_id r)],
          lc_span_id = lc_span_id c @ [some_hex (lr_span_id r)],
          lc_flags = lc_flags c @ [lr_flags r],
          lc_event_name = lc_event_name c @ [some_nonempty (lr_event_name r)],
          lc_dropped_attributes_count = lc_dropped_attributes_count c @ [lr_dropped_attributes_count r]\<rparr>, n))"

definition logs_schema :: "arrow_field list" where
  "logs_schema =
     (let ts = (\<lambda>name nullable. \<lparr>af_name = name, af_type = ATimestampMicros, af_nullable = nullable\<rparr>);
          field = (\<lambda>name t nullable. \<lparr>af_name = name, af_type = t, af_nullable = nullable\<rparr>) in
      [ts ''ts'' False, ts ''observed_ts'' True, field ''severity_number'' AInt32 False,
       field ''severity_text'' AUtf8 True, field ''body'' AUtf8 True, field ''attrs'' AUtf8 False,
       field ''resource_attrs'' AUtf8 False, field ''scope_name'' AUtf8 True, field ''scope_version'' AUtf8 True,
       field ''trace_id'' AUtf8 True, field ''span_id'' AUtf8 True, field ''flags'' AUInt32 False,
       field ''event_name'' AUtf8 True, field ''dropped_attributes_count'' AUInt32 False])"

definition column_lengths :: "log_columns \<Rightarrow> nat list" where
  "column_lengths c =
     [length (lc_ts c), length (lc_observed_ts c), length (lc_severity_number c), length (lc_severity_text c),
      length (lc_body c), length (lc_attrs c), length (lc_resource_attrs c), length (lc_scope_name c),
      length (lc_scope_version c), length (lc_trace_id c), length (lc_span_id c), length (lc_flags c),
      length (lc_event_name c), length (lc_dropped_attributes_count c)]"

datatype accept_error = Malformed string | InvalidTenant string

definition into_ipc_stream ::
  "(log_columns \<Rightarrow> (string, string) result) \<Rightarrow> log_columns \<Rightarrow> (accept_error, string) result" where
  "into_ipc_stream ipc_write c =
     (if \<not> list_all (\<lambda>l. l = columns_len c) (column_lengths c)
      then Inl (Malformed ''all columns in a record batch must have the same length'')
      else map_err Malformed (ipc_write c))"

section \<open>Tenants\<close>

definition tenant_max_len :: nat where
  "tenant_max_len = 150"

definition is_tenant_char :: "char \<Rightarrow> bool" where
  "is_tenant_char c \<longleftrightarrow> (CHR ''A'' \<le> c \<and> c \<le> CHR ''Z'') \<or> (CHR ''a'' \<le> c \<and> c \<le> CHR ''z'')
     \<or> (CHR ''0'' \<le> c \<and> c \<le> CHR ''9'') \<or> c \<in> {CHR ''.'', CHR ''_'', CHR ''-''}"

definition tenant_from_header :: "string option \<Rightarrow> (accept_error, tenant_id) result" where
  "tenant_from_header header =
     (case header of
        None \<Rightarrow> Inr (TenantId ''anonymous'')
      | Some raw \<Rightarrow>
          if raw = [] \<or> tenant_max_len < length raw
          then Inl (InvalidTenant (''length '' @ show_nat (length raw) @ '' outside 1..=150''))
          else case List.find (\<lambda>c. \<not> is_tenant_char c) raw of
            Some bad \<Rightarrow> Inl (InvalidTenant (''character '' @ [CHR 0x27, bad, CHR 0x27] @ '' outside [A-Za-z0-9._-]''))
          | None \<Rightarrow>
              if starts_with_char CHR ''_'' raw
              then Inl (InvalidTenant ''leading '_' is reserved for system tenants'')
              else Inr (TenantId raw))"

section \<open>Decoding\<close>

record decoded_logs =
  dl_batch :: decoded_batch
  dl_rows :: nat
  dl_strindex_ignored :: u64

fun push_records ::
  "(json_value \<Rightarrow> string) \<Rightarrow> string \<Rightarrow> string option \<Rightarrow> string option \<Rightarrow> log_record list \<Rightarrow> log_columns \<times> u64 \<Rightarrow> log_columns \<times> u64" where
  "push_records render attrs name version [] cn = cn"
| "push_records render attrs name version (r # rs) cn =
     push_records render attrs name version rs (columns_push render r attrs name version cn)"

definition scope_names :: "scope_logs \<Rightarrow> string option \<times> string option" where
  "scope_names s = (case sl_scope s of None \<Rightarrow> (None, None) | Some (n, v) \<Rightarrow> (some_nonempty n, some_nonempty v))"

fun push_scopes :: "(json_value \<Rightarrow> string) \<Rightarrow> string \<Rightarrow> scope_logs list \<Rightarrow> log_columns \<times> u64 \<Rightarrow> log_columns \<times> u64" where
  "push_scopes render attrs [] cn = cn"
| "push_scopes render attrs (s # ss) cn =
     (case scope_names s of (name, version) \<Rightarrow>
        push_scopes render attrs ss (push_records render attrs name version (sl_log_records s) cn))"

fun push_resources :: "(json_value \<Rightarrow> string) \<Rightarrow> resource_logs list \<Rightarrow> log_columns \<times> u64 \<Rightarrow> log_columns \<times> u64" where
  "push_resources render [] cn = cn"
| "push_resources render (r # rs) (c, n) =
     (case (case rl_resource r of None \<Rightarrow> (''{}'', n)
            | Some kvs \<Rightarrow> (case kvs_to_json kvs n of (j, n) \<Rightarrow> (render j, n))) of
        (attrs, n) \<Rightarrow> push_resources render rs (push_scopes render attrs (rl_scope_logs r) (c, n)))"

definition decode_logs ::
  "(json_value \<Rightarrow> string) \<Rightarrow> (log_columns \<Rightarrow> (string, string) result) \<Rightarrow> export_request \<Rightarrow> string option
     \<Rightarrow> string option \<Rightarrow> (accept_error, decoded_logs) result" where
  "decode_logs render ipc_write request tenant_header idempotency_key =
     (case tenant_from_header tenant_header of
        Inl e \<Rightarrow> Inl e
      | Inr tenant \<Rightarrow>
          (case push_resources render request (columns_empty, 0) of (columns, strindex_ignored) \<Rightarrow>
             (case into_ipc_stream ipc_write columns of
                Inl e \<Rightarrow> Inl e
              | Inr ipc_bytes \<Rightarrow>
                  Inr \<lparr>dl_batch = \<lparr>dcb_dataset = DatasetId ''otlp_logs'', dcb_kind = Event, dcb_tenant = tenant,
                        dcb_idempotency_key = idempotency_key, dcb_records = ipc_bytes\<rparr>,
                       dl_rows = columns_len columns, dl_strindex_ignored = strindex_ignored\<rparr>)))"

text \<open>\<open>AcceptAdapter::decode\<close>; the protobuf decoder is a parameter.\<close>

record wire_request =
  wq_payload :: string
  wq_tenant_header :: "string option"
  wq_idempotency_key :: "string option"

definition adapter_decode ::
  "(string \<Rightarrow> (string, export_request) result) \<Rightarrow> (json_value \<Rightarrow> string) \<Rightarrow> (log_columns \<Rightarrow> (string, string) result)
     \<Rightarrow> wire_request \<Rightarrow> (accept_error, decoded_batch) result" where
  "adapter_decode prost render ipc_write request =
     (case prost (wq_payload request) of
        Inl e \<Rightarrow> Inl (Malformed e)
      | Inr message \<Rightarrow>
          (case decode_logs render ipc_write message (wq_tenant_header request) (wq_idempotency_key request) of
             Inl e \<Rightarrow> Inl e | Inr decoded \<Rightarrow> Inr (dl_batch decoded)))"


section \<open>What decoding yields\<close>

text \<open>The string-interning references of a message, counted by its structure: a pair whose key is a reference counts once
  and its value is not read.\<close>

function (sequential) refs_value :: "any_value \<Rightarrow> nat" and refs_values :: "any_value list \<Rightarrow> nat" and refs_kvs :: "key_value list \<Rightarrow> nat"
where
  "refs_value (AnyValue (Some (StringValueStrindex i))) = 1"
| "refs_value (AnyValue (Some (ArrayValue vs))) = refs_values vs"
| "refs_value (AnyValue (Some (KvlistValue kvs))) = refs_kvs kvs"
| "refs_value v = 0"
| "refs_values [] = 0"
| "refs_values (v # vs) = refs_value v + refs_values vs"
| "refs_kvs [] = 0"
| "refs_kvs (KeyValue key strindex value # kvs) =
     (if strindex \<noteq> 0 then 1 else case value of None \<Rightarrow> 0 | Some v \<Rightarrow> refs_value v) + refs_kvs kvs"
  by pat_completeness auto

termination
  by (relation "measure (\<lambda>x. case x of Inl v \<Rightarrow> size v | Inr (Inl vs) \<Rightarrow> size_list size vs
        | Inr (Inr kvs) \<Rightarrow> size_list size kvs)") auto

definition value_json :: "any_value \<Rightarrow> json_value" where
  "value_json v = fst (any_value_to_json v 0)"

definition pairs_json :: "key_value list \<Rightarrow> (string \<times> json_value) list" where
  "pairs_json kvs = fst (kvs_pairs kvs 0)"

lemma to_json_counts:
  "any_value_to_json v n = (fst (any_value_to_json v n'), n + of_nat (refs_value v))"
  "values_to_json vs n = (fst (values_to_json vs n'), n + of_nat (refs_values vs))"
  "kvs_pairs kvs n = (fst (kvs_pairs kvs n'), n + of_nat (refs_kvs kvs))"
proof (induction v and vs and kvs arbitrary: n n' and n n' and n n' rule: refs_value_refs_values_refs_kvs.induct)
  case (2 vs)
  from 2[of n n'] show ?case by (simp split: prod.splits)
next
  case (3 kvs)
  from 3[of n n'] show ?case by (simp split: prod.splits)
next
  case (6 v vs)
  show ?case
    using 6(1)[of n n'] 6(2)[of "n + of_nat (refs_value v)" "snd (any_value_to_json v n')"]
    by (simp split: prod.splits)
next
  case (8 key strindex opt kvs)
  show ?case
  proof (cases "strindex \<noteq> 0")
    case True
    then show ?thesis using 8(2)[of "n + 1" "n' + 1"] by simp
  next
    case False
    show ?thesis
    proof (cases opt)
      case None
      then show ?thesis using False 8(2)[of n n'] by (simp split: prod.splits)
    next
      case (Some v)
      then show ?thesis
        using False 8(1)[of v n n'] 8(2)[of "n + of_nat (refs_value v)" "snd (any_value_to_json v n')"]
        by (simp split: prod.splits)
    qed
  qed
qed simp_all


text \<open>One row per log record, in the order of the message.\<close>

record log_row =
  row_record :: log_record
  row_resource_attrs :: string
  row_scope :: "string option \<times> string option"

definition scope_rows :: "string \<Rightarrow> scope_logs \<Rightarrow> log_row list" where
  "scope_rows attrs s =
     map (\<lambda>r. \<lparr>row_record = r, row_resource_attrs = attrs, row_scope = scope_names s\<rparr>) (sl_log_records s)"

definition resource_text :: "(json_value \<Rightarrow> string) \<Rightarrow> resource_logs \<Rightarrow> string" where
  "resource_text render r = (case rl_resource r of None \<Rightarrow> ''{}'' | Some kvs \<Rightarrow> render (json_object (pairs_json kvs)))"

definition flat_rows :: "(json_value \<Rightarrow> string) \<Rightarrow> export_request \<Rightarrow> log_row list" where
  "flat_rows render request =
     concat (map (\<lambda>r. concat (map (scope_rows (resource_text render r)) (rl_scope_logs r))) request)"

definition body_text :: "(json_value \<Rightarrow> string) \<Rightarrow> log_record \<Rightarrow> string option" where
  "body_text render r = (case lr_body r of None \<Rightarrow> None | Some b \<Rightarrow> fst (body_to_string render b 0))"

definition columns_of :: "(json_value \<Rightarrow> string) \<Rightarrow> log_row list \<Rightarrow> log_columns" where
  "columns_of render rows =
     \<lparr>lc_ts = map (\<lambda>x. nanos_to_micros (event_nanos (row_record x))) rows,
       lc_observed_ts = map (\<lambda>x. if lr_observed_time_unix_nano (row_record x) = 0 then None
          else Some (nanos_to_micros (lr_observed_time_unix_nano (row_record x)))) rows,
       lc_severity_number = map (\<lambda>x. lr_severity_number (row_record x)) rows,
       lc_severity_text = map (\<lambda>x. some_nonempty (lr_severity_text (row_record x))) rows,
       lc_body = map (\<lambda>x. body_text render (row_record x)) rows,
       lc_attrs = map (\<lambda>x. render (json_object (pairs_json (lr_attributes (row_record x))))) rows,
       lc_resource_attrs = map row_resource_attrs rows,
       lc_scope_name = map (\<lambda>x. fst (row_scope x)) rows,
       lc_scope_version = map (\<lambda>x. snd (row_scope x)) rows,
       lc_trace_id = map (\<lambda>x. some_hex (lr_trace_id (row_record x))) rows,
       lc_span_id = map (\<lambda>x. some_hex (lr_span_id (row_record x))) rows,
       lc_flags = map (\<lambda>x. lr_flags (row_record x)) rows,
       lc_event_name = map (\<lambda>x. some_nonempty (lr_event_name (row_record x))) rows,
       lc_dropped_attributes_count = map (\<lambda>x. lr_dropped_attributes_count (row_record x)) rows\<rparr>"

definition refs_record :: "log_record \<Rightarrow> nat" where
  "refs_record r = (case lr_body r of None \<Rightarrow> 0 | Some b \<Rightarrow> refs_value b) + refs_kvs (lr_attributes r)"

definition refs_scope :: "scope_logs \<Rightarrow> nat" where
  "refs_scope s = sum_list (map refs_record (sl_log_records s))"

definition refs_request :: "export_request \<Rightarrow> nat" where
  "refs_request request =
     sum_list (map (\<lambda>r. (case rl_resource r of None \<Rightarrow> 0 | Some kvs \<Rightarrow> refs_kvs kvs)
       + sum_list (map refs_scope (rl_scope_logs r))) request)"

lemma body_counts:
  "body_to_string render b n = (fst (body_to_string render b 0), n + of_nat (refs_value b))"
  by (cases "(render, b, n)" rule: body_to_string.cases)
    (simp_all add: to_json_counts(2)[of _ n 0] to_json_counts(3)[of _ n 0] case_prod_beta)

lemma kvs_to_json_counts:
  "kvs_to_json kvs n = (json_object (pairs_json kvs), n + of_nat (refs_kvs kvs))"
  using to_json_counts(3)[of kvs n 0] by (simp add: kvs_to_json_def pairs_json_def)

lemma push_row:
  "columns_push render r attrs name version (columns_of render rows, n) =
     (columns_of render (rows @ [\<lparr>row_record = r, row_resource_attrs = attrs, row_scope = (name, version)\<rparr>]),
      n + of_nat (refs_record r))"
  by (simp add: columns_push_def columns_of_def kvs_to_json_counts body_counts[of render _ n] body_text_def
      refs_record_def split: option.splits)

lemma push_records_rows:
  "push_records render attrs name version rs (columns_of render rows, n) =
     (columns_of render (rows @ map (\<lambda>r. \<lparr>row_record = r, row_resource_attrs = attrs, row_scope = (name, version)\<rparr>) rs),
      n + of_nat (sum_list (map refs_record rs)))"
  by (induction rs arbitrary: rows n) (simp_all add: push_row add.assoc)

lemma push_scopes_rows:
  "push_scopes render attrs ss (columns_of render rows, n) =
     (columns_of render (rows @ concat (map (scope_rows attrs) ss)), n + of_nat (sum_list (map refs_scope ss)))"
  by (induction ss arbitrary: rows n)
    (simp_all add: push_records_rows scope_rows_def refs_scope_def add.assoc split: prod.splits)

lemma push_resources_rows:
  "push_resources render rs (columns_of render rows, n) =
     (columns_of render (rows @ flat_rows render rs), n + of_nat (refs_request rs))"
  by (induction rs arbitrary: rows n)
    (simp_all add: push_scopes_rows flat_rows_def refs_request_def resource_text_def kvs_to_json_counts add.assoc
      split: option.splits)

lemma columns_empty_of: "columns_empty = columns_of render []"
  by (simp add: columns_empty_def columns_of_def)

lemma columns_of_lengths: "list_all (\<lambda>l. l = length rows) (column_lengths (columns_of render rows))"
  by (simp add: column_lengths_def columns_of_def)

lemma decode_exact:
  "decode_logs render ipc_write request tenant_header idempotency_key =
     (case tenant_from_header tenant_header of
        Inl e \<Rightarrow> Inl e
      | Inr tenant \<Rightarrow>
          (case ipc_write (columns_of render (flat_rows render request)) of
             Inl e \<Rightarrow> Inl (Malformed e)
           | Inr ipc_bytes \<Rightarrow>
               Inr \<lparr>dl_batch = \<lparr>dcb_dataset = DatasetId ''otlp_logs'', dcb_kind = Event, dcb_tenant = tenant,
                      dcb_idempotency_key = idempotency_key, dcb_records = ipc_bytes\<rparr>,
                    dl_rows = length (flat_rows render request),
                    dl_strindex_ignored = of_nat (refs_request request)\<rparr>))"
proof -
  let ?rows = "flat_rows render request"
  have push: "push_resources render request (columns_empty, 0) = (columns_of render ?rows, of_nat (refs_request request))"
    using push_resources_rows[of render request "[]" 0] by (simp add: columns_empty_of[of render])
  have len: "columns_len (columns_of render ?rows) = length ?rows" by (simp add: columns_len_def columns_of_def)
  have "into_ipc_stream ipc_write (columns_of render ?rows) = map_err Malformed (ipc_write (columns_of render ?rows))"
    using columns_of_lengths[of ?rows render] by (simp add: into_ipc_stream_def len)
  then show ?thesis
    by (simp add: decode_logs_def push len map_err_def split: sum.splits)
qed

text \<open>
  C36. Decoding loses and reorders nothing. A request with an acceptable tenant is decoded, unless the Arrow writer itself fails,
  into columns that hold one row per log record, in the order of the message, with the attributes of its resource and the
  name of its scope beside it; the disclosed number of ignored interning references is their number
  in the message. The fourteen columns have equal lengths, so assembling them never fails.
\<close>
theorem decode_logs_exact:
  "decode_logs render ipc_write request tenant_header idempotency_key =
     (case tenant_from_header tenant_header of
        Inl e \<Rightarrow> Inl e
      | Inr tenant \<Rightarrow>
          (case ipc_write (columns_of render (flat_rows render request)) of
             Inl e \<Rightarrow> Inl (Malformed e)
           | Inr ipc_bytes \<Rightarrow>
               Inr \<lparr>dl_batch = \<lparr>dcb_dataset = DatasetId ''otlp_logs'', dcb_kind = Event, dcb_tenant = tenant,
                      dcb_idempotency_key = idempotency_key, dcb_records = ipc_bytes\<rparr>,
                    dl_rows = length (flat_rows render request),
                    dl_strindex_ignored = of_nat (refs_request request)\<rparr>))"
  by (rule decode_exact)

text \<open>
  A tenant header is accepted exactly when it has 1 to 150 characters, all of them letters, digits, dots, underscores or dashes,
  and does not start with an underscore; it is then the tenant, unchanged.
\<close>
theorem tenant_accepted_iff:
  "tenant_from_header (Some raw) = Inr tenant \<longleftrightarrow>
     tenant = TenantId raw \<and> 1 \<le> length raw \<and> length raw \<le> 150 \<and> list_all is_tenant_char raw \<and> hd raw \<noteq> CHR ''_''"
proof -
  have "List.find (\<lambda>c. \<not> is_tenant_char c) raw = None \<longleftrightarrow> list_all is_tenant_char raw"
    by (auto simp: find_None_iff list_all_iff)
  then show ?thesis
    by (cases raw) (auto simp: tenant_from_header_def tenant_max_len_def split: option.splits)
qed

end
