(* ===== verification/Accept_Server.thy ===== *)
theory Accept_Server
  imports Accept_Otlp
begin

text \<open>
  \<open>crates/duckspout-accept/src/server.rs\<close>: the export handler, with its caps, the staging call and the mapping of every outcome
  to the wire. The staging port is any function of the batch and a state. The size of a message is a parameter, as are the
  renderings of errors. The handler is one step here; its accounting of bytes in flight, which
  concurrent handlers share, is modelled by single atomic operations in the last section.
\<close>

section \<open>The service\<close>

record admission_config =
  ac_max_payload_bytes :: nat
  ac_max_inflight_bytes :: u64

record 's otlp_service =
  sv_inflight_bytes :: u64
  sv_stager :: 's
  sv_trace :: "trace_event list"

datatype metadata_value = TextValue string | NotText

type_synonym request_metadata = "string \<Rightarrow> metadata_value option"

record 's accept_env =
  ae_encoded_len :: "export_request \<Rightarrow> nat"
  ae_render :: "json_value \<Rightarrow> string"
  ae_ipc_write :: "log_columns \<Rightarrow> (string, string) result"
  ae_stage_commit :: "decoded_batch \<Rightarrow> 's \<Rightarrow> (stage_error, stage_outcome) result \<times> 's"
  ae_stage_error_text :: "stage_error \<Rightarrow> string"

record partial_success =
  ps_rejected_log_records :: int
  ps_error_message :: string

definition default_retry_delay_ms :: u64 where
  "default_retry_delay_ms = throttle_retry_min_ms"

definition metadata_str :: "request_metadata \<Rightarrow> string \<Rightarrow> (grpc_status, string option) result" where
  "metadata_str metadata key =
     (case metadata key of
        None \<Rightarrow> Inr None
      | Some (TextValue t) \<Rightarrow> Inr (Some t)
      | Some NotText \<Rightarrow> Inl (to_tonic_status MalformedPermanent (''metadata '' @ key @ '' is not valid UTF-8'') 0))"

definition accept_error_text :: "accept_error \<Rightarrow> string" where
  "accept_error_text e =
     (case e of Malformed m \<Rightarrow> ''malformed payload: '' @ m | InvalidTenant m \<Rightarrow> ''invalid tenant identity: '' @ m)"

definition reject :: "accept_error \<Rightarrow> grpc_status" where
  "reject e = to_tonic_status MalformedPermanent (accept_error_text e) 0"

definition stage_status :: "(stage_error \<Rightarrow> string) \<Rightarrow> stage_error \<Rightarrow> grpc_status" where
  "stage_status text e =
     (case e of
        Throttled retry_after_ms \<Rightarrow> to_tonic_status OtlpThrottled (text e) retry_after_ms
      | StageRefusing retry_after_ms \<Rightarrow> to_tonic_status OtlpRefusingIngest (text e) retry_after_ms
      | MalformedRecords _ \<Rightarrow> to_tonic_status StorageFailure (text e) default_retry_delay_ms
      | StageBackend _ \<Rightarrow> to_tonic_status StorageFailure (text e) default_retry_delay_ms)"

definition strindex_warning :: "u64 \<Rightarrow> partial_success option" where
  "strindex_warning n =
     (if 0 < n then Some \<lparr>ps_rejected_log_records = 0,
        ps_error_message = ''ignored '' @ show_nat (unat n) @ '' profiling-only string-interning reference(s) ''
          @ ''(*_strindex); logs carry no string table - values treated as absent''\<rparr>
      else None)"

text \<open>\<open>InflightGuard::admit\<close> on the counter: the new counter, and the refusal if any. Dropping the guard takes the bytes off.\<close>

definition guard_admit :: "u64 \<Rightarrow> u64 \<Rightarrow> u64 \<Rightarrow> (grpc_status, unit) result \<times> u64" where
  "guard_admit max_bytes bytes counter =
     (if max_bytes < u64_saturating_add counter bytes
      then (Inl (to_tonic_status InflightOverCap
              (''decoded bytes in flight over admission.max_inflight_bytes '' @ show_nat (unat max_bytes)) default_retry_delay_ms),
            (counter + bytes) - bytes)
      else (Inr (), counter + bytes))"

definition guard_drop :: "u64 \<Rightarrow> u64 \<Rightarrow> u64" where
  "guard_drop bytes counter = counter - bytes"

definition sv_journal :: "trace_event \<Rightarrow> 's otlp_service \<Rightarrow> 's otlp_service" where
  "sv_journal e s = s\<lparr>sv_trace := sv_trace s @ [e]\<rparr>"

definition journal_refusal :: "stage_error \<Rightarrow> 's otlp_service \<Rightarrow> 's otlp_service" where
  "journal_refusal e s =
     (case e of Throttled _ \<Rightarrow> sv_journal TeThrottle s | StageRefusing _ \<Rightarrow> sv_journal TeRefuse s
      | MalformedRecords _ \<Rightarrow> s | StageBackend _ \<Rightarrow> s)"

text \<open>The body of the \<open>if\<close> of \<open>export\<close>: the guarded staging of a batch.\<close>

definition stage_guarded ::
  "'s accept_env \<Rightarrow> admission_config \<Rightarrow> decoded_batch \<Rightarrow> 's otlp_service \<Rightarrow> (grpc_status, unit) result \<times> 's otlp_service" where
  "stage_guarded E admission batch s =
     (let bytes = of_nat (length (dcb_records batch)) in
      case guard_admit (ac_max_inflight_bytes admission) bytes (sv_inflight_bytes s) of
        (Inl st, counter) \<Rightarrow> (Inl st, s\<lparr>sv_inflight_bytes := counter\<rparr>)
      | (Inr _, counter) \<Rightarrow>
          (let s = s\<lparr>sv_inflight_bytes := counter\<rparr>;
               release = (\<lambda>s. s\<lparr>sv_inflight_bytes := guard_drop bytes (sv_inflight_bytes s)\<rparr>) in
           case ae_stage_commit E batch (sv_stager s) of
             (Inl e, st) \<Rightarrow>
               (Inl (stage_status (ae_stage_error_text E) e), release (journal_refusal e (s\<lparr>sv_stager := st\<rparr>)))
           | (Inr (StageCommitted _), st) \<Rightarrow> (Inr (), release (sv_journal TeClientAck (s\<lparr>sv_stager := st\<rparr>)))
           | (Inr (DuplicateAcked _), st) \<Rightarrow> (Inr (), release (s\<lparr>sv_stager := st\<rparr>))
           | (Inr DuplicateInFlight, st) \<Rightarrow>
               (Inl (to_tonic_status OtlpDuplicateInFlight ''duplicate of an in-flight request'' default_retry_delay_ms),
                release (s\<lparr>sv_stager := st\<rparr>))))"

definition export ::
  "'s accept_env \<Rightarrow> admission_config \<Rightarrow> request_metadata \<Rightarrow> export_request \<Rightarrow> 's otlp_service
     \<Rightarrow> (grpc_status, partial_success option) result \<times> 's otlp_service" where
  "export E admission metadata message s =
     (case metadata_str metadata ''x-scope-orgid'' of
        Inl st \<Rightarrow> (Inl st, s)
      | Inr tenant_header \<Rightarrow>
     (case metadata_str metadata ''x-duckspout-idempotency-key'' of
        Inl st \<Rightarrow> (Inl st, s)
      | Inr idempotency_key \<Rightarrow>
          let payload_len = ae_encoded_len E message in
          if ac_max_payload_bytes admission < payload_len
          then (Inl (to_tonic_status PayloadTooLarge (''payload '' @ show_nat payload_len @ '' B over max_payload_bytes ''
                       @ show_nat (ac_max_payload_bytes admission)) 0), s)
          else case decode_logs (ae_render E) (ae_ipc_write E) message tenant_header idempotency_key of
            Inl e \<Rightarrow> (Inl (reject e), s)
          | Inr decoded \<Rightarrow>
              and_then (if 0 < dl_rows decoded then stage_guarded E admission (dl_batch decoded) s else (Inr (), s))
                (\<lambda>_ s. (Inr (strindex_warning (dl_strindex_ignored decoded)), s))))"


section \<open>Answers\<close>

lemma retry_info_iff: "st_retry_info_ms (to_tonic_status c d ms) \<noteq> None \<longleftrightarrow> st_code (to_tonic_status c d ms) = Unavailable"
  by (simp add: to_tonic_status_def carries_retry_info_def)

lemma stage_status_unavailable [simp]: "st_code (stage_status text e) = Unavailable \<and> st_retry_info_ms (stage_status text e) \<noteq> None"
  by (simp add: stage_status_def to_tonic_status_def carries_retry_info_def split: stage_error.splits)

text \<open>How a guarded staging ends: the counter is back where it was, and the answer is the port's.\<close>

lemma stage_guarded_cases:
  assumes "stage_guarded E admission batch s = (r, s')"
  obtains (over_cap) st where "r = Inl st" and "st_code st = Unavailable" and "st_retry_info_ms st \<noteq> None" and "s' = s"
  | (failed) e st where "ae_stage_commit E batch (sv_stager s) = (Inl e, st)" and "r = Inl (stage_status (ae_stage_error_text E) e)"
      and "s' = journal_refusal e (s\<lparr>sv_stager := st\<rparr>)"
  | (committed) cov st where "ae_stage_commit E batch (sv_stager s) = (Inr (StageCommitted cov), st)" and "r = Inr ()"
      and "s' = sv_journal TeClientAck (s\<lparr>sv_stager := st\<rparr>)"
  | (duplicate) cov st where "ae_stage_commit E batch (sv_stager s) = (Inr (DuplicateAcked cov), st)" and "r = Inr ()"
      and "s' = s\<lparr>sv_stager := st\<rparr>"
  | (in_flight) st g where "ae_stage_commit E batch (sv_stager s) = (Inr DuplicateInFlight, st)" and "r = Inl g"
      and "st_code g = Unavailable" and "st_retry_info_ms g \<noteq> None" and "s' = s\<lparr>sv_stager := st\<rparr>"
proof -
  let ?n = "of_nat (length (dcb_records batch)) :: u64"
  let ?over = "ac_max_inflight_bytes admission < u64_saturating_add (sv_inflight_bytes s) ?n"
  obtain ro st where port: "ae_stage_commit E batch (sv_stager s) = (ro, st)" by fastforce
  have journal: "journal_refusal e (s\<lparr>sv_inflight_bytes := x, sv_stager := y\<rparr>)\<lparr>sv_inflight_bytes := sv_inflight_bytes s\<rparr>
      = journal_refusal e (s\<lparr>sv_stager := y\<rparr>)" for e x y
    by (simp add: journal_refusal_def sv_journal_def split: stage_error.splits)
  have counter: "sv_inflight_bytes (journal_refusal e t) = sv_inflight_bytes t" for e and t :: "'a otlp_service"
    by (simp add: journal_refusal_def sv_journal_def split: stage_error.splits)
  show thesis
  proof (cases ?over)
    case True
    with assms show thesis
      by (intro over_cap) (auto simp: stage_guarded_def guard_admit_def to_tonic_status_def carries_retry_info_def Let_def)
  next
    case within: False
    show thesis
    proof (cases ro)
      case (Inl e)
      with assms within port show thesis
        by (intro failed) (auto simp: stage_guarded_def guard_admit_def guard_drop_def Let_def counter journal)
    next
      case (Inr oc)
      show thesis
      proof (cases oc)
        case (StageCommitted cov)
        with assms within port Inr show thesis
          by (intro committed) (auto simp: stage_guarded_def guard_admit_def guard_drop_def Let_def sv_journal_def)
      next
        case (DuplicateAcked cov)
        with assms within port Inr show thesis
          by (intro duplicate) (auto simp: stage_guarded_def guard_admit_def guard_drop_def Let_def)
      next
        case DuplicateInFlight
        with assms within port Inr show thesis
          by (intro in_flight) (auto simp: stage_guarded_def guard_admit_def guard_drop_def Let_def
              to_tonic_status_def carries_retry_info_def)
      qed
    qed
  qed
qed

text \<open>The requests the handler passes on to decoding, with the headers it read.\<close>

definition export_decodes ::
  "'s accept_env \<Rightarrow> admission_config \<Rightarrow> request_metadata \<Rightarrow> export_request \<Rightarrow> decoded_logs \<Rightarrow> bool" where
  "export_decodes E admission metadata message decoded \<longleftrightarrow>
     (\<exists>tenant_header idempotency_key. metadata_str metadata ''x-scope-orgid'' = Inr tenant_header
        \<and> metadata_str metadata ''x-duckspout-idempotency-key'' = Inr idempotency_key
        \<and> ae_encoded_len E message \<le> ac_max_payload_bytes admission
        \<and> decode_logs (ae_render E) (ae_ipc_write E) message tenant_header idempotency_key = Inr decoded)"

lemma export_cases:
  assumes "export E admission metadata message s = (r, s')"
  obtains (rejected) st where "r = Inl st" and "st_code st \<noteq> Unavailable" and "st_retry_info_ms st = None" and "s' = s"
  | (empty) decoded where "export_decodes E admission metadata message decoded" and "dl_rows decoded = 0"
      and "r = Inr (strindex_warning (dl_strindex_ignored decoded))" and "s' = s"
  | (staged) decoded rs where "export_decodes E admission metadata message decoded" and "0 < dl_rows decoded"
      and "stage_guarded E admission (dl_batch decoded) s = (rs, s')"
      and "r = (case rs of Inl st \<Rightarrow> Inl st | Inr _ \<Rightarrow> Inr (strindex_warning (dl_strindex_ignored decoded)))"
proof -
  have perm: "st_code (to_tonic_status c d 0) \<noteq> Unavailable \<and> st_retry_info_ms (to_tonic_status c d 0) = None"
    if "c \<in> {MalformedPermanent, PayloadTooLarge}" for c d
    using that by (auto simp: to_tonic_status_def carries_retry_info_def)
  show thesis
  proof (cases "\<exists>decoded. export_decodes E admission metadata message decoded")
    case False
    then have "\<exists>st. r = Inl st \<and> st_code st \<noteq> Unavailable \<and> st_retry_info_ms st = None \<and> s' = s"
      using assms perm
      by (auto simp: export_def export_decodes_def metadata_str_def reject_def Let_def
          split: option.splits metadata_value.splits if_splits sum.splits)
    then show thesis using rejected by blast
  next
    case True
    then obtain decoded th key where d: "metadata_str metadata ''x-scope-orgid'' = Inr th"
      "metadata_str metadata ''x-duckspout-idempotency-key'' = Inr key"
      "ae_encoded_len E message \<le> ac_max_payload_bytes admission"
      "decode_logs (ae_render E) (ae_ipc_write E) message th key = Inr decoded"
      by (auto simp: export_decodes_def)
    then have ex: "export_decodes E admission metadata message decoded" by (auto simp: export_decodes_def)
    show thesis
    proof (cases "0 < dl_rows decoded")
      case False
      with assms d show thesis by (intro empty[OF ex]) (auto simp: export_def Let_def)
    next
      case True
      obtain rs s1 where g: "stage_guarded E admission (dl_batch decoded) s = (rs, s1)" by fastforce
      with assms d True have "s1 = s'" and
        "r = (case rs of Inl st \<Rightarrow> Inl st | Inr _ \<Rightarrow> Inr (strindex_warning (dl_strindex_ignored decoded)))"
        by (auto simp: export_def Let_def and_then_def map_err_def split: sum.splits)
      with g show thesis by (intro staged[OF ex True]) auto
    qed
  qed
qed


text \<open>
  C14. The handler answers honestly. A success is answered only when there was nothing to stage, when the port committed the
  whole batch (then, and only then, the acknowledgement is journaled), or when the port knew the batch as already
  acknowledged. A refusal journals no acknowledgement; it tells the client to retry exactly when its code is
  \<open>UNAVAILABLE\<close>, and a permanent refusal has changed nothing. On every path the bytes in flight are given back.
\<close>
theorem export_answer_honest:
  assumes "export E admission metadata message s = (r, s')"
  shows "sv_inflight_bytes s' = sv_inflight_bytes s \<and> (case r of
      Inr w \<Rightarrow> \<exists>decoded. export_decodes E admission metadata message decoded
        \<and> w = strindex_warning (dl_strindex_ignored decoded)
        \<and> (dl_rows decoded = 0 \<and> s' = s
           \<or> (\<exists>cov st. ae_stage_commit E (dl_batch decoded) (sv_stager s) = (Inr (StageCommitted cov), st)
                \<and> s' = s\<lparr>sv_stager := st, sv_trace := sv_trace s @ [TeClientAck]\<rparr>)
           \<or> (\<exists>cov st. ae_stage_commit E (dl_batch decoded) (sv_stager s) = (Inr (DuplicateAcked cov), st)
                \<and> s' = s\<lparr>sv_stager := st\<rparr>))
    | Inl st \<Rightarrow> (st_retry_info_ms st \<noteq> None \<longleftrightarrow> st_code st = Unavailable)
        \<and> (st_code st \<noteq> Unavailable \<longrightarrow> s' = s)
        \<and> sv_trace s' \<in> {sv_trace s, sv_trace s @ [TeThrottle], sv_trace s @ [TeRefuse]})"
  using assms
proof (cases rule: export_cases)
  case (staged decoded rs)
  from staged(3) show ?thesis
  proof (cases rule: stage_guarded_cases)
    case (failed e st)
    then show ?thesis using staged(4)
      by (auto simp: journal_refusal_def sv_journal_def split: stage_error.splits)
  next
    case (committed cov st)
    then show ?thesis using staged by (auto simp: sv_journal_def)
  next
    case (duplicate cov st)
    then show ?thesis using staged by auto
  qed (use staged(4) in auto)
qed auto

text \<open>Two log records of tenant \<open>t\<close>, and a port that keeps the batches it commits.\<close>

definition demo_record :: log_record where
  "demo_record = \<lparr>lr_time_unix_nano = 5000, lr_observed_time_unix_nano = 0, lr_severity_number = 9, lr_severity_text = ''INFO'',
     lr_body = Some (AnyValue (Some (StringValue ''up''))), lr_attributes = [KeyValue ''a'' 0 None],
     lr_dropped_attributes_count = 0, lr_flags = 0, lr_trace_id = [], lr_span_id = [], lr_event_name = []\<rparr>"

definition demo_request_logs :: export_request where
  "demo_request_logs = [\<lparr>rl_resource = None, rl_scope_logs = [\<lparr>sl_scope = None,
     sl_log_records = [demo_record, demo_record\<lparr>lr_time_unix_nano := 0, lr_observed_time_unix_nano := 7000\<rparr>]\<rparr>]\<rparr>]"

definition demo_metadata :: request_metadata where
  "demo_metadata key = (if key = ''x-scope-orgid'' then Some (TextValue ''t'')
     else if key = ''x-duckspout-idempotency-key'' then Some (TextValue ''k'') else None)"

definition demo_accept :: "decoded_batch list accept_env" where
  "demo_accept = \<lparr>ae_encoded_len = length, ae_render = (\<lambda>_. ''{}''),
     ae_ipc_write = (\<lambda>c. Inr (replicate (columns_len c) CHR ''r'')),
     ae_stage_commit = (\<lambda>b st. (Inr (StageCommitted []), st @ [b])), ae_stage_error_text = (\<lambda>_. ''refused'')\<rparr>"

definition demo_admission :: admission_config where
  "demo_admission = \<lparr>ac_max_payload_bytes = 1000, ac_max_inflight_bytes = 100\<rparr>"

lemma demo_decodes: "decode_logs render ipc_write demo_request_logs (Some ''t'') key =
    (case ipc_write (columns_of render (flat_rows render demo_request_logs)) of
       Inl e \<Rightarrow> Inl (Malformed e)
     | Inr ipc_bytes \<Rightarrow> Inr \<lparr>dl_batch = \<lparr>dcb_dataset = DatasetId ''otlp_logs'', dcb_kind = Event, dcb_tenant = TenantId ''t'',
         dcb_idempotency_key = key, dcb_records = ipc_bytes\<rparr>, dl_rows = 2, dl_strindex_ignored = 0\<rparr>)"
proof -
  have "tenant_from_header (Some ''t'') = Inr (TenantId ''t'')" by code_simp
  moreover have "length (flat_rows render demo_request_logs) = 2"
    by (simp add: flat_rows_def demo_request_logs_def scope_rows_def)
  moreover have "refs_request demo_request_logs = 0"
    by (simp add: refs_request_def demo_request_logs_def refs_scope_def refs_record_def demo_record_def)
  ultimately show ?thesis by (simp add: decode_exact split: sum.splits)
qed

lemma demo_rows_len: "columns_len (columns_of render (flat_rows render demo_request_logs)) = 2"
  by (simp add: columns_len_def columns_of_def flat_rows_def demo_request_logs_def scope_rows_def)

lemma demo_headers: "metadata_str demo_metadata ''x-scope-orgid'' = Inr (Some ''t'')"
    "metadata_str demo_metadata ''x-duckspout-idempotency-key'' = Inr (Some ''k'')"
  by (simp_all add: metadata_str_def demo_metadata_def)

lemma demo_length: "length demo_request_logs = 1"
  by (simp add: demo_request_logs_def)

theorem export_answer_honest_witness:
  "\<exists>batch. export demo_accept demo_admission demo_metadata demo_request_logs \<lparr>sv_inflight_bytes = 7, sv_stager = [], sv_trace = []\<rparr>
       = (Inr None, \<lparr>sv_inflight_bytes = 7, sv_stager = [batch], sv_trace = [TeClientAck]\<rparr>)
     \<and> (\<exists>decoded. export_decodes demo_accept demo_admission demo_metadata demo_request_logs decoded \<and> dl_rows decoded = 2
        \<and> ae_stage_commit demo_accept (dl_batch decoded) [] = (Inr (StageCommitted []), [batch]))"
proof -
  let ?s = "\<lparr>sv_inflight_bytes = 7 :: u64, sv_stager = [] :: decoded_batch list, sv_trace = []\<rparr>"
  let ?b = "\<lparr>dcb_dataset = DatasetId ''otlp_logs'', dcb_kind = Event, dcb_tenant = TenantId ''t'',
      dcb_idempotency_key = Some ''k'', dcb_records = ''rr''\<rparr>"
  have rr: "replicate 2 c = [c, c]" for c :: char by (simp add: numeral_2_eq_2)
  have run: "export demo_accept demo_admission demo_metadata demo_request_logs ?s
      = (Inr None, \<lparr>sv_inflight_bytes = 7, sv_stager = [?b], sv_trace = [TeClientAck]\<rparr>)"
    by (simp add: export_def demo_headers demo_accept_def demo_admission_def demo_length demo_decodes demo_rows_len
        stage_guarded_def guard_admit_def guard_drop_def u64_saturating_add_def and_then_def map_err_def sv_journal_def
        strindex_warning_def Let_def rr)
  from export_answer_honest[OF run] obtain decoded cov st where
    d: "export_decodes demo_accept demo_admission demo_metadata demo_request_logs decoded"
    and "ae_stage_commit demo_accept (dl_batch decoded) [] = (Inr (StageCommitted cov), st)" and "st = [?b]"
    by auto
  moreover have "dl_rows decoded = 2"
    using d by (auto simp: export_decodes_def demo_headers demo_decodes demo_accept_def)
  ultimately show ?thesis using run by (auto simp: demo_accept_def)
qed

section \<open>Bytes in flight, handler by handler\<close>

text \<open>
  Concurrent handlers share the counter through single atomic operations: \<open>fetch_add\<close> on entry, which also tells the handler the
  counter before it; then, on its own, the comparison; then \<open>fetch_sub\<close>, at once for a refused handler and when the guard is
  dropped for an admitted one. A guard in the list, in the order of entry, is a handler between its two operations.
\<close>

datatype guard_phase = Entered | Refusing | Admitted

record guard =
  gd_bytes :: u64
  gd_previous :: u64
  gd_phase :: guard_phase

definition flight_total :: "guard list \<Rightarrow> nat" where
  "flight_total gs = sum_list (map (\<lambda>g. unat (gd_bytes g)) gs)"

definition admitted_total :: "guard list \<Rightarrow> nat" where
  "admitted_total gs = flight_total (filter (\<lambda>g. gd_phase g = Admitted) gs)"

text \<open>Steps with cap \<open>m\<close>. What all handlers hold together is taken to fit 64 bits.\<close>

inductive flight_step :: "u64 \<Rightarrow> u64 \<times> guard list \<Rightarrow> u64 \<times> guard list \<Rightarrow> bool" for m where
  enter: "flight_total gs + unat n < 2 ^ 64 \<Longrightarrow>
    flight_step m (c, gs) (c + n, gs @ [\<lparr>gd_bytes = n, gd_previous = c, gd_phase = Entered\<rparr>])"
| decide: "gd_phase g = Entered \<Longrightarrow>
    flight_step m (c, as @ g # bs)
      (c, as @ g\<lparr>gd_phase := if m < u64_saturating_add (gd_previous g) (gd_bytes g) then Refusing else Admitted\<rparr> # bs)"
| give_back: "gd_phase g \<noteq> Entered \<Longrightarrow> flight_step m (c, as @ g # bs) (c - gd_bytes g, as @ bs)"

inductive flight_run :: "u64 \<Rightarrow> u64 \<times> guard list \<Rightarrow> bool" for m where
  start: "flight_run m (0, [])"
| step: "flight_run m s \<Longrightarrow> flight_step m s s' \<Longrightarrow> flight_run m s'"

lemma flight_total_simps [simp]:
  "flight_total [] = 0" "flight_total (g # gs) = unat (gd_bytes g) + flight_total gs"
  "flight_total (gs @ hs) = flight_total gs + flight_total hs"
  by (simp_all add: flight_total_def)

text \<open>Each guard saw at least what the guards before it still hold, and an admitted one fitted the cap.\<close>

fun guards_saw :: "u64 \<Rightarrow> nat \<Rightarrow> guard list \<Rightarrow> bool" where
  "guards_saw m a [] \<longleftrightarrow> True"
| "guards_saw m a (g # gs) \<longleftrightarrow> a \<le> unat (gd_previous g) \<and> unat (gd_previous g) + unat (gd_bytes g) < 2 ^ 64
     \<and> (gd_phase g = Admitted \<longrightarrow> unat (gd_previous g) + unat (gd_bytes g) \<le> unat m)
     \<and> guards_saw m (a + unat (gd_bytes g)) gs"

fun flight_inv :: "u64 \<Rightarrow> u64 \<times> guard list \<Rightarrow> bool" where
  "flight_inv m (c, gs) \<longleftrightarrow> unat c = flight_total gs \<and> guards_saw m 0 gs"

lemma guards_saw_append:
  "guards_saw m a (gs @ hs) \<longleftrightarrow> guards_saw m a gs \<and> guards_saw m (a + flight_total gs) hs"
  by (induction gs arbitrary: a) (auto simp: add.assoc)

lemma guards_saw_mono: "guards_saw m a gs \<Longrightarrow> a' \<le> a \<Longrightarrow> guards_saw m a' gs"
  by (induction gs arbitrary: a a') fastforce+

lemma flight_step_inv:
  assumes "flight_step m s s'" and "flight_inv m s"
  shows "flight_inv m s'"
  using assms(1)
proof cases
  case (enter gs n c)
  with assms(2) have fits: "unat c + unat n < 2 ^ 64" by simp
  then have "unat (c + n) = unat c + unat n" by (simp add: unat_word_ariths)
  then show ?thesis using enter assms(2) fits by (simp add: guards_saw_append)
next
  case (decide g c as bs)
  with assms(2) have fits: "unat (gd_previous g) + unat (gd_bytes g) < 2 ^ 64" by (simp add: guards_saw_append)
  then have "unat (gd_previous g) + unat (gd_bytes g) \<le> unat m"
    if "\<not> m < u64_saturating_add (gd_previous g) (gd_bytes g)"
    using that by (simp add: word_less_nat_alt unat_saturating_add)
  then show ?thesis using decide assms(2) by (simp add: guards_saw_append)
next
  case (give_back g c as bs)
  with assms(2) have "unat (gd_bytes g) \<le> unat c" by simp
  then have "unat (c - gd_bytes g) = unat c - unat (gd_bytes g)" by (simp add: unat_sub word_le_nat_alt)
  then show ?thesis using give_back assms(2)
    by (auto simp: guards_saw_append elim: guards_saw_mono)
qed

lemma flight_run_inv: "flight_run m s \<Longrightarrow> flight_inv m s"
  by (induction rule: flight_run.induct) (simp_all add: flight_step_inv)

lemma guards_saw_admitted:
  "guards_saw m a gs \<Longrightarrow> admitted_total gs = 0 \<or> a + admitted_total gs \<le> unat m"
  by (induction gs arbitrary: a) (fastforce simp: admitted_total_def)+

text \<open>
  C35. However handlers interleave, the batches admitted and not yet resolved never exceed the cap together, and
  the counter is exactly what the handlers between their two operations hold: it returns to zero when they are done.
\<close>
theorem inflight_bounded:
  assumes "flight_run m (counter, guards)"
  shows "admitted_total guards \<le> unat m \<and> unat counter = flight_total guards \<and> (guards = [] \<longrightarrow> counter = 0)"
  using flight_run_inv[OF assms] guards_saw_admitted[of m 0 guards]
  by (auto simp: unat_eq_zero)

theorem inflight_bounded_witness:
  "admitted_total [\<lparr>gd_bytes = 60, gd_previous = 0, gd_phase = Admitted\<rparr>, \<lparr>gd_bytes = 60, gd_previous = 60, gd_phase = Refusing\<rparr>] \<le> 100
   \<and> flight_run 100 (120, [\<lparr>gd_bytes = 60, gd_previous = 0, gd_phase = Admitted\<rparr>, \<lparr>gd_bytes = 60, gd_previous = 60, gd_phase = Refusing\<rparr>])"
proof -
  let ?g = "\<lambda>p ph. \<lparr>gd_bytes = 60 :: u64, gd_previous = p, gd_phase = ph\<rparr>"
  have "flight_step 100 (0, []) (60, [?g 0 Entered])" using flight_step.enter[of "[]" 60 100 0] by simp
  with flight_run.start have 1: "flight_run 100 (60, [?g 0 Entered])" by (rule flight_run.step)
  have "flight_step 100 (60, [?g 0 Entered]) (120, [?g 0 Entered, ?g 60 Entered])"
    using flight_step.enter[of "[?g 0 Entered]" 60 100 60] by simp
  with 1 have 2: "flight_run 100 (120, [?g 0 Entered, ?g 60 Entered])" by (rule flight_run.step)
  have "flight_step 100 (120, [?g 0 Entered, ?g 60 Entered]) (120, [?g 0 Admitted, ?g 60 Entered])"
    using flight_step.decide[of "?g 0 Entered" 100 120 "[]" "[?g 60 Entered]"] by (simp add: u64_saturating_add_def)
  with 2 have 3: "flight_run 100 (120, [?g 0 Admitted, ?g 60 Entered])" by (rule flight_run.step)
  have "flight_step 100 (120, [?g 0 Admitted, ?g 60 Entered]) (120, [?g 0 Admitted, ?g 60 Refusing])"
    using flight_step.decide[of "?g 60 Entered" 100 120 "[?g 0 Admitted]" "[]"] by (simp add: u64_saturating_add_def)
  with 3 have 4: "flight_run 100 (120, [?g 0 Admitted, ?g 60 Refusing])" by (rule flight_run.step)
  from inflight_bounded[OF 4] 4 show ?thesis by simp
qed

end
