(* ===== verification/Accept_System.thy ===== *)
theory Accept_System
  imports Accept_Server Hot_Life
begin

text \<open>
  The accept path over the hot store: the handler of \<open>Accept_Server\<close> with the stager as its port. The Arrow IPC writer and reader are
  parameters; what is relied on is that the reader gives back one payload per row of what the
  writer wrote (\<open>ipc_round_trip\<close>).
\<close>

definition over_stager ::
  "'p engine_stager accept_env \<Rightarrow> 'p stage_env \<Rightarrow> stager_config \<Rightarrow> u64 \<Rightarrow> int \<Rightarrow> 'p engine_stager accept_env" where
  "over_stager E SE cfg tick now = E\<lparr>ae_stage_commit := stage_blocking SE cfg tick now\<rparr>"

definition ipc_round_trip ::
  "('s, 'x) accept_env_scheme \<Rightarrow> 'p stage_env \<Rightarrow> (log_columns \<Rightarrow> 'p list) \<Rightarrow> bool" where
  "ipc_round_trip E SE payloads \<longleftrightarrow>
     (\<forall>cols ipc_bytes. ae_ipc_write E cols = Inr ipc_bytes \<longrightarrow>
        length (payloads cols) = columns_len cols
        \<and> (\<exists>bs. read_batches SE ipc_bytes = Inr bs \<and> concat (map rb_rows bs) = payloads cols))"



text \<open>The export of two records by a node that has just booted on an empty store.\<close>

definition demo_writer :: "string engine_stager accept_env" where
  "demo_writer = \<lparr>ae_encoded_len = length, ae_render = (\<lambda>_. ''{}''),
     ae_ipc_write = (\<lambda>c. if columns_len c = 2 then Inr ''r'' else Inl ''unsupported''),
     ae_stage_commit = (\<lambda>_ st. (Inr DuplicateInFlight, st)), ae_stage_error_text = (\<lambda>_. ''refused'')\<rparr>"

lemma demo_round_trip: "ipc_round_trip demo_writer demo_env (\<lambda>_. [''a'', ''b''])"
  by (simp add: ipc_round_trip_def demo_writer_def demo_env_def read_batches_def)

definition demo_export :: "(grpc_status, partial_success option) result \<times> string engine_stager otlp_service" where
  "demo_export = export (over_stager demo_writer demo_env demo_cfg 0 1000000) demo_admission demo_metadata demo_request_logs
     \<lparr>sv_inflight_bytes = 0, sv_stager = demo_s0, sv_trace = []\<rparr>"

lemma demo_export_acked: "fst demo_export = Inr None \<and> sv_trace (snd demo_export) = [TeClientAck]"
  unfolding demo_export_def demo_s0_def demo_w0_eq
  by (simp add: export_def demo_headers demo_writer_def over_stager_def demo_admission_def demo_length demo_decodes demo_rows_len
      stage_guarded_def guard_admit_def guard_drop_def u64_saturating_add_def and_then_def map_err_def sv_journal_def
      strindex_warning_def open_defs call_defs stage_defs demo_admits demo_columns demo_defs)


end
