(* ===== verification/Lake_Committer.thy ===== *)
theory Lake_Committer
  imports Types
begin

text \<open>
  \<open>crates/duckspout-lake-ducklake/src/lib.rs\<close>: the DuckLake backend behind the lake port of the drain.

  The catalog is modelled by the tables the source writes (watermarks, manifest rows, fence rows, the
  registered data files and the columns of each dataset's table) and by the effect of each statement.
  Any call may fail with any text, by a schedule indexed by the number of calls made. A \<open>COMMIT\<close> that
  reports an error ends its transaction, and may have landed all the same; \<open>lf_landed\<close> says whether it did, and the predicate
  \<open>local_commit\<close> is what the source says of local catalogs and of conflicts: there it did not. The
  answer to a \<open>ROLLBACK\<close> is ignored by the source; it is taken to succeed. The connection's mutex makes
  each operation one step. \<open>ducklake_add_data_files\<close> registers a file in a table, once per call. The
  JSON codec of the stored coverage is a parameter. Row order in a table is insertion order, and a
  query without \<open>ORDER BY\<close> reads in that order.
\<close>

section \<open>Configuration\<close>

record s3_access =
  s3_endpoint :: string
  s3_region :: string
  s3_access_key_id :: string
  s3_secret_access_key :: string
  s3_url_style_path :: bool
  s3_use_ssl :: bool

record duck_lake_config =
  lk_catalog_uri :: string
  lk_data_path :: string
  lk_multi_process :: bool
  lk_s3 :: "s3_access option"

datatype catalog_kind = DuckDbFile | Sqlite | Postgres

definition starts_with :: "string \<Rightarrow> string \<Rightarrow> bool" where
  "starts_with s pre \<longleftrightarrow> take (length pre) s = pre"

definition catalog_kind_of :: "string \<Rightarrow> catalog_kind" where
  "catalog_kind_of uri =
     (if starts_with uri ''postgres:'' \<or> starts_with uri ''postgresql:'' then Postgres
      else if starts_with uri ''sqlite:'' then Sqlite
      else DuckDbFile)"

fun str_contains :: "string \<Rightarrow> string \<Rightarrow> bool" where
  "str_contains [] needle \<longleftrightarrow> needle = []"
| "str_contains (c # s) needle \<longleftrightarrow> starts_with (c # s) needle \<or> str_contains s needle"

definition to_ascii_lowercase :: "string \<Rightarrow> string" where
  "to_ascii_lowercase s = map ascii_lower s"

definition dataset_table :: "string \<Rightarrow> string" where
  "dataset_table dataset = ''ds_'' @ encode_component dataset"

definition i64_of_nat :: "nat \<Rightarrow> int" where
  "i64_of_nat n = (if int n \<le> i64_max then int n else i64_max)"

definition u64_nat_of_i64 :: "nat \<Rightarrow> int \<Rightarrow> nat" where
  "u64_nat_of_i64 fallback i = (if i < 0 then fallback else nat i)"

section \<open>The catalog\<close>

record manifest_row =
  mr_partition :: partition_id
  mr_window_id :: int
  mr_part_name :: part_name
  mr_dataset :: dataset_id
  mr_rows :: int
  mr_event_time_min_ms :: int
  mr_event_time_max_ms :: int
  mr_dedup_removed :: int
  mr_origin_coverage :: string
  mr_expired :: bool

record lake_db =
  ld_watermarks :: "(partition_id \<times> int) list"
  ld_manifests :: "manifest_row list"
  ld_fence :: "(partition_id \<times> int) list"
  ld_files :: "(string \<times> string) list"
  ld_tables :: "(string \<times> (string \<times> string) list) list"

record lake_faults =
  lf_error :: "nat \<Rightarrow> string option"
  lf_landed :: "nat \<Rightarrow> bool"

record lake_conn =
  lc_db :: lake_db
  lc_txn :: "lake_db option"
  lc_calls :: nat

definition lc_view :: "lake_conn \<Rightarrow> lake_db" where
  "lc_view c = map_or (lc_db c) id (lc_txn c)"

definition lake_query :: "lake_faults \<Rightarrow> (lake_db \<Rightarrow> 'a) \<Rightarrow> lake_conn \<Rightarrow> (string, 'a) result \<times> lake_conn" where
  "lake_query F q c =
     (let n = lc_calls c; c = c\<lparr>lc_calls := Suc n\<rparr> in
      case lf_error F n of Some e \<Rightarrow> (Inl e, c) | None \<Rightarrow> (Inr (q (lc_view c)), c))"

text \<open>A statement returns the number of rows it changed.\<close>

definition lake_execute ::
  "lake_faults \<Rightarrow> (lake_db \<Rightarrow> nat \<times> lake_db) \<Rightarrow> lake_conn \<Rightarrow> (string, nat) result \<times> lake_conn" where
  "lake_execute F stmt c =
     (let n = lc_calls c; c = c\<lparr>lc_calls := Suc n\<rparr> in
      case lf_error F n of
        Some e \<Rightarrow> (Inl e, c)
      | None \<Rightarrow>
          (let (k, db) = stmt (lc_view c) in
           (Inr k, if lc_txn c = None then c\<lparr>lc_db := db\<rparr> else c\<lparr>lc_txn := Some db\<rparr>)))"

definition lake_begin :: "lake_faults \<Rightarrow> lake_conn \<Rightarrow> (string, unit) result \<times> lake_conn" where
  "lake_begin F c =
     (let n = lc_calls c; c = c\<lparr>lc_calls := Suc n\<rparr> in
      case lf_error F n of Some e \<Rightarrow> (Inl e, c) | None \<Rightarrow> (Inr (), c\<lparr>lc_txn := Some (lc_db c)\<rparr>))"

definition lake_commit :: "lake_faults \<Rightarrow> lake_conn \<Rightarrow> (string, unit) result \<times> lake_conn" where
  "lake_commit F c =
     (let n = lc_calls c; landed = c\<lparr>lc_calls := Suc n, lc_db := lc_view c, lc_txn := None\<rparr> in
      case lf_error F n of
        None \<Rightarrow> (Inr (), landed)
      | Some e \<Rightarrow> (Inl e, if lf_landed F n then landed else c\<lparr>lc_calls := Suc n, lc_txn := None\<rparr>))"

definition lake_rollback :: "lake_conn \<Rightarrow> lake_conn" where
  "lake_rollback c = c\<lparr>lc_txn := None\<rparr>"

section \<open>Statements\<close>

definition sql_ensure_fence :: "partition_id \<Rightarrow> lake_db \<Rightarrow> nat \<times> lake_db" where
  "sql_ensure_fence pid db =
     (if pid \<in> fst ` set (ld_fence db) then (0, db)
      else (1, db\<lparr>ld_fence := ld_fence db @ [(pid, - 1)]\<rparr>))"

definition same_part :: "partition_id \<Rightarrow> int \<Rightarrow> part_name \<Rightarrow> manifest_row \<Rightarrow> bool" where
  "same_part pid window_id part r \<longleftrightarrow>
     mr_partition r = pid \<and> mr_window_id r = window_id \<and> mr_part_name r = part"

definition sql_count_part :: "partition_id \<Rightarrow> int \<Rightarrow> part_name \<Rightarrow> lake_db \<Rightarrow> nat" where
  "sql_count_part pid window_id part db = length (filter (same_part pid window_id part) (ld_manifests db))"

definition sql_add_data_file :: "string \<Rightarrow> string \<Rightarrow> lake_db \<Rightarrow> nat \<times> lake_db" where
  "sql_add_data_file table path db = (1, db\<lparr>ld_files := ld_files db @ [(table, path)]\<rparr>)"

definition sql_insert_manifest :: "manifest_row \<Rightarrow> lake_db \<Rightarrow> nat \<times> lake_db" where
  "sql_insert_manifest r db = (1, db\<lparr>ld_manifests := ld_manifests db @ [r]\<rparr>)"

definition sql_update_watermark :: "watermark_row \<Rightarrow> lake_db \<Rightarrow> nat \<times> lake_db" where
  "sql_update_watermark w db =
     (length (filter (\<lambda>(p, v). p = wr_partition w) (ld_watermarks db)),
      db\<lparr>ld_watermarks := map (\<lambda>(p, v). (p, if p = wr_partition w then wr_complete_through_ms w else v))
                            (ld_watermarks db)\<rparr>)"

definition sql_insert_watermark :: "watermark_row \<Rightarrow> lake_db \<Rightarrow> nat \<times> lake_db" where
  "sql_insert_watermark w db =
     (1, db\<lparr>ld_watermarks := ld_watermarks db @ [(wr_partition w, wr_complete_through_ms w)]\<rparr>)"

definition sql_update_fence :: "partition_id \<Rightarrow> int \<Rightarrow> lake_db \<Rightarrow> nat \<times> lake_db" where
  "sql_update_fence pid window_id db =
     (length (filter (\<lambda>(p, v). p = pid) (ld_fence db)),
      db\<lparr>ld_fence := map (\<lambda>(p, v). (p, if p = pid then window_id else v)) (ld_fence db)\<rparr>)"

definition sql_max_watermark :: "partition_id \<Rightarrow> lake_db \<Rightarrow> int option" where
  "sql_max_watermark pid db =
     max_by_key id (map snd (filter (\<lambda>(p, v). p = pid) (ld_watermarks db)))"

section \<open>The commit\<close>

datatype staged = Wrote | AlreadyRegistered

fun absent_loop ::
  "lake_faults \<Rightarrow> partition_id \<Rightarrow> int \<Rightarrow> part_name list \<Rightarrow> lake_conn
     \<Rightarrow> (lake_error, part_name list) result \<times> lake_conn" where
  "absent_loop F pid window_id [] c = (Inr [], c)"
| "absent_loop F pid window_id (part # parts) c =
     and_then (err_into LakeBackend (lake_query F (sql_count_part pid window_id part) c)) (\<lambda>present c.
     and_then (absent_loop F pid window_id parts c) (\<lambda>absent c.
       (Inr (if present = 0 then part # absent else absent), c)))"

definition manifest_row_of :: "window_manifest \<Rightarrow> string \<Rightarrow> part_name \<Rightarrow> manifest_row" where
  "manifest_row_of m coverage part =
     \<lparr>mr_partition = wm_partition m, mr_window_id = i64_of_nat (wm_window_id m), mr_part_name = part,
      mr_dataset = wm_dataset m, mr_rows = i64_of_nat (unat (wm_rows m)),
      mr_event_time_min_ms = wm_event_time_min_ms m, mr_event_time_max_ms = wm_event_time_max_ms m,
      mr_dedup_removed = i64_of_nat (unat (wm_dedup_removed m)), mr_origin_coverage = coverage,
      mr_expired = False\<rparr>"

definition part_path :: "duck_lake_config \<Rightarrow> part_name \<Rightarrow> string" where
  "part_path config part = lk_data_path config @ ''/'' @ part_str part"

fun register_loop ::
  "lake_faults \<Rightarrow> duck_lake_config \<Rightarrow> window_manifest \<Rightarrow> string \<Rightarrow> part_name list \<Rightarrow> lake_conn
     \<Rightarrow> (lake_error, unit) result \<times> lake_conn" where
  "register_loop F config m coverage [] c = (Inr (), c)"
| "register_loop F config m coverage (part # parts) c =
     and_then (err_into LakeBackend (lake_execute F
       (sql_add_data_file (dataset_table (dataset_str (wm_dataset m))) (part_path config part)) c)) (\<lambda>_ c.
     and_then (err_into LakeBackend (lake_execute F
       (sql_insert_manifest (manifest_row_of m coverage part)) c)) (\<lambda>_ c.
       register_loop F config m coverage parts c))"

fun watermark_loop ::
  "lake_faults \<Rightarrow> watermark_row list \<Rightarrow> lake_conn \<Rightarrow> (lake_error, unit) result \<times> lake_conn" where
  "watermark_loop F [] c = (Inr (), c)"
| "watermark_loop F (w # ws) c =
     and_then (err_into LakeBackend (lake_execute F (sql_update_watermark w) c)) (\<lambda>updated c.
     and_then (if updated = 0 then err_into LakeBackend (lake_execute F (sql_insert_watermark w) c)
               else (Inr 0, c)) (\<lambda>_ c.
       watermark_loop F ws c))"

type_synonym coverage_encoder = "origin_seq_range list \<Rightarrow> (string, string) result"
type_synonym coverage_decoder = "string \<Rightarrow> (string, origin_seq_range list) result"

definition stage_commit_writes ::
  "lake_faults \<Rightarrow> coverage_encoder \<Rightarrow> duck_lake_config \<Rightarrow> window_manifest \<Rightarrow> watermark_row list \<Rightarrow> lake_conn
     \<Rightarrow> (lake_error, staged) result \<times> lake_conn" where
  "stage_commit_writes F encode config m watermarks c =
     and_then (absent_loop F (wm_partition m) (i64_of_nat (wm_window_id m)) (wm_parts m) c) (\<lambda>absent c.
       if absent = [] \<and> wm_parts m \<noteq> [] then (Inr AlreadyRegistered, c)
       else case encode (wm_origin_coverage m) of
         Inl e \<Rightarrow> (Inl (LakeBackend (''encode coverage: '' @ e)), c)
       | Inr coverage \<Rightarrow>
           and_then (register_loop F config m coverage absent c) (\<lambda>_ c.
           and_then (watermark_loop F watermarks c) (\<lambda>_ c.
           and_then (err_into LakeBackend (lake_execute F
             (sql_update_fence (wm_partition m) (i64_of_nat (wm_window_id m))) c)) (\<lambda>_ c.
             (Inr Wrote, c)))))"

fun lake_error_display :: "lake_error \<Rightarrow> string" where
  "lake_error_display (NotImplemented s) = ''lake operation not implemented: '' @ s"
| "lake_error_display (Misconfigured s) = ''lake backend misconfigured: '' @ s"
| "lake_error_display (LakeBackend s) = ''lake backend: '' @ s"

definition commit_error_outcome :: "catalog_kind \<Rightarrow> string \<Rightarrow> commit_outcome" where
  "commit_error_outcome kind rendered =
     (if str_contains (to_ascii_lowercase rendered) ''conflict'' then Aborted
      else case kind of DuckDbFile \<Rightarrow> Aborted | Sqlite \<Rightarrow> Aborted | Postgres \<Rightarrow> Indeterminate)"

definition stage_error_outcome :: "lake_error \<Rightarrow> (lake_error, commit_outcome) result" where
  "stage_error_outcome error =
     (let lowered = to_ascii_lowercase (lake_error_display error) in
      if str_contains lowered ''conflict'' then Inr Aborted
      else if str_contains lowered ''does not exist'' \<or> str_contains lowered ''binder error''
              \<or> str_contains lowered ''catalog error'' then Inl error
      else Inr Aborted)"

text \<open>The part of \<open>commit_files_blocking\<close> after \<open>BEGIN TRANSACTION\<close>.\<close>

definition commit_transaction ::
  "lake_faults \<Rightarrow> coverage_encoder \<Rightarrow> duck_lake_config \<Rightarrow> window_manifest \<Rightarrow> watermark_row list \<Rightarrow> lake_conn
     \<Rightarrow> (lake_error, commit_outcome) result \<times> lake_conn" where
  "commit_transaction F encode config m watermarks c =
     (case stage_commit_writes F encode config m watermarks c of
        (Inr AlreadyRegistered, c) \<Rightarrow> (Inr Committed, lake_rollback c)
      | (Inl error, c) \<Rightarrow> (stage_error_outcome error, lake_rollback c)
      | (Inr Wrote, c) \<Rightarrow>
          (case lake_commit F c of
             (Inr _, c) \<Rightarrow> (Inr Committed, c)
           | (Inl error, c) \<Rightarrow>
               (Inr (commit_error_outcome (catalog_kind_of (lk_catalog_uri config)) error),
                lake_rollback c)))"

definition commit_files_blocking ::
  "lake_faults \<Rightarrow> coverage_encoder \<Rightarrow> duck_lake_config \<Rightarrow> window_manifest \<Rightarrow> watermark_row list \<Rightarrow> lake_conn
     \<Rightarrow> (lake_error, commit_outcome) result \<times> lake_conn" where
  "commit_files_blocking F encode config m watermarks c =
     (case lake_execute F (sql_ensure_fence (wm_partition m)) c of
        (Inl _, c) \<Rightarrow> (Inr Aborted, c)
      | (Inr _, c) \<Rightarrow>
          and_then (err_into LakeBackend (lake_begin F c)) (\<lambda>_ c.
            commit_transaction F encode config m watermarks c))"

section \<open>Reads\<close>

fun read_watermarks_blocking ::
  "lake_faults \<Rightarrow> partition_id list \<Rightarrow> lake_conn \<Rightarrow> (lake_error, watermark_row list) result \<times> lake_conn" where
  "read_watermarks_blocking F [] c = (Inr [], c)"
| "read_watermarks_blocking F (pid # pids) c =
     and_then (err_into LakeBackend (lake_query F (\<lambda>_. ()) c)) (\<lambda>_ c.
     and_then (err_into LakeBackend (lake_query F (sql_max_watermark pid) c)) (\<lambda>v c.
     and_then (read_watermarks_blocking F pids c) (\<lambda>rows c.
       (Inr (case v of
               Some ms \<Rightarrow> \<lparr>wr_partition = pid, wr_complete_through_ms = ms\<rparr> # rows
             | None \<Rightarrow> rows), c))))"

text \<open>One row of the query, appended to the manifests read so far; \<open>manifests\<close> is kept as it grows.\<close>

definition collect_row ::
  "coverage_decoder \<Rightarrow> manifest_row \<Rightarrow> window_manifest list \<Rightarrow> (lake_error, window_manifest list) result" where
  "collect_row decode r manifests =
     (let window_id = u64_nat_of_i64 (2 ^ 64 - 1) (mr_window_id r) in
      if manifests \<noteq> [] \<and> wm_partition (last manifests) = mr_partition r
         \<and> wm_window_id (last manifests) = window_id
      then Inr (butlast manifests @
             [(last manifests)\<lparr>wm_parts := wm_parts (last manifests) @ [mr_part_name r]\<rparr>])
      else case decode (mr_origin_coverage r) of
        Inl e \<Rightarrow> Inl (LakeBackend (''decode origin_coverage for partition '' @ partition_str (mr_partition r)
                   @ '' window '' @ show_nat window_id @ '': '' @ e))
      | Inr coverage \<Rightarrow>
          Inr (manifests @ [\<lparr>wm_dataset = mr_dataset r, wm_partition = mr_partition r,
            wm_window_id = window_id, wm_origin_coverage = coverage,
            wm_rows = of_nat (u64_nat_of_i64 0 (mr_rows r)),
            wm_event_time_min_ms = mr_event_time_min_ms r, wm_event_time_max_ms = mr_event_time_max_ms r,
            wm_dedup_removed = of_nat (u64_nat_of_i64 0 (mr_dedup_removed r)),
            wm_parts = [mr_part_name r]\<rparr>]))"

fun collect_rows ::
  "coverage_decoder \<Rightarrow> manifest_row list \<Rightarrow> window_manifest list \<Rightarrow> (lake_error, window_manifest list) result" where
  "collect_rows decode [] manifests = Inr manifests"
| "collect_rows decode (r # rs) manifests =
     (case collect_row decode r manifests of Inl e \<Rightarrow> Inl e | Inr ms \<Rightarrow> collect_rows decode rs ms)"

definition sql_ordered_manifests :: "lake_db \<Rightarrow> manifest_row list" where
  "sql_ordered_manifests db = sort_key (\<lambda>r. (mr_partition r, mr_window_id r)) (ld_manifests db)"

definition read_manifests ::
  "lake_faults \<Rightarrow> coverage_decoder \<Rightarrow> lake_conn \<Rightarrow> (lake_error, window_manifest list) result \<times> lake_conn" where
  "read_manifests F decode c =
     and_then (err_into LakeBackend (lake_query F (\<lambda>_. ()) c)) (\<lambda>_ c.
     and_then (err_into LakeBackend (lake_query F sql_ordered_manifests c)) (\<lambda>rows c.
       (collect_rows decode rows [], c)))"

section \<open>Schema evolution and expiry\<close>

record column_spec =
  col_name :: string
  col_logical_type :: string

record schema_evolution =
  se_dataset :: dataset_id
  se_columns :: "column_spec list"

definition sql_type :: "string \<Rightarrow> (lake_error, string) result" where
  "sql_type logical =
     (case map_of [(''boolean'', ''BOOLEAN''), (''int8'', ''TINYINT''), (''int16'', ''SMALLINT''),
        (''int32'', ''INTEGER''), (''int64'', ''BIGINT''), (''uint8'', ''UTINYINT''),
        (''uint16'', ''USMALLINT''), (''uint32'', ''UINTEGER''), (''uint64'', ''UBIGINT''),
        (''float32'', ''FLOAT''), (''float64'', ''DOUBLE''), (''utf8'', ''VARCHAR''),
        (''binary'', ''BLOB''), (''timestamp_micros'', ''TIMESTAMP'')] logical of
        Some t \<Rightarrow> Inr t
      | None \<Rightarrow> Inl (Misconfigured (''unknown logical type '' @ logical)))"

fun column_types :: "column_spec list \<Rightarrow> (lake_error, (string \<times> string) list) result" where
  "column_types [] = Inr []"
| "column_types (col # cols) =
     (case sql_type (col_logical_type col) of Inl e \<Rightarrow> Inl e | Inr t \<Rightarrow>
     (case column_types cols of Inl e \<Rightarrow> Inl e | Inr ts \<Rightarrow> Inr ((col_name col, t) # ts)))"

definition sql_create_lake_table :: "string \<Rightarrow> (string \<times> string) list \<Rightarrow> lake_db \<Rightarrow> nat \<times> lake_db" where
  "sql_create_lake_table table columns db =
     (if table \<in> fst ` set (ld_tables db) then (0, db)
      else (0, db\<lparr>ld_tables := ld_tables db @ [(table, columns)]\<rparr>))"

definition sql_add_column :: "string \<Rightarrow> string \<times> string \<Rightarrow> lake_db \<Rightarrow> nat \<times> lake_db" where
  "sql_add_column table column db =
     (0, db\<lparr>ld_tables := map (\<lambda>(t, cols).
        (t, if t = table \<and> fst column \<notin> fst ` set cols then cols @ [column] else cols)) (ld_tables db)\<rparr>)"

fun add_columns_loop ::
  "lake_faults \<Rightarrow> string \<Rightarrow> column_spec list \<Rightarrow> lake_conn \<Rightarrow> (lake_error, unit) result \<times> lake_conn" where
  "add_columns_loop F table [] c = (Inr (), c)"
| "add_columns_loop F table (col # cols) c =
     (case sql_type (col_logical_type col) of
        Inl e \<Rightarrow> (Inl e, c)
      | Inr t \<Rightarrow>
          and_then (err_into LakeBackend (lake_execute F (sql_add_column table (col_name col, t)) c)) (\<lambda>_ c.
            add_columns_loop F table cols c))"

definition evolve_schema_blocking ::
  "lake_faults \<Rightarrow> schema_evolution \<Rightarrow> lake_conn \<Rightarrow> (lake_error, unit) result \<times> lake_conn" where
  "evolve_schema_blocking F change c =
     (let table = dataset_table (dataset_str (se_dataset change)) in
      and_then (err_into LakeBackend (lake_query F (\<lambda>db. table \<in> fst ` set (ld_tables db)) c)) (\<lambda>exists c.
        if \<not> exists then
          (case column_types (se_columns change) of
             Inl e \<Rightarrow> (Inl e, c)
           | Inr columns \<Rightarrow>
               (if columns = []
                then (Inl (Misconfigured ''schema evolution creating a table needs at least one column''), c)
                else and_then (err_into LakeBackend (lake_execute F (sql_create_lake_table table columns) c))
                       (\<lambda>_ c. (Inr (), c))))
        else add_columns_loop F table (se_columns change) c))"

definition sql_find_part :: "part_name \<Rightarrow> lake_db \<Rightarrow> (dataset_id \<times> bool) option" where
  "sql_find_part part db =
     map_option (\<lambda>r. (mr_dataset r, mr_expired r))
       (List.find (\<lambda>r. mr_part_name r = part) (ld_manifests db))"

definition sql_delete_file_rows :: "string \<Rightarrow> string \<Rightarrow> lake_db \<Rightarrow> nat \<times> lake_db" where
  "sql_delete_file_rows table path db =
     (0, db\<lparr>ld_files := filter (\<lambda>f. f \<noteq> (table, path)) (ld_files db)\<rparr>)"

definition sql_mark_expired :: "part_name \<Rightarrow> lake_db \<Rightarrow> nat \<times> lake_db" where
  "sql_mark_expired part db =
     (length (filter (\<lambda>r. mr_part_name r = part) (ld_manifests db)),
      db\<lparr>ld_manifests := map (\<lambda>r. if mr_part_name r = part then r\<lparr>mr_expired := True\<rparr> else r) (ld_manifests db)\<rparr>)"

fun expire_writes ::
  "lake_faults \<Rightarrow> duck_lake_config \<Rightarrow> part_name list \<Rightarrow> lake_conn \<Rightarrow> (lake_error, unit) result \<times> lake_conn" where
  "expire_writes F config [] c = (Inr (), c)"
| "expire_writes F config (part # parts) c =
     (let missing = LakeBackend (''expire: part '' @ part_str part @ '' is not registered in duckspout_manifests'') in
      and_then (err_into (\<lambda>_. missing) (lake_query F (sql_find_part part) c)) (\<lambda>found c.
        case found of
          None \<Rightarrow> (Inl missing, c)
        | Some (dataset, already_expired) \<Rightarrow>
            (if already_expired then expire_writes F config parts c
             else
               and_then (err_into LakeBackend (lake_execute F (sql_delete_file_rows
                 (dataset_table (dataset_str dataset)) (part_path config part)) c)) (\<lambda>_ c.
               and_then (err_into LakeBackend (lake_execute F (sql_mark_expired part) c)) (\<lambda>_ c.
                 expire_writes F config parts c)))))"

definition expire_blocking ::
  "lake_faults \<Rightarrow> duck_lake_config \<Rightarrow> part_name list \<Rightarrow> lake_conn \<Rightarrow> (lake_error, unit) result \<times> lake_conn" where
  "expire_blocking F config parts c =
     and_then (err_into LakeBackend (lake_begin F c)) (\<lambda>_ c.
       case expire_writes F config parts c of
         (Inr _, c) \<Rightarrow> err_into LakeBackend (lake_commit F c)
       | (Inl error, c) \<Rightarrow> (Inl error, lake_rollback c))"

section \<open>What the writes of a commit do\<close>

definition in_txn :: "lake_db \<Rightarrow> lake_db \<Rightarrow> lake_conn \<Rightarrow> bool" where
  "in_txn db v c \<longleftrightarrow> lc_db c = db \<and> lc_txn c = Some v"

lemma execute_txn:
  assumes "lake_execute F stmt c = (r, c')" and "in_txn db v c"
  obtains (failed) e where "r = Inl e" and "in_txn db v c'"
  | (ok) "r = Inr (fst (stmt v))" and "in_txn db (snd (stmt v)) c'"
  using assms
  by (cases "lf_error F (lc_calls c)")
    (auto simp: lake_execute_def in_txn_def lc_view_def Let_def split: prod.splits)

lemma query_txn:
  assumes "lake_query F q c = (r, c')" and "in_txn db v c"
  obtains (failed) e where "r = Inl e" and "in_txn db v c'"
  | (ok) "r = Inr (q v)" and "in_txn db v c'"
  using assms
  by (cases "lf_error F (lc_calls c)") (auto simp: lake_query_def in_txn_def lc_view_def Let_def)

definition absent_parts :: "window_manifest \<Rightarrow> lake_db \<Rightarrow> part_name list" where
  "absent_parts m v =
     filter (\<lambda>p. sql_count_part (wm_partition m) (i64_of_nat (wm_window_id m)) p v = 0) (wm_parts m)"

definition register_part :: "duck_lake_config \<Rightarrow> window_manifest \<Rightarrow> string \<Rightarrow> part_name \<Rightarrow> lake_db \<Rightarrow> lake_db" where
  "register_part config m coverage p v =
     snd (sql_insert_manifest (manifest_row_of m coverage p)
       (snd (sql_add_data_file (dataset_table (dataset_str (wm_dataset m))) (part_path config p) v)))"

definition put_watermark :: "watermark_row \<Rightarrow> lake_db \<Rightarrow> lake_db" where
  "put_watermark w v =
     (let (k, v1) = sql_update_watermark w v in if k = 0 then snd (sql_insert_watermark w v1) else v1)"

text \<open>The catalog after a commit, as a function of the catalog before it.\<close>

definition committed_db ::
  "duck_lake_config \<Rightarrow> string \<Rightarrow> window_manifest \<Rightarrow> watermark_row list \<Rightarrow> lake_db \<Rightarrow> lake_db" where
  "committed_db config coverage m ws v =
     snd (sql_update_fence (wm_partition m) (i64_of_nat (wm_window_id m))
       (fold put_watermark ws (fold (register_part config m coverage) (absent_parts m v) v)))"

lemma absent_loop_ok:
  assumes "absent_loop F pid w parts c = (r, c')" and "in_txn db v c"
  shows "in_txn db v c' \<and> (\<forall>absent. r = Inr absent \<longrightarrow> absent = filter (\<lambda>p. sql_count_part pid w p v = 0) parts)"
  using assms
proof (induction parts arbitrary: c r c')
  case (Cons p parts)
  obtain r1 c1 where q: "lake_query F (sql_count_part pid w p) c = (r1, c1)" by fastforce
  from q Cons.prems(2) show ?case
  proof (cases rule: query_txn)
    case (failed e)
    then show ?thesis using Cons.prems(1) q by (auto simp: err_into_def)
  next
    case ok
    obtain r2 c2 where l: "absent_loop F pid w parts c1 = (r2, c2)" by fastforce
    from Cons.IH[OF l ok(2)] show ?thesis
      using Cons.prems(1) q ok l by (cases r2) (auto simp: err_into_def)
  qed
qed auto

lemma register_loop_ok:
  assumes "register_loop F config m cov parts c = (r, c')" and "in_txn db v c"
  shows "\<exists>v'. in_txn db v' c' \<and> (r = Inr () \<longrightarrow> v' = fold (register_part config m cov) parts v)"
  using assms
proof (induction parts arbitrary: c v)
  case (Cons p parts)
  let ?add = "sql_add_data_file (dataset_table (dataset_str (wm_dataset m))) (part_path config p)"
  let ?ins = "sql_insert_manifest (manifest_row_of m cov p)"
  obtain r1 c1 where a: "lake_execute F ?add c = (r1, c1)" by fastforce
  from a Cons.prems(2) show ?case
  proof (cases rule: execute_txn)
    case (failed e)
    then show ?thesis using Cons.prems(1) a by (auto simp: err_into_def)
  next
    case add: ok
    obtain r2 c2 where i: "lake_execute F ?ins c1 = (r2, c2)" by fastforce
    from i add(2) show ?thesis
    proof (cases rule: execute_txn)
      case (failed e)
      then show ?thesis using Cons.prems(1) a i add by (auto simp: err_into_def)
    next
      case ok
      then have "register_loop F config m cov parts c2 = (r, c')"
        using Cons.prems(1) a i add by (simp add: err_into_def)
      from Cons.IH[OF this ok(2)] show ?thesis by (simp add: register_part_def)
    qed
  qed
qed auto

lemma watermark_loop_ok:
  assumes "watermark_loop F ws c = (r, c')" and "in_txn db v c"
  shows "\<exists>v'. in_txn db v' c' \<and> (r = Inr () \<longrightarrow> v' = fold put_watermark ws v)"
  using assms
proof (induction ws arbitrary: c v)
  case (Cons w ws)
  obtain r1 c1 where u: "lake_execute F (sql_update_watermark w) c = (r1, c1)" by fastforce
  from u Cons.prems(2) show ?case
  proof (cases rule: execute_txn)
    case (failed e)
    then show ?thesis using Cons.prems(1) u by (auto simp: err_into_def)
  next
    case upd: ok
    show ?thesis
    proof (cases "fst (sql_update_watermark w v) = 0")
      case False
      then have "watermark_loop F ws c1 = (r, c')"
        using Cons.prems(1) u upd by (simp add: err_into_def)
      from Cons.IH[OF this upd(2)] False show ?thesis by (simp add: put_watermark_def split_beta Let_def)
    next
      case True
      obtain r2 c2 where i: "lake_execute F (sql_insert_watermark w) c1 = (r2, c2)" by fastforce
      from i upd(2) show ?thesis
      proof (cases rule: execute_txn)
        case (failed e)
        then show ?thesis using Cons.prems(1) u i upd True by (auto simp: err_into_def)
      next
        case ok
        then have "watermark_loop F ws c2 = (r, c')"
          using Cons.prems(1) u i upd True by (simp add: err_into_def)
        from Cons.IH[OF this ok(2)] True show ?thesis by (simp add: put_watermark_def split_beta Let_def)
      qed
    qed
  qed
qed auto

lemma stage_ok:
  assumes "stage_commit_writes F encode config m ws c = (r, c')" and "in_txn db v c"
  obtains v' where "in_txn db v' c'"
    and "r = Inr AlreadyRegistered \<Longrightarrow> absent_parts m v = [] \<and> wm_parts m \<noteq> []"
    and "r = Inr Wrote \<Longrightarrow> \<not> (absent_parts m v = [] \<and> wm_parts m \<noteq> [])
       \<and> (\<exists>coverage. encode (wm_origin_coverage m) = Inr coverage \<and> v' = committed_db config coverage m ws v)"
proof -
  let ?w = "i64_of_nat (wm_window_id m)"
  obtain r1 c1 where a: "absent_loop F (wm_partition m) ?w (wm_parts m) c = (r1, c1)" by fastforce
  note ab = absent_loop_ok[OF a assms(2)]
  show thesis
  proof (cases r1)
    case (Inl e)
    with assms(1) a have "r = Inl e" "c' = c1" by (simp_all add: stage_commit_writes_def)
    then show thesis using ab by (intro that[of v]) auto
  next
    case (Inr absent)
    with ab have absent: "absent = absent_parts m v" by (simp add: absent_parts_def)
    show thesis
    proof (cases "absent = [] \<and> wm_parts m \<noteq> []")
      case True
      with assms(1) a Inr have "r = Inr AlreadyRegistered" "c' = c1" by (simp_all add: stage_commit_writes_def)
      then show thesis using ab True absent by (intro that[of v]) auto
    next
      case new: False
      show thesis
      proof (cases "encode (wm_origin_coverage m)")
        case (Inl e)
        with assms(1) a \<open>r1 = Inr absent\<close> new
        have "r = Inl (LakeBackend (''encode coverage: '' @ e))" "c' = c1"
          by (auto simp: stage_commit_writes_def split: if_splits)
        then show thesis using ab by (intro that[of v]) auto
      next
        case enc: (Inr coverage)
        obtain r2 c2 where reg: "register_loop F config m coverage absent c1 = (r2, c2)" by fastforce
        from register_loop_ok[OF this] ab obtain v2 where v2: "in_txn db v2 c2"
          "r2 = Inr () \<Longrightarrow> v2 = fold (register_part config m coverage) absent v" by blast
        obtain r3 c3 where wat: "watermark_loop F ws c2 = (r3, c3)" by fastforce
        from watermark_loop_ok[OF this v2(1)] obtain v3 where v3: "in_txn db v3 c3"
          "r3 = Inr () \<Longrightarrow> v3 = fold put_watermark ws v2" by blast
        obtain r4 c4 where fen: "lake_execute F (sql_update_fence (wm_partition m) ?w) c3 = (r4, c4)"
          by fastforce
        have body: "stage_commit_writes F encode config m ws c =
            and_then (r2, c2) (\<lambda>_ c. and_then (watermark_loop F ws c) (\<lambda>_ c.
              and_then (err_into LakeBackend (lake_execute F (sql_update_fence (wm_partition m) ?w) c))
                (\<lambda>_ c. (Inr Wrote, c))))"
          using a Inr new enc reg by (auto simp: stage_commit_writes_def)
        show thesis
        proof (cases "r2 = Inr () \<and> r3 = Inr ()")
          case False
          then show thesis
            using that[of v2] that[of v3] body v2(1) v3(1) wat assms(1)
            by (cases r2; cases r3) (auto simp: and_then_def)
        next
          case True
          from fen v3(1) show thesis
          proof (cases rule: execute_txn)
            case (failed e)
            then show thesis using that[of v3] body True wat fen assms(1) by (simp add: err_into_def)
          next
            case ok
            then show thesis
              using that[of "committed_db config coverage m ws v"] body True wat fen assms(1) new enc v2(2) v3(2) absent
              by (auto simp: err_into_def committed_db_def)
          qed
        qed
      qed
    qed
  qed
qed


section \<open>Outcomes of a commit\<close>

text \<open>What the source says of a failed \<open>COMMIT\<close>: it did not land on a local catalog, nor when the text names a
  conflict.\<close>

definition local_commit :: "lake_faults \<Rightarrow> catalog_kind \<Rightarrow> bool" where
  "local_commit F kind \<longleftrightarrow>
     (\<forall>n e. lf_error F n = Some e \<and> commit_error_outcome kind e = Aborted \<longrightarrow> \<not> lf_landed F n)"

definition ensured :: "window_manifest \<Rightarrow> lake_db \<Rightarrow> lake_db" where
  "ensured m db = snd (sql_ensure_fence (wm_partition m) db)"

definition already_registered :: "window_manifest \<Rightarrow> lake_db \<Rightarrow> bool" where
  "already_registered m v \<longleftrightarrow> absent_parts m v = [] \<and> wm_parts m \<noteq> []"

definition wrote_commit ::
  "coverage_encoder \<Rightarrow> duck_lake_config \<Rightarrow> window_manifest \<Rightarrow> watermark_row list \<Rightarrow> lake_db \<Rightarrow> lake_db \<Rightarrow> bool" where
  "wrote_commit encode config m ws v v' \<longleftrightarrow> \<not> already_registered m v
     \<and> (\<exists>coverage. encode (wm_origin_coverage m) = Inr coverage \<and> v' = committed_db config coverage m ws v)"

lemma begin_cases:
  assumes "lake_begin F c = (r, c')" and "lc_txn c = None"
  obtains (failed) e where "r = Inl e" and "lc_db c' = lc_db c" and "lc_txn c' = None"
  | (ok) "r = Inr ()" and "in_txn (lc_db c) (lc_db c) c'"
  using assms by (cases "lf_error F (lc_calls c)") (auto simp: lake_begin_def in_txn_def Let_def)

lemma commit_cases:
  assumes "lake_commit F c = (r, c')" and "in_txn db v c"
  obtains (ok) "r = Inr ()" and "lc_db c' = v" and "lc_txn c' = None"
  | (failed) e where "r = Inl e" and "lf_error F (lc_calls c) = Some e" and "lc_txn c' = None"
      and "lc_db c' = (if lf_landed F (lc_calls c) then v else db)"
  using assms
  by (cases "lf_error F (lc_calls c)") (auto simp: lake_commit_def in_txn_def lc_view_def Let_def split: if_splits)

lemma ensure_cases:
  assumes "lake_execute F (sql_ensure_fence (wm_partition m)) c = (r, c')" and "lc_txn c = None"
  obtains (failed) e where "r = Inl e" and "lc_db c' = lc_db c" and "lc_txn c' = None"
  | (ok) k where "r = Inr k" and "lc_db c' = ensured m (lc_db c)" and "lc_txn c' = None"
  using assms
  by (cases "lf_error F (lc_calls c)")
    (auto simp: lake_execute_def lc_view_def ensured_def Let_def split: prod.splits)

lemma stage_error_not_committed: "stage_error_outcome e = Inr oc \<Longrightarrow> oc = Aborted"
  by (auto simp: stage_error_outcome_def Let_def split: if_splits)

lemma commit_error_not_committed:
  "commit_error_outcome kind e \<noteq> Committed"
  "commit_error_outcome kind e = Indeterminate \<Longrightarrow> kind = Postgres"
  by (auto simp: commit_error_outcome_def split: if_splits catalog_kind.splits)

text \<open>How an attempt that answers \<open>r\<close> leaves the catalog: \<open>db\<close> before it, \<open>v\<close> with the fence row ensured.\<close>

fun settled ::
  "lake_faults \<Rightarrow> coverage_encoder \<Rightarrow> duck_lake_config \<Rightarrow> window_manifest \<Rightarrow> watermark_row list \<Rightarrow> lake_db
     \<Rightarrow> (lake_error, commit_outcome) result \<Rightarrow> lake_db \<Rightarrow> bool" where
  "settled F encode config m ws v (Inl e) db' \<longleftrightarrow> db' = v"
| "settled F encode config m ws v (Inr Aborted) db' \<longleftrightarrow> db' = v
     \<or> \<not> local_commit F (catalog_kind_of (lk_catalog_uri config)) \<and> wrote_commit encode config m ws v db'"
| "settled F encode config m ws v (Inr Committed) db' \<longleftrightarrow>
     already_registered m v \<and> db' = v \<or> wrote_commit encode config m ws v db'"
| "settled F encode config m ws v (Inr Indeterminate) db' \<longleftrightarrow>
     catalog_kind_of (lk_catalog_uri config) = Postgres \<and> (db' = v \<or> wrote_commit encode config m ws v db')"

lemma transaction_settled:
  assumes run: "commit_transaction F encode config m ws c = (r, c')" and txn: "in_txn v v c"
  shows "lc_txn c' = None \<and> settled F encode config m ws v r (lc_db c')"
proof -
  let ?kind = "catalog_kind_of (lk_catalog_uri config)"
  obtain r1 c1 where s: "stage_commit_writes F encode config m ws c = (r1, c1)" by fastforce
  from stage_ok[OF s txn] obtain v' where t: "in_txn v v' c1"
    and dup: "r1 = Inr AlreadyRegistered \<Longrightarrow> already_registered m v"
    and wrote: "r1 = Inr Wrote \<Longrightarrow> wrote_commit encode config m ws v v'"
    unfolding already_registered_def wrote_commit_def by metis
  consider (err) x where "r1 = Inl x" | (dup) "r1 = Inr AlreadyRegistered" | (wrote) "r1 = Inr Wrote"
    by (metis staged.exhaust sumE)
  then show ?thesis
  proof cases
    case err
    with run s t have "r = stage_error_outcome x" "lc_db c' = v" "lc_txn c' = None"
      by (auto simp: commit_transaction_def lake_rollback_def in_txn_def)
    then show ?thesis
      using stage_error_not_committed[of x] by (cases "stage_error_outcome x") auto
  next
    case d: dup
    with run s t dup show ?thesis
      by (auto simp: commit_transaction_def lake_rollback_def in_txn_def)
  next
    case wr: wrote
    note w = wrote[OF wr]
    obtain r2 c2 where co: "lake_commit F c1 = (r2, c2)" by fastforce
    from co t show ?thesis
    proof (cases rule: commit_cases)
      case ok
      with run s wr co w show ?thesis by (auto simp: commit_transaction_def)
    next
      case (failed x)
      then have "r = Inr (commit_error_outcome ?kind x)" and "lc_db c' = lc_db c2" "lc_txn c' = None"
        using run s wr co by (auto simp: commit_transaction_def lake_rollback_def)
      then show ?thesis
        using failed w commit_error_not_committed[of ?kind x]
        by (cases "commit_error_outcome ?kind x") (auto simp: local_commit_def)
    qed
  qed
qed

lemma commit_settles:
  assumes run: "commit_files_blocking F encode config m ws c = (r, c')" and idle: "lc_txn c = None"
  shows "lc_txn c' = None \<and>
    (r = Inr Aborted \<and> lc_db c' = lc_db c
     \<or> settled F encode config m ws (ensured m (lc_db c)) r (lc_db c'))"
proof -
  obtain r1 c1 where e: "lake_execute F (sql_ensure_fence (wm_partition m)) c = (r1, c1)" by fastforce
  from e idle show ?thesis
  proof (cases rule: ensure_cases)
    case (failed x)
    then show ?thesis using run e by (auto simp: commit_files_blocking_def)
  next
    case ens: (ok k)
    obtain r2 c2 where b: "lake_begin F c1 = (r2, c2)" by fastforce
    from b ens(3) show ?thesis
    proof (cases rule: begin_cases)
      case (failed x)
      then show ?thesis using run e ens b by (auto simp: commit_files_blocking_def)
    next
      case beg: ok
      with run e ens b have "commit_transaction F encode config m ws c2 = (r, c')"
        by (simp add: commit_files_blocking_def)
      from transaction_settled[OF this] beg(2) ens(2) show ?thesis by simp
    qed
  qed
qed


section \<open>What a commit leaves\<close>

lemma put_watermark_frame [simp]:
  "ld_manifests (put_watermark w v) = ld_manifests v" "ld_files (put_watermark w v) = ld_files v"
  "ld_fence (put_watermark w v) = ld_fence v" "ld_tables (put_watermark w v) = ld_tables v"
  by (simp_all add: put_watermark_def sql_update_watermark_def sql_insert_watermark_def Let_def)

lemma put_watermarks_frame [simp]:
  "ld_manifests (fold put_watermark ws v) = ld_manifests v" "ld_files (fold put_watermark ws v) = ld_files v"
  "ld_fence (fold put_watermark ws v) = ld_fence v" "ld_tables (fold put_watermark ws v) = ld_tables v"
  by (induction ws arbitrary: v) simp_all

lemma register_parts:
  "ld_manifests (fold (register_part config m cov) ps v) = ld_manifests v @ map (manifest_row_of m cov) ps"
  "ld_files (fold (register_part config m cov) ps v) =
     ld_files v @ map (\<lambda>p. (dataset_table (dataset_str (wm_dataset m)), part_path config p)) ps"
  "ld_fence (fold (register_part config m cov) ps v) = ld_fence v"
  "ld_tables (fold (register_part config m cov) ps v) = ld_tables v"
  "ld_watermarks (fold (register_part config m cov) ps v) = ld_watermarks v"
  by (induction ps arbitrary: v) (simp_all add: register_part_def sql_insert_manifest_def sql_add_data_file_def)

lemma committed_db_sel [simp]:
  "ld_manifests (committed_db config cov m ws v) = ld_manifests v @ map (manifest_row_of m cov) (absent_parts m v)"
  "ld_files (committed_db config cov m ws v) = ld_files v @
     map (\<lambda>p. (dataset_table (dataset_str (wm_dataset m)), part_path config p)) (absent_parts m v)"
  "fst ` set (ld_fence (committed_db config cov m ws v)) = fst ` set (ld_fence v)"
  "ld_tables (committed_db config cov m ws v) = ld_tables v"
  by (force simp: committed_db_def sql_update_fence_def register_parts)+

lemma ensured_sel [simp]:
  "ld_manifests (ensured m db) = ld_manifests db" "ld_files (ensured m db) = ld_files db"
  "ld_watermarks (ensured m db) = ld_watermarks db" "ld_tables (ensured m db) = ld_tables db"
  "wm_partition m \<in> fst ` set (ld_fence (ensured m db))"
  by (simp_all add: ensured_def sql_ensure_fence_def)

lemma ensured_idle: "wm_partition m \<in> fst ` set (ld_fence db) \<Longrightarrow> ensured m db = db"
  by (simp add: ensured_def sql_ensure_fence_def)

lemma absent_parts_cong: "ld_manifests v = ld_manifests v' \<Longrightarrow> absent_parts m v = absent_parts m v'"
  by (simp add: absent_parts_def sql_count_part_def)

lemma absent_after_commit: "absent_parts m (committed_db config cov m ws v) = []"
  by (auto simp: absent_parts_def sql_count_part_def filter_empty_conv same_part_def manifest_row_of_def)

lemma wrote_absent: "wrote_commit encode config m ws v v' \<Longrightarrow> absent_parts m v' = []"
  by (auto simp: wrote_commit_def absent_after_commit)

text \<open>Two catalogs that differ in the fence rows only.\<close>

definition same_data :: "lake_db \<Rightarrow> lake_db \<Rightarrow> bool" where
  "same_data db db' \<longleftrightarrow> db\<lparr>ld_fence := []\<rparr> = db'\<lparr>ld_fence := []\<rparr>"

lemma same_data_ensured [simp]: "same_data db (ensured m db)" "same_data db db"
  by (auto simp: same_data_def ensured_def sql_ensure_fence_def)

lemma registered_iff:
  "absent_parts m db = [] \<longleftrightarrow>
     (\<forall>p\<in>set (wm_parts m). 0 < sql_count_part (wm_partition m) (i64_of_nat (wm_window_id m)) p db)"
  by (auto simp: absent_parts_def filter_empty_conv)



section \<open>Calls that all succeed\<close>

definition quiet :: "lake_faults \<Rightarrow> bool" where
  "quiet F \<longleftrightarrow> lf_error F = (\<lambda>_. None)"

lemma quiet_query:
  "quiet F \<Longrightarrow> lake_query F q c = (Inr (q (lc_view c)), c\<lparr>lc_calls := Suc (lc_calls c)\<rparr>)"
  by (simp add: lake_query_def quiet_def Let_def lc_view_def)

lemma lc_view_calls [simp]: "lc_view (c\<lparr>lc_calls := n\<rparr>) = lc_view c"
  by (simp add: lc_view_def)

lemma quiet_absent_loop:
  assumes "quiet F"
  shows "\<exists>n. absent_loop F pid w parts c =
    (Inr (filter (\<lambda>p. sql_count_part pid w p (lc_view c) = 0) parts), c\<lparr>lc_calls := n\<rparr>)"
  using assms
proof (induction parts arbitrary: c)
  case Nil
  have "c = c\<lparr>lc_calls := lc_calls c\<rparr>" by simp
  then show ?case by (metis absent_loop.simps(1) filter.simps(1))
next
  case (Cons p parts)
  from Cons.IH[OF Cons.prems, of "c\<lparr>lc_calls := Suc (lc_calls c)\<rparr>"]
  show ?case by (auto simp: quiet_query[OF Cons.prems])
qed

lemma quiet_registered:
  assumes "quiet F" and "already_registered m (ensured m (lc_db c))" and "lc_txn c = None"
  shows "\<exists>c'. commit_files_blocking F encode config m ws c = (Inr Committed, c')
    \<and> lc_db c' = ensured m (lc_db c) \<and> lc_txn c' = None"
proof -
  let ?c1 = "\<lparr>lc_db = ensured m (lc_db c), lc_txn = Some (ensured m (lc_db c)), lc_calls = Suc (Suc (lc_calls c))\<rparr>"
  from quiet_absent_loop[OF assms(1), of "wm_partition m" "i64_of_nat (wm_window_id m)" "wm_parts m" ?c1] assms(2)
  obtain n where "absent_loop F (wm_partition m) (i64_of_nat (wm_window_id m)) (wm_parts m) ?c1
      = (Inr [], ?c1\<lparr>lc_calls := n\<rparr>)" and "wm_parts m \<noteq> []"
    by (auto simp: already_registered_def absent_parts_def lc_view_def)
  then have "commit_transaction F encode config m ws ?c1 = (Inr Committed, lake_rollback (?c1\<lparr>lc_calls := n\<rparr>))"
    by (simp add: commit_transaction_def stage_commit_writes_def)
  moreover have "commit_files_blocking F encode config m ws c = commit_transaction F encode config m ws ?c1"
    using assms(1,3)
    by (cases c) (simp add: commit_files_blocking_def lake_execute_def lake_begin_def quiet_def ensured_def
        lc_view_def Let_def split: prod.splits)
  ultimately show ?thesis by (simp add: lake_rollback_def)
qed

text \<open>
  A commit can be retried. When the first attempt answered \<open>Committed\<close>, or its writes landed though it
  answered otherwise, a retry whose calls succeed answers \<open>Committed\<close> and leaves the catalog exactly as it
  is, whatever watermark rows the retry carries: no part is registered a second time.
\<close>
theorem commit_retry_changes_nothing:
  assumes "commit_files_blocking F encode config m ws c = (r, c')" and "lc_txn c = None" and "wm_parts m \<noteq> []"
    and "r = Inr Committed \<or> wrote_commit encode config m ws (ensured m (lc_db c)) (lc_db c')" and "quiet F'"
  shows "\<exists>c''. commit_files_blocking F' encode config m ws' c' = (Inr Committed, c'')
    \<and> lc_db c'' = lc_db c' \<and> lc_txn c'' = None"
proof -
  have idle: "lc_txn c' = None" and
    "already_registered m (ensured m (lc_db c)) \<and> lc_db c' = ensured m (lc_db c)
     \<or> wrote_commit encode config m ws (ensured m (lc_db c)) (lc_db c')"
    using commit_settles[OF assms(1,2)] assms(4) by auto
  then have "absent_parts m (lc_db c') = []" and fence: "wm_partition m \<in> fst ` set (ld_fence (lc_db c'))"
    by (auto simp: already_registered_def wrote_absent) (auto simp: wrote_commit_def)
  then have "already_registered m (ensured m (lc_db c'))"
    using assms(3) by (simp add: already_registered_def ensured_idle)
  from quiet_registered[OF assms(5) this idle] ensured_idle[OF fence] show ?thesis by simp
qed

section \<open>Watermark rows\<close>

definition watermark_values :: "partition_id \<Rightarrow> lake_db \<Rightarrow> int list" where
  "watermark_values pid db = map snd (filter (\<lambda>(p, v). p = pid) (ld_watermarks db))"

lemma put_watermark_values:
  "watermark_values pid (put_watermark w v) =
     (if pid \<noteq> wr_partition w then watermark_values pid v
      else if watermark_values pid v = [] then [wr_complete_through_ms w]
      else map (\<lambda>_. wr_complete_through_ms w) (watermark_values pid v))"
proof -
  let ?P = "wr_partition w" and ?x = "wr_complete_through_ms w"
  have other: "pid \<noteq> ?P \<Longrightarrow> map snd (filter (\<lambda>(p, v). p = pid)
      (map (\<lambda>(p, v). (p, if p = ?P then ?x else v)) l)) = map snd (filter (\<lambda>(p, v). p = pid) l)"
    and own: "map snd (filter (\<lambda>(p, v). p = ?P) (map (\<lambda>(p, v). (p, if p = ?P then ?x else v)) l))
      = map (\<lambda>_. ?x) (map snd (filter (\<lambda>(p, v). p = ?P) l))" for l :: "(partition_id \<times> int) list"
    by (induction l) auto
  show ?thesis
    unfolding watermark_values_def put_watermark_def sql_update_watermark_def sql_insert_watermark_def Let_def
    by (simp only: prod.case snd_conv if_distrib[of ld_watermarks] lake_db.simps if_distrib[of "filter _"])
       (auto simp: other own[simplified])
qed


lemma max_watermark_values: "sql_max_watermark pid db = max_by_key id (watermark_values pid db)"
  by (simp add: sql_max_watermark_def watermark_values_def)

lemma max_by_key_const:
  assumes "xs \<noteq> []" and "set xs \<subseteq> {x}"
  shows "max_by_key id xs = Some x"
  using assms max_by_key_Some[of id xs] by (cases "max_by_key id xs") auto

lemma put_watermark_max:
  "sql_max_watermark pid (put_watermark w v) =
     (if pid = wr_partition w then Some (wr_complete_through_ms w) else sql_max_watermark pid v)"
  by (auto simp: max_watermark_values put_watermark_values intro!: max_by_key_const)

lemma put_watermarks_max:
  assumes "distinct (map wr_partition ws)"
  shows "sql_max_watermark pid (fold put_watermark ws v) =
    (case map_of (map (\<lambda>w. (wr_partition w, wr_complete_through_ms w)) ws) pid of
       Some x \<Rightarrow> Some x | None \<Rightarrow> sql_max_watermark pid v)"
  using assms
proof (induction ws arbitrary: v)
  case (Cons w ws)
  then have "map_of (map (\<lambda>w. (wr_partition w, wr_complete_through_ms w)) ws) (wr_partition w) = None"
    by (auto simp: map_of_eq_None_iff)
  with Cons show ?case by (auto simp: put_watermark_max split: option.splits)
qed simp

lemma put_watermarks_cong:
  assumes "ld_watermarks x = ld_watermarks y"
  shows "ld_watermarks (fold put_watermark ws x) = ld_watermarks (fold put_watermark ws y)"
  using assms
proof (induction ws arbitrary: x y)
  case (Cons w ws)
  then have "ld_watermarks (put_watermark w x) = ld_watermarks (put_watermark w y)"
    by (simp add: put_watermark_def sql_update_watermark_def sql_insert_watermark_def Let_def)
  from Cons.IH[OF this] show ?case by simp
qed simp

lemma committed_max_watermark:
  "sql_max_watermark pid (committed_db config cov m ws v) = sql_max_watermark pid (fold put_watermark ws v)"
proof -
  have "ld_watermarks (committed_db config cov m ws v) = ld_watermarks (fold put_watermark ws v)"
    unfolding committed_db_def sql_update_fence_def
    by (simp del: fold_simps) (rule put_watermarks_cong, rule register_parts)
  then show ?thesis by (simp only: sql_max_watermark_def)
qed

lemma quiet_read_watermarks:
  assumes "quiet F"
  shows "fst (read_watermarks_blocking F pids c) = Inr (List.map_filter (\<lambda>pid.
    map_option (\<lambda>ms. \<lparr>wr_partition = pid, wr_complete_through_ms = ms\<rparr>) (sql_max_watermark pid (lc_view c))) pids)"
  using assms
proof (induction pids arbitrary: c)
  case (Cons pid pids)
  obtain rows c' where r: "read_watermarks_blocking F pids
      (c\<lparr>lc_calls := Suc (Suc (lc_calls c))\<rparr>) = (rows, c')" by fastforce
  from Cons.IH[OF Cons.prems, of "c\<lparr>lc_calls := Suc (Suc (lc_calls c))\<rparr>"] r show ?case
    by (auto simp: quiet_query[OF Cons.prems] map_filter_simps split: option.splits)
qed (simp add: map_filter_simps)

text \<open>
  A watermark is read back as it was committed. After an attempt that wrote, reading a partition's
  watermark gives the value the commit carried for it, and for every other partition the value from before.
\<close>
theorem watermark_read_back:
  assumes "commit_files_blocking F encode config m ws c = (Inr Committed, c')" and "lc_txn c = None"
    and "\<not> already_registered m (lc_db c)" and "distinct (map wr_partition ws)" and "quiet F'"
  shows "fst (read_watermarks_blocking F' pids c') = Inr (List.map_filter (\<lambda>pid.
    map_option (\<lambda>ms. \<lparr>wr_partition = pid, wr_complete_through_ms = ms\<rparr>)
      (case map_of (map (\<lambda>w. (wr_partition w, wr_complete_through_ms w)) ws) pid of
         Some ms \<Rightarrow> Some ms | None \<Rightarrow> sql_max_watermark pid (lc_db c))) pids)"
proof -
  have "\<not> already_registered m (ensured m (lc_db c))"
    using assms(3) by (simp add: already_registered_def absent_parts_cong[of "ensured m (lc_db c)" "lc_db c"])
  with commit_settles[OF assms(1,2)] obtain cov where
    "lc_txn c' = None" and db: "lc_db c' = committed_db config cov m ws (ensured m (lc_db c))"
    by (auto simp: wrote_commit_def)
  then have "lc_view c' = committed_db config cov m ws (ensured m (lc_db c))" by (simp add: lc_view_def)
  moreover have "sql_max_watermark pid (ensured m (lc_db c)) = sql_max_watermark pid (lc_db c)" for pid
    by (simp add: sql_max_watermark_def)
  ultimately show ?thesis
    by (simp add: quiet_read_watermarks[OF assms(5)] committed_max_watermark put_watermarks_max[OF assms(4)]
        cong: option.case_cong)
qed


section \<open>A concrete catalog\<close>

definition lake_demo_config :: duck_lake_config where
  "lake_demo_config = \<lparr>lk_catalog_uri = ''postgres:dbname=lake'', lk_data_path = ''/data'', lk_multi_process = False, lk_s3 = None\<rparr>"

definition lake_demo_manifest :: window_manifest where
  "lake_demo_manifest = \<lparr>wm_dataset = DatasetId ''logs'', wm_partition = PartitionId ''p'', wm_window_id = 0,
     wm_origin_coverage = [\<lparr>osr_origin = NodeId ''a'', osr_first_seq = 1, osr_last_seq = 2\<rparr>], wm_rows = 2,
     wm_event_time_min_ms = 50, wm_event_time_max_ms = 100, wm_dedup_removed = 0, wm_parts = [PartName ''w0'']\<rparr>"

definition lake_demo_watermarks :: "watermark_row list" where
  "lake_demo_watermarks = [\<lparr>wr_partition = PartitionId ''p'', wr_complete_through_ms = 100\<rparr>]"

definition lake_demo_conn :: lake_conn where
  "lake_demo_conn = \<lparr>lc_db = \<lparr>ld_watermarks = [], ld_manifests = [], ld_fence = [], ld_files = [],
     ld_tables = [(''ds_logs'', [])]\<rparr>, lc_txn = None, lc_calls = 0\<rparr>"

text \<open>Every call succeeds; and: the eighth call, the \<open>COMMIT\<close>, loses its answer after it landed.\<close>

definition lake_quiet :: lake_faults where
  "lake_quiet = \<lparr>lf_error = \<lambda>_. None, lf_landed = \<lambda>_. False\<rparr>"

definition lake_lost_answer :: lake_faults where
  "lake_lost_answer = \<lparr>lf_error = \<lambda>n. if n = 8 then Some ''connection reset by peer'' else None, lf_landed = \<lambda>n. n = 8\<rparr>"

definition lake_demo_encode :: coverage_encoder where
  "lake_demo_encode ranges = (case ranges of
     [] \<Rightarrow> Inr ''[]''
   | [r] \<Rightarrow> if osr_origin r = NodeId ''a'' \<and> osr_first_seq r = 1 \<and> osr_last_seq r = 2 then Inr ''[a:1-2]'' else Inl ''unknown''
   | _ \<Rightarrow> Inl ''unknown'')"

lemmas lake_demo_defs = lake_demo_config_def lake_demo_manifest_def lake_demo_watermarks_def lake_demo_conn_def
  lake_quiet_def lake_lost_answer_def lake_demo_encode_def

lemma lake_demo_lost:
  "commit_files_blocking lake_lost_answer lake_demo_encode lake_demo_config lake_demo_manifest lake_demo_watermarks
     lake_demo_conn = (Inr Indeterminate, snd (commit_files_blocking lake_lost_answer lake_demo_encode
       lake_demo_config lake_demo_manifest lake_demo_watermarks lake_demo_conn))"
  by code_simp


lemma lake_demo_local: "local_commit lake_lost_answer (catalog_kind_of (lk_catalog_uri lake_demo_config))"
proof -
  have "commit_error_outcome (catalog_kind_of (lk_catalog_uri lake_demo_config)) ''connection reset by peer'' = Indeterminate"
    by code_simp
  then show ?thesis by (auto simp: local_commit_def lake_lost_answer_def)
qed

lemma lake_demo_quiet: "quiet lake_quiet"
  by (simp add: quiet_def lake_quiet_def)

lemma lake_demo_idle: "lc_txn lake_demo_conn = None"
  by (simp add: lake_demo_conn_def)


definition lake_demo_after :: lake_conn where
  "lake_demo_after = snd (commit_files_blocking lake_quiet lake_demo_encode lake_demo_config lake_demo_manifest
     lake_demo_watermarks lake_demo_conn)"

lemma lake_demo_committed:
  "commit_files_blocking lake_quiet lake_demo_encode lake_demo_config lake_demo_manifest lake_demo_watermarks
     lake_demo_conn = (Inr Committed, lake_demo_after)"
proof -
  have "fst (commit_files_blocking lake_quiet lake_demo_encode lake_demo_config lake_demo_manifest
     lake_demo_watermarks lake_demo_conn) = Inr Committed" by code_simp
  then show ?thesis by (simp add: lake_demo_after_def prod_eq_iff)
qed

theorem commit_retry_changes_nothing_witness:
  "lc_db (snd (commit_files_blocking lake_quiet lake_demo_encode lake_demo_config lake_demo_manifest [] lake_demo_after))
     = lc_db lake_demo_after
   \<and> length (ld_manifests (lc_db lake_demo_after)) = 1"
proof -
  have "wm_parts lake_demo_manifest \<noteq> []" by (simp add: lake_demo_manifest_def)
  from commit_retry_changes_nothing[OF lake_demo_committed lake_demo_idle this _ lake_demo_quiet, of "[]"]
  have "lc_db (snd (commit_files_blocking lake_quiet lake_demo_encode lake_demo_config lake_demo_manifest [] lake_demo_after))
     = lc_db lake_demo_after" by auto
  moreover have "length (ld_manifests (lc_db lake_demo_after)) = 1" by code_simp
  ultimately show ?thesis ..
qed

theorem watermark_read_back_witness:
  "fst (read_watermarks_blocking lake_quiet [PartitionId ''p'', PartitionId ''q''] lake_demo_after)
     = Inr lake_demo_watermarks"
proof -
  have new: "\<not> already_registered lake_demo_manifest (lc_db lake_demo_conn)"
    and dist: "distinct (map wr_partition lake_demo_watermarks)"
    by (simp_all add: already_registered_def absent_parts_def sql_count_part_def lake_demo_defs)
  from watermark_read_back[OF lake_demo_committed lake_demo_idle new dist lake_demo_quiet,
      of "[PartitionId ''p'', PartitionId ''q'']"] show ?thesis
    by (simp del: read_watermarks_blocking.simps add: map_filter_simps lake_demo_watermarks_def sql_max_watermark_def lake_demo_conn_def)
qed

end
