(* ===== verification/Lake_Life.thy ===== *)
theory Lake_Life
  imports Lake_Committer Coordinator
begin

text \<open>
  The life of a catalog: any sequence of commits of the drain's manifests, expiries and schema changes on
  it, with any failing calls, refines a log of windows. Shown: every part is registered once, the lake's files are
  those of the parts not expired, and reading the manifests back gives the log.
\<close>

section \<open>Runs\<close>

definition lake_session :: "lake_db \<Rightarrow> lake_conn" where
  "lake_session db = \<lparr>lc_db = db, lc_txn = None, lc_calls = 0\<rparr>"

text \<open>The tables \<open>open\<close> creates in a new catalog.\<close>

definition lake_bootstrap :: lake_db where
  "lake_bootstrap = \<lparr>ld_watermarks = [], ld_manifests = [], ld_fence = [], ld_files = [], ld_tables = []\<rparr>"

text \<open>
  A run, with the manifests whose commit wrote rows. \<open>D\<close> is the dataset of a partition. Every operation may
  meet any schedule of failing calls.
\<close>

inductive lake_run ::
  "coverage_encoder \<Rightarrow> duck_lake_config \<Rightarrow> (partition_id \<Rightarrow> dataset_id) \<Rightarrow> window_manifest list \<Rightarrow> lake_db \<Rightarrow> bool"
  for encode config D where
  fresh: "lake_run encode config D [] lake_bootstrap"
| commit: "lake_run encode config D log db \<Longrightarrow>
    m = manifest_for (D pid) pid w sealed \<Longrightarrow>
    commit_files_blocking F encode config m ws (lake_session db) = (r, c) \<Longrightarrow>
    lake_run encode config D
      (if length (ld_manifests db) < length (ld_manifests (lc_db c)) then log @ [m] else log) (lc_db c)"
| expire: "lake_run encode config D log db \<Longrightarrow>
    expire_blocking F config parts (lake_session db) = (r, c) \<Longrightarrow> lake_run encode config D log (lc_db c)"
| evolve: "lake_run encode config D log db \<Longrightarrow>
    evolve_schema_blocking F change (lake_session db) = (r, c) \<Longrightarrow> lake_run encode config D log (lc_db c)"

section \<open>The log a catalog refines\<close>

definition drain_manifest :: "(partition_id \<Rightarrow> dataset_id) \<Rightarrow> window_manifest \<Rightarrow> bool" where
  "drain_manifest D m \<longleftrightarrow> wm_dataset m = D (wm_partition m)
     \<and> wm_parts m = [part_name (D (wm_partition m)) (wm_partition m) (wm_window_id m) WindowPart]"

definition window_key :: "window_manifest \<Rightarrow> partition_id \<times> window_id" where
  "window_key m = (wm_partition m, wm_window_id m)"

definition coverage_text :: "coverage_encoder \<Rightarrow> window_manifest \<Rightarrow> string" where
  "coverage_text encode m = (case encode (wm_origin_coverage m) of Inr t \<Rightarrow> t | Inl _ \<Rightarrow> '''')"

definition window_row :: "coverage_encoder \<Rightarrow> window_manifest \<times> bool \<Rightarrow> manifest_row" where
  "window_row encode e =
     (manifest_row_of (fst e) (coverage_text encode (fst e)) (hd (wm_parts (fst e))))\<lparr>mr_expired := snd e\<rparr>"

definition row_file :: "duck_lake_config \<Rightarrow> manifest_row \<Rightarrow> string \<times> string" where
  "row_file config r = (dataset_table (dataset_str (mr_dataset r)), part_path config (mr_part_name r))"

definition catalog_log ::
  "coverage_encoder \<Rightarrow> duck_lake_config \<Rightarrow> (partition_id \<Rightarrow> dataset_id) \<Rightarrow> (window_manifest \<times> bool) list \<Rightarrow> lake_db \<Rightarrow> bool" where
  "catalog_log encode config D es db \<longleftrightarrow>
     (\<forall>e\<in>set es. drain_manifest D (fst e) \<and> (\<exists>t. encode (wm_origin_coverage (fst e)) = Inr t))
     \<and> distinct (map (window_key \<circ> fst) es)
     \<and> ld_manifests db = map (window_row encode) es
     \<and> ld_files db = map (row_file config) (filter (Not \<circ> mr_expired) (ld_manifests db))"

lemma window_row_sel [simp]:
  "mr_partition (window_row encode e) = wm_partition (fst e)"
  "mr_window_id (window_row encode e) = i64_of_nat (wm_window_id (fst e))"
  "mr_part_name (window_row encode e) = hd (wm_parts (fst e))"
  "mr_dataset (window_row encode e) = wm_dataset (fst e)"
  "mr_expired (window_row encode e) = snd e"
  by (simp_all add: window_row_def manifest_row_of_def)

lemma drain_manifest_for [simp]: "drain_manifest D (manifest_for (D pid) pid w sealed)"
  by (simp add: drain_manifest_def manifest_for_def)

lemma drain_part: "drain_manifest D m \<Longrightarrow> drain_manifest D m' \<Longrightarrow>
    hd (wm_parts m) = hd (wm_parts m') \<longleftrightarrow> window_key m = window_key m'"
  by (auto simp: drain_manifest_def window_key_def part_name_inject)

lemma same_part_window:
  assumes "drain_manifest D m" and "drain_manifest D (fst e)"
  shows "same_part (wm_partition m) (i64_of_nat (wm_window_id m)) (hd (wm_parts m)) (window_row encode e)
    \<longleftrightarrow> window_key (fst e) = window_key m"
  using drain_part[OF assms(2,1)] by (auto simp: same_part_def window_key_def)

definition logged :: "window_manifest \<Rightarrow> (window_manifest \<times> bool) list \<Rightarrow> bool" where
  "logged m es \<longleftrightarrow> (\<exists>e\<in>set es. window_key (fst e) = window_key m)"

lemma absent_window:
  assumes log: "catalog_log encode config D es db" and m: "drain_manifest D m"
  shows "absent_parts m db = (if logged m es then [] else wm_parts m)"
proof -
  let ?p = "same_part (wm_partition m) (i64_of_nat (wm_window_id m)) (hd (wm_parts m))"
  have "?p (window_row encode e) \<longleftrightarrow> window_key (fst e) = window_key m" if "e \<in> set es" for e
    using same_part_window[OF m] log that by (simp add: catalog_log_def)
  then have "sql_count_part (wm_partition m) (i64_of_nat (wm_window_id m)) (hd (wm_parts m)) db = 0
      \<longleftrightarrow> \<not> logged m es"
    using log by (auto simp: sql_count_part_def catalog_log_def filter_empty_conv logged_def)
  moreover obtain q where "wm_parts m = [q]" using m by (simp add: drain_manifest_def)
  ultimately show ?thesis by (simp add: absent_parts_def)
qed

section \<open>Commits\<close>

lemma catalog_log_cong:
  assumes "ld_manifests db = ld_manifests db'" and "ld_files db = ld_files db'"
  shows "catalog_log encode config D es db \<longleftrightarrow> catalog_log encode config D es db'"
  using assms by (simp add: catalog_log_def)

lemma log_committed:
  assumes log: "catalog_log encode config D es v" and m: "drain_manifest D m"
    and new: "\<not> logged m es" and cov: "encode (wm_origin_coverage m) = Inr t"
  shows "catalog_log encode config D (es @ [(m, False)]) (committed_db config t m ws v)"
proof -
  have parts: "absent_parts m v = [hd (wm_parts m)]"
    using absent_window[OF log m] new m by (simp add: drain_manifest_def)
  have "window_row encode (m, False) = manifest_row_of m t (hd (wm_parts m))"
    by (simp add: window_row_def coverage_text_def cov manifest_row_of_def)
  moreover have "row_file config (manifest_row_of m t p) =
      (dataset_table (dataset_str (wm_dataset m)), part_path config p)"
    "\<not> mr_expired (manifest_row_of m t p)" for p
    by (simp_all add: row_file_def manifest_row_of_def)
  moreover have "distinct (map (window_key \<circ> fst) (es @ [(m, False)]))"
    using log new by (auto simp: catalog_log_def logged_def)
  ultimately show ?thesis
    using log m cov parts by (simp add: catalog_log_def)
qed

text \<open>The refinement of a commit attempt: it adds the window to the log, or leaves the log as it is.\<close>

lemma commit_refines:
  assumes log: "catalog_log encode config D es db" and m: "drain_manifest D m"
    and run: "commit_files_blocking F encode config m ws (lake_session db) = (r, c)"
  obtains (same) "catalog_log encode config D es (lc_db c)" and "ld_manifests (lc_db c) = ld_manifests db"
  | (new) "catalog_log encode config D (es @ [(m, False)]) (lc_db c)"
    and "\<not> logged m es"
proof -
  from commit_settles[OF run] consider "lc_db c = db" | "lc_db c = ensured m db"
    | (wrote) "wrote_commit encode config m ws (ensured m db) (lc_db c)"
    by (cases "(F, encode, config, m, ws, ensured m db, r, lc_db c)" rule: settled.cases)
      (auto simp: lake_session_def)
  then show thesis
  proof cases
    case wrote
    then obtain t where t: "encode (wm_origin_coverage m) = Inr t"
      "lc_db c = committed_db config t m ws (ensured m db)" and "\<not> already_registered m (ensured m db)"
      by (auto simp: wrote_commit_def)
    moreover have ens: "catalog_log encode config D es (ensured m db)"
      using log catalog_log_cong[of db "ensured m db"] by simp
    ultimately have "\<not> logged m es"
      using absent_window[OF ens m] m by (simp add: already_registered_def drain_manifest_def split: if_splits)
    then show thesis using new log_committed[OF ens m _ t(1)] t(2) by simp
  qed (use same log catalog_log_cong[of "lc_db c" db] in simp)+
qed

section \<open>Expiry\<close>

definition mark_log :: "part_name \<Rightarrow> (window_manifest \<times> bool) list \<Rightarrow> (window_manifest \<times> bool) list" where
  "mark_log p es = map (\<lambda>(m, x). (m, x \<or> hd (wm_parts m) = p)) es"

lemma mark_log_keys [simp]: "map fst (mark_log p es) = map fst es"
  by (induction es) (auto simp: mark_log_def)

lemma part_path_inject [simp]: "part_path config p = part_path config q \<longleftrightarrow> p = q"
  by (auto simp: part_path_def part_name.expand)

lemma log_expired:
  assumes log: "catalog_log encode config D es v" and found: "sql_find_part p v = Some (ds, x)"
  shows "catalog_log encode config D (mark_log p es)
    (snd (sql_mark_expired p (snd (sql_delete_file_rows (dataset_table (dataset_str ds)) (part_path config p) v))))"
proof -
  have rows: "ld_manifests v = map (window_row encode) es"
    and files: "ld_files v = map (row_file config) (filter (Not \<circ> mr_expired) (ld_manifests v))"
    and ok: "\<And>e. e \<in> set es \<Longrightarrow> drain_manifest D (fst e)"
    using log by (auto simp: catalog_log_def)
  from found obtain r where "r \<in> set (ld_manifests v)" "mr_part_name r = p" "mr_dataset r = ds"
    by (auto simp: sql_find_part_def find_Some_iff) (metis nth_mem)+
  with rows obtain e0 where e0: "e0 \<in> set es" "hd (wm_parts (fst e0)) = p" "wm_dataset (fst e0) = ds"
    by auto
  have marked: "map (\<lambda>r. if mr_part_name r = p then r\<lparr>mr_expired := True\<rparr> else r) (ld_manifests v)
      = map (window_row encode) (mark_log p es)"
    by (auto simp: rows mark_log_def window_row_def manifest_row_of_def)
  have gone: "row_file config (window_row encode e) = (dataset_table (dataset_str ds), part_path config p)
      \<longleftrightarrow> hd (wm_parts (fst e)) = p" if "e \<in> set es" for e
    using drain_part[OF ok[OF that] ok[OF e0(1)]] e0 ok[OF that] ok[OF e0(1)]
    by (auto simp: row_file_def drain_manifest_def window_key_def)
  have "filter (\<lambda>f. f \<noteq> (dataset_table (dataset_str ds), part_path config p)) (ld_files v)
      = map (row_file config) (filter (Not \<circ> mr_expired) (map (window_row encode) (mark_log p es)))"
    using gone unfolding files rows
    by (induction es) (auto simp: mark_log_def row_file_def window_row_def manifest_row_of_def)
  moreover have "distinct (map (window_key \<circ> fst) (mark_log p es))"
    using log by (metis catalog_log_def list.map_comp mark_log_keys)
  moreover have "\<forall>e\<in>set (mark_log p es). drain_manifest D (fst e) \<and> (\<exists>t. encode (wm_origin_coverage (fst e)) = Inr t)"
    using log by (fastforce simp: catalog_log_def mark_log_def)
  ultimately show ?thesis
    using marked by (simp add: catalog_log_def sql_mark_expired_def sql_delete_file_rows_def)
qed

lemma expire_writes_refines:
  assumes "expire_writes F config parts c = (r, c')" and "in_txn db v c" and "catalog_log encode config D es v"
  shows "\<exists>v'. in_txn db v' c' \<and>
    (r = Inr () \<longrightarrow> (\<exists>es'. catalog_log encode config D es' v' \<and> map fst es' = map fst es))"
  using assms
proof (induction parts arbitrary: c v es)
  case (Cons p parts)
  let ?missing = "LakeBackend (''expire: part '' @ part_str p @ '' is not registered in duckspout_manifests'')"
  obtain r1 c1 where q: "lake_query F (sql_find_part p) c = (r1, c1)" by fastforce
  from q Cons.prems(2) show ?case
  proof (cases rule: query_txn)
    case (failed e)
    then show ?thesis using Cons.prems q by auto
  next
    case found: ok
    show ?thesis
    proof (cases "sql_find_part p v")
      case None
      then show ?thesis using Cons.prems q found by auto
    next
      case (Some d)
      obtain ds x where d: "d = (ds, x)" by fastforce
      show ?thesis
      proof (cases x)
        case True
        then have "expire_writes F config parts c1 = (r, c')"
          using Cons.prems(1) q found Some d by simp
        from Cons.IH[OF this found(2) Cons.prems(3)] show ?thesis .
      next
        case False
        let ?del = "sql_delete_file_rows (dataset_table (dataset_str ds)) (part_path config p)"
        obtain r2 c2 where dl: "lake_execute F ?del c1 = (r2, c2)" by fastforce
        obtain r3 c3 where mk: "lake_execute F (sql_mark_expired p) c2 = (r3, c3)" by fastforce
        have step: "expire_writes F config (p # parts) c = and_then (err_into LakeBackend (r2, c2))
            (\<lambda>_ c. and_then (err_into LakeBackend (lake_execute F (sql_mark_expired p) c))
              (\<lambda>_ c. expire_writes F config parts c))"
          using q found Some d False dl by simp
        from dl found(2) show ?thesis
        proof (cases rule: execute_txn)
          case (failed e)
          with step Cons.prems(1) have "r = Inl (LakeBackend e)" "c' = c2" by (simp_all del: expire_writes.simps)
          with failed show ?thesis by auto
        next
          case del: ok
          from mk del(2) show ?thesis
          proof (cases rule: execute_txn)
            case (failed e)
            with step Cons.prems(1) del mk have "r = Inl (LakeBackend e)" "c' = c3"
              by (simp_all del: expire_writes.simps)
            with failed show ?thesis by auto
          next
            case mark: ok
            have "expire_writes F config parts c3 = (r, c')" using step Cons.prems(1) del mark mk
              by (simp del: expire_writes.simps)
            from Cons.IH[OF this mark(2) log_expired[OF Cons.prems(3) Some[unfolded d]]]
            show ?thesis by simp
          qed
        qed
      qed
    qed
  qed
qed auto

lemma expire_refines:
  assumes run: "expire_blocking F config parts (lake_session db) = (r, c)"
    and log: "catalog_log encode config D es db"
  shows "\<exists>es'. catalog_log encode config D es' (lc_db c) \<and> map fst es' = map fst es"
proof -
  obtain r1 c1 where b: "lake_begin F (lake_session db) = (r1, c1)" by fastforce
  have "lc_txn (lake_session db) = None" by (simp add: lake_session_def)
  with b show ?thesis
  proof (cases rule: begin_cases)
    case (failed e)
    then show ?thesis using run b log by (auto simp: expire_blocking_def lake_session_def)
  next
    case ok
    then have txn: "in_txn db db c1" by (simp add: lake_session_def)
    obtain r2 c2 where w: "expire_writes F config parts c1 = (r2, c2)" by fastforce
    from expire_writes_refines[OF w txn log] obtain v' where t: "in_txn db v' c2"
      and es': "r2 = Inr () \<Longrightarrow> \<exists>es'. catalog_log encode config D es' v' \<and> map fst es' = map fst es" by blast
    show ?thesis
    proof (cases r2)
      case (Inl e)
      then have "lc_db c = db"
        using run b ok w t by (auto simp: expire_blocking_def lake_rollback_def in_txn_def)
      with log show ?thesis by auto
    next
      case (Inr u)
      obtain r3 c3 where co: "lake_commit F c2 = (r3, c3)" by fastforce
      with run b ok w Inr have "c = c3" by (auto simp: expire_blocking_def err_into_def split: sum.splits)
      from co t have "lc_db c3 = db \<or> lc_db c3 = v'" by (cases rule: commit_cases) auto
      with \<open>c = c3\<close> log es' Inr show ?thesis by auto
    qed
  qed
qed

section \<open>Schema changes\<close>

lemma execute_frame:
  assumes "lake_execute F stmt c = (r, c')" and "lc_txn c = None"
    and "\<And>v. ld_manifests (snd (stmt v)) = ld_manifests v \<and> ld_files (snd (stmt v)) = ld_files v"
  shows "lc_txn c' = None \<and> ld_manifests (lc_db c') = ld_manifests (lc_db c) \<and> ld_files (lc_db c') = ld_files (lc_db c)"
  using assms(1,2) assms(3)[of "lc_db c"]
  by (cases "lf_error F (lc_calls c)") (auto simp: lake_execute_def lc_view_def Let_def split: prod.splits)

lemma add_columns_frame:
  assumes "add_columns_loop F table cols c = (r, c')" and "lc_txn c = None"
  shows "ld_manifests (lc_db c') = ld_manifests (lc_db c) \<and> ld_files (lc_db c') = ld_files (lc_db c)"
  using assms
proof (induction cols arbitrary: c)
  case (Cons col cols)
  show ?case
  proof (cases "sql_type (col_logical_type col)")
    case (Inr t)
    obtain r1 c1 where x: "lake_execute F (sql_add_column table (col_name col, t)) c = (r1, c1)" by fastforce
    from execute_frame[OF this Cons.prems(2)] Cons.IH[of c1] Cons.prems(1) x Inr show ?thesis
      by (cases r1) (auto simp: sql_add_column_def)
  qed (use Cons.prems in auto)
qed auto

lemma evolve_frame:
  assumes "evolve_schema_blocking F change (lake_session db) = (r, c)"
  shows "ld_manifests (lc_db c) = ld_manifests db \<and> ld_files (lc_db c) = ld_files db"
proof -
  let ?table = "dataset_table (dataset_str (se_dataset change))"
  obtain r1 c1 where q: "lake_query F (\<lambda>db. ?table \<in> fst ` set (ld_tables db)) (lake_session db) = (r1, c1)"
    by fastforce
  have c1: "lc_txn c1 = None" "lc_db c1 = db"
    using q by (auto simp: lake_query_def lake_session_def Let_def split: option.splits)
  have "c = c1 \<or> (\<exists>r'. add_columns_loop F ?table (se_columns change) c1 = (r', c))
    \<or> (\<exists>columns r'. lake_execute F (sql_create_lake_table ?table columns) c1 = (r', c))"
    using assms q
    by (auto simp: evolve_schema_blocking_def Let_def and_then_def err_into_def
        split: sum.splits if_splits prod.splits)
  then show ?thesis
    using add_columns_frame[OF _ c1(1)] execute_frame[OF _ c1(1)] c1(2)
    by (auto simp: sql_create_lake_table_def)
qed


section \<open>Runs refine the log\<close>

lemma run_log:
  assumes "lake_run encode config D log db"
  shows "\<exists>es. catalog_log encode config D es db \<and> map fst es = log"
  using assms
proof induction
  case fresh
  show ?case by (rule exI[of _ "[]"]) (simp add: catalog_log_def lake_bootstrap_def)
next
  case (commit log db m pid w sealed F ws r c)
  then obtain es where es: "catalog_log encode config D es db" "map fst es = log" by blast
  have "drain_manifest D m" using commit by simp
  from es(1) this commit(3) show ?case
  proof (cases rule: commit_refines)
    case same
    then show ?thesis using es by auto
  next
    case new
    then have "length (ld_manifests (lc_db c)) = Suc (length (ld_manifests db))"
      using es(1) by (simp add: catalog_log_def)
    with new es(2) show ?thesis by (intro exI[of _ "es @ [(m, False)]"]) simp
  qed
next
  case (expire log db F parts r c)
  then show ?case using expire_refines by metis
next
  case (evolve log db F change r c)
  then show ?case using evolve_frame[OF evolve(2)] catalog_log_cong[of "lc_db c" db] by metis
qed

lemma distinct_parts:
  assumes "catalog_log encode config D es db"
  shows "distinct (map mr_part_name (ld_manifests db))"
proof -
  have "distinct (map (\<lambda>e. hd (wm_parts (fst e))) es)"
    using assms unfolding catalog_log_def
    by (auto simp: distinct_map inj_on_def drain_part[of D] dest: drain_part[of D])
  then show ?thesis using assms by (simp add: catalog_log_def comp_def)
qed

text \<open>
  C8. A part is registered once, however commits fail, are retried or race with expiry: in every state a run
  reaches, no two manifest rows name the same part; the lake's data files are exactly those of the parts
  that are not expired, each once; and an expired part has no file in the lake.
\<close>
theorem lake_registers_once:
  assumes "lake_run encode config D log db"
  shows "distinct (map mr_part_name (ld_manifests db))
    \<and> ld_files db = map (row_file config) (filter (\<lambda>r. \<not> mr_expired r) (ld_manifests db))
    \<and> distinct (ld_files db)
    \<and> (\<forall>r\<in>set (ld_manifests db). mr_expired r \<longrightarrow> row_file config r \<notin> set (ld_files db))"
proof -
  from run_log[OF assms] obtain es where es: "catalog_log encode config D es db" by blast
  then have files: "ld_files db = map (row_file config) (filter (\<lambda>r. \<not> mr_expired r) (ld_manifests db))"
    by (simp add: catalog_log_def comp_def)
  have inj: "inj_on (row_file config) (set (ld_manifests db))"
    using distinct_parts[OF es] by (auto simp: inj_on_def row_file_def distinct_map)
  moreover have "distinct (ld_manifests db)" using distinct_parts[OF es] distinct_map by blast
  ultimately show ?thesis
    using distinct_parts[OF es] files
    by (auto simp: distinct_map intro: inj_on_subset dest: inj_onD[OF inj])
qed

section \<open>Reading the manifests back\<close>

definition i64_manifest :: "window_manifest \<Rightarrow> bool" where
  "i64_manifest m \<longleftrightarrow> int (wm_window_id m) \<le> i64_max \<and> int (unat (wm_rows m)) \<le> i64_max
     \<and> int (unat (wm_dedup_removed m)) \<le> i64_max"

lemma collect_window:
  assumes "drain_manifest D (fst e)" and "i64_manifest (fst e)"
    and "encode (wm_origin_coverage (fst e)) = Inr t" and "decode t = Inr (wm_origin_coverage (fst e))"
    and "acc \<noteq> [] \<Longrightarrow> window_key (last acc) \<noteq> window_key (fst e)"
  shows "collect_row decode (window_row encode e) acc = Inr (acc @ [fst e])"
proof -
  have "\<not> (acc \<noteq> [] \<and> wm_partition (last acc) = wm_partition (fst e) \<and> wm_window_id (last acc) = wm_window_id (fst e))"
    using assms(5) by (auto simp: window_key_def)
  then show ?thesis
    using assms(1-4)
    by (cases "fst e") (auto simp: collect_row_def window_row_def manifest_row_of_def coverage_text_def Let_def
        i64_manifest_def i64_of_nat_def u64_nat_of_i64_def drain_manifest_def)
qed


lemma collect_windows:
  assumes "\<forall>e\<in>set es. drain_manifest D (fst e) \<and> i64_manifest (fst e)
      \<and> (\<exists>t. encode (wm_origin_coverage (fst e)) = Inr t)"
    and "\<And>ranges t. encode ranges = Inr t \<Longrightarrow> decode t = Inr ranges"
    and "distinct (map window_key (acc @ map fst es))"
  shows "collect_rows decode (map (window_row encode) es) acc = Inr (acc @ map fst es)"
  using assms(1,3)
proof (induction es arbitrary: acc)
  case (Cons e es)
  have "acc \<noteq> [] \<Longrightarrow> window_key (last acc) \<noteq> window_key (fst e)"
    using Cons.prems(2) by (auto simp: image_iff) (metis last_in_set)
  with Cons.prems(1) assms(2) have "collect_row decode (window_row encode e) acc = Inr (acc @ [fst e])"
    by (auto intro!: collect_window[where D=D])
  then show ?case using Cons.IH[of "acc @ [fst e]"] Cons.prems by auto
qed simp

lemma insort_key_map: "insort_key f (g x) (map g xs) = map g (insort_key (f \<circ> g) x xs)"
  by (induction xs) auto

lemma sort_key_map: "sort_key f (map g xs) = map g (sort_key (f \<circ> g) xs)"
  by (induction xs) (auto simp: insort_key_map comp_def)

lemma insort_key_order_cong:
  "\<forall>y\<in>set xs. f x \<le> f y \<longleftrightarrow> g x \<le> g y \<Longrightarrow> insort_key f x xs = insort_key g x xs"
  by (induction xs) auto

lemma sort_key_order_cong:
  assumes "\<forall>x\<in>set xs. \<forall>y\<in>set xs. f x \<le> f y \<longleftrightarrow> g x \<le> g y"
  shows "sort_key f xs = sort_key g xs"
  using assms by (induction xs) (auto intro!: insort_key_order_cong)

lemma i64_key:
  assumes "\<forall>e\<in>set es. i64_manifest (fst e)"
  shows "sort_key (\<lambda>e. (wm_partition (fst e), i64_of_nat (wm_window_id (fst e)))) es
    = sort_key (window_key \<circ> fst) es"
  using assms by (intro sort_key_order_cong) (auto simp: i64_manifest_def i64_of_nat_def window_key_def less_eq_prod_def)

lemma quiet_read_manifests:
  "quiet F \<Longrightarrow> fst (read_manifests F decode c) = collect_rows decode (sql_ordered_manifests (lc_view c)) []"
  by (simp add: read_manifests_def quiet_query)

lemma run_read_back:
  assumes "lake_run encode config D log db" and "quiet F"
    and "\<And>ranges t. encode ranges = Inr t \<Longrightarrow> decode t = Inr ranges" and "\<forall>m\<in>set log. i64_manifest m"
  shows "fst (read_manifests F decode (lake_session db)) = Inr (sort_key window_key log)"
proof -
  from run_log[OF assms(1)] obtain es where es: "catalog_log encode config D es db" and log: "map fst es = log"
    by blast
  let ?s = "sort_key (window_key \<circ> fst) es"
  have i64: "\<forall>e\<in>set es. i64_manifest (fst e)" using assms(4) by (simp flip: log)
  have "sql_ordered_manifests db = map (window_row encode) ?s"
    using es i64_key[OF i64]
    by (simp add: sql_ordered_manifests_def catalog_log_def sort_key_map comp_def)
  moreover have "distinct (map window_key (map fst ?s))"
    using es by (simp add: catalog_log_def distinct_map)
  ultimately have "fst (read_manifests F decode (lake_session db)) = Inr (map fst ?s)"
    using es i64 assms(3) collect_windows[of ?s D encode decode "[]"]
    by (simp add: quiet_read_manifests[OF assms(2)] lake_session_def lc_view_def catalog_log_def)
  then show ?thesis by (simp add: sort_key_map flip: log)
qed


text \<open>
  The manifests are read back as they were committed. After any run, a read whose calls succeed gives
  exactly the manifests whose commits wrote rows, each once and whole (expired parts included), ordered
  by partition and window, when the codec of the stored coverage decodes what it encoded and the counts
  fit the catalog's 64-bit signed columns.
\<close>
theorem manifests_read_back:
  assumes "lake_run encode config D log db" and "quiet F"
    and "\<And>ranges t. encode ranges = Inr t \<Longrightarrow> decode t = Inr ranges" and "\<forall>m\<in>set log. i64_manifest m"
  shows "fst (read_manifests F decode (lake_session db)) = Inr (sort_key window_key log)"
  using assms by (rule run_read_back)

section \<open>A concrete run\<close>

definition life_sealed :: sealed_part where
  "life_sealed = \<lparr>sp_path = ''scratch/w0'', sp_rows = 2, sp_event_time_min_ms = 50, sp_event_time_max_ms = 100,
     sp_dedup_removed = 0, sp_origin_coverage = [\<lparr>osr_origin = NodeId ''a'', osr_first_seq = 1, osr_last_seq = 2\<rparr>]\<rparr>"

definition life_dataset :: "partition_id \<Rightarrow> dataset_id" where
  "life_dataset _ = DatasetId ''logs''"

definition life_manifest :: "nat \<Rightarrow> window_manifest" where
  "life_manifest w = manifest_for (DatasetId ''logs'') (PartitionId ''p'') w life_sealed"

definition life_commit :: "nat \<Rightarrow> lake_db \<Rightarrow> lake_conn" where
  "life_commit w db = snd (commit_files_blocking lake_quiet lake_demo_encode lake_demo_config (life_manifest w) [] (lake_session db))"

definition life_db :: lake_db where
  "life_db = lc_db (life_commit 0 lake_bootstrap)"

definition life_expired :: lake_db where
  "life_expired = lc_db (snd (expire_blocking lake_quiet lake_demo_config (wm_parts (life_manifest 0))
     (lake_session (lc_db (life_commit 1 life_db)))))"

lemma life_commit_run:
  assumes "lake_run lake_demo_encode lake_demo_config life_dataset log db"
    and "length (ld_manifests db) < length (ld_manifests (lc_db (life_commit w db)))"
  shows "lake_run lake_demo_encode lake_demo_config life_dataset (log @ [life_manifest w]) (lc_db (life_commit w db))"
proof -
  obtain r c where run: "commit_files_blocking lake_quiet lake_demo_encode lake_demo_config (life_manifest w) []
      (lake_session db) = (r, c)" by fastforce
  then have c: "life_commit w db = c" by (simp add: life_commit_def)
  have "life_manifest w = manifest_for (life_dataset (PartitionId ''p'')) (PartitionId ''p'') w life_sealed"
    by (simp add: life_manifest_def life_dataset_def)
  from lake_run.commit[OF assms(1) this run] assms(2) show ?thesis by (simp add: c)
qed

lemma life_run0: "lake_run lake_demo_encode lake_demo_config life_dataset [life_manifest 0] life_db"
proof -
  have "length (ld_manifests lake_bootstrap) < length (ld_manifests (lc_db (life_commit 0 lake_bootstrap)))"
    by code_simp
  from life_commit_run[OF lake_run.fresh this] show ?thesis by (simp add: life_db_def)
qed

lemma life_run2:
  "lake_run lake_demo_encode lake_demo_config life_dataset [life_manifest 0, life_manifest 1] life_expired"
proof -
  have "length (ld_manifests life_db) < length (ld_manifests (lc_db (life_commit 1 life_db)))" by code_simp
  from life_commit_run[OF life_run0 this]
  have run: "lake_run lake_demo_encode lake_demo_config life_dataset [life_manifest 0, life_manifest 1]
      (lc_db (life_commit 1 life_db))" by simp
  obtain r c where "expire_blocking lake_quiet lake_demo_config (wm_parts (life_manifest 0))
     (lake_session (lc_db (life_commit 1 life_db))) = (r, c)" by fastforce
  from lake_run.expire[OF run this] this show ?thesis by (simp add: life_expired_def)
qed

theorem lake_registers_once_witness:
  "distinct (ld_files life_expired) \<and> length (ld_files life_expired) = 1 \<and> length (ld_manifests life_expired) = 2"
proof -
  have "length (ld_files life_expired) = 1" "length (ld_manifests life_expired) = 2" by code_simp+
  with lake_registers_once[OF life_run2] show ?thesis by blast
qed

definition lake_demo_decode :: coverage_decoder where
  "lake_demo_decode t = (if t = ''[]'' then Inr []
     else if t = ''[a:1-2]'' then Inr [\<lparr>osr_origin = NodeId ''a'', osr_first_seq = 1, osr_last_seq = 2\<rparr>]
     else Inl ''unknown'')"

lemma lake_demo_codec: "lake_demo_encode ranges = Inr t \<Longrightarrow> lake_demo_decode t = Inr ranges"
  by (auto simp: lake_demo_encode_def lake_demo_decode_def split: list.splits if_splits)

lemma life_i64: "\<forall>m\<in>set [life_manifest 0, life_manifest 1]. i64_manifest m"
  by (simp add: i64_manifest_def life_manifest_def manifest_for_def life_sealed_def i64_max_def)

theorem manifests_read_back_witness:
  "fst (read_manifests lake_quiet lake_demo_decode (lake_session life_expired)) = Inr [life_manifest 0, life_manifest 1]"
proof -
  from manifests_read_back[OF life_run2 lake_demo_quiet lake_demo_codec life_i64] show ?thesis
    by (simp add: window_key_def life_manifest_def manifest_for_def less_eq_prod_def)
qed

end
