(* ===== verification/Lake_Open.thy ===== *)
theory Lake_Open
  imports Lake_Committer
begin

text \<open>
  \<open>crates/duckspout-lake-ducklake/src/lib.rs\<close>, the rest: opening a committer, what it tells clients, the refused
  repair operation, and the quoting of names and literals in the statements it composes as text.
\<close>

section \<open>Quoting\<close>

text \<open>\<open>raw.replace(q, qq)\<close>.\<close>

definition double_char :: "char \<Rightarrow> string \<Rightarrow> string" where
  "double_char q s = concat (map (\<lambda>c. if c = q then [q, q] else [c]) s)"

definition sql_str_body :: "string \<Rightarrow> string" where
  "sql_str_body raw = double_char CHR 0x27 raw"

definition column_ident :: "string \<Rightarrow> string" where
  "column_ident name = [CHR 0x22] @ double_char CHR 0x22 name @ [CHR 0x22]"

definition sql_literal :: "string \<Rightarrow> string" where
  "sql_literal raw = [CHR 0x27] @ sql_str_body raw @ [CHR 0x27]"

definition add_data_files_sql :: "string \<Rightarrow> string \<Rightarrow> string" where
  "add_data_files_sql table path =
     ''CALL ducklake_add_data_files('' @ sql_literal ''lake'' @ '', '' @ sql_literal table @ '', '' @ sql_literal path @ '')''"

text \<open>How SQL reads a quoted token: from the opening quote to the first quote that is not doubled.\<close>

fun read_quoted_body :: "char \<Rightarrow> string \<Rightarrow> (string \<times> string) option" where
  "read_quoted_body q [] = None"
| "read_quoted_body q [c] = (if c = q then Some ([], []) else None)"
| "read_quoted_body q (c # d # s) =
     (if c \<noteq> q then map_option (\<lambda>(t, rest). (c # t, rest)) (read_quoted_body q (d # s))
      else if d = q then map_option (\<lambda>(t, rest). (q # t, rest)) (read_quoted_body q s)
      else Some ([], d # s))"

definition read_quoted :: "char \<Rightarrow> string \<Rightarrow> (string \<times> string) option" where
  "read_quoted q s = (case s of c # s' \<Rightarrow> if c = q then read_quoted_body q s' else None | [] \<Rightarrow> None)"

lemma read_quoted_body_plain:
  "c \<noteq> q \<Longrightarrow> read_quoted_body q (c # s) = map_option (\<lambda>(t, rest). (c # t, rest)) (read_quoted_body q s)"
  by (cases s) auto

lemma read_double_char:
  assumes "rest = [] \<or> hd rest \<noteq> q"
  shows "read_quoted_body q (double_char q s @ q # rest) = Some (s, rest)"
proof (induction s)
  case Nil
  show ?case using assms by (cases rest) (auto simp: double_char_def)
next
  case (Cons c s)
  then show ?case by (auto simp: double_char_def read_quoted_body_plain)
qed

text \<open>
  C39. No text escapes its literal: however a path or a table name is spelled, SQL reads the quoted literal as
  that very text and goes on with what the committer wrote after it; so does a quoted column name.
\<close>
theorem quoting_is_safe:
  assumes "rest = [] \<or> hd rest \<notin> {CHR 0x27, CHR 0x22}"
  shows "read_quoted CHR 0x27 (sql_literal raw @ rest) = Some (raw, rest)
    \<and> read_quoted CHR 0x22 (column_ident raw @ rest) = Some (raw, rest)"
  using assms
  by (auto simp: read_quoted_def sql_literal_def sql_str_body_def column_ident_def read_double_char)

theorem quoting_is_safe_witness:
  "read_quoted CHR 0x27 (sql_literal [CHR 0x27, CHR '';''] @ '')'') = Some ([CHR 0x27, CHR '';''], '')'')"
  using quoting_is_safe[of "'')''" "[CHR 0x27, CHR '';'']"] by simp

section \<open>Opening\<close>

definition exec_batch :: "lake_faults \<Rightarrow> (string \<Rightarrow> lake_error) \<Rightarrow> lake_conn \<Rightarrow> (lake_error, unit) result \<times> lake_conn" where
  "exec_batch F wrap c = err_into wrap (lake_query F (\<lambda>_. ()) c)"

definition backend_ctx :: "string \<Rightarrow> string \<Rightarrow> lake_error" where
  "backend_ctx ctx e = LakeBackend (ctx @ '': '' @ e)"

text \<open>
  \<open>DuckLakeCommitter::open\<close>. The catalog the connection attaches is \<open>lc_db\<close>; the tables of the model exist in every
  catalog, so creating them if absent changes nothing.
\<close>

definition lake_open ::
  "lake_faults \<Rightarrow> duck_lake_config \<Rightarrow> lake_conn \<Rightarrow> (lake_error, duck_lake_config) result \<times> lake_conn" where
  "lake_open F config c =
     (let kind = catalog_kind_of (lk_catalog_uri config) in
      if lk_multi_process config \<and> kind = DuckDbFile then
        (Inl (Misconfigured (''a DuckDB-file catalog ('' @ lk_catalog_uri config @ '') is single-process only'')), c)
      else
        and_then (exec_batch F LakeBackend c) (\<lambda>_ c.
        and_then (exec_batch F (backend_ctx ''install/load ducklake extension'') c) (\<lambda>_ c.
        and_then (exec_batch F LakeBackend c) (\<lambda>_ c.
        and_then (case lk_s3 config of
            None \<Rightarrow> (Inr (), c)
          | Some s3 \<Rightarrow>
              and_then (exec_batch F (backend_ctx ''install/load httpfs extension'') c) (\<lambda>_ c.
                exec_batch F (backend_ctx ''create S3 secret'') c)) (\<lambda>_ c.
        and_then (if kind = Sqlite then exec_batch F (backend_ctx ''install/load sqlite extension'') c
                  else (Inr (), c)) (\<lambda>_ c.
        and_then (exec_batch F (backend_ctx ''attach ducklake catalog'') c) (\<lambda>_ c.
        and_then (exec_batch F (backend_ctx ''bootstrap sidecar tables'') c) (\<lambda>_ c.
          (Inr config, c)))))))))"

definition attach_sql :: "duck_lake_config \<Rightarrow> string" where
  "attach_sql config =
     ''ATTACH IF NOT EXISTS '' @ sql_literal (''ducklake:'' @ lk_catalog_uri config) @ '' AS lake (DATA_PATH ''
       @ sql_literal (lk_data_path config)
       @ (if catalog_kind_of (lk_catalog_uri config) = Sqlite then '', META_JOURNAL_MODE '' @ sql_literal ''WAL'' else '''')
       @ '');''"

record attach_info =
  ai_catalog_uri :: string
  ai_credentials_shape :: string
  ai_dialect :: string

definition attach_info_blocking :: "duck_lake_config \<Rightarrow> attach_info" where
  "attach_info_blocking config =
     \<lparr>ai_catalog_uri = ''ducklake:'' @ lk_catalog_uri config,
      ai_credentials_shape =
        (case catalog_kind_of (lk_catalog_uri config) of
           Postgres \<Rightarrow> ''libpq DSN via a DuckDB secret (never inline credentials)''
         | Sqlite \<Rightarrow> ''none (file-backed catalog)'' | DuckDbFile \<Rightarrow> ''none (file-backed catalog)''),
      ai_dialect = ''ducklake''\<rparr>"

definition replace_files :: "part_name list \<Rightarrow> part_name list \<Rightarrow> (lake_error, commit_outcome) result" where
  "replace_files remove add =
     Inl (NotImplemented ''ducklake replace_files (emergency repair; lands with the operations work)'')"

lemma exec_batch_frame: "exec_batch F wrap c = (r, c') \<Longrightarrow> lc_db c' = lc_db c \<and> lc_txn c' = lc_txn c"
  by (auto simp: exec_batch_def lake_query_def err_into_def Let_def split: option.splits)

text \<open>Opening changes no committed data, and succeeds only where several processes may share the catalog or need not.\<close>

lemma lake_open_frame:
  assumes "lake_open F config c = (Inr cfg, c')"
  shows "cfg = config \<and> lc_db c' = lc_db c
    \<and> \<not> (lk_multi_process config \<and> catalog_kind_of (lk_catalog_uri config) = DuckDbFile)"
  using assms
  by (auto simp: lake_open_def Let_def and_then_Inr_unit and_then_Inr dest!: exec_batch_frame
      split: if_splits option.splits)

end
