(* ===== verification/Daemon_Boot.thy ===== *)
theory Daemon_Boot
  imports Lake_Life Lake_Open Reconstruct
begin

text \<open>
  \<open>crates/duckspout-daemon/src/wiring.rs\<close>, \<open>reconstruct_watermark_ledger\<close>: at boot the watermark ledger is rebuilt from the
  manifests the lake holds. Composed here: what the drain committed to the lake, what the lake reads
  back, and what the rebuilt ledger is. The warnings the source logs have no effect and are left out.
\<close>

datatype boot_error =
    BootLake lake_error
  | UnsupportedSchemaColumn string
  | WatermarkReconstruction reconstruct_error

definition reconstruct_watermark_ledger ::
  "lake_faults \<Rightarrow> coverage_decoder \<Rightarrow> lake_conn \<Rightarrow> (boot_error, watermark_ledger) result \<times> lake_conn" where
  "reconstruct_watermark_ledger F decode c =
     and_then (err_into BootLake (read_manifests F decode c)) (\<lambda>manifests c.
       (map_err WatermarkReconstruction (case reconstruct manifests [] [] of
          Inl e \<Rightarrow> Inl e | Inr reconstruction \<Rightarrow> Inr (re_ledger reconstruction)), c))"

text \<open>
  C9. A restarted node has the ledger it had. When the manifests the drain recorded in the ledger are those
  its commits wrote to the lake, and no loss was declared, boot rebuilds exactly that ledger from the lake: every
  watermark, every recorded window and the next window of every partition are as before the restart, whatever
  parts have been expired since and whatever calls failed meanwhile.
\<close>
theorem boot_rebuilds_ledger:
  assumes "lake_run encode config D log db" and "ledger_run log [] L" and "quiet F"
    and "\<And>ranges t. encode ranges = Inr t \<Longrightarrow> decode t = Inr ranges" and "\<forall>m\<in>set log. i64_manifest m"
  shows "fst (reconstruct_watermark_ledger F decode (lake_session db)) = Inr L"
proof -
  have "fst (read_manifests F decode (lake_session db)) = Inr (sort_key window_key log)"
    using assms(1,3-5) by (rule run_read_back)
  then obtain c where read: "read_manifests F decode (lake_session db) = (Inr (sort_key window_key log), c)"
    by (cases "read_manifests F decode (lake_session db)") simp
  have "reconstruct (sort_key window_key log) [] [] = Inr \<lparr>re_ledger = L,
      re_stalls = concat (map (stalls_of [] L) (by_partition (sort_key window_key log))), re_deferred = []\<rparr>"
    by (rule reconstruct_whole[OF assms(2)]) simp_all
  then show ?thesis by (simp add: reconstruct_watermark_ledger_def read map_err_def)
qed

definition boot_demo_ledger :: watermark_ledger where
  "boot_demo_ledger = snd (record_commit (life_manifest 0) ledger_new)"

lemma boot_demo_run: "ledger_run [life_manifest 0] [] boot_demo_ledger"
proof -
  obtain row where "fst (record_commit (life_manifest 0) ledger_new) = Inr row"
    by (simp add: life_manifest_def manifest_for_def life_sealed_def ledger_eval)
  then have "record_commit (life_manifest 0) ledger_new = (Inr row, boot_demo_ledger)"
    by (simp add: boot_demo_ledger_def prod_eq_iff)
  from ledger_run.commit[OF ledger_run.start this] show ?thesis by simp
qed

theorem boot_rebuilds_ledger_witness:
  "fst (reconstruct_watermark_ledger lake_quiet lake_demo_decode (lake_session life_db)) = Inr boot_demo_ledger"
proof (rule boot_rebuilds_ledger[OF life_run0 boot_demo_run lake_demo_quiet])
  show "lake_demo_decode t = Inr ranges" if "lake_demo_encode ranges = Inr t" for ranges t
    using that by (rule lake_demo_codec)
  show "\<forall>m\<in>set [life_manifest 0]. i64_manifest m" using life_i64 by simp
qed

end
