(* ===== verification/Window_Roll.thy ===== *)
theory Window_Roll
  imports Hot_Life
begin

text \<open>
  The roller of the daemon (\<open>note_closed_windows\<close> of \<open>crates/duckspout-daemon/src/wiring.rs\<close>) over the hot store: which windows it
  offers to the drain, and that a window it offers receives no further row. The stager and the seal
  surface share one engine; a poisoned lock, the only way its two registry reads fail, is left out.
\<close>

section \<open>The roller\<close>

definition note_closed_windows :: "'p writer_inner \<Rightarrow> int \<Rightarrow> 'p seal_surface \<Rightarrow> 'p seal_surface" where
  "note_closed_windows w now_ms f =
     fold (\<lambda>window f.
         case highest_window_id w (wf_dataset window) (wf_partition window) of
           None \<Rightarrow> f
         | Some high_water \<Rightarrow>
             if wf_window window < high_water
             then note_closed (wf_dataset window) (wf_partition window) (wf_window window) now_ms f
             else f)
       (list_windows w) f"

text \<open>A window strictly below the high-water mark of its dataset and partition.\<close>

definition below_mark :: "'p writer_inner \<Rightarrow> window_key \<Rightarrow> bool" where
  "below_mark w key =
     (case key of (dataset, pid, window) \<Rightarrow>
        (case highest_window_id w dataset pid of None \<Rightarrow> False | Some hw \<Rightarrow> window < hw))"

definition wf_key :: "window_ref \<Rightarrow> window_key" where
  "wf_key r = (wf_dataset r, wf_partition r, wf_window r)"

definition roll_one :: "'p writer_inner \<Rightarrow> int \<Rightarrow> window_ref \<Rightarrow> 'p seal_surface \<Rightarrow> 'p seal_surface" where
  "roll_one w now_ms r f =
     (if below_mark w (wf_key r) then note_closed (wf_dataset r) (wf_partition r) (wf_window r) now_ms f else f)"

lemma note_closed_windows_fold: "note_closed_windows w now_ms f = fold (roll_one w now_ms) (list_windows w) f"
proof -
  have "(\<lambda>window f. case highest_window_id w (wf_dataset window) (wf_partition window) of None \<Rightarrow> f
      | Some high_water \<Rightarrow> if wf_window window < high_water
          then note_closed (wf_dataset window) (wf_partition window) (wf_window window) now_ms f else f) = roll_one w now_ms"
    by (intro ext) (simp add: roll_one_def below_mark_def wf_key_def split: option.splits)
  then show ?thesis by (simp only: note_closed_windows_def)
qed

lemma note_closed_frame [simp]:
  "ss_engine (note_closed ds pid win at f) = ss_engine f" "ss_scratch (note_closed ds pid win at f) = ss_scratch f"
  by (simp_all add: note_closed_def split: option.splits)

lemma roll_frame:
  "ss_engine (fold (roll_one w now_ms) rs f) = ss_engine f \<and> ss_scratch (fold (roll_one w now_ms) rs f) = ss_scratch f"
  by (induction rs arbitrary: f) (auto simp: roll_one_def)

lemma roll_closes:
  "ss_closes (fold (roll_one w now_ms) rs f) key =
     (if ss_closes f key = None \<and> below_mark w key \<and> key \<in> wf_key ` set rs then Some now_ms else ss_closes f key)"
  by (induction rs arbitrary: f) (auto simp: roll_one_def note_closed_def wf_key_def split: option.splits)

lemma list_windows_keys: "wf_key ` set (list_windows w) = fst ` set (w_windows w)"
  by (force simp: list_windows_def wf_key_def)

lemma rolled_closes:
  "ss_closes (note_closed_windows w now_ms f) key =
     (if ss_closes f key = None \<and> below_mark w key \<and> key \<in> fst ` set (w_windows w) then Some now_ms else ss_closes f key)"
  by (simp add: note_closed_windows_fold roll_closes list_windows_keys)

section \<open>Marks\<close>

text \<open>A property of the high-water marks, kept by every statement but the one that raises a mark.\<close>

definition marks_within :: "((dataset_id \<times> partition_id, window_id) btree \<Rightarrow> bool) \<Rightarrow> 'p hot_db \<Rightarrow> bool" where
  "marks_within B db \<longleftrightarrow> B (db_window_hw db)"

definition raises :: "((dataset_id \<times> partition_id, window_id) btree \<Rightarrow> bool) \<Rightarrow> dataset_id \<Rightarrow> partition_id \<Rightarrow> window_id \<Rightarrow> bool" where
  "raises B ds p win \<longleftrightarrow> (\<forall>m. B m \<longrightarrow> B (bt_upsert (ds, p) win (\<lambda>hw. max hw win) m))"

definition conn_within :: "((dataset_id \<times> partition_id, window_id) btree \<Rightarrow> bool) \<Rightarrow> 'p writer_inner \<Rightarrow> bool" where
  "conn_within B w \<longleftrightarrow> marks_within B (cn_db (w_conn w)) \<and> (\<forall>db. cn_txn (w_conn w) = Some db \<longrightarrow> marks_within B db)"

definition stmt_within :: "((dataset_id \<times> partition_id, window_id) btree \<Rightarrow> bool) \<Rightarrow> 'p sql \<Rightarrow> bool" where
  "stmt_within B stmt \<longleftrightarrow> (\<forall>db db'. marks_within B db \<longrightarrow> stmt db = Inr db' \<longrightarrow> marks_within B db')"

lemma stmt_within_frame: "(\<And>db db'. stmt db = Inr db' \<Longrightarrow> db_window_hw db' = db_window_hw db) \<Longrightarrow> stmt_within B stmt"
  unfolding stmt_within_def marks_within_def by metis

lemma stmts_within [simp]:
  "stmt_within B Inr" "stmt_within B (sql_create_table t c)" "stmt_within B (sql_update_table t f)"
  "stmt_within B (sql_register_window key t)" "stmt_within B (sql_add_bytes key n)" "stmt_within B (sql_set_applied p orig q)"
  "stmt_within B (sql_put_dedup tn k row)" "stmt_within B (sql_mark_acked tn k)" "stmt_within B (sql_expire_dedup x)"
  "stmt_within B (sql_evict_oldest m)"
  by (rule stmt_within_frame, auto simp: sql_create_table_def sql_update_table_def sql_register_window_def sql_add_bytes_def
      sql_set_applied_def sql_put_dedup_def sql_mark_acked_def sql_expire_dedup_def sql_evict_oldest_def
      split: if_splits option.splits)+

lemma stmt_within_raise: "raises B ds p win \<Longrightarrow> stmt_within B (sql_raise_hw ds p win)"
  by (auto simp: stmt_within_def marks_within_def sql_raise_hw_def raises_def)

lemma within_execute: "conn_within B w \<Longrightarrow> stmt_within B stmt \<Longrightarrow> conn_within B (snd (on_conn (db_execute F stmt) w))"
  by (auto simp: conn_within_def stmt_within_def on_conn_def db_execute_def conn_call_def conn_view_def Let_def
      split: option.splits sum.splits)

lemma within_begin: "conn_within B w \<Longrightarrow> conn_within B (snd (on_conn (db_begin F) w))"
  by (auto simp: conn_within_def on_conn_def db_begin_def conn_call_def Let_def split: option.splits)

lemma within_commit: "conn_within B w \<Longrightarrow> conn_within B (snd (on_conn (db_commit F) w))"
  by (cases "cn_txn (w_conn w)") (auto simp: conn_within_def on_conn_def db_commit_def conn_call_def conn_view_def Let_def split: option.splits)

abbreviation txn_within :: "((dataset_id \<times> partition_id, window_id) btree \<Rightarrow> bool) \<Rightarrow> 'p stage_txn \<Rightarrow> bool" where
  "txn_within B t \<equiv> conn_within B (tx_writer t)"

lemma within_tx: "txn_within B t \<Longrightarrow> stmt_within B stmt \<Longrightarrow> txn_within B (snd (tx_execute F stmt t))"
  using within_execute[of B "tx_writer t" stmt F] by (simp add: tx_execute_def case_prod_beta)

lemma within_drop: "txn_within B t \<Longrightarrow> conn_within B (tx_drop t)"
  by (simp add: conn_within_def tx_drop_def db_rollback_def)

lemma within_and_then:
  assumes "txn_within B (snd x)" and "\<And>u t. txn_within B t \<Longrightarrow> txn_within B (snd (g u t))"
  shows "txn_within B (snd (and_then x g))"
  using assms by (cases x; cases "fst x") auto

lemma within_ensure:
  assumes "raises B ds p win" and "txn_within B t"
  shows "txn_within B (snd (ensure_window F ds p win cols t))"
  using assms
  by (auto simp: ensure_window_def Let_def intro!: within_and_then within_tx stmt_within_raise split: option.splits sum.splits)

lemma within_append:
  assumes "raises B ds p win" and "txn_within B t"
  shows "txn_within B (snd (append_batch F ds p win b t))"
  using assms unfolding append_batch_def Let_def
  by (intro within_and_then within_ensure) (auto intro!: within_and_then within_tx split: option.splits sum.splits)

lemma within_append_all:
  "raises B ds p win \<Longrightarrow> txn_within B t \<Longrightarrow> txn_within B (snd (append_all F ds p win bs t))"
  by (induction bs arbitrary: t) (auto intro!: within_and_then within_append)

lemma within_write_applied: "txn_within B t \<Longrightarrow> txn_within B (snd (write_applied F ps t))"
  by (induction ps arbitrary: t) (auto intro!: within_and_then within_tx split: prod.splits)

lemma within_merge:
  "conn_within B (fold merge_applied as (fold merge_bytes bs (fold merge_window ws w))) = conn_within B w"
  by (simp add: conn_within_def merge_conn merge_applied_fields merge_bytes_fields merge_window_fields)

lemma within_commit_txn:
  assumes "txn_within B t"
  shows "conn_within B (snd (commit_txn F t))"
proof -
  let ?x = "and_then (write_applied F (tx_pending_applied t) t)
    (\<lambda>_ t. case on_conn (db_commit F) (tx_writer t) of (r, w) \<Rightarrow> (r, t\<lparr>tx_writer := w\<rparr>))"
  have step: "txn_within B (snd (case on_conn (db_commit F) (tx_writer t) of (r, w) \<Rightarrow> (r, t\<lparr>tx_writer := w\<rparr>)))"
    if "txn_within B t" for t
    using within_commit[OF that, of F] by (simp add: case_prod_beta)
  have "txn_within B (snd ?x)" by (intro within_and_then within_write_applied assms step)
  then show ?thesis by (cases ?x; cases "fst ?x") (auto simp: commit_txn_def within_merge within_drop)
qed

section \<open>Staging keeps to the open window\<close>

lemma within_err_into: "txn_within B (snd x) \<Longrightarrow> txn_within B (snd (err_into f x))"
  by (cases x) (simp add: err_into_def split: sum.splits)

lemma within_fresh:
  assumes "raises B (dcb_dataset batch) p win" and "txn_within B t"
  shows "txn_within B (snd (stage_fresh E cfg now batch p win bs t))"
  using assms unfolding stage_fresh_def Let_def
  by (intro within_and_then within_err_into within_append_all)
    (auto simp: dedup_insert_def dedup_evict_def Let_def intro!: within_and_then within_err_into within_tx split: sum.splits)

lemma within_resolve: "txn_within B t \<Longrightarrow> txn_within B (snd (resolve_duplicate E tn key entry at_rf t))"
  by (auto simp: resolve_duplicate_def dedup_mark_acked_def Let_def intro!: within_and_then within_tx)

lemma within_lookup: "txn_within B t \<Longrightarrow> txn_within B (snd (dedup_lookup F tn key m t))"
  by (auto simp: dedup_lookup_def intro!: within_and_then within_tx)

lemma within_transaction:
  assumes "raises B (dcb_dataset batch) p win" and t: "txn_within B t"
    and st: "stage_transaction E cfg now batch p win bs t s = (r, s')"
  shows "conn_within B (es_writer s')" and "es_open_windows s' = es_open_windows s"
proof -
  let ?lk = "dedup_lookup (env_faults E) (dcb_tenant batch) (dedup_key_of E batch) (i64_saturating_sub now (cfg_dedup_ttl_ms cfg)) t"
  obtain rl t1 where lk: "?lk = (rl, t1)" by (cases ?lk)
  then have t1: "txn_within B t1" using within_lookup[OF t] by (metis snd_conv)
  obtain rd t2 where rd: "\<And>entry. rl = Inr (Some entry) \<Longrightarrow>
      resolve_duplicate E (dcb_tenant batch) (dedup_key_of E batch) entry at_rf_v01 t1 = (rd, t2)"
    by (metis surj_pair sum.inject(2) option.inject)
  obtain rf t3 where rf: "stage_fresh E cfg now batch p win bs t1 = (rf, t3)"
    by (cases "stage_fresh E cfg now batch p win bs t1")
  have t2: "txn_within B t2" if "rl = Inr (Some entry)" for entry using within_resolve[OF t1] rd[OF that] by (metis snd_conv)
  have t3: "txn_within B t3" using within_fresh[OF assms(1) t1] rf by (metis snd_conv)
  have c: "conn_within B w" if "commit_txn F u = (x, w)" "txn_within B u" for F u x w
    using within_commit_txn[OF that(2), of F] that(1) by simp
  show "es_open_windows s' = es_open_windows s"
    using st by (auto simp: stage_transaction_def Let_def stager_journal_def split: prod.splits sum.splits option.splits)
  show "conn_within B (es_writer s')"
    using st lk rf t1 t2 t3 rd c
    by (auto simp: stage_transaction_def Let_def stager_journal_def within_drop split: prod.splits sum.splits option.splits)
qed

text \<open>The window a partition has open, and the invariant: no mark is above the open window.\<close>

definition open_id :: "'p engine_stager \<Rightarrow> dataset_id \<times> partition_id \<Rightarrow> nat option" where
  "open_id s k = map_option ow_id (bt_get (es_open_windows s) k)"

lemma open_id_journal [simp]: "open_id (stager_journal e s) = open_id s" "es_writer (stager_journal e s) = es_writer s"
  by (simp_all add: stager_journal_def open_id_def fun_eq_iff)

definition marks_upto :: "(dataset_id \<times> partition_id \<Rightarrow> nat option) \<Rightarrow> (dataset_id \<times> partition_id, window_id) btree \<Rightarrow> bool" where
  "marks_upto B m \<longleftrightarrow> (\<forall>k b v. B k = Some b \<longrightarrow> bt_get m k = Some v \<longrightarrow> v \<le> b)"

definition marks_from :: "(dataset_id \<times> partition_id, window_id) btree \<Rightarrow> (dataset_id \<times> partition_id, window_id) btree \<Rightarrow> bool" where
  "marks_from m0 m \<longleftrightarrow> (\<forall>k v. bt_get m0 k = Some v \<longrightarrow> (\<exists>v'\<ge>v. bt_get m k = Some v'))"

lemma raises_upto: "B (ds, p) = Some win \<Longrightarrow> raises (marks_upto B) ds p win"
  by (auto simp: raises_def marks_upto_def bt_upsert_def map_or_def split: option.splits)

lemma raises_from: "raises (marks_from m0) ds p win"
  unfolding raises_def marks_from_def bt_upsert_def
  by (auto simp: map_or_def split: option.splits) (metis max.coboundedI1 option.inject option.distinct(1))+

lemma raises_conj: "raises P ds p win \<Longrightarrow> raises Q ds p win \<Longrightarrow> raises (\<lambda>m. P m \<and> Q m) ds p win"
  by (auto simp: raises_def)

definition opens_ok :: "'p engine_stager \<Rightarrow> bool" where
  "opens_ok s \<longleftrightarrow> marks_upto (open_id s) (db_window_hw (hot s))"

lemma high_water_mirrored:
  "stager_ok s \<Longrightarrow> highest_window_id (es_writer s) ds p = bt_get (db_window_hw (hot s)) (ds, p)"
  using store_okD(4) by (fastforce simp: highest_window_id_def mirrors_def)

lemma current_window_opens:
  assumes ok: "stager_ok s" and opens: "opens_ok s" and cw: "current_window cfg tick ds p s = (win, s1)"
  shows "open_id s1 (ds, p) = Some win" and "marks_upto (open_id s1) (db_window_hw (hot s))"
    and "\<not> below_mark (es_writer s) (ds, p, win)"
proof -
  note hw = high_water_mirrored[OF ok]
  show win: "open_id s1 (ds, p) = Some win"
    using cw by (auto simp: current_window_def open_id_def Let_def split: option.splits if_splits)
  have other: "open_id s1 k = open_id s k" if "k \<noteq> (ds, p)" for k
    using cw that by (auto simp: current_window_def open_id_def Let_def split: option.splits if_splits)
  have le: "v \<le> win" if "bt_get (db_window_hw (hot s)) (ds, p) = Some v" for v
    using cw that hw[of ds p] opens
    by (auto simp: current_window_def open_id_def opens_ok_def marks_upto_def Let_def split: option.splits if_splits)
  show "marks_upto (open_id s1) (db_window_hw (hot s))"
    using other win le opens unfolding marks_upto_def opens_ok_def by (metis option.inject)
  show "\<not> below_mark (es_writer s) (ds, p, win)"
    using le hw by (auto simp: below_mark_def split: option.splits)
qed

text \<open>What one call of the stager does to the marks and the open windows, whatever it answers.\<close>

lemma stage_marks:
  assumes ok: "stager_ok s" and opens: "opens_ok s" and st: "stage_blocking E cfg tick now batch s = (r, s')"
  shows "opens_ok s' \<and> marks_from (db_window_hw (hot s)) (db_window_hw (hot s'))"
proof (cases "es_writer s' = es_writer s \<and> open_id s' = open_id s")
  case True
  then show ?thesis using opens by (auto simp: opens_ok_def marks_from_def)
next
  case False
  let ?s0 = "stager_journal TeAccept s" and ?ds = "dcb_dataset batch" and ?p = "batch_partition batch"
  have j: "es_writer ?s0 = es_writer s" "es_origin ?s0 = es_origin s" "open_id ?s0 = open_id s"
    by (simp_all add: stager_journal_def open_id_def fun_eq_iff)
  obtain win s1 where cw: "current_window cfg tick ?ds ?p ?s0 = (win, s1)" by fastforce
  have s1: "es_writer s1 = es_writer s" "es_origin s1 = es_origin s"
    using current_window_frame[of cfg tick ?ds ?p ?s0] cw j by auto
  have ok0: "stager_ok ?s0" "opens_ok ?s0" using ok opens j by (simp_all add: opens_ok_def)
  note open1 = current_window_opens[OF ok0 cw]
  let ?P = "\<lambda>m. marks_upto (open_id s1) m \<and> marks_from (db_window_hw (hot s)) m"
  have P: "conn_within ?P (es_writer s)"
    using open1(2) store_okD(1)[OF ok] by (simp add: conn_within_def marks_within_def marks_from_def j) 
  have raise: "raises ?P ?ds ?p win" by (intro raises_conj raises_upto raises_from open1(1))
  obtain rb wb where b: "begin_txn (env_faults E) (es_origin s) (es_writer s) = (rb, wb)" by fastforce
  have begun: "conn_within ?P wb" "rb = Inr t \<Longrightarrow> txn_within ?P t" for t
    using b within_begin[OF P, of "env_faults E"]
    by (cases "on_conn (db_begin (env_faults E)) (es_writer s)"; cases "fst (on_conn (db_begin (env_faults E)) (es_writer s))";
        auto simp: begin_txn_def)+
  obtain bs where later: "(case rb of Inl e \<Rightarrow> (Inl (StageBackend (FromEngine e)), s1\<lparr>es_writer := wb\<rparr>)
      | Inr t \<Rightarrow> stage_transaction E cfg now batch ?p win bs t s1) = (r, s')"
    using st False cw s1 b
    by (auto simp: stage_blocking_def Let_def split: sum.splits if_splits)
  have "conn_within ?P (es_writer s') \<and> es_open_windows s' = es_open_windows s1"
  proof (cases rb)
    case (Inl e)
    with later begun(1) show ?thesis by auto
  next
    case (Inr t)
    with later have "stage_transaction E cfg now batch ?p win bs t s1 = (r, s')" by simp
    from within_transaction[OF raise begun(2)[OF Inr] this] show ?thesis by simp
  qed
  then have "conn_within ?P (es_writer s') \<and> open_id s' = open_id s1" by (simp add: open_id_def fun_eq_iff)
  then show ?thesis by (simp add: conn_within_def marks_within_def opens_ok_def)
qed

section \<open>Runs of the daemon\<close>

text \<open>The runs of \<open>Hot_Life\<close> in which windows are closed by the roller only.\<close>

inductive daemon_run ::
  "(dataset_id \<times> partition_id \<times> 'p staged_row) list \<Rightarrow> (window_key \<times> origin_seq_range list) list \<Rightarrow> 'p hot_node \<Rightarrow> bool" where
  init: "daemon_run [] [] (Down db_empty)"
| boot: "daemon_run A D (Down db) \<Longrightarrow> staging_open F io fsync origin db = (Inr w, db')
    \<Longrightarrow> daemon_run A D (Up (stager_new w origin) (seal_new w))"
| boot_fails: "daemon_run A D (Down db) \<Longrightarrow> staging_open F io fsync origin db = (Inl e, db') \<Longrightarrow> daemon_run A D (Down db')"
| crash: "daemon_run A D (Up s f) \<Longrightarrow> daemon_run A D (Down (hot s))"
| stage: "daemon_run A D (Up s f) \<Longrightarrow> stage_blocking E cfg tick now batch s = (r, s')
    \<Longrightarrow> daemon_run (A @ acked_rows E batch r) D (Up s' (f\<lparr>ss_engine := es_writer s'\<rparr>))"
| roll: "daemon_run A D (Up s f) \<Longrightarrow> daemon_run A D (Up s (note_closed_windows (es_writer s) now_ms f))"
| seal: "daemon_run A D (Up s f) \<Longrightarrow> seal_blocking F Q req f = (r, f')
    \<Longrightarrow> daemon_run A D (Up (s\<lparr>es_writer := ss_engine f'\<rparr>) f')"
| drop: "daemon_run A D (Up s f) \<Longrightarrow> drop_blocking F Q ds pid win covered f = (r, f')
    \<Longrightarrow> daemon_run A (D @ [((ds, pid, win), covered)]) (Up (s\<lparr>es_writer := ss_engine f'\<rparr>) f')"
| checkpoint: "daemon_run A D (Up s f) \<Longrightarrow> checkpoint F fsync (es_writer s) = (r, w)
    \<Longrightarrow> daemon_run A D (Up (s\<lparr>es_writer := w\<rparr>) (f\<lparr>ss_engine := w\<rparr>))"

lemma hot_run_roll: "hot_run A D (Up s f) \<Longrightarrow> hot_run A D (Up s (fold (roll_one w now_ms) rs f))"
  by (induction rs arbitrary: f) (auto simp: roll_one_def intro: hot_run.close)

lemma daemon_run_hot: "daemon_run A D n \<Longrightarrow> hot_run A D n"
  by (induction rule: daemon_run.induct)
    (auto simp: note_closed_windows_fold intro: hot_run.intros hot_run_roll)

text \<open>Sealing and dropping note no close.\<close>

definition closes_in :: "window_key set \<Rightarrow> 'p seal_surface \<Rightarrow> bool" where
  "closes_in C f \<longleftrightarrow> {key. ss_closes f key \<noteq> None} \<subseteq> C"

lemma closes_and_then:
  assumes "closes_in C (snd x)" and "\<And>u f. closes_in C f \<Longrightarrow> closes_in C (snd (g u f))"
  shows "closes_in C (snd (and_then x g))"
  using assms by (cases x; cases "fst x") auto

lemma closes_engine_call: "closes_in C f \<Longrightarrow> closes_in C (snd (engine_call Q g f))"
  by (simp add: engine_call_def closes_in_def case_prod_beta)

lemma closes_forget: "closes_in C f \<Longrightarrow> closes_in C (forget_close key f)"
  by (auto simp: forget_close_def closes_in_def)

lemma closes_scratch: "closes_in C (f\<lparr>ss_scratch := x\<rparr>) = closes_in C f"
  by (simp add: closes_in_def)

lemmas closes_rules = closes_and_then closes_engine_call closes_forget

lemma seal_closes: "closes_in C f \<Longrightarrow> closes_in C (snd (seal_blocking F Q req f))"
  unfolding seal_blocking_def seal_reader_def seal_query_def
  by (auto intro!: closes_rules simp: Let_def closes_scratch split: option.splits prod.splits)

lemma drop_closes: "closes_in C f \<Longrightarrow> closes_in C (snd (drop_blocking F Q ds p win covered f))"
  unfolding drop_blocking_def seal_reader_def seal_query_def Let_def
  by (auto intro!: closes_rules split: option.splits)

fun roll_inv :: "'p hot_node \<Rightarrow> bool" where
  "roll_inv (Down db) \<longleftrightarrow> True"
| "roll_inv (Up s f) \<longleftrightarrow> opens_ok s \<and> closes_in {key. below_mark (es_writer s) key} f"

lemma below_mark_mono:
  assumes "stager_ok s" and "stager_ok s'" and "marks_from (db_window_hw (hot s)) (db_window_hw (hot s'))"
    and "below_mark (es_writer s) key"
  shows "below_mark (es_writer s') key"
  using assms(3,4) high_water_mirrored[OF assms(1)] high_water_mirrored[OF assms(2)]
  by (auto simp: below_mark_def marks_from_def split: prod.splits option.splits) (metis option.distinct(1), metis less_le_trans option.inject)

lemma roll_inv_frame:
  assumes "stager_ok s" and "stager_ok s'" and "db_window_hw (hot s') = db_window_hw (hot s)"
    and "es_open_windows s' = es_open_windows s" and "closes_in {key. below_mark (es_writer s) key} f'" and "opens_ok s"
  shows "roll_inv (Up s' f')"
proof -
  have "marks_from (db_window_hw (hot s)) (db_window_hw (hot s'))" by (simp add: assms(3) marks_from_def)
  from below_mark_mono[OF assms(1,2) this] assms(5) have "closes_in {key. below_mark (es_writer s') key} f'"
    unfolding closes_in_def by blast
  moreover have "open_id s' = open_id s" using assms(4) by (simp add: open_id_def fun_eq_iff)
  ultimately show ?thesis using assms(3,6) by (simp add: opens_ok_def)
qed

lemma hot_up: "hot_run A D (Up s f) \<Longrightarrow> stager_ok s \<and> ss_engine f = es_writer s"
  using hot_run_inv[of A D "Up s f"] by simp

lemma daemon_run_inv: "daemon_run A D n \<Longrightarrow> roll_inv n"
proof (induction rule: daemon_run.induct)
  case (boot A D db F io fsync origin w db')
  show ?case by (simp add: opens_ok_def marks_upto_def open_id_def stager_new_def bt_empty_def closes_in_def seal_new_def)
next
  case (stage A D s f E cfg tick now batch r s')
  have ok: "stager_ok s" "stager_ok s'"
    using hot_up daemon_run_hot[OF stage.hyps(1)] daemon_run_hot[OF daemon_run.stage[OF stage.hyps]] by blast+
  have m: "opens_ok s' \<and> marks_from (db_window_hw (hot s)) (db_window_hw (hot s'))"
    using stage_marks[OF ok(1) _ stage.hyps(2)] stage.IH by simp
  then show ?case using below_mark_mono[OF ok] stage.IH by (auto simp: closes_in_def)
next
  case (roll A D s f now_ms)
  then show ?case by (auto simp: closes_in_def rolled_closes split: if_splits)
next
  case (seal A D s f F Q req r f')
  have up: "stager_ok s \<and> ss_engine f = es_writer s" by (rule hot_up[OF daemon_run_hot[OF seal.hyps(1)]])
  have up': "stager_ok (s\<lparr>es_writer := ss_engine f'\<rparr>)"
    using hot_up[OF daemon_run_hot[OF daemon_run.seal[OF seal.hyps]]] by simp
  have "same_store (ss_engine f) (ss_engine f')" using seal_blocking_same[OF _ seal.hyps(2), of "es_origin s"] up by simp
  with up up' seal.IH seal_closes[of _ f F Q req] seal.hyps(2) show ?case
    by (intro roll_inv_frame[of s]) (auto dest: same_store_db)
next
  case (drop A D s f F Q ds pid win covered r f')
  have up: "stager_ok s \<and> ss_engine f = es_writer s" by (rule hot_up[OF daemon_run_hot[OF drop.hyps(1)]])
  have up': "stager_ok (s\<lparr>es_writer := ss_engine f'\<rparr>)"
    using hot_up[OF daemon_run_hot[OF daemon_run.drop[OF drop.hyps]]] by simp
  have so: "store_ok (es_origin s) (ss_engine f)" using up by simp
  from so drop.hyps(2) have "db_window_hw (sdb f') = db_window_hw (sdb f)"
    by (cases rule: drop_blocking_cases) (auto dest: same_surface_db)
  with up up' drop.IH drop_closes[of _ f F Q ds pid win covered] drop.hyps(2) show ?case
    by (intro roll_inv_frame[of s]) auto
next
  case (checkpoint A D s f F fsync r w)
  have up: "stager_ok s" using hot_up[OF daemon_run_hot[OF checkpoint.hyps(1)]] by simp
  have up': "stager_ok (s\<lparr>es_writer := w\<rparr>)"
    using hot_up[OF daemon_run_hot[OF daemon_run.checkpoint[OF checkpoint.hyps]]] by simp
  have "same_tables (hot s) (cn_db (w_conn w))" using checkpoint_ok[OF _ checkpoint.hyps(2), of "es_origin s"] up by auto
  with up up' checkpoint.IH show ?case
    by (intro roll_inv_frame[of s]) (auto simp: same_tables_iff closes_in_def)
qed simp_all

section \<open>Windows offered to the drain\<close>

definition offered :: "'p seal_surface \<Rightarrow> window_key set" where
  "offered f = (\<lambda>d. (dw_dataset d, dw_partition d, dw_window d)) ` set (drainable_blocking f)"

lemma offered_eq: "offered f = {key \<in> fst ` set (w_windows (ss_engine f)). ss_closes f key \<noteq> None}"
  by (force simp: offered_def drainable_blocking_def list_windows_def closed_at_def map_filter_def split: option.splits)

lemma registered_keys:
  "stager_ok s \<Longrightarrow> key \<in> fst ` set (w_windows (es_writer s)) \<longleftrightarrow> bt_get (db_windows (hot s)) key \<noteq> None"
  using store_okD(2,4)[of "es_origin s" "es_writer s"] by (auto simp: mirrors_def windows_ok_def bt_get_None)



text \<open>Two batches, more than a window's length apart: the second opens window 1, and window 0 is offered.\<close>

definition roll_env :: "string stage_env" where
  "roll_env = demo_env\<lparr>env_to_json := (\<lambda>_. Inr ''J'')\<rparr>"

definition roll_batch :: decoded_batch where
  "roll_batch = demo_batch\<lparr>dcb_idempotency_key := Some ''l''\<rparr>"

abbreviation roll_pid :: partition_id where
  "roll_pid \<equiv> from_tenant_shard (TenantId ''t'') 0"

definition roll_table :: "nat \<Rightarrow> u64 \<Rightarrow> string \<times> string hot_table" where
  "roll_table win first = (window_table_name (DatasetId ''d'') roll_pid win,
     \<lparr>tb_columns = quote_ident ''k'' @ '' VARCHAR NOT NULL, origin VARCHAR NOT NULL, seq UBIGINT NOT NULL'',
      tb_rows = augment_batch [''a'', ''b''] (NodeId ''n1'') first\<rparr>)"

definition roll_window :: "nat \<Rightarrow> window_key \<times> window_meta" where
  "roll_window win = ((DatasetId ''d'', roll_pid, win),
     \<lparr>wme_table = window_table_name (DatasetId ''d'') roll_pid win, wme_bytes = 2\<rparr>)"

definition roll_dedup :: "string \<Rightarrow> (tenant_id \<times> string) \<times> dedup_row" where
  "roll_dedup key = ((TenantId ''t'', key), \<lparr>dd_acked = True, dd_outcome = ''J'', dd_created_wall_ms = 1000000\<rparr>)"

definition roll_db :: "(window_key \<times> window_meta) list \<Rightarrow> ((tenant_id \<times> string) \<times> dedup_row) list \<Rightarrow> nat
    \<Rightarrow> (string \<times> string hot_table) list \<Rightarrow> string hot_db" where
  "roll_db windows dedup hw tables = \<lparr>db_wal_epoch = 1, db_applied = [((roll_pid, NodeId ''n1''), 2)],
     db_windows = windows, db_dedup = dedup, db_window_hw = [((DatasetId ''d'', roll_pid), hw)], db_tables = tables\<rparr>"

abbreviation roll_db0 :: "string hot_db" where
  "roll_db0 \<equiv> roll_db [roll_window 0] [roll_dedup ''t:k''] 0 [roll_table 0 1]"

definition roll_writer :: "nat \<Rightarrow> string hot_db option \<Rightarrow> string writer_inner" where
  "roll_writer calls txn = \<lparr>w_conn = \<lparr>cn_db = roll_db0, cn_txn = txn, cn_calls = calls\<rparr>, w_applied = [(roll_pid, 2)],
     w_windows = [roll_window 0], w_window_hw = [((DatasetId ''d'', roll_pid), 0)], w_staged_bytes = 2\<rparr>"

lemma demo_s1_eq: "demo_s1 = \<lparr>es_writer = roll_writer 18 None, es_origin = NodeId ''n1'',
    es_open_windows = [((DatasetId ''d'', roll_pid), \<lparr>ow_id = 0, ow_opened_at = 0\<rparr>)], es_cap_evictions = 0,
    es_trace = [TeAccept, TeStageCommit]\<rparr>"
  unfolding demo_s1_def demo_s0_def demo_w0_eq
  by (simp add: open_defs call_defs stage_defs demo_admits demo_columns demo_defs roll_writer_def roll_db_def roll_window_def
      roll_dedup_def roll_table_def)

definition roll_txn :: "nat \<Rightarrow> string hot_db \<Rightarrow> (partition_id, u64 \<times> u64) btree \<Rightarrow> (window_key \<times> string) list
    \<Rightarrow> (window_key, u64) btree \<Rightarrow> string stage_txn" where
  "roll_txn calls db pa pw pb = \<lparr>tx_writer = roll_writer calls (Some db), tx_origin = NodeId ''n1'',
     tx_pending_applied = pa, tx_pending_windows = pw, tx_pending_bytes = pb\<rparr>"

lemmas roll_defs = roll_txn_def roll_writer_def roll_db_def roll_window_def roll_dedup_def roll_table_def

lemma roll_names:
  "window_table_name (DatasetId ''d'') roll_pid 0 < window_table_name (DatasetId ''d'') roll_pid (Suc 0)"
  "(TenantId ''t'', ''t:k'') < (TenantId ''t'', ''t:l'')"
  "\<not> (TenantId ''t'', ''t:l'') < (TenantId ''t'', ''t:k'')"
  "\<not> window_table_name (DatasetId ''d'') roll_pid (Suc 0) < window_table_name (DatasetId ''d'') roll_pid 0"
  "(DatasetId ''d'', roll_pid, 0::nat) < (DatasetId ''d'', roll_pid, Suc 0)"
  "\<not> (DatasetId ''d'', roll_pid, Suc 0) < (DatasetId ''d'', roll_pid, 0::nat)"
  by code_simp+

lemma roll_begin: "begin_txn no_faults (NodeId ''n1'') (roll_writer 18 None) = (Inr (roll_txn 19 roll_db0 [] [] []), roll_writer 19 (Some roll_db0))"
  by (simp add: call_defs stage_defs roll_defs bt_empty_def)

lemma roll_lookup: "dedup_lookup no_faults (TenantId ''t'') ''t:l'' 940000 (roll_txn 19 roll_db0 [] [] []) = (Inr None, roll_txn 20 roll_db0 [] [] [])"
  by (simp add: call_defs stage_defs roll_defs)

abbreviation roll_db1 :: "string hot_db" where
  "roll_db1 \<equiv> roll_db [roll_window 0, roll_window 1] [roll_dedup ''t:k''] 1 [roll_table 0 1, roll_table 1 3]"
abbreviation roll_db2 :: "string hot_db" where
  "roll_db2 \<equiv> roll_db [roll_window 0, roll_window 1] [roll_dedup ''t:k'', roll_dedup ''t:l''] 1 [roll_table 0 1, roll_table 1 3]"
abbreviation roll_txn1 :: "nat \<Rightarrow> string hot_db \<Rightarrow> string stage_txn" where
  "roll_txn1 calls db \<equiv> roll_txn calls db [(roll_pid, 3, 4)] [((DatasetId ''d'', roll_pid, 1), fst (roll_table 1 3))]
  [((DatasetId ''d'', roll_pid, 1), 2)]"

lemma roll_append: "append_batch no_faults (DatasetId ''d'') roll_pid (Suc 0) \<lparr>rb_fields = [\<lparr>af_name = ''k'', af_type = AUtf8, af_nullable = False\<rparr>],
      rb_rows = [''a'', ''b''], rb_column_sizes = [Inr 2]\<rparr> (roll_txn 20 roll_db0 [] [] []) = (Inr (), roll_txn1 25 roll_db1)"
  by (simp add: call_defs stage_defs open_defs demo_columns roll_names roll_defs)

lemma roll_insert: "dedup_insert no_faults (TenantId ''t'') ''t:l'' True ''J'' 1000000 (roll_txn1 25 roll_db1) = (Inr (), roll_txn1 26 roll_db2)"
  by (simp add: call_defs stage_defs roll_names roll_defs)

lemma roll_evict: "dedup_evict no_faults 1000000 60000 100 (roll_txn1 26 roll_db2) = (Inr 0, roll_txn1 28 roll_db2)"
  by (simp add: call_defs stage_defs roll_names roll_defs)

lemma roll_commit: "cn_db (w_conn (snd (commit_txn no_faults (roll_txn1 28 roll_db2)))) = roll_db2\<lparr>db_applied := [((roll_pid, NodeId ''n1''), 4)]\<rparr>
   \<and> fst (commit_txn no_faults (roll_txn1 28 roll_db2)) \<noteq> Inl e"
  by (simp add: call_defs stage_defs roll_names roll_defs)

definition roll_s2 :: "string engine_stager" where
  "roll_s2 = snd (stage_blocking roll_env demo_cfg 5000 1000000 roll_batch demo_s1)"

lemma roll_s2_hot: "hot roll_s2 = roll_db2\<lparr>db_applied := [((roll_pid, NodeId ''n1''), 4)]\<rparr>"
proof -
  have cfg: "stager_admit demo_cfg demo_s1 = Inr ()"
    by (simp add: stager_admit_def demo_s1_eq roll_writer_def demo_cfg_def demo_admits)
  have cw: "current_window demo_cfg 5000 (DatasetId ''d'') roll_pid (stager_journal TeAccept demo_s1) = (Suc 0,
      (stager_journal TeAccept demo_s1)\<lparr>es_open_windows := [((DatasetId ''d'', roll_pid), \<lparr>ow_id = Suc 0, ow_opened_at = 5000\<rparr>)]\<rparr>)"
    by (simp add: current_window_def stager_journal_def demo_s1_eq demo_cfg_def highest_window_id_def roll_writer_def)
  have fresh: "stage_fresh roll_env demo_cfg 1000000 roll_batch roll_pid (Suc 0) [\<lparr>rb_fields = [\<lparr>af_name = ''k'', af_type = AUtf8, af_nullable = False\<rparr>],
      rb_rows = [''a'', ''b''], rb_column_sizes = [Inr 2]\<rparr>] (roll_txn 20 roll_db0 [] [] []) = (Inr 0, roll_txn1 28 roll_db2)"
    using roll_append roll_insert roll_evict
    by (simp add: stage_fresh_def roll_env_def roll_batch_def demo_env_def demo_batch_def demo_cfg_def dedup_key_of_def at_rf_v01_def)
  obtain cov w where c: "commit_txn no_faults (roll_txn1 28 roll_db2) = (Inr cov, w)"
    "cn_db (w_conn w) = roll_db2\<lparr>db_applied := [((roll_pid, NodeId ''n1''), 4)]\<rparr>"
    using roll_commit by (metis prod.collapse sum.exhaust)
  have sub: "i64_saturating_sub 1000000 (cfg_dedup_ttl_ms demo_cfg) = 940000"
    by (simp add: i64_saturating_sub_def i64_min_def i64_max_def demo_cfg_def)
  have batch: "dcb_dataset roll_batch = DatasetId ''d''" "dcb_tenant roll_batch = TenantId ''t''" "dedup_key_of roll_env roll_batch = ''t:l''"
    by (simp_all add: roll_batch_def demo_batch_def dedup_key_of_def)
  have env: "env_faults roll_env = no_faults" "read_batches roll_env x = Inr [\<lparr>rb_fields = [\<lparr>af_name = ''k'', af_type = AUtf8,
      af_nullable = False\<rparr>], rb_rows = [''a'', ''b''], rb_column_sizes = [Inr 2]\<rparr>]" for x
    by (simp_all add: roll_env_def demo_env_def read_batches_def)
  have s1: "es_writer demo_s1 = roll_writer 18 None" "es_origin demo_s1 = NodeId ''n1''" by (simp_all add: demo_s1_eq)
  let ?s = "(stager_journal TeAccept demo_s1)\<lparr>es_open_windows := [((DatasetId ''d'', roll_pid), \<lparr>ow_id = Suc 0, ow_opened_at = 5000\<rparr>)]\<rparr>"
  have "stage_blocking roll_env demo_cfg 5000 1000000 roll_batch demo_s1 =
      stage_transaction roll_env demo_cfg 1000000 roll_batch roll_pid (Suc 0) [\<lparr>rb_fields = [\<lparr>af_name = ''k'', af_type = AUtf8,
      af_nullable = False\<rparr>], rb_rows = [''a'', ''b''], rb_column_sizes = [Inr 2]\<rparr>] (roll_txn 19 roll_db0 [] [] []) ?s"
    using roll_begin by (simp add: stage_blocking_def cfg env batch cw[unfolded stager_journal_def] s1 stager_journal_def Let_def)
  also have "hot (snd \<dots>) = cn_db (w_conn w)"
    using roll_lookup fresh c(1) by (simp add: stage_transaction_def env batch sub stager_journal_def)
  finally show ?thesis by (simp add: roll_s2_def c(2))
qed

lemma roll_run: "\<exists>A f. daemon_run A [] (Up roll_s2 f)"
proof -
  have "daemon_run [] [] (Up demo_s0 (seal_new demo_w0))"
    unfolding demo_s0_def demo_w0_def by (rule daemon_run.boot[OF daemon_run.init open_succeeds])
  from daemon_run.stage[OF this demo_stage] have "\<exists>A f. daemon_run A [] (Up demo_s1 f)" by blast
  then obtain A f where run: "daemon_run A [] (Up demo_s1 f)" by blast
  let ?st = "stage_blocking roll_env demo_cfg 5000 1000000 roll_batch demo_s1"
  have "?st = (fst ?st, roll_s2)" by (simp add: roll_s2_def)
  from daemon_run.stage[OF run this] show ?thesis by blast
qed


end
