(* ===== verification/Daemon_Core.thy ===== *)
theory Daemon_Core
  imports Daemon_Boot Window_Roll Accept_Otlp
begin

text \<open>
  The running daemon of \<open>crates/duckspout-daemon/src/wiring.rs\<close>: the lake table it creates at boot, one pass of its drain loop and
  the status it discloses. The drain loop reaches the components through the coordinator's ports; its state is any \<open>'s\<close> that
  contains the seal surface, and \<open>at_surface\<close> applies an operation to it. The warnings it logs have no effect and are left out.
\<close>

section \<open>The lake table\<close>

fun arrow_logical_type :: "arrow_type \<Rightarrow> (boot_error, string) result" where
  "arrow_logical_type ABoolean = Inr ''boolean''"
| "arrow_logical_type AInt8 = Inr ''int8''"
| "arrow_logical_type AInt16 = Inr ''int16''"
| "arrow_logical_type AInt32 = Inr ''int32''"
| "arrow_logical_type AInt64 = Inr ''int64''"
| "arrow_logical_type AUInt8 = Inr ''uint8''"
| "arrow_logical_type AUInt16 = Inr ''uint16''"
| "arrow_logical_type AUInt32 = Inr ''uint32''"
| "arrow_logical_type AUInt64 = Inr ''uint64''"
| "arrow_logical_type AFloat32 = Inr ''float32''"
| "arrow_logical_type AFloat64 = Inr ''float64''"
| "arrow_logical_type AUtf8 = Inr ''utf8''"
| "arrow_logical_type ABinary = Inr ''binary''"
| "arrow_logical_type ATimestampMicros = Inr ''timestamp_micros''"
| "arrow_logical_type (AOther other) = Inl (UnsupportedSchemaColumn other)"

fun column_specs :: "arrow_field list \<Rightarrow> (boot_error, column_spec list) result" where
  "column_specs [] = Inr []"
| "column_specs (f # fs) =
     (case arrow_logical_type (af_type f) of Inl e \<Rightarrow> Inl e | Inr t \<Rightarrow>
     (case column_specs fs of Inl e \<Rightarrow> Inl e | Inr cols \<Rightarrow> Inr (\<lparr>col_name = af_name f, col_logical_type = t\<rparr> # cols)))"

definition system_columns :: "column_spec list" where
  "system_columns = [\<lparr>col_name = ''origin'', col_logical_type = ''utf8''\<rparr>, \<lparr>col_name = ''seq'', col_logical_type = ''uint64''\<rparr>]"

definition ensure_otlp_logs_table :: "lake_faults \<Rightarrow> lake_conn \<Rightarrow> (boot_error, unit) result \<times> lake_conn" where
  "ensure_otlp_logs_table F c =
     (case column_specs logs_schema of
        Inl e \<Rightarrow> (Inl e, c)
      | Inr columns \<Rightarrow>
          err_into BootLake (evolve_schema_blocking F
            \<lparr>se_dataset = DatasetId ''otlp_logs'', se_columns = columns @ system_columns\<rparr> c))"

text \<open>The lake's type of a column is the type the hot store stages it under; the columns outside the lattice are refused by both.\<close>

lemma logical_type_agrees:
  "map_option Inr (staging_sql_type t) = (case arrow_logical_type t of Inl _ \<Rightarrow> None | Inr l \<Rightarrow> Some (sql_type l))"
  by (cases t) (simp_all add: sql_type_def)

text \<open>The columns of a hot table with their types, as its definition text lists them.\<close>

definition hot_columns :: "arrow_field list \<Rightarrow> (string \<times> string) list" where
  "hot_columns fs = map (\<lambda>f. (af_name f, the (staging_sql_type (af_type f)))) fs @ [(''origin'', ''VARCHAR''), (''seq'', ''UBIGINT'')]"

lemma column_specs_types:
  assumes "list_all (\<lambda>f. staging_sql_type (af_type f) \<noteq> None) fs"
  shows "\<exists>cols. column_specs fs = Inr cols \<and> column_types (cols @ system_columns) = Inr (hot_columns fs)"
  using assms
proof (induction fs)
  case Nil
  then show ?case by (simp add: hot_columns_def system_columns_def sql_type_def)
next
  case (Cons f fs)
  then obtain cols ty where "column_specs fs = Inr cols" "column_types (cols @ system_columns) = Inr (hot_columns fs)"
    "staging_sql_type (af_type f) = Some ty" by auto
  moreover have "\<exists>l. arrow_logical_type (af_type f) = Inr l \<and> sql_type l = Inr ty"
    using logical_type_agrees[of "af_type f"] calculation(3) by (auto split: sum.splits)
  ultimately show ?case by (auto simp: hot_columns_def)
qed

lemma column_defs_text:
  assumes "list_all (\<lambda>f. staging_sql_type (af_type f) \<noteq> None \<and> \<not> eq_ignore_ascii_case (af_name f) ''origin''
      \<and> \<not> eq_ignore_ascii_case (af_name f) ''seq'') fs"
  shows "column_defs fs = Inr (concat (map (\<lambda>f. quote_ident (af_name f) @ '' '' @ the (staging_sql_type (af_type f))
      @ (if af_nullable f then '''' else '' NOT NULL'') @ '', '') fs))"
  using assms by (induction fs) auto

lemma logs_schema_supported:
  "list_all (\<lambda>f. staging_sql_type (af_type f) \<noteq> None \<and> \<not> eq_ignore_ascii_case (af_name f) ''origin''
      \<and> \<not> eq_ignore_ascii_case (af_name f) ''seq'') logs_schema"
  by code_simp


section \<open>The drain loop\<close>

record drain_tick_report =
  tr_eligible :: nat
  tr_committed :: nat
  tr_requeued :: nat

definition report_default :: drain_tick_report where
  "report_default = \<lparr>tr_eligible = 0, tr_committed = 0, tr_requeued = 0\<rparr>"

definition otlp_logs_drain_plan :: dataset_drain_plan where
  "otlp_logs_drain_plan =
     from_declaration \<lparr>decl_dataset = DatasetId ''otlp_logs'', decl_kind = Event, decl_key_cols = [], decl_sort_key = None\<rparr> ''ts''"

definition drain_plan_for :: "dataset_id \<Rightarrow> dataset_drain_plan option" where
  "drain_plan_for dataset = (if dataset_str dataset = ''otlp_logs'' then Some otlp_logs_drain_plan else None)"

fun drain_loop ::
  "'s drain_ports \<Rightarrow> drainable_window list \<Rightarrow> drain_tick_report \<Rightarrow> bool \<Rightarrow> 's \<Rightarrow> (drain_tick_report \<times> bool) \<times> 's" where
  "drain_loop P [] report stalled s = ((report, stalled), s)"
| "drain_loop P (w # ws) report stalled s =
     (case drain_plan_for (dw_dataset w) of
        None \<Rightarrow> drain_loop P ws report stalled s
      | Some plan \<Rightarrow>
          (case drain_window P (dw_dataset w) (dw_partition w) (dw_window w) plan s of
             (Inr (DrainCommitted _), s) \<Rightarrow> drain_loop P ws (report\<lparr>tr_committed := tr_committed report + 1\<rparr>) stalled s
           | (Inr AlreadyCommitted, s) \<Rightarrow> drain_loop P ws (report\<lparr>tr_committed := tr_committed report + 1\<rparr>) stalled s
           | (Inr (Requeue reason), s) \<Rightarrow>
               drain_loop P ws (report\<lparr>tr_requeued := tr_requeued report + 1\<rparr>) (stalled \<or> reason = CatalogUnavailable) s
           | (Inl _, s) \<Rightarrow> drain_loop P ws (report\<lparr>tr_requeued := tr_requeued report + 1\<rparr>) stalled s))"

text \<open>One pass: the report, the flag \<open>drain_stalled\<close> as the pass leaves it, and the state.\<close>

definition drain_once ::
  "'s drain_ports \<Rightarrow> drain_config \<Rightarrow> (('p seal_surface \<Rightarrow> 'p seal_surface) \<Rightarrow> 's \<Rightarrow> 's) \<Rightarrow> 's
     \<Rightarrow> (drain_tick_report \<times> bool) \<times> 's" where
  "drain_once P config at_surface s =
     (case p_wall_unix_ms P s of (now_ms, s) \<Rightarrow>
      case eligible_windows P config (at_surface (\<lambda>f. note_closed_windows (ss_engine f) now_ms f) s) of
        (Inl _, s) \<Rightarrow> ((report_default, True), s)
      | (Inr windows, s) \<Rightarrow> drain_loop P windows (report_default\<lparr>tr_eligible := length windows\<rparr>) False s)"

section \<open>The status\<close>

record status_snapshot =
  sn_node_id :: node_id
  sn_ready :: bool
  sn_status :: node_status
  sn_drain_stalled :: bool
  sn_watermarks :: "watermark_row list"

record 'p daemon_core =
  co_node_id :: node_id
  co_stager :: "'p engine_stager"
  co_ledger :: watermark_ledger
  co_drain_stalled :: bool
  co_ready :: bool

definition status_snapshot_of :: "stager_config \<Rightarrow> 'p daemon_core \<Rightarrow> status_snapshot" where
  "status_snapshot_of cfg c =
     \<lparr>sn_node_id = co_node_id c, sn_ready = co_ready c, sn_status = stager_status cfg (co_drain_stalled c) (co_stager c),
      sn_drain_stalled = co_drain_stalled c, sn_watermarks = ledger_rows (co_ledger c)\<rparr>"

section \<open>What a pass does\<close>

text \<open>The answers of the coordinator, window by window.\<close>

fun drain_answers :: "'s drain_ports \<Rightarrow> drainable_window list \<Rightarrow> 's \<Rightarrow> (drain_error, drain_outcome) result list \<times> 's" where
  "drain_answers P [] s = ([], s)"
| "drain_answers P (w # ws) s =
     (case drain_window P (dw_dataset w) (dw_partition w) (dw_window w) otlp_logs_drain_plan s of
        (r, s) \<Rightarrow> (case drain_answers P ws s of (rs, s) \<Rightarrow> (r # rs, s)))"

definition settled_answer :: "(drain_error, drain_outcome) result \<Rightarrow> bool" where
  "settled_answer r = (case r of Inr (DrainCommitted _) \<Rightarrow> True | Inr AlreadyCommitted \<Rightarrow> True | _ \<Rightarrow> False)"

definition our_windows :: "drainable_window list \<Rightarrow> drainable_window list" where
  "our_windows ws = filter (\<lambda>w. dw_dataset w = DatasetId ''otlp_logs'') ws"

lemma drain_plan_for_eq: "drain_plan_for d = (if d = DatasetId ''otlp_logs'' then Some otlp_logs_drain_plan else None)"
  by (cases d) (simp add: drain_plan_for_def)

lemma drain_answers_length: "length (fst (drain_answers P ws s)) = length ws"
  by (induction ws arbitrary: s) (simp_all add: case_prod_beta)

lemma drain_loop_answers:
  "drain_loop P ws report stalled s =
     (case drain_answers P (our_windows ws) s of (rs, s') \<Rightarrow>
        ((report\<lparr>tr_committed := tr_committed report + length (filter settled_answer rs),
                 tr_requeued := tr_requeued report + length (filter (\<lambda>r. \<not> settled_answer r) rs)\<rparr>,
          stalled \<or> Inr (Requeue CatalogUnavailable) \<in> set rs), s'))"
proof (induction ws arbitrary: report stalled s)
  case Nil
  then show ?case by (simp add: our_windows_def)
next
  case (Cons w ws)
  show ?case
  proof (cases "dw_dataset w = DatasetId ''otlp_logs''")
    case False
    then show ?thesis using Cons by (simp add: drain_plan_for_eq our_windows_def)
  next
    case True
    let ?d = "drain_window P (dw_dataset w) (dw_partition w) (dw_window w) otlp_logs_drain_plan s"
    obtain r s1 where d: "?d = (r, s1)" by (cases ?d)
    obtain rs s2 where a: "drain_answers P (our_windows ws) s1 = (rs, s2)" by fastforce
    have "our_windows (w # ws) = w # our_windows ws" using True by (simp add: our_windows_def)
    then show ?thesis
      using d a True Cons.IH by (auto simp: drain_plan_for_eq settled_answer_def split: sum.splits drain_outcome.splits)
  qed
qed

text \<open>
  A pass of the drain loop tells what happened. Every eligible window of \<open>otlp_logs\<close> is given to the coordinator once, in the
  order of the enumeration, whatever the earlier ones answered; the report counts how many were settled and how many go back
  to the queue, and no window is in both counts or in neither. The flag \<open>drain_stalled\<close> is raised exactly when the
  enumeration failed or the catalog was unavailable for some window, and lowered otherwise.
\<close>
theorem drain_pass_reported:
  "case drain_once P config at_surface s of ((report, stalled), s') \<Rightarrow>
     (case eligible_windows P config (at_surface (\<lambda>f. note_closed_windows (ss_engine f) (fst (p_wall_unix_ms P s)) f)
         (snd (p_wall_unix_ms P s))) of
        (Inl _, s1) \<Rightarrow> s' = s1 \<and> stalled \<and> report = report_default
      | (Inr windows, s1) \<Rightarrow> (\<exists>answers. drain_answers P (our_windows windows) s1 = (answers, s')
          \<and> tr_eligible report = length windows
          \<and> tr_committed report = length (filter settled_answer answers)
          \<and> tr_committed report + tr_requeued report = length (our_windows windows)
          \<and> (stalled \<longleftrightarrow> Inr (Requeue CatalogUnavailable) \<in> set answers)))"
proof -
  have lens: "length (filter settled_answer rs) + length (filter (\<lambda>r. \<not> settled_answer r) rs) = length ws"
    if "drain_answers P ws x = (rs, y)" for ws rs x y
    using that drain_answers_length[of P ws x] sum_length_filter_compl[of settled_answer rs] by simp
  obtain now_ms s0 where w: "p_wall_unix_ms P s = (now_ms, s0)" by (cases "p_wall_unix_ms P s")
  let ?e = "eligible_windows P config (at_surface (\<lambda>f. note_closed_windows (ss_engine f) now_ms f) s0)"
  obtain r s1 where e: "?e = (r, s1)" by (cases ?e)
  show ?thesis
  proof (cases r)
    case (Inl x)
    then show ?thesis using w e by (simp add: drain_once_def)
  next
    case (Inr windows)
    obtain rs s2 where a: "drain_answers P (our_windows windows) s1 = (rs, s2)" by fastforce
    show ?thesis using w e Inr a lens[OF a] by (simp add: drain_once_def drain_loop_answers report_default_def)
  qed
qed

end
