(* ===== verification/Daemon_Config.thy ===== *)
theory Daemon_Config
  imports Placement Lake_Open
begin

text \<open>
  \<open>crates/duckspout-daemon/src\<close>: what the daemon computes from its configuration and its host. Durations, the memory
  budget and the node's identity (\<open>system.rs\<close>), the defaults of the settings (\<open>config.rs\<close>), the seed peers and the lake's
  location (\<open>wiring.rs\<close>). Files and environment variables are read through parameters. Text is
  bytes: \<open>trim\<close> takes off ASCII white space. A duration is its number of seconds.
\<close>

section \<open>Text\<close>

definition is_space :: "char \<Rightarrow> bool" where
  "is_space c \<longleftrightarrow> c \<in> {CHR '' '', CHR 0x09, CHR 0x0A, CHR 0x0B, CHR 0x0C, CHR 0x0D}"

definition str_trim :: "string \<Rightarrow> string" where
  "str_trim s = rev (dropWhile is_space (rev (dropWhile is_space s)))"

definition strip_suffix_char :: "char \<Rightarrow> string \<Rightarrow> string option" where
  "strip_suffix_char c s = (if s \<noteq> [] \<and> last s = c then Some (butlast s) else None)"

definition strip_prefix :: "string \<Rightarrow> string \<Rightarrow> string option" where
  "strip_prefix pre s = (if starts_with s pre then Some (drop (length pre) s) else None)"

lemma starts_with_iff: "starts_with s pre \<longleftrightarrow> (\<exists>t. s = pre @ t)"
proof
  assume "starts_with s pre"
  then have "s = pre @ drop (length pre) s" unfolding starts_with_def by (metis append_take_drop_id)
  then show "\<exists>t. s = pre @ t" ..
qed (auto simp: starts_with_def)

lemma strip_prefix_Some: "strip_prefix pre s = Some t \<longleftrightarrow> s = pre @ t"
  by (auto simp: strip_prefix_def starts_with_iff)

text \<open>\<open>str::split_once\<close> and \<open>str::rsplit_once\<close> of a character.\<close>

definition split_once :: "char \<Rightarrow> string \<Rightarrow> (string \<times> string) option" where
  "split_once c s =
     (if c \<in> set s then Some (takeWhile (\<lambda>d. d \<noteq> c) s, tl (dropWhile (\<lambda>d. d \<noteq> c) s)) else None)"

definition rsplit_once :: "char \<Rightarrow> string \<Rightarrow> (string \<times> string) option" where
  "rsplit_once c s =
     map_option (\<lambda>(after, before). (rev before, rev after)) (split_once c (rev s))"

text \<open>\<open>str::parse::<u64>\<close>: an optional plus sign, then digits, within the range.\<close>

definition parse_u64 :: "string \<Rightarrow> nat option" where
  "parse_u64 s =
     (let digits = (case s of c # t \<Rightarrow> if c = CHR ''+'' then t else s | [] \<Rightarrow> s) in
      if digits \<noteq> [] \<and> list_all is_digit digits \<and> read_nat digits < 2 ^ 64 then Some (read_nat digits) else None)"

section \<open>Durations\<close>

definition u64_nat_saturating_mul :: "nat \<Rightarrow> nat \<Rightarrow> nat" where
  "u64_nat_saturating_mul a b = min (a * b) (2 ^ 64 - 1)"

definition parse_duration :: "string \<Rightarrow> (string, nat) result" where
  "parse_duration raw =
     (let parsed = (case strip_suffix_char CHR ''h'' raw of
          Some digits \<Rightarrow> Some (digits, 3600)
        | None \<Rightarrow> (case strip_suffix_char CHR ''m'' raw of
              Some digits \<Rightarrow> Some (digits, 60)
            | None \<Rightarrow> (case strip_suffix_char CHR ''s'' raw of
                  Some digits \<Rightarrow> Some (digits, 1)
                | None \<Rightarrow> None)))
      in case parsed of
           None \<Rightarrow> Inl raw
         | Some (digits, unit_secs) \<Rightarrow>
             (case parse_u64 digits of
                None \<Rightarrow> Inl raw
              | Some amount \<Rightarrow> Inr (u64_nat_saturating_mul amount unit_secs)))"

definition duration_nanos_saturating :: "nat \<Rightarrow> u64" where
  "duration_nanos_saturating secs =
     (let nanos = secs * 1000000000 in if nanos < 2 ^ 64 then of_nat nanos else u64_max)"

definition duration_millis_saturating :: "nat \<Rightarrow> int" where
  "duration_millis_saturating secs =
     (let millis = int secs * 1000 in if millis \<le> i64_max then millis else i64_max)"

lemma parse_u64_show: "n < 2 ^ 64 \<Longrightarrow> parse_u64 (show_nat n) = Some n"
proof -
  assume "n < 2 ^ 64"
  moreover have "list_all is_digit (show_nat n)" using show_nat_digits by (auto simp: list_all_iff)
  moreover have "hd (show_nat n) \<noteq> CHR ''+''"
    using show_nat_digits[of "hd (show_nat n)" n] by (auto simp: is_digit_def)
  ultimately show ?thesis
    using read_show_nat[of n] by (cases "show_nat n") (auto simp: parse_u64_def Let_def simp del: read_show_nat)
qed

text \<open>
  A duration setting means what it says: a decimal count with the unit \<open>s\<close>, \<open>m\<close> or \<open>h\<close> parses to that many
  seconds, minutes or hours, held at the 64-bit maximum instead of wrapping; every other last letter is refused.
\<close>
theorem parse_duration_spec:
  assumes "n < 2 ^ 64"
  shows "parse_duration (show_nat n @ [unit]) =
    (if unit = CHR ''h'' then Inr (min (n * 3600) (2 ^ 64 - 1))
     else if unit = CHR ''m'' then Inr (min (n * 60) (2 ^ 64 - 1))
     else if unit = CHR ''s'' then Inr n
     else Inl (show_nat n @ [unit]))"
  using assms
  by (simp add: parse_duration_def strip_suffix_char_def parse_u64_show u64_nat_saturating_mul_def Let_def)

theorem parse_duration_spec_witness: "parse_duration ''30m'' = Inr 1800"
proof -
  have "show_nat 30 = ''30''" by code_simp
  then show ?thesis using parse_duration_spec[of 30 "CHR ''m''"] by simp
qed

section \<open>The host\<close>

text \<open>Reading a file may fail; \<open>None\<close> is a failed read.\<close>

type_synonym host_files = "string \<Rightarrow> string option"
type_synonym host_env = "string \<Rightarrow> string option"

definition nonempty :: "string option \<Rightarrow> string option" where
  "nonempty s = (case s of Some t \<Rightarrow> if t = [] then None else s | None \<Rightarrow> None)"

definition or_else :: "'a option \<Rightarrow> 'a option \<Rightarrow> 'a option" where
  "or_else a b = (case a of None \<Rightarrow> b | Some _ \<Rightarrow> a)"

definition detect_node_id :: "host_env \<Rightarrow> host_files \<Rightarrow> string \<Rightarrow> node_id" where
  "detect_node_id env files incarnation =
     (let host = nonempty (or_else (or_else
            (nonempty (env ''DUCKSPOUT_NODE_HOSTNAME''))
            (nonempty (map_option str_trim (files ''/proc/sys/kernel/hostname''))))
            (env ''HOSTNAME''))
      in NodeId (map_or ''duckspout-node'' id host @ ''/'' @ incarnation))"

fun trim_end_matches :: "string \<Rightarrow> string \<Rightarrow> nat \<Rightarrow> string" where
  "trim_end_matches pat s 0 = s"
| "trim_end_matches pat s (Suc fuel) =
     (if pat \<noteq> [] \<and> length pat \<le> length s \<and> drop (length s - length pat) s = pat
      then trim_end_matches pat (take (length s - length pat) s) fuel else s)"

fun mem_total :: "string list \<Rightarrow> (string, nat) result" where
  "mem_total [] = Inl ''no memory budget source readable (cgroup v2, cgroup v1, /proc/meminfo)''"
| "mem_total (l # ls) =
     (case strip_prefix ''MemTotal:'' l of
        Some rest \<Rightarrow>
          (let body = str_trim rest in
           case parse_u64 (str_trim (trim_end_matches ''kB'' body (length body))) of
             Some kib \<Rightarrow> Inr (u64_nat_saturating_mul kib 1024)
           | None \<Rightarrow> Inl ''unparseable MemTotal'')
      | None \<Rightarrow> mem_total ls)"

definition memory_budget_bytes :: "host_files \<Rightarrow> (string, nat) result" where
  "memory_budget_bytes files =
     (let v2 = (case files ''/sys/fs/cgroup/memory.max'' of
            Some raw \<Rightarrow> if str_trim raw \<noteq> ''max'' then parse_u64 (str_trim raw) else None
          | None \<Rightarrow> None);
          v1 = (case files ''/sys/fs/cgroup/memory/memory.limit_in_bytes'' of
            Some raw \<Rightarrow> (case parse_u64 (str_trim raw) of
                Some limit \<Rightarrow> if limit < 2 ^ 62 then Some limit else None
              | None \<Rightarrow> None)
          | None \<Rightarrow> None)
      in case or_else v2 v1 of
           Some limit \<Rightarrow> Inr limit
         | None \<Rightarrow>
             (case files ''/proc/meminfo'' of
                None \<Rightarrow> Inl ''/proc/meminfo unreadable''
              | Some meminfo \<Rightarrow> mem_total (str_lines meminfo)))"


section \<open>Seed peers\<close>

definition v01_fixed_incarnation :: string where
  "v01_fixed_incarnation = ''1''"

definition strip_seed_peer_port :: "string \<Rightarrow> string" where
  "strip_seed_peer_port raw =
     (case strip_prefix ''['' raw of
        Some rest \<Rightarrow> if CHR '']'' \<in> set rest then takeWhile (\<lambda>c. c \<noteq> CHR '']'') rest else raw
      | None \<Rightarrow>
          (case rsplit_once CHR '':'' raw of
             Some (host, port) \<Rightarrow>
               if port \<noteq> [] \<and> list_all is_digit port \<and> CHR '':'' \<notin> set host then host else raw
           | None \<Rightarrow> raw))"

definition seed_peer_node_id :: "string \<Rightarrow> node_id" where
  "seed_peer_node_id raw = NodeId (strip_seed_peer_port raw @ ''/'' @ v01_fixed_incarnation)"

definition build_membership_view :: "string list \<Rightarrow> node_id \<Rightarrow> membership_view" where
  "build_membership_view seed_peers self_node = membership_new (self_node # map seed_peer_node_id seed_peers)"

definition routing_plan_of :: "string list \<Rightarrow> node_id \<Rightarrow> nat \<Rightarrow> partition_id \<Rightarrow> routing_plan option" where
  "routing_plan_of seed_peers self_node rf pid = route_write pid self_node (build_membership_view seed_peers self_node) rf"

lemma split_once_app: "c \<notin> set xs \<Longrightarrow> split_once c (xs @ c # ys) = Some (xs, ys)"
  by (induction xs) (auto simp: split_once_def)

lemma split_once_Some:
  assumes "split_once c s = Some (xs, ys)"
  shows "s = xs @ c # ys \<and> c \<notin> set xs"
proof -
  have "c \<in> set s" using assms by (simp add: split_once_def split: if_splits)
  then obtain us vs where "s = us @ c # vs" "c \<notin> set us" by (meson split_list_first)
  then show ?thesis using assms split_once_app[of c us vs] by simp
qed

lemma rsplit_once_app: "c \<notin> set port \<Longrightarrow> rsplit_once c (host @ c # port) = Some (host, port)"
  by (simp add: rsplit_once_def split_once_app)

lemma rsplit_once_Some:
  assumes "rsplit_once c s = Some (host, port)"
  shows "s = host @ c # port \<and> c \<notin> set port"
proof -
  obtain after before where "split_once c (rev s) = Some (after, before)" "host = rev before" "port = rev after"
    using assms by (auto simp: rsplit_once_def)
  with split_once_Some[of c "rev s" after before] show ?thesis by (auto simp: rev_swap)
qed

text \<open>
  The host of a seed peer: a port after a host without colons is taken off, brackets give
  the address between them whatever follows, and an address of two or more colons without brackets (a bare IPv6 literal)
  is left as it is.
\<close>
theorem seed_peer_host:
  assumes "CHR '':'' \<notin> set host" and "hd (host @ '':'') \<noteq> CHR ''[''"
  shows "strip_seed_peer_port (host @ '':'' @ show_nat port) = host
    \<and> (CHR '']'' \<notin> set addr \<longrightarrow> strip_seed_peer_port (''['' @ addr @ '']'' @ suffix) = addr)
    \<and> strip_seed_peer_port (host @ '':'' @ mid @ '':'' @ rest) = host @ '':'' @ mid @ '':'' @ rest"
proof (intro conjI impI)
  have no_bracket: "strip_prefix ''['' (host @ '':'' @ t) = None" for t
    using assms(2) by (cases host) (auto simp: strip_prefix_def starts_with_def)
  have digits: "list_all is_digit (show_nat port)" using show_nat_digits by (auto simp: list_all_iff)
  have colon: "CHR '':'' \<notin> set (show_nat port)" by (rule sep_notin_show_nat) (simp add: is_digit_def)
  show "strip_seed_peer_port (host @ '':'' @ show_nat port) = host"
    using no_bracket[of "show_nat port"] assms(1) digits rsplit_once_app[OF colon, of host]
    by (simp add: strip_seed_peer_port_def)
  show "strip_seed_peer_port (''['' @ addr @ '']'' @ suffix) = addr" if "CHR '']'' \<notin> set addr"
  proof -
    have "takeWhile (\<lambda>c. c \<noteq> CHR '']'') (addr @ CHR '']'' # suffix) = addr"
      using that by (auto simp: takeWhile_append)
    then show ?thesis by (simp add: strip_seed_peer_port_def strip_prefix_def starts_with_def)
  qed
  let ?s = "host @ '':'' @ mid @ '':'' @ rest"
  show "strip_seed_peer_port ?s = ?s"
  proof (cases "rsplit_once CHR '':'' ?s")
    case (Some hp)
    obtain h p where hp: "hp = (h, p)" by fastforce
    from rsplit_once_Some[of "CHR '':''" ?s h p] Some hp
    have eq: "?s = h @ CHR '':'' # p" and p: "CHR '':'' \<notin> set p" by auto
    have "length (filter (\<lambda>c. c = CHR '':'') ?s) \<ge> 2" by simp
    then have "CHR '':'' \<in> set h" using p unfolding eq by (auto simp: filter_empty_conv Suc_le_eq)
    then show ?thesis using Some hp no_bracket[of "mid @ '':'' @ rest"] by (simp add: strip_seed_peer_port_def)
  qed (use no_bracket[of "mid @ '':'' @ rest"] in \<open>simp add: strip_seed_peer_port_def\<close>)
qed


theorem seed_peer_host_witness:
  "strip_seed_peer_port (''peer-a'' @ '':'' @ show_nat 7946) = ''peer-a''
   \<and> strip_seed_peer_port (''['' @ ''fe80::1'' @ '']'' @ '':7946'') = ''fe80::1''"
  using seed_peer_host[of "''peer-a''" 7946 "''fe80::1''" "'':7946''"] by simp

lemma membership_has_self: "self_node \<in> set (mv_candidates (build_membership_view seed_peers self_node))"
  by (simp add: build_membership_view_def membership_new_def)

text \<open>A node can always route: its own view contains it.\<close>

lemma routing_plan_exists: "routing_plan_of seed_peers self_node rf pid \<noteq> None"
proof -
  have "set (hrw_ranked pid ns) = set ns" for ns by (simp add: hrw_ranked_def)
  then have "self_node \<in> set (hrw_ranked pid (mv_candidates (build_membership_view seed_peers self_node)))"
    by (simp add: membership_has_self)
  then have "hrw_ranked pid (mv_candidates (build_membership_view seed_peers self_node)) \<noteq> []" by auto
  then show ?thesis by (auto simp: routing_plan_of_def route_write_def Let_def split: list.splits)
qed

section \<open>The lake's location and its secrets\<close>

record lake_settings =
  lks_committer :: string
  lks_uri :: string
  lks_s3_endpoint :: "string option"
  lks_s3_region :: string
  lks_s3_access_key_id :: "string option"
  lks_s3_secret_access_key_file :: "string option"

datatype config_error = ConfigIo string | LakeStorageConfig string

definition build_s3_access :: "host_files \<Rightarrow> lake_settings \<Rightarrow> (config_error, s3_access option) result" where
  "build_s3_access files lake =
     (let is_s3_uri = starts_with (lks_uri lake) ''s3://'' in
      case lks_s3_endpoint lake of
        None \<Rightarrow>
          (if is_s3_uri then Inl (LakeStorageConfig ''lake.uri is an s3:// URI but lake.s3_endpoint is not set'')
           else Inr None)
      | Some endpoint \<Rightarrow>
          (if \<not> is_s3_uri then Inl (LakeStorageConfig ''lake.s3_endpoint is set but lake.uri is not an s3:// URI'')
           else case lks_s3_access_key_id lake of
             None \<Rightarrow> Inl (LakeStorageConfig ''lake.s3_endpoint is set but lake.s3_access_key_id is missing'')
           | Some access_key_id \<Rightarrow>
               (case lks_s3_secret_access_key_file lake of
                  None \<Rightarrow> Inl (LakeStorageConfig ''lake.s3_endpoint is set but lake.s3_secret_access_key_file is missing'')
                | Some secret_file \<Rightarrow>
                    (case files secret_file of
                       None \<Rightarrow> Inl (ConfigIo secret_file)
                     | Some secret \<Rightarrow>
                         Inr (Some \<lparr>s3_endpoint = endpoint, s3_region = lks_s3_region lake,
                           s3_access_key_id = access_key_id, s3_secret_access_key = str_trim secret,
                           s3_url_style_path = True, s3_use_ssl = False\<rparr>)))))"

definition parse_s3_uri :: "string \<Rightarrow> (config_error, string \<times> string) result" where
  "parse_s3_uri uri =
     (case strip_prefix ''s3://'' uri of
        None \<Rightarrow> Inl (LakeStorageConfig (''lake.uri '' @ uri @ '' is not an s3:// URI''))
      | Some rest \<Rightarrow> Inr (case split_once CHR ''/'' rest of Some bp \<Rightarrow> bp | None \<Rightarrow> (rest, '''')))"

definition catalog_uri_with_secret :: "host_files \<Rightarrow> string \<Rightarrow> string \<Rightarrow> (config_error, string) result" where
  "catalog_uri_with_secret files dsn password_file =
     (if \<not> (starts_with dsn ''postgres:'' \<or> starts_with dsn ''postgresql:'') then Inr dsn
      else case files password_file of
        None \<Rightarrow> Inl (ConfigIo password_file)
      | Some raw \<Rightarrow>
          (let password = str_trim raw in
           Inr (if password = '''' then dsn else dsn @ '' password='' @ password)))"

definition lake_config_of :: "host_files \<Rightarrow> lake_settings \<Rightarrow> string \<Rightarrow> string \<Rightarrow> (config_error, duck_lake_config) result" where
  "lake_config_of files lake dsn password_file =
     (case build_s3_access files lake of
        Inl e \<Rightarrow> Inl e
      | Inr s3 \<Rightarrow>
          (case catalog_uri_with_secret files dsn password_file of
             Inl e \<Rightarrow> Inl e
           | Inr catalog_uri \<Rightarrow>
               Inr \<lparr>lk_catalog_uri = catalog_uri, lk_data_path = lks_uri lake, lk_multi_process = False, lk_s3 = s3\<rparr>))"

text \<open>Object storage is configured wholly or not at all.\<close>

lemma build_s3_access_ok:
  assumes "build_s3_access files lake = Inr s3"
  shows "(s3 \<noteq> None \<longleftrightarrow> starts_with (lks_uri lake) ''s3://'') \<and> (s3 \<noteq> None \<longleftrightarrow> lks_s3_endpoint lake \<noteq> None)"
  using assms by (auto simp: build_s3_access_def Let_def split: option.splits if_splits)

lemma parse_s3_uri_ok:
  assumes "parse_s3_uri uri = Inr (bucket, prefix)"
  shows "CHR ''/'' \<notin> set bucket
    \<and> (uri = ''s3://'' @ bucket @ ''/'' @ prefix \<or> prefix = '''' \<and> uri = ''s3://'' @ bucket)"
proof -
  obtain rest where rest: "strip_prefix ''s3://'' uri = Some rest"
    using assms by (auto simp: parse_s3_uri_def split: option.splits)
  show ?thesis
  proof (cases "split_once CHR ''/'' rest")
    case None
    then have "CHR ''/'' \<notin> set rest" by (simp add: split_once_def split: if_splits)
    then show ?thesis using assms None rest by (auto simp: parse_s3_uri_def strip_prefix_Some)
  next
    case (Some bp)
    with assms rest have "bp = (bucket, prefix)" by (simp add: parse_s3_uri_def)
    with split_once_Some[of "CHR ''/''" rest bucket prefix] Some rest show ?thesis
      by (auto simp: strip_prefix_Some)
  qed
qed

text \<open>
  The catalog address a client is given carries the catalog's password: \<open>attach_info\<close> returns the address
  \<open>catalog_uri_with_secret\<close> built, next to a description that says credentials are never inline.
\<close>

theorem attach_info_discloses_password:
  assumes "starts_with dsn ''postgres:''" and "files password_file = Some raw" and "str_trim raw \<noteq> ''''"
    and "build_s3_access files lake = Inr s3"
  shows "\<exists>config. lake_config_of files lake dsn password_file = Inr config
    \<and> ai_catalog_uri (attach_info_blocking config) = ''ducklake:'' @ dsn @ '' password='' @ str_trim raw
    \<and> ai_credentials_shape (attach_info_blocking config) = ''libpq DSN via a DuckDB secret (never inline credentials)''"
proof -
  have "starts_with (dsn @ t) ''postgres:''" for t
    using assms(1) by (auto simp: starts_with_iff)
  then have "catalog_kind_of (dsn @ t) = Postgres" for t by (simp add: catalog_kind_of_def)
  then show ?thesis
    using assms by (simp add: lake_config_of_def catalog_uri_with_secret_def attach_info_blocking_def Let_def)
qed

end
