(* ===== verification/Sim_Storage.thy ===== *)
theory Sim_Storage
  imports Boot
begin

text \<open>
  The storage double of the simulation kit: \<open>ledger.rs\<close> and \<open>storage.rs\<close> of \<open>crates/duckspout-ctk/src\<close>. A hash map is an ordered
  map; a mutex makes each method one step. The port methods answer at once. The last sections state what the double promises
  about crashes, and run the boot ceremony of \<open>Boot\<close> over it.
\<close>

section \<open>The injector ledger\<close>

record fault_count =
  fc_armed :: u64
  fc_fired :: u64

type_synonym injector_ledger = "(string, fault_count) btree"

definition count_default :: fault_count where
  "count_default = \<lparr>fc_armed = 0, fc_fired = 0\<rparr>"

definition ledger_arm :: "string \<Rightarrow> injector_ledger \<Rightarrow> injector_ledger" where
  "ledger_arm fault l = bt_upsert fault count_default (\<lambda>c. c\<lparr>fc_armed := fc_armed c + 1\<rparr>) l"

definition ledger_fired :: "string \<Rightarrow> injector_ledger \<Rightarrow> injector_ledger" where
  "ledger_fired fault l = bt_upsert fault count_default (\<lambda>c. c\<lparr>fc_fired := fc_fired c + 1\<rparr>) l"

definition fault_count_of :: "injector_ledger \<Rightarrow> string \<Rightarrow> fault_count" where
  "fault_count_of l fault = map_or count_default id (bt_get l fault)"

definition vacuously_armed :: "injector_ledger \<Rightarrow> string list" where
  "vacuously_armed l = sort (map fst (filter (\<lambda>(_, c). 0 < fc_armed c \<and> fc_fired c = 0) l))"

lemma fault_count_simps [simp]:
  "fault_count_of (ledger_arm a l) b = (if b = a then (fault_count_of l a)\<lparr>fc_armed := fc_armed (fault_count_of l a) + 1\<rparr>
     else fault_count_of l b)"
  "fault_count_of (ledger_fired a l) b = (if b = a then (fault_count_of l a)\<lparr>fc_fired := fc_fired (fault_count_of l a) + 1\<rparr>
     else fault_count_of l b)"
  by (simp_all add: fault_count_of_def ledger_arm_def ledger_fired_def)

lemma vacuously_armed_iff:
  assumes "bt_wf l"
  shows "fault \<in> set (vacuously_armed l) \<longleftrightarrow> 0 < fc_armed (fault_count_of l fault) \<and> fc_fired (fault_count_of l fault) = 0"
proof -
  have "fault \<in> set (vacuously_armed l) \<longleftrightarrow> (\<exists>c. bt_get l fault = Some c \<and> 0 < fc_armed c \<and> fc_fired c = 0)"
    using bt_get_Some[OF assms] by (force simp: vacuously_armed_def)
  then show ?thesis by (cases "bt_get l fault") (auto simp: fault_count_of_def count_default_def)
qed

section \<open>The store\<close>

definition fsync_fail_fault :: string where
  "fsync_fail_fault = ''storage:fail-next-fsync''"

definition torn_write_fault :: string where
  "torn_write_fault = ''storage:tear-next-put''"

record file_state =
  fs_content :: string
  fs_content_durable :: bool
  fs_name_durable :: bool
  fs_torn :: bool

record in_mem_storage =
  ms_files :: "(storage_path, file_state) btree"
  ms_fail_next_fsync :: bool
  ms_tear_next_put :: bool
  ms_ledger :: injector_ledger

definition parent_dir :: "storage_path \<Rightarrow> string" where
  "parent_dir path = (if CHR ''/'' \<in> set path then rev (tl (dropWhile (\<lambda>c. c \<noteq> CHR ''/'') (rev path))) else '''')"

definition storage_new :: "injector_ledger \<Rightarrow> in_mem_storage" where
  "storage_new l = \<lparr>ms_files = bt_empty, ms_fail_next_fsync = False, ms_tear_next_put = False, ms_ledger = l\<rparr>"

definition arm_fsync_failure :: "in_mem_storage \<Rightarrow> in_mem_storage" where
  "arm_fsync_failure s = s\<lparr>ms_ledger := ledger_arm fsync_fail_fault (ms_ledger s), ms_fail_next_fsync := True\<rparr>"

definition arm_torn_write :: "in_mem_storage \<Rightarrow> in_mem_storage" where
  "arm_torn_write s = s\<lparr>ms_ledger := ledger_arm torn_write_fault (ms_ledger s), ms_tear_next_put := True\<rparr>"

definition crash_storage :: "in_mem_storage \<Rightarrow> in_mem_storage" where
  "crash_storage s =
     s\<lparr>ms_files := filter (\<lambda>(_, file). fs_content_durable file \<and> fs_name_durable file) (ms_files s),
       ms_fail_next_fsync := False, ms_tear_next_put := False\<rparr>"

definition storage_paths :: "in_mem_storage \<Rightarrow> storage_path list" where
  "storage_paths s = sort (map fst (ms_files s))"

definition ms_put :: "storage_path \<Rightarrow> string \<Rightarrow> in_mem_storage \<Rightarrow> (storage_error, unit) result \<times> in_mem_storage" where
  "ms_put path data s =
     (let torn = ms_tear_next_put s;
          s = (if torn then s\<lparr>ms_tear_next_put := False, ms_ledger := ledger_fired torn_write_fault (ms_ledger s)\<rparr> else s);
          stored = (if torn then take (length data div 2) data else data);
          name_durable = map_or False fs_name_durable (bt_get (ms_files s) path)
      in (Inr (), s\<lparr>ms_files := bt_insert path \<lparr>fs_content = stored, fs_content_durable = False,
                                  fs_name_durable = name_durable, fs_torn = torn\<rparr> (ms_files s)\<rparr>))"

definition ms_get :: "storage_path \<Rightarrow> in_mem_storage \<Rightarrow> (storage_error, string) result \<times> in_mem_storage" where
  "ms_get path s =
     (case bt_get (ms_files s) path of
        Some file \<Rightarrow> if fs_torn file then Inl (TornWrite path) else Inr (fs_content file)
      | None \<Rightarrow> Inl (NotFound path), s)"

definition ms_delete :: "storage_path \<Rightarrow> in_mem_storage \<Rightarrow> (storage_error, unit) result \<times> in_mem_storage" where
  "ms_delete path s =
     (case bt_get (ms_files s) path of
        Some _ \<Rightarrow> (Inr (), s\<lparr>ms_files := bt_remove path (ms_files s)\<rparr>)
      | None \<Rightarrow> (Inl (NotFound path), s))"

definition ms_fsync_file :: "storage_path \<Rightarrow> in_mem_storage \<Rightarrow> (storage_error, unit) result \<times> in_mem_storage" where
  "ms_fsync_file path s =
     (if ms_fail_next_fsync s
      then (Inl (FsyncFailed path), s\<lparr>ms_fail_next_fsync := False, ms_ledger := ledger_fired fsync_fail_fault (ms_ledger s)\<rparr>)
      else case bt_get (ms_files s) path of
        Some file \<Rightarrow> (Inr (), s\<lparr>ms_files := bt_insert path (file\<lparr>fs_content_durable := True\<rparr>) (ms_files s)\<rparr>)
      | None \<Rightarrow> (Inl (NotFound path), s))"

definition ms_fsync_dir :: "storage_path \<Rightarrow> in_mem_storage \<Rightarrow> (storage_error, unit) result \<times> in_mem_storage" where
  "ms_fsync_dir dir s =
     (Inr (), s\<lparr>ms_files := map (\<lambda>(path, file). (path,
        if parent_dir path = dir then file\<lparr>fs_name_durable := True\<rparr> else file)) (ms_files s)\<rparr>)"

section \<open>Operations in sequence\<close>

datatype storage_op =
    OpPut storage_path string
  | OpGet storage_path
  | OpDelete storage_path
  | OpFsyncFile storage_path
  | OpFsyncDir storage_path
  | OpArmFsyncFailure
  | OpArmTornWrite
  | OpCrash

fun storage_step :: "storage_op \<Rightarrow> in_mem_storage \<Rightarrow> in_mem_storage" where
  "storage_step (OpPut p d) s = snd (ms_put p d s)"
| "storage_step (OpGet p) s = snd (ms_get p s)"
| "storage_step (OpDelete p) s = snd (ms_delete p s)"
| "storage_step (OpFsyncFile p) s = snd (ms_fsync_file p s)"
| "storage_step (OpFsyncDir p) s = snd (ms_fsync_dir p s)"
| "storage_step OpArmFsyncFailure s = arm_fsync_failure s"
| "storage_step OpArmTornWrite s = arm_torn_write s"
| "storage_step OpCrash s = crash_storage s"

definition storage_run :: "storage_op list \<Rightarrow> in_mem_storage \<Rightarrow> in_mem_storage" where
  "storage_run ops s = fold storage_step ops s"

text \<open>An operation that writes or removes the file at a path.\<close>

fun writes_path :: "storage_path \<Rightarrow> storage_op \<Rightarrow> bool" where
  "writes_path p (OpPut q _) \<longleftrightarrow> q = p"
| "writes_path p (OpDelete q) \<longleftrightarrow> q = p"
| "writes_path p _ \<longleftrightarrow> False"

definition file_at :: "in_mem_storage \<Rightarrow> storage_path \<Rightarrow> file_state option" where
  "file_at s p = bt_get (ms_files s) p"

lemma bt_wf_map_entries: "bt_wf (map (\<lambda>(k, v). (k, f k v)) m) = bt_wf m"
  by (simp add: bt_wf_def comp_def case_prod_beta)

lemma storage_step_wf: "bt_wf (ms_files s) \<Longrightarrow> bt_wf (ms_files (storage_step op s))"
  by (cases op) (auto simp: ms_put_def ms_get_def ms_delete_def ms_fsync_file_def ms_fsync_dir_def arm_fsync_failure_def
      arm_torn_write_def crash_storage_def bt_remove_def bt_wf_map_entries Let_def split: option.splits)


text \<open>What an operation does to a file it does not write or remove.\<close>

lemma step_file:
  assumes "bt_wf (ms_files s)" and "\<not> writes_path p op"
  shows "file_at (storage_step op s) p = (case file_at s p of None \<Rightarrow> None | Some f \<Rightarrow>
    (case op of
       OpFsyncFile q \<Rightarrow> Some (if q = p \<and> \<not> ms_fail_next_fsync s then f\<lparr>fs_content_durable := True\<rparr> else f)
     | OpFsyncDir d \<Rightarrow> Some (if parent_dir p = d then f\<lparr>fs_name_durable := True\<rparr> else f)
     | OpCrash \<Rightarrow> if fs_content_durable f \<and> fs_name_durable f then Some f else None
     | _ \<Rightarrow> Some f))"
  using assms
  by (cases op) (auto simp: file_at_def ms_put_def ms_get_def ms_delete_def ms_fsync_file_def ms_fsync_dir_def
      arm_fsync_failure_def arm_torn_write_def crash_storage_def bt_get_filter
      bt_get_map_entries[where f = "\<lambda>path file. if parent_dir path = d then file\<lparr>fs_name_durable := True\<rparr> else file" for d]
      Let_def split: option.splits)

lemma run_simps [simp]:
  "storage_run [] s = s" "storage_run (op # ops) s = storage_run ops (storage_step op s)"
  by (simp_all add: storage_run_def)

lemma run_wf: "bt_wf (ms_files s) \<Longrightarrow> bt_wf (ms_files (storage_run ops s))"
  by (induction ops arbitrary: s) (simp_all add: storage_step_wf)

lemma run_durable:
  assumes "bt_wf (ms_files s)" and "file_at s p = Some f" and "fs_content_durable f" and "fs_name_durable f"
    and "list_all (\<lambda>op. \<not> writes_path p op) ops"
  shows "file_at (storage_run ops s) p = Some f"
  using assms
proof (induction ops arbitrary: s)
  case (Cons op ops)
  have "file_at (storage_step op s) p = Some f"
    using Cons.prems step_file[of s p op] by (auto split: storage_op.splits)
  with Cons show ?case by (simp add: storage_step_wf)
qed simp

text \<open>Before a crash a file that is not written keeps its bytes, and what has been synced stays synced.\<close>

definition same_write :: "file_state \<Rightarrow> file_state \<Rightarrow> bool" where
  "same_write f g \<longleftrightarrow> fs_content g = fs_content f \<and> fs_torn g = fs_torn f
     \<and> (fs_content_durable f \<longrightarrow> fs_content_durable g) \<and> (fs_name_durable f \<longrightarrow> fs_name_durable g)"

lemma run_same_write:
  assumes "bt_wf (ms_files s)" and "file_at s p = Some f" and "list_all (\<lambda>op. \<not> writes_path p op \<and> op \<noteq> OpCrash) ops"
  shows "\<exists>g. file_at (storage_run ops s) p = Some g \<and> same_write f g"
  using assms
proof (induction ops arbitrary: s f)
  case Nil
  then show ?case by (simp add: same_write_def)
next
  case (Cons op ops)
  obtain g where g: "file_at (storage_step op s) p = Some g" "same_write f g"
    using Cons.prems step_file[of s p op] by (auto simp: same_write_def split: storage_op.splits if_splits)
  from Cons.IH[OF storage_step_wf[OF Cons.prems(1)] g(1)] Cons.prems(3) obtain h
    where "file_at (storage_run ops (storage_step op s)) p = Some h" "same_write g h" by auto
  with g(2) show ?case by (auto simp: same_write_def)
qed

text \<open>Without a sync of the file no later step before the crash makes its bytes durable, and likewise for its name.\<close>

lemma run_unsynced:
  assumes "bt_wf (ms_files s)" and "file_at s p = Some f"
    and "list_all (\<lambda>op. \<not> writes_path p op \<and> op \<noteq> OpCrash) ops"
  shows "OpFsyncFile p \<notin> set ops \<Longrightarrow> \<exists>g. file_at (storage_run ops s) p = Some g \<and> fs_content_durable g = fs_content_durable f"
    and "OpFsyncDir (parent_dir p) \<notin> set ops \<Longrightarrow> \<exists>g. file_at (storage_run ops s) p = Some g \<and> fs_name_durable g = fs_name_durable f"
proof -
  show "OpFsyncFile p \<notin> set ops \<Longrightarrow> \<exists>g. file_at (storage_run ops s) p = Some g \<and> fs_content_durable g = fs_content_durable f"
    using assms
  proof (induction ops arbitrary: s f)
    case (Cons op ops)
    obtain g where g: "file_at (storage_step op s) p = Some g" "fs_content_durable g = fs_content_durable f"
      using Cons.prems step_file[of s p op] by (auto split: storage_op.splits if_splits)
    from Cons.IH[OF _ storage_step_wf[OF Cons.prems(2)] g(1)] Cons.prems g(2) show ?case by auto
  qed auto
  show "OpFsyncDir (parent_dir p) \<notin> set ops \<Longrightarrow> \<exists>g. file_at (storage_run ops s) p = Some g \<and> fs_name_durable g = fs_name_durable f"
    using assms
  proof (induction ops arbitrary: s f)
    case (Cons op ops)
    obtain g where g: "file_at (storage_step op s) p = Some g" "fs_name_durable g = fs_name_durable f"
      using Cons.prems step_file[of s p op] by (auto split: storage_op.splits if_splits)
    from Cons.IH[OF _ storage_step_wf[OF Cons.prems(2)] g(1)] Cons.prems g(2) show ?case by auto
  qed auto
qed

section \<open>What a crash leaves\<close>

lemma fst_put: "fst (ms_put p data s) = Inr ()"
  by (simp add: ms_put_def Let_def)

lemma put_file:
  assumes "bt_wf (ms_files s)" and "ms_put p data s = (Inr (), s1)"
  obtains f where "bt_wf (ms_files s1)" and "file_at s1 p = Some f" and "fs_torn f = ms_tear_next_put s"
    and "fs_torn f \<or> fs_content f = data" and "\<not> fs_content_durable f"
    and "file_at s p \<noteq> None \<or> \<not> fs_name_durable f"
proof -
  have "\<exists>f. file_at s1 p = Some f \<and> fs_torn f = ms_tear_next_put s \<and> (\<not> fs_torn f \<longrightarrow> fs_content f = data)
      \<and> \<not> fs_content_durable f \<and> (file_at s p = None \<longrightarrow> \<not> fs_name_durable f)"
    using assms(2) by (auto simp: ms_put_def file_at_def Let_def split: if_splits)
  then show thesis using that storage_step_wf[OF assms(1), of "OpPut p data"] assms(2) by auto
qed

lemma synced_survives:
  assumes wf: "bt_wf (ms_files s)" and put: "ms_put p data s = (Inr (), s1)"
    and before: "list_all (\<lambda>op. \<not> writes_path p op \<and> op \<noteq> OpCrash) before"
    and later: "list_all (\<lambda>op. \<not> writes_path p op) later"
    and sync: "ms_fsync_file p (storage_run before s1) = (Inr (), s2)" and dir: "ms_fsync_dir (parent_dir p) s2 = (Inr (), s3)"
  shows "fst (ms_get p (storage_run later s3)) = (if ms_tear_next_put s then Inl (TornWrite p) else Inr data)"
proof -
  let ?sb = "storage_run before s1"
  obtain f where wf1: "bt_wf (ms_files s1)" and f: "file_at s1 p = Some f" "fs_torn f = ms_tear_next_put s"
    "fs_torn f \<or> fs_content f = data" "\<not> fs_content_durable f" "file_at s p \<noteq> None \<or> \<not> fs_name_durable f"
    by (rule put_file[OF wf put])
  from run_same_write[OF wf1 f(1) before] obtain g where g: "file_at ?sb p = Some g" "same_write f g" by blast
  have wfb: "bt_wf (ms_files ?sb)" by (rule run_wf[OF wf1])
  have wf2: "bt_wf (ms_files s2)" using storage_step_wf[OF wfb, of "OpFsyncFile p"] sync by simp
  have wf3: "bt_wf (ms_files s3)" using storage_step_wf[OF wf2, of "OpFsyncDir (parent_dir p)"] dir by simp
  have s2: "file_at s2 p = Some (g\<lparr>fs_content_durable := True\<rparr>)"
    using step_file[OF wfb, of p "OpFsyncFile p"] sync g(1) by (auto simp: ms_fsync_file_def split: if_splits)
  have s3: "file_at s3 p = Some (g\<lparr>fs_content_durable := True, fs_name_durable := True\<rparr>)"
    using step_file[OF wf2, of p "OpFsyncDir (parent_dir p)"] dir s2 by simp
  have "file_at (storage_run later s3) p = Some (g\<lparr>fs_content_durable := True, fs_name_durable := True\<rparr>)"
    by (rule run_durable[OF wf3 s3 _ _ later]) simp_all
  then show ?thesis using f(2,3) g(2) by (auto simp: ms_get_def file_at_def same_write_def)
qed

lemma unsynced_lost:
  assumes wf: "bt_wf (ms_files s)" and put: "ms_put p data s = (Inr (), s1)"
    and before: "list_all (\<lambda>op. \<not> writes_path p op \<and> op \<noteq> OpCrash) before"
    and no_sync: "OpFsyncFile p \<notin> set before \<or> file_at s p = None \<and> OpFsyncDir (parent_dir p) \<notin> set before"
  shows "fst (ms_get p (crash_storage (storage_run before s1))) = Inl (NotFound p)"
proof -
  let ?sb = "storage_run before s1"
  obtain f where wf1: "bt_wf (ms_files s1)" and f: "file_at s1 p = Some f" "fs_torn f = ms_tear_next_put s"
    "fs_torn f \<or> fs_content f = data" "\<not> fs_content_durable f" "file_at s p \<noteq> None \<or> \<not> fs_name_durable f"
    by (rule put_file[OF wf put])
  from run_same_write[OF wf1 f(1) before] obtain g where g: "file_at ?sb p = Some g" by blast
  have "\<not> (fs_content_durable g \<and> fs_name_durable g)"
    using no_sync run_unsynced[OF wf1 f(1) before] g f(4,5) by auto
  then have "file_at (crash_storage ?sb) p = None" using step_file[OF run_wf[OF wf1], of p OpCrash] g by simp
  then show ?thesis by (simp add: ms_get_def file_at_def)
qed

text \<open>
  The double keeps what was synced and nothing else. A file that was written, then synced, and whose directory was synced
  after it was created, reads back exactly as written after any further operations on other files, whatever faults are armed
  and however often the store crashes; only a write that was torn reads back as an error, never as other bytes.
  A file whose bytes were not synced after the write, or a new file whose directory was not, is gone after a crash.
\<close>
theorem storage_crash_exact:
  assumes "bt_wf (ms_files s)" and "ms_put p data s = (Inr (), s1)"
    and "list_all (\<lambda>op. \<not> writes_path p op \<and> op \<noteq> OpCrash) before"
    and "list_all (\<lambda>op. \<not> writes_path p op) later"
  shows "(ms_fsync_file p (storage_run before s1) = (Inr (), s2) \<longrightarrow> ms_fsync_dir (parent_dir p) s2 = (Inr (), s3) \<longrightarrow>
        fst (ms_get p (storage_run later s3)) = (if ms_tear_next_put s then Inl (TornWrite p) else Inr data))
    \<and> (OpFsyncFile p \<notin> set before \<or> file_at s p = None \<and> OpFsyncDir (parent_dir p) \<notin> set before \<longrightarrow>
        fst (ms_get p (crash_storage (storage_run before s1))) = Inl (NotFound p))"
  using synced_survives[OF assms] unsynced_lost[OF assms(1-3)] by blast

theorem storage_crash_exact_witness:
  "fst (ms_get ''wal/1'' (storage_run [OpPut ''wal/2'' ''y'', OpCrash, OpArmTornWrite, OpPut ''wal/3'' ''z'']
       (snd (ms_fsync_dir ''wal'' (snd (ms_fsync_file ''wal/1'' (snd (ms_put ''wal/1'' ''x'' (storage_new [])))))))))
     = Inr ''x''
   \<and> fst (ms_get ''wal/1'' (crash_storage (storage_run [OpFsyncDir ''wal''] (snd (ms_put ''wal/1'' ''x'' (storage_new [])))))) = Inl (NotFound ''wal/1'')"
proof -
  let ?s1 = "snd (ms_put ''wal/1'' ''x'' (storage_new []))"
  let ?s2 = "snd (ms_fsync_file ''wal/1'' ?s1)" and ?s3 = "snd (ms_fsync_dir ''wal'' (snd (ms_fsync_file ''wal/1'' ?s1)))"
  have dir: "parent_dir ''wal/1'' = ''wal''" by (simp add: parent_dir_def)
  have put: "ms_put ''wal/1'' ''x'' (storage_new []) = (Inr (), ?s1)" by (rule prod_eqI) (simp_all only: fst_put fst_conv snd_conv)
  have "fst (ms_fsync_file ''wal/1'' ?s1) = Inr ()"
    by (simp add: ms_put_def storage_new_def ms_fsync_file_def)
  then have sync: "ms_fsync_file ''wal/1'' ?s1 = (Inr (), ?s2)" by (simp only: prod_eq_iff fst_conv snd_conv)
  have sync_dir: "ms_fsync_dir (parent_dir ''wal/1'') ?s2 = (Inr (), ?s3)" by (simp add: dir ms_fsync_dir_def)
  have wf: "bt_wf (ms_files (storage_new []))" by (simp add: storage_new_def bt_empty_def)
  have torn: "\<not> ms_tear_next_put (storage_new [])" by (simp add: storage_new_def)
  let ?later = "[OpPut ''wal/2'' ''y'', OpCrash, OpArmTornWrite, OpPut ''wal/3'' ''z'']"
  have quiet: "list_all (\<lambda>op. \<not> writes_path ''wal/1'' op) ?later" by simp
  have first: "ms_fsync_file ''wal/1'' (storage_run [] ?s1) = (Inr (), ?s2)" using sync by (simp only: run_simps)
  have "fst (ms_get ''wal/1'' (storage_run ?later ?s3)) = Inr ''x''"
    using storage_crash_exact[OF wf put list.pred_inject(1) quiet, THEN conjunct1, rule_format, OF first sync_dir] torn
    by (simp only: if_False)
  moreover have "fst (ms_get ''wal/1'' (crash_storage (storage_run [OpFsyncDir ''wal''] ?s1))) = Inl (NotFound ''wal/1'')"
    by (rule storage_crash_exact[OF wf put, THEN conjunct2, rule_format, of "[OpFsyncDir ''wal'']" "[]"]) simp_all
  ultimately show ?thesis by (rule conjI)
qed

section \<open>Booting over the double\<close>

text \<open>The ports of the boot ceremony over the double and any registry.\<close>

definition sim_boot ::
  "(node_id \<Rightarrow> 'r \<Rightarrow> (registry_error, u64) result \<times> 'r) \<Rightarrow> (string \<Rightarrow> string option) \<Rightarrow> (string \<Rightarrow> string)
     \<Rightarrow> (in_mem_storage \<times> 'r) boot_ports" where
  "sim_boot next_inc utf8 parse = \<lparr>
     b_get = \<lambda>p (s, r). (case ms_get p s of (x, s) \<Rightarrow> (x, s, r)),
     b_put = \<lambda>p d (s, r). (case ms_put p d s of (x, s) \<Rightarrow> (x, s, r)),
     b_fsync_file = \<lambda>p (s, r). (case ms_fsync_file p s of (x, s) \<Rightarrow> (x, s, r)),
     b_fsync_dir = \<lambda>p (s, r). (case ms_fsync_dir p s of (x, s) \<Rightarrow> (x, s, r)),
     b_next_incarnation = \<lambda>n (s, r). (case next_inc n r of (x, r) \<Rightarrow> (x, s, r)),
     b_utf8_error = utf8, b_parse_error = parse\<rparr>"

lemma sim_persist:
  assumes "persist_incarnation (sim_boot next_inc utf8 parse) path (parent_dir path) i (s, r) = (Inr (), (s', r'))"
    and "bt_wf (ms_files s)" and "list_all (\<lambda>op. \<not> writes_path path op) later"
  shows "fst (ms_get path (storage_run later s')) \<in> {Inl (TornWrite path), Inr (show_nat (unat i))}"
proof -
  let ?B = "sim_boot next_inc utf8 parse"
  obtain x1 x2 where "b_put ?B path (show_nat (unat i)) (s, r) = (Inr (), x1)"
    and "b_fsync_file ?B path x1 = (Inr (), x2)" and "b_fsync_dir ?B (parent_dir path) x2 = (Inr (), (s', r'))"
    using assms(1) by (rule persist_incarnation_ok)
  then obtain s1 s2 where put: "ms_put path (show_nat (unat i)) s = (Inr (), s1)"
    and sync: "ms_fsync_file path s1 = (Inr (), s2)" and dir: "ms_fsync_dir (parent_dir path) s2 = (Inr (), s')"
    by (auto simp: sim_boot_def split: prod.splits)
  have "ms_fsync_file path (storage_run [] s1) = (Inr (), s2)" using sync by simp
  from synced_survives[OF assms(2) put _ assms(3) this dir] show ?thesis by auto
qed

lemma sim_read_back:
  assumes "fst (ms_get path s) \<in> {Inl (TornWrite path), Inr (show_nat (unat i))}"
    and "read_persisted_incarnation (sim_boot next_inc utf8 parse) path (s, r) = (Inr persisted, x)"
  shows "persisted = Some i"
  using assms
  by (cases "ms_get path s")
    (auto simp: read_persisted_incarnation_def sim_boot_def parse_persisted_def parse_show split: option.splits)

lemma sim_reads:
  "read_persisted_incarnation (sim_boot next_inc utf8 parse) path (s, r) = (x, y) \<Longrightarrow> y = (s, r)"
  "b_next_incarnation (sim_boot next_inc utf8 parse) n (s, r) = (z, y) \<Longrightarrow> fst y = s"
  by (auto simp: read_persisted_incarnation_def sim_boot_def ms_get_def split: prod.splits sum.splits storage_error.splits option.splits)



end
