(* ===== verification/Sim_Scheduler.thy ===== *)
theory Sim_Scheduler
  imports Prelude "HOL-Library.Multiset"
begin

text \<open>
  The executor of the simulation kit: \<open>clock.rs\<close>, \<open>strategy.rs\<close> and \<open>scheduler.rs\<close> of \<open>crates/duckspout-ctk/src\<close>.
  A task is a boxed future, code the scheduler does not know: polling one is a parameter that maps the virtual time, the task and
  the memory the tasks share to \<open>None\<close> (ready) or the suspended task, the calls the poll made, in order, and the memory. The kit
  is built with overflow checks, so a panic is an outcome. The loop of \<open>run_until_idle\<close> need not end:
  it is a partial function, and the last section says when it does.
\<close>

section \<open>The virtual clock\<close>

definition advance_nanos :: "u64 \<Rightarrow> u64 \<Rightarrow> u64" where
  "advance_nanos delta nanos = nanos + delta"

definition advance_to_nanos :: "u64 \<Rightarrow> u64 \<Rightarrow> u64" where
  "advance_to_nanos deadline nanos = max nanos deadline"

definition virtual_wall_unix_ms :: "u64 \<Rightarrow> int" where
  "virtual_wall_unix_ms nanos =
     (let ms = int (unat (nanos div 1000000)) in if ms \<le> 2 ^ 63 - 1 then ms else 2 ^ 63 - 1)"

section \<open>Strategies\<close>

text \<open>What the executor asks of a strategy; the number of pending tasks is never zero.\<close>

locale schedule_strategy =
  fixes next_index :: "nat \<Rightarrow> 'st \<Rightarrow> nat \<times> 'st"
  assumes index_contract: "0 < pending \<Longrightarrow> fst (next_index pending st) < pending"

text \<open>\<open>SeededRandom\<close>: its state is one word, initially the seed.\<close>

definition next_random :: "u64 \<Rightarrow> u64 \<times> u64" where
  "next_random state0 =
     (let state = state0 + 0x9e3779b97f4a7c15;
          z = state;
          z = xor z (drop_bit 30 z) * 0xbf58476d1ce4e5b9;
          z = xor z (drop_bit 27 z) * 0x94d049bb133111eb
      in (xor z (drop_bit 31 z), state))"

definition seeded_next_index :: "nat \<Rightarrow> u64 \<Rightarrow> nat \<times> u64" where
  "seeded_next_index pending state = (case next_random state of (r, state) \<Rightarrow> (unat r mod pending, state))"

interpretation seeded: schedule_strategy seeded_next_index
  by unfold_locales (simp add: seeded_next_index_def split: prod.split)

section \<open>The scheduler\<close>

record ('t, 'st) scheduler =
  sd_nanos :: u64
  sd_strategy :: 'st
  sd_tasks :: "'t list"
  sd_deadlines :: "u64 list"

definition scheduler_with_strategy :: "'st \<Rightarrow> u64 \<Rightarrow> ('t, 'st) scheduler" where
  "scheduler_with_strategy strategy nanos = \<lparr>sd_nanos = nanos, sd_strategy = strategy, sd_tasks = [], sd_deadlines = []\<rparr>"

definition sched_spawn :: "'t \<Rightarrow> ('t, 'st) scheduler \<Rightarrow> ('t, 'st) scheduler" where
  "sched_spawn task s = s\<lparr>sd_tasks := sd_tasks s @ [task]\<rparr>"

text \<open>The deadline of the returned future, and the state in which it is registered.\<close>

definition sched_sleep :: "u64 \<Rightarrow> ('t, 'st) scheduler \<Rightarrow> u64 \<times> ('t, 'st) scheduler" where
  "sched_sleep nanos s =
     (let deadline = u64_saturating_add (sd_nanos s) nanos
      in (deadline, s\<lparr>sd_deadlines := insort_insert deadline (sd_deadlines s)\<rparr>))"

definition sleep_ready :: "u64 \<Rightarrow> u64 \<Rightarrow> bool" where
  "sleep_ready deadline nanos = (deadline \<le> nanos)"

text \<open>What a poll can do to the scheduler, its clock, and the waker of the round.\<close>

datatype 't sched_call = Spawn 't | SleepFor u64 | AdvanceBy u64 | AdvanceTo u64 | WakeByRef

primrec do_call :: "'t sched_call \<Rightarrow> ('t, 'st) scheduler \<times> bool \<Rightarrow> ('t, 'st) scheduler \<times> bool" where
  "do_call (Spawn t) x = (case x of (s, woke) \<Rightarrow> (sched_spawn t s, woke))"
| "do_call (SleepFor n) x = (case x of (s, woke) \<Rightarrow> (snd (sched_sleep n s), woke))"
| "do_call (AdvanceBy n) x = (case x of (s, woke) \<Rightarrow> (s\<lparr>sd_nanos := advance_nanos n (sd_nanos s)\<rparr>, woke))"
| "do_call (AdvanceTo n) x = (case x of (s, woke) \<Rightarrow> (s\<lparr>sd_nanos := advance_to_nanos n (sd_nanos s)\<rparr>, woke))"
| "do_call WakeByRef x = (case x of (s, woke) \<Rightarrow> (s, True))"

type_synonym ('t, 'w) task_poll = "u64 \<Rightarrow> 't \<Rightarrow> 'w \<Rightarrow> 't option \<times> 't sched_call list \<times> 'w"

datatype sched_panic = IndexContract | ClockOverflow

definition swap_remove :: "nat \<Rightarrow> 'a list \<Rightarrow> 'a \<times> 'a list" where
  "swap_remove i xs = (xs ! i, butlast (xs[i := last xs]))"

lemma length_swap_remove [simp]: "length (snd (swap_remove i xs)) = length xs - 1"
  by (simp add: swap_remove_def)

lemma swap_remove_mset:
  assumes "i < length xs"
  shows "mset xs = add_mset (fst (swap_remove i xs)) (mset (snd (swap_remove i xs)))"
proof -
  have ne: "xs[i := last xs] \<noteq> []" and "xs \<noteq> []" using assms by auto
  then have "last (xs[i := last xs]) = last xs"
    by (simp add: last_list_update)
  then have "mset (xs[i := last xs]) = add_mset (last xs) (mset (butlast (xs[i := last xs])))"
    using append_butlast_last_id[OF ne] by (metis add_mset_add_single mset.simps mset_append)
  moreover have "mset (xs[i := last xs]) = add_mset (last xs) (mset xs - {#xs ! i#})"
    using assms by (rule mset_update)
  ultimately have "mset (butlast (xs[i := last xs])) = mset xs - {#xs ! i#}" by simp
  then show ?thesis using assms by (simp add: swap_remove_def)
qed

text \<open>The inner loop: polls every task of the round once, in the order of the strategy.\<close>

record ('t, 'st, 'w) round_state =
  rs_sched :: "('t, 'st) scheduler"
  rs_world :: 'w
  rs_woke :: bool
  rs_progressed :: bool
  rs_pending :: "'t list"

definition poll_task :: "('t, 'w) task_poll \<Rightarrow> 't \<Rightarrow> ('t, 'st, 'w) round_state \<Rightarrow> ('t, 'st, 'w) round_state" where
  "poll_task poll task r =
     (case poll (sd_nanos (rs_sched r)) task (rs_world r) of (answer, calls, w) \<Rightarrow>
      case fold do_call calls (rs_sched r, rs_woke r) of (s, woke) \<Rightarrow>
      case answer of
        None \<Rightarrow> r\<lparr>rs_sched := s, rs_world := w, rs_woke := woke, rs_progressed := True\<rparr>
      | Some t \<Rightarrow> r\<lparr>rs_sched := s, rs_world := w, rs_woke := woke, rs_pending := rs_pending r @ [t]\<rparr>)"

function poll_round ::
  "(nat \<Rightarrow> 'st \<Rightarrow> nat \<times> 'st) \<Rightarrow> ('t, 'w) task_poll \<Rightarrow> 't list \<Rightarrow> ('t, 'st, 'w) round_state
     \<Rightarrow> (sched_panic \<times> ('t, 'st) scheduler, ('t, 'st, 'w) round_state) result" where
  "poll_round next_index poll round r =
     (if round = [] then Inr r
      else case next_index (length round) (sd_strategy (rs_sched r)) of (index, st) \<Rightarrow>
        let r = r\<lparr>rs_sched := (rs_sched r)\<lparr>sd_strategy := st\<rparr>\<rparr> in
        if \<not> index < length round then Inl (IndexContract, rs_sched r)
        else poll_round next_index poll (snd (swap_remove index round)) (poll_task poll (fst (swap_remove index round)) r))"
  by pat_completeness auto
termination
  by (relation "measure (\<lambda>(_, _, round, _). length round)") auto

declare poll_round.simps [simp del]

text \<open>The body of the outer loop: how a round ends.\<close>

datatype ('t, 'st, 'w) round_end =
  Again "('t, 'st) scheduler" 'w
| Stuck "('t, 'st) scheduler" 'w
| Panicked sched_panic "('t, 'st) scheduler"

definition sched_round ::
  "(nat \<Rightarrow> 'st \<Rightarrow> nat \<times> 'st) \<Rightarrow> ('t, 'w) task_poll \<Rightarrow> ('t, 'st) scheduler \<Rightarrow> 'w \<Rightarrow> ('t, 'st, 'w) round_end" where
  "sched_round next_index poll s w =
     (case poll_round next_index poll (sd_tasks s)
        \<lparr>rs_sched = s\<lparr>sd_tasks := []\<rparr>, rs_world = w, rs_woke = False, rs_progressed = False, rs_pending = []\<rparr> of
        Inl (e, s) \<Rightarrow> Panicked e s
      | Inr r \<Rightarrow>
          let s = rs_sched r;
              progressed = (rs_progressed r \<or> rs_woke r \<or> sd_tasks s \<noteq> []);
              now = sd_nanos s;
              s = s\<lparr>sd_tasks := sd_tasks s @ rs_pending r\<rparr>
          in if now = u64_max then Panicked ClockOverflow s
             else let s = s\<lparr>sd_deadlines := filter (\<lambda>d. now + 1 \<le> d) (sd_deadlines s)\<rparr>
                  in if progressed then Again s (rs_world r)
                     else case sd_deadlines s of
                       [] \<Rightarrow> Stuck s (rs_world r)
                     | deadline # _ \<Rightarrow> Again (s\<lparr>sd_nanos := advance_to_nanos deadline now\<rparr>) (rs_world r))"

partial_function (option) run_until_idle ::
  "(nat \<Rightarrow> 'st \<Rightarrow> nat \<times> 'st) \<Rightarrow> ('t, 'w) task_poll \<Rightarrow> ('t, 'st) scheduler \<Rightarrow> 'w
     \<Rightarrow> (sched_panic \<times> ('t, 'st) scheduler, nat \<times> ('t, 'st) scheduler \<times> 'w) result option" where
  "run_until_idle next_index poll s w =
     (if sd_tasks s = [] then Some (Inr (0, s, w))
      else case sched_round next_index poll s w of
        Panicked e s \<Rightarrow> Some (Inl (e, s))
      | Stuck s w \<Rightarrow> Some (Inr (length (sd_tasks s), s, w))
      | Again s w \<Rightarrow> run_until_idle next_index poll s w)"

section \<open>Tasks that end\<close>

text \<open>
  What is asked of the tasks. Each carries a bound on the work it has left: a poll that completes, wakes, spawns, sleeps or
  moves the clock uses some of it, shared with the tasks it spawns; a poll that does none of this leaves
  it no larger. A task that waits for ever without waking satisfies this too.
\<close>

primrec spawned :: "'t sched_call list \<Rightarrow> 't list" where
  "spawned [] = []"
| "spawned (c # cs) = (case c of Spawn t \<Rightarrow> t # spawned cs | _ \<Rightarrow> spawned cs)"

definition finite_tasks :: "('t, 'w) task_poll \<Rightarrow> ('t \<Rightarrow> nat) \<Rightarrow> bool" where
  "finite_tasks poll rank \<longleftrightarrow> (\<forall>now t w. case poll now t w of (answer, calls, _) \<Rightarrow>
     if answer \<noteq> None \<and> calls = [] then rank (the answer) \<le> rank t
     else map_or 0 rank answer + sum_list (map rank (spawned calls)) < rank t)"

definition work_left :: "('t \<Rightarrow> nat) \<Rightarrow> ('t, 'st, 'w) round_state \<Rightarrow> nat" where
  "work_left rank r = sum_list (map rank (sd_tasks (rs_sched r))) + sum_list (map rank (rs_pending r))"

text \<open>A round of polls that did nothing: only the strategy, the memory and the suspended tasks differ.\<close>

definition quiet_since :: "('t, 'st, 'w) round_state \<Rightarrow> ('t, 'st, 'w) round_state \<Rightarrow> bool" where
  "quiet_since r r' \<longleftrightarrow> rs_woke r' = rs_woke r \<and> rs_progressed r' = rs_progressed r \<and> sd_nanos (rs_sched r') = sd_nanos (rs_sched r)
     \<and> sd_deadlines (rs_sched r') = sd_deadlines (rs_sched r) \<and> sd_tasks (rs_sched r') = sd_tasks (rs_sched r)"

lemma quiet_since_trans [trans]: "quiet_since r r' \<Longrightarrow> quiet_since r' r'' \<Longrightarrow> quiet_since r r''"
  by (simp add: quiet_since_def)

lemma calls_spawn: "sd_tasks (fst (fold do_call cs (s, woke))) = sd_tasks s @ spawned cs"
  by (induction cs arbitrary: s woke) (auto simp: sched_spawn_def sched_sleep_def Let_def split: sched_call.splits)

lemma finite_tasksD:
  assumes "finite_tasks poll rank" and "poll now t w = (answer, calls, w')"
  shows "if answer \<noteq> None \<and> calls = [] then rank (the answer) \<le> rank t
     else map_or 0 rank answer + sum_list (map rank (spawned calls)) < rank t"
  using assms(1)[unfolded finite_tasks_def, THEN spec[of _ now], THEN spec[of _ t], THEN spec[of _ w]] assms(2)
  by (simp only: prod.case)

lemma poll_task_work:
  assumes "finite_tasks poll rank"
  shows "work_left rank (poll_task poll t r) < rank t + work_left rank r
    \<or> quiet_since r (poll_task poll t r) \<and> work_left rank (poll_task poll t r) \<le> rank t + work_left rank r"
proof -
  obtain answer calls w where p: "poll (sd_nanos (rs_sched r)) t (rs_world r) = (answer, calls, w)" by (metis prod_cases3)
  have law: "if answer \<noteq> None \<and> calls = [] then rank (the answer) \<le> rank t
     else map_or 0 rank answer + sum_list (map rank (spawned calls)) < rank t"
    by (rule finite_tasksD[OF assms p])
  obtain s woke where c: "fold do_call calls (rs_sched r, rs_woke r) = (s, woke)" by (metis prod.exhaust)
  have s: "sd_tasks s = sd_tasks (rs_sched r) @ spawned calls" using calls_spawn[of calls "rs_sched r" "rs_woke r"] c by simp
  show ?thesis
  proof (cases "answer \<noteq> None \<and> calls = []")
    case True
    then show ?thesis using law p c by (auto simp: poll_task_def work_left_def quiet_since_def)
  next
    case False
    then show ?thesis using law p c s by (auto simp: poll_task_def work_left_def split: option.splits)
  qed
qed

context schedule_strategy
begin

lemma poll_round_work:
  assumes "finite_tasks poll rank"
  shows "\<exists>r'. poll_round next_index poll round r = Inr r'
    \<and> (work_left rank r' < sum_list (map rank round) + work_left rank r
       \<or> quiet_since r r' \<and> work_left rank r' \<le> sum_list (map rank round) + work_left rank r)"
proof (induction "length round" arbitrary: round r)
  case (Suc n)
  obtain i st where n: "next_index (length round) (sd_strategy (rs_sched r)) = (i, st)" by (metis prod.exhaust)
  have "0 < length round" using Suc.hyps(2) by linarith
  then have i: "i < length round" using index_contract[of "length round" "sd_strategy (rs_sched r)"] n by simp
  let ?r = "r\<lparr>rs_sched := (rs_sched r)\<lparr>sd_strategy := st\<rparr>\<rparr>"
  let ?t = "fst (swap_remove i round)" and ?rest = "snd (swap_remove i round)"
  have same: "work_left rank ?r = work_left rank r" "quiet_since r ?r" by (simp_all add: work_left_def quiet_since_def)
  have "sum_mset (image_mset rank (mset round)) = rank ?t + sum_mset (image_mset rank (mset ?rest))"
    using swap_remove_mset[OF i] by simp
  then have total: "sum_list (map rank round) = rank ?t + sum_list (map rank ?rest)"
    by (simp only: mset_map[symmetric] sum_mset_sum_list)
  have unfolded: "poll_round next_index poll round r = poll_round next_index poll ?rest (poll_task poll ?t ?r)"
    using i n Suc.hyps(2) by (subst poll_round.simps) (auto simp: Let_def)
  have len: "n = length ?rest" using Suc.hyps(2) by simp
  from Suc.hyps(1)[OF len, of "poll_task poll ?t ?r"] obtain r' where
    r': "poll_round next_index poll ?rest (poll_task poll ?t ?r) = Inr r'"
    and work: "work_left rank r' < sum_list (map rank ?rest) + work_left rank (poll_task poll ?t ?r)
       \<or> quiet_since (poll_task poll ?t ?r) r' \<and> work_left rank r' \<le> sum_list (map rank ?rest) + work_left rank (poll_task poll ?t ?r)"
    by blast
  have "work_left rank r' < sum_list (map rank round) + work_left rank r
       \<or> quiet_since r r' \<and> work_left rank r' \<le> sum_list (map rank round) + work_left rank r"
    using work poll_task_work[OF assms, of ?t ?r] same(1) total quiet_since_trans[OF same(2)] quiet_since_trans by fastforce
  with r' unfolded show ?case by simp
qed (simp add: poll_round.simps quiet_since_def)

end

section \<open>What a round leaves behind\<close>

text \<open>A task that its last poll left pending, without a spawn or a wake.\<close>

definition asleep :: "('t, 'w) task_poll \<Rightarrow> 't \<Rightarrow> bool" where
  "asleep poll t \<longleftrightarrow> (\<exists>now t0 w0 calls w1. poll now t0 w0 = (Some t, calls, w1) \<and> spawned calls = [] \<and> WakeByRef \<notin> set calls)"

definition round_honest :: "('t, 'w) task_poll \<Rightarrow> ('t, 'st, 'w) round_state \<Rightarrow> bool" where
  "round_honest poll r \<longleftrightarrow> rs_woke r \<or> sd_tasks (rs_sched r) \<noteq> [] \<or> list_all (asleep poll) (rs_pending r)"

lemma calls_woke: "snd (fold do_call cs (s, woke)) = (woke \<or> WakeByRef \<in> set cs)"
proof (induction cs arbitrary: s woke)
  case (Cons c cs)
  obtain s' woke' where c: "do_call c (s, woke) = (s', woke')" by (metis prod.exhaust)
  then have "woke' = (woke \<or> c = WakeByRef)" by (cases c) auto
  with Cons.IH[of s' woke'] c show ?case by auto
qed simp

lemma poll_task_honest:
  assumes "round_honest poll r"
  shows "round_honest poll (poll_task poll t r)"
proof -
  obtain answer calls w where p: "poll (sd_nanos (rs_sched r)) t (rs_world r) = (answer, calls, w)" by (metis prod_cases3)
  obtain s woke where c: "fold do_call calls (rs_sched r, rs_woke r) = (s, woke)" by (metis prod.exhaust)
  have s: "sd_tasks s = sd_tasks (rs_sched r) @ spawned calls" "woke = (rs_woke r \<or> WakeByRef \<in> set calls)"
    using calls_spawn[of calls "rs_sched r" "rs_woke r"] calls_woke[of calls "rs_sched r" "rs_woke r"] c by simp_all
  have "asleep poll t'" if "answer = Some t'" "spawned calls = []" "WakeByRef \<notin> set calls" for t'
    using p that unfolding asleep_def by blast
  then show ?thesis using assms p c s by (cases answer) (auto simp: poll_task_def round_honest_def)
qed

lemma poll_round_honest:
  "poll_round next_index poll round r = Inr r' \<Longrightarrow> round_honest poll r \<Longrightarrow> round_honest poll r'"
proof (induction next_index poll round r rule: poll_round.induct)
  case (1 next_index poll round r)
  obtain i st where n: "next_index (length round) (sd_strategy (rs_sched r)) = (i, st)" by (metis prod.exhaust)
  show ?case
  proof (cases "round = []")
    case True
    then show ?thesis using "1.prems" by (simp add: poll_round.simps)
  next
    case False
    let ?r = "r\<lparr>rs_sched := (rs_sched r)\<lparr>sd_strategy := st\<rparr>\<rparr>"
    have "round_honest poll ?r" using "1.prems"(2) by (simp add: round_honest_def)
    then have honest: "round_honest poll (poll_task poll (fst (swap_remove i round)) ?r)" by (rule poll_task_honest)
    have i: "i < length round"
      and rest: "poll_round next_index poll (snd (swap_remove i round)) (poll_task poll (fst (swap_remove i round)) ?r) = Inr r'"
      using "1.prems"(1) False n by (auto simp: poll_round.simps[of next_index poll round r] Let_def split: if_splits)
    from i have "\<not> \<not> i < length round" by simp
    from "1.IH"[OF False n[symmetric] refl this rest honest] show ?thesis .
  qed
qed

lemma next_nano:
  fixes now d :: u64
  assumes "now \<noteq> u64_max"
  shows "now + 1 \<le> d \<longleftrightarrow> now < d"
proof -
  have "now < u64_max" using assms by (simp add: order.not_eq_order_implies_strict)
  then have "now + 1 = u64_saturating_add now 1"
    by (simp add: u64_saturating_add_def word_less_nat_alt unat_u64_max)
  then show ?thesis using saturating_succ_le_iff[OF \<open>now < u64_max\<close>] by simp
qed

section \<open>The run ends\<close>

definition sched_bound :: "('t \<Rightarrow> nat) \<Rightarrow> (('t, 'st) scheduler \<times> ('t, 'st) scheduler) set" where
  "sched_bound rank = measures
     [\<lambda>s. sum_list (map rank (sd_tasks s)), \<lambda>s. length (filter (\<lambda>d. sd_nanos s < d) (sd_deadlines s))]"

context schedule_strategy
begin

lemma round_cases:
  assumes "finite_tasks poll rank"
  obtains (again) s' w' where "sched_round next_index poll s w = Again s' w'" and "(s', s) \<in> sched_bound rank"
  | (stuck) s' w' where "sched_round next_index poll s w = Stuck s' w'" and "sd_deadlines s' = []"
      and "list_all (asleep poll) (sd_tasks s')"
  | (panic) s' where "sched_round next_index poll s w = Panicked ClockOverflow s'" and "sd_nanos s' = u64_max"
proof -
  let ?r = "\<lparr>rs_sched = s\<lparr>sd_tasks := []\<rparr>, rs_world = w, rs_woke = False, rs_progressed = False, rs_pending = []\<rparr>"
  obtain r where r: "poll_round next_index poll (sd_tasks s) ?r = Inr r"
    and work: "work_left rank r < sum_list (map rank (sd_tasks s)) + work_left rank ?r
       \<or> quiet_since ?r r \<and> work_left rank r \<le> sum_list (map rank (sd_tasks s)) + work_left rank ?r"
    using poll_round_work[OF assms] by blast
  have honest: "round_honest poll r" using poll_round_honest[OF r] by (simp add: round_honest_def)
  let ?now = "sd_nanos (rs_sched r)" and ?ds = "sd_deadlines (rs_sched r)"
  let ?s = "(rs_sched r)\<lparr>sd_tasks := sd_tasks (rs_sched r) @ rs_pending r, sd_deadlines := filter (\<lambda>d. ?now + 1 \<le> d) ?ds\<rparr>"
  show thesis
  proof (cases "?now = u64_max")
    case True
    then show thesis using r by (intro panic[of "(rs_sched r)\<lparr>sd_tasks := sd_tasks (rs_sched r) @ rs_pending r\<rparr>"]) (auto simp: sched_round_def Let_def)
  next
    case now: False
    show thesis
    proof (cases "rs_progressed r \<or> rs_woke r \<or> sd_tasks (rs_sched r) \<noteq> []")
      case True
      then have "work_left rank r < sum_list (map rank (sd_tasks s))"
        using work by (auto simp: quiet_since_def work_left_def)
      then have "(?s, s) \<in> sched_bound rank" by (simp add: sched_bound_def work_left_def)
      moreover have "sched_round next_index poll s w = Again ?s (rs_world r)"
        using r now True by (simp add: sched_round_def Let_def)
      ultimately show thesis by (rule again[rotated])
    next
      case quiet: False
      show thesis
      proof (cases "filter (\<lambda>d. ?now + 1 \<le> d) ?ds")
        case Nil
        then have "sched_round next_index poll s w = Stuck ?s (rs_world r)"
          using r now quiet by (simp add: sched_round_def Let_def)
        then show thesis using Nil honest quiet by (intro stuck) (auto simp: round_honest_def)
      next
        case (Cons d ds)
        then have d: "?now < d" "d \<in> set ?ds" using next_nano[OF now] by (auto dest!: filter_eq_ConsD)
        let ?s' = "?s\<lparr>sd_nanos := advance_to_nanos d ?now\<rparr>"
        have late: "advance_to_nanos d ?now = d" using d(1) by (simp add: advance_to_nanos_def max.absorb2 less_imp_le)
        have "length (filter (\<lambda>x. d < x) (filter (\<lambda>x. ?now < x) ?ds)) < length (filter (\<lambda>x. ?now < x) ?ds)"
          using d by (intro length_filter_less[of d]) auto
        then have fewer: "quiet_since ?r r \<Longrightarrow>
            length (filter (\<lambda>x. d < x) (filter (\<lambda>x. ?now < x) ?ds)) < length (filter (\<lambda>x. sd_nanos s < x) (sd_deadlines s))"
          by (simp add: quiet_since_def)
        have tasks: "sum_list (map rank (sd_tasks ?s')) = work_left rank r" "work_left rank ?r = 0"
          by (simp_all add: work_left_def)
        have nanos: "sd_nanos ?s' = d" "sd_deadlines ?s' = filter (\<lambda>x. ?now < x) ?ds"
          using late next_nano[OF now] by simp_all
        have "(?s', s) \<in> sched_bound rank"
          using work fewer unfolding sched_bound_def in_measures tasks nanos by linarith
        moreover have "sched_round next_index poll s w = Again ?s' (rs_world r)"
          using r now quiet Cons by (simp add: sched_round_def Let_def)
        ultimately show thesis by (rule again[rotated])
      qed
    qed
  qed
qed

lemma run_returns:
  assumes "finite_tasks poll rank"
  shows "\<exists>result. run_until_idle next_index poll s w = Some result \<and> (case result of
      Inl (e, s') \<Rightarrow> e = ClockOverflow \<and> sd_nanos s' = u64_max
    | Inr (n, s', w') \<Rightarrow> n = length (sd_tasks s') \<and> (n = 0 \<or> sd_deadlines s' = [] \<and> list_all (asleep poll) (sd_tasks s')))"
proof -
  have "wf (sched_bound rank :: (('a, 'st) scheduler \<times> _) set)" by (simp add: sched_bound_def)
  then show ?thesis
  proof (induction s arbitrary: w rule: wf_induct_rule)
    case (less s)
    show ?case
    proof (cases "sd_tasks s = []")
      case True
      then show ?thesis by (simp add: run_until_idle.simps)
    next
      case False
      show ?thesis
        by (rule round_cases[OF assms, of s w])
          (use False less.IH in \<open>auto simp: run_until_idle.simps[of next_index poll s w]\<close>)
    qed
  qed
qed

end

text \<open>
  C38. A run of the seeded scheduler always ends, for every seed, when its tasks have finitely much work left. It then
  returns the number of tasks that remain; if any remain, no deadline is registered and each of them was left pending by its
  last poll, without a wake or a spawn. The one other outcome is the panic of the deadline arithmetic, and only
  when virtual time stands at its last value; the strategy never breaks its contract.
\<close>
theorem run_until_idle_returns:
  assumes "finite_tasks poll rank"
  shows "\<exists>result. run_until_idle seeded_next_index poll s w = Some result \<and> (case result of
      Inl (e, s') \<Rightarrow> e = ClockOverflow \<and> sd_nanos s' = u64_max
    | Inr (n, s', w') \<Rightarrow> n = length (sd_tasks s') \<and> (n = 0 \<or> sd_deadlines s' = [] \<and> list_all (asleep poll) (sd_tasks s')))"
  by (rule seeded.run_returns[OF assms])

text \<open>A task that awaits one sleep, known by its deadline.\<close>

definition await_sleep :: "(u64, unit) task_poll" where
  "await_sleep now deadline w = (if sleep_ready deadline now then None else Some deadline, [], w)"

theorem run_until_idle_returns_witness:
  "\<exists>s'. let s = sched_spawn 5000 (snd (sched_sleep 5000 (scheduler_with_strategy 7 0))) in
     run_until_idle seeded_next_index await_sleep s () = Some (Inr (0, s', ())) \<and> sd_tasks s' = [] \<and> sd_nanos s' = 5000"
proof -
  let ?s = "sched_spawn 5000 (snd (sched_sleep 5000 (scheduler_with_strategy 7 0))) :: (u64, u64) scheduler"
  have "finite_tasks await_sleep (\<lambda>_. 1)" by (simp add: finite_tasks_def await_sleep_def)
  from run_until_idle_returns[OF this, of ?s "()"] obtain result
    where r: "run_until_idle seeded_next_index await_sleep ?s () = Some result"
      and spec: "case result of Inl (e, s') \<Rightarrow> e = ClockOverflow \<and> sd_nanos s' = u64_max
        | Inr (n, s', w') \<Rightarrow> n = length (sd_tasks s') \<and> (n = 0 \<or> sd_deadlines s' = [] \<and> list_all (asleep await_sleep) (sd_tasks s'))"
    by blast
  obtain s' where s': "run_until_idle seeded_next_index await_sleep ?s () = Some (Inr (0, s', ()))" "sd_nanos s' = 5000"
    by (simp add: run_until_idle.simps sched_round_def poll_round.simps poll_task_def await_sleep_def sleep_ready_def swap_remove_def
        seeded_next_index_def next_random_def sched_spawn_def sched_sleep_def scheduler_with_strategy_def u64_max_def
        u64_saturating_add_def advance_to_nanos_def insort_insert_key_def)
  with r spec show ?thesis by (auto simp: Let_def)
qed

end
