(* ===== verification/Sim_Transport.thy ===== *)
theory Sim_Transport
  imports Sim_Storage Sim_Scheduler Replication
begin

text \<open>
  The network double of the simulation kit: \<open>transport.rs\<close> of \<open>crates/duckspout-ctk/src\<close>. Every endpoint shares one network; the mutex
  makes each method, and each poll of a receive, one step. The hash maps are ordered maps, since nothing iterates
  over them. The last section runs the replication forwarder and the scheduler over the double.
\<close>

section \<open>The network\<close>

record in_mem_network =
  nw_mailboxes :: "(node_id, (node_id \<times> string) list) btree"
  nw_links :: "(node_id \<times> node_id, bool) btree"
  nw_ledger :: injector_ledger

definition blackhole_fault_id :: "node_id \<Rightarrow> node_id \<Rightarrow> string" where
  "blackhole_fault_id from to = ''net:blackhole:'' @ node_str from @ ''->'' @ node_str to"

definition network_new :: "injector_ledger \<Rightarrow> in_mem_network" where
  "network_new l = \<lparr>nw_mailboxes = bt_empty, nw_links = bt_empty, nw_ledger = l\<rparr>"

definition net_endpoint :: "node_id \<Rightarrow> in_mem_network \<Rightarrow> in_mem_network" where
  "net_endpoint node n = n\<lparr>nw_mailboxes := bt_upsert node [] id (nw_mailboxes n)\<rparr>"

definition net_blackhole :: "node_id \<Rightarrow> node_id \<Rightarrow> in_mem_network \<Rightarrow> in_mem_network" where
  "net_blackhole from to n =
     n\<lparr>nw_ledger := ledger_arm (blackhole_fault_id from to) (nw_ledger n),
       nw_links := bt_upsert (from, to) False (\<lambda>_. True) (nw_links n)\<rparr>"

definition net_heal :: "node_id \<Rightarrow> node_id \<Rightarrow> in_mem_network \<Rightarrow> in_mem_network" where
  "net_heal from to n =
     (case bt_get (nw_links n) (from, to) of
        Some _ \<Rightarrow> n\<lparr>nw_links := bt_insert (from, to) False (nw_links n)\<rparr>
      | None \<Rightarrow> n)"

definition net_send :: "node_id \<Rightarrow> node_id \<Rightarrow> string \<Rightarrow> in_mem_network \<Rightarrow> (transport_error, unit) result \<times> in_mem_network" where
  "net_send node to payload n =
     (if map_or False id (bt_get (nw_links n) (node, to))
      then (Inr (), n\<lparr>nw_ledger := ledger_fired (blackhole_fault_id node to) (nw_ledger n)\<rparr>)
      else case bt_get (nw_mailboxes n) to of
        Some mailbox \<Rightarrow> (Inr (), n\<lparr>nw_mailboxes := bt_insert to (mailbox @ [(node, payload)]) (nw_mailboxes n)\<rparr>)
      | None \<Rightarrow> (Inl (UnknownPeer to), n))"

text \<open>One poll of a receive; \<open>None\<close> is pending.\<close>

definition net_recv :: "node_id \<Rightarrow> in_mem_network \<Rightarrow> (transport_error, node_id \<times> string) result option \<times> in_mem_network" where
  "net_recv node n =
     (case bt_get (nw_mailboxes n) node of
        Some (message # mailbox) \<Rightarrow> (Some (Inr message), n\<lparr>nw_mailboxes := bt_insert node mailbox (nw_mailboxes n)\<rparr>)
      | Some [] \<Rightarrow> (None, n)
      | None \<Rightarrow> (Some (Inl TransportClosed), n))"

section \<open>Runs\<close>

datatype net_op =
  OpEndpoint node_id
| OpBlackhole node_id node_id
| OpHeal node_id node_id
| OpSend node_id node_id string
| OpRecv node_id

datatype net_out =
  NetDone
| NetSent "(transport_error, unit) result"
| NetReceived "(transport_error, node_id \<times> string) result option"

primrec net_step :: "net_op \<Rightarrow> in_mem_network \<Rightarrow> net_out \<times> in_mem_network" where
  "net_step (OpEndpoint node) n = (NetDone, net_endpoint node n)"
| "net_step (OpBlackhole from to) n = (NetDone, net_blackhole from to n)"
| "net_step (OpHeal from to) n = (NetDone, net_heal from to n)"
| "net_step (OpSend from to payload) n = (case net_send from to payload n of (r, n) \<Rightarrow> (NetSent r, n))"
| "net_step (OpRecv node) n = (case net_recv node n of (r, n) \<Rightarrow> (NetReceived r, n))"

primrec net_run :: "net_op list \<Rightarrow> in_mem_network \<Rightarrow> (net_op \<times> net_out) list \<times> in_mem_network" where
  "net_run [] n = ([], n)"
| "net_run (op # ops) n = (case net_step op n of (out, n) \<Rightarrow> case net_run ops n of (outs, n) \<Rightarrow> ((op, out) # outs, n))"

section \<open>What a network promises\<close>

text \<open>The specification knows who has an endpoint and which links are cut, and what a node is owed.\<close>

type_synonym net_spec = "node_id set \<times> (node_id \<times> node_id) set"

primrec spec_step :: "net_op \<Rightarrow> net_spec \<Rightarrow> net_spec" where
  "spec_step (OpEndpoint node) x = (insert node (fst x), snd x)"
| "spec_step (OpBlackhole from to) x = (fst x, insert (from, to) (snd x))"
| "spec_step (OpHeal from to) x = (fst x, snd x - {(from, to)})"
| "spec_step (OpSend from to payload) x = x"
| "spec_step (OpRecv node) x = x"

primrec owed_to :: "node_id \<Rightarrow> net_spec \<Rightarrow> net_op list \<Rightarrow> (node_id \<times> string) list" where
  "owed_to node x [] = []"
| "owed_to node x (op # ops) =
     (case op of
        OpSend from to payload \<Rightarrow> (if to = node \<and> (from, to) \<notin> snd x \<and> to \<in> fst x then [(from, payload)] else [])
      | _ \<Rightarrow> []) @ owed_to node (spec_step op x) ops"

primrec dropped_by :: "string \<Rightarrow> net_spec \<Rightarrow> net_op list \<Rightarrow> nat" where
  "dropped_by fault x [] = 0"
| "dropped_by fault x (op # ops) =
     (case op of
        OpSend from to payload \<Rightarrow> (if (from, to) \<in> snd x \<and> blackhole_fault_id from to = fault then 1 else 0)
      | _ \<Rightarrow> 0) + dropped_by fault (spec_step op x) ops"

primrec received_by :: "node_id \<Rightarrow> (net_op \<times> net_out) list \<Rightarrow> (node_id \<times> string) list" where
  "received_by node [] = []"
| "received_by node (x # xs) =
     (case x of (OpRecv n, NetReceived (Some (Inr m))) \<Rightarrow> if n = node then [m] else [] | _ \<Rightarrow> []) @ received_by node xs"

definition mailbox_of :: "in_mem_network \<Rightarrow> node_id \<Rightarrow> (node_id \<times> string) list" where
  "mailbox_of n node = map_or [] id (bt_get (nw_mailboxes n) node)"

definition net_abs :: "in_mem_network \<Rightarrow> net_spec" where
  "net_abs n = ({node. bt_get (nw_mailboxes n) node \<noteq> None}, {link. bt_get (nw_links n) link = Some True})"

lemma net_step_abs: "net_abs (snd (net_step op n)) = spec_step op (net_abs n)"
  by (cases op)
    (auto simp: net_abs_def net_endpoint_def net_blackhole_def net_heal_def net_send_def net_recv_def bt_upsert_def
      split: option.splits list.splits prod.splits)

lemma net_step_mailbox:
  "received_by node [(op, fst (net_step op n))] @ mailbox_of (snd (net_step op n)) node
     = mailbox_of n node @ owed_to node (net_abs n) [op]"
  by (cases op)
    (auto simp: net_abs_def mailbox_of_def net_endpoint_def net_blackhole_def net_heal_def net_send_def net_recv_def bt_upsert_def map_or_def
      split: option.splits list.splits prod.splits)

lemma net_step_fired:
  "fc_fired (fault_count_of (nw_ledger (snd (net_step op n))) fault)
     = fc_fired (fault_count_of (nw_ledger n) fault) + of_nat (dropped_by fault (net_abs n) [op])"
  by (cases op)
    (auto simp: net_abs_def net_endpoint_def net_blackhole_def net_heal_def net_send_def net_recv_def map_or_def
      split: option.splits list.splits prod.splits)

lemma net_run_spec:
  "received_by node (fst (net_run ops n)) @ mailbox_of (snd (net_run ops n)) node = mailbox_of n node @ owed_to node (net_abs n) ops"
  "fc_fired (fault_count_of (nw_ledger (snd (net_run ops n))) fault)
     = fc_fired (fault_count_of (nw_ledger n) fault) + of_nat (dropped_by fault (net_abs n) ops)"
  "net_abs (snd (net_run ops n)) = fold spec_step ops (net_abs n)"
proof (induction ops arbitrary: n)
  case (Cons op ops)
  { case (1 n)
    let ?n = "snd (net_step op n)"
    have "received_by node (fst (net_run (op # ops) n)) @ mailbox_of (snd (net_run (op # ops) n)) node
        = received_by node [(op, fst (net_step op n))] @ received_by node (fst (net_run ops ?n)) @ mailbox_of (snd (net_run ops ?n)) node"
      by (simp add: split_beta)
    also have "\<dots> = received_by node [(op, fst (net_step op n))] @ mailbox_of ?n node @ owed_to node (spec_step op (net_abs n)) ops"
      by (simp only: Cons.IH(1) net_step_abs)
    also have "\<dots> = mailbox_of n node @ owed_to node (net_abs n) [op] @ owed_to node (spec_step op (net_abs n)) ops"
      using net_step_mailbox[of node op n] by (metis append.assoc)
    finally show ?case by simp }
  { case (2 n)
    show ?case using net_step_fired[of op n fault] Cons.IH(2)[of "snd (net_step op n)"] by (simp add: split_beta net_step_abs) }
  { case (3 n)
    show ?case using Cons.IH(3)[of "snd (net_step op n)"] by (simp add: split_beta net_step_abs) }
qed simp_all

text \<open>
  C40. The network double delivers exactly what the specification owes, in order. Whatever the endpoints do and whichever links are cut
  and healed on the way, from any network: what a node has received, followed by what waits in its mailbox, is what
  waited there before followed by the messages sent to it while it had an endpoint and the link was open, each once and in the order
  of the sends; and the ledger counts a firing of a blackhole for every message it swallowed, and no other.
\<close>
theorem network_delivers_exactly:
  "case net_run ops n of (outs, n') \<Rightarrow>
     received_by node outs @ mailbox_of n' node = mailbox_of n node @ owed_to node (net_abs n) ops
   \<and> fc_fired (fault_count_of (nw_ledger n') fault) = fc_fired (fault_count_of (nw_ledger n) fault) + of_nat (dropped_by fault (net_abs n) ops)
   \<and> net_abs n' = fold spec_step ops (net_abs n)"
  unfolding split_beta by (intro conjI net_run_spec)

section \<open>An exchange on the scheduler\<close>

text \<open>
  Two tasks over the doubles, one sending a request and awaiting the reply, one awaiting the request and replying. A pending
  receive keeps no waker and a send wakes nobody, so whether the scheduler runs the exchange to its end depends on the seed: when
  the receiver is polled first the round makes no progress and both tasks are reported stuck with the request
  undelivered.
\<close>

datatype exchange = Ask node_id node_id | AwaitReply node_id | Answer node_id

fun exchange_poll :: "(exchange, in_mem_network) task_poll" where
  "exchange_poll now (Ask a b) n =
     (case net_recv a (snd (net_send a b ''ping'' n)) of (None, n) \<Rightarrow> (Some (AwaitReply a), [], n) | (Some _, n) \<Rightarrow> (None, [], n))"
| "exchange_poll now (AwaitReply a) n =
     (case net_recv a n of (None, n) \<Rightarrow> (Some (AwaitReply a), [], n) | (Some _, n) \<Rightarrow> (None, [], n))"
| "exchange_poll now (Answer b) n =
     (case net_recv b n of
        (Some (Inr (a, m)), n) \<Rightarrow> (None, [], snd (net_send b a ''pong'' n))
      | (Some (Inl e), n) \<Rightarrow> (None, [], n)
      | (None, n) \<Rightarrow> (Some (Answer b), [], n))"

definition exchange_start :: "u64 \<Rightarrow> (exchange, u64) scheduler" where
  "exchange_start seed = sched_spawn (Answer (NodeId ''b'')) (sched_spawn (Ask (NodeId ''a'') (NodeId ''b'')) (scheduler_with_strategy seed 0))"

definition exchange_net :: in_mem_network where
  "exchange_net = net_endpoint (NodeId ''b'') (net_endpoint (NodeId ''a'') (network_new []))"

lemma picks:
  "seeded_next_index (Suc 0) st = (0, st + 0x9e3779b97f4a7c15)"
  "seeded_next_index (Suc (Suc 0)) 1 = (1, 0x9e3779b97f4a7c16)"
  "seeded_next_index (Suc (Suc 0)) 2 = (0, 0x9e3779b97f4a7c17)"
  by (simp_all add: seeded_next_index_def next_random_def Let_def numeral_2_eq_2[symmetric])

lemma node_order: "NodeId ''a'' < NodeId ''b''" "\<not> NodeId ''b'' < NodeId ''a''"
  by (simp_all add: id_order_defs)

lemmas exchange_defs = run_until_idle.simps sched_round_def poll_round.simps poll_task_def swap_remove_def picks node_order
  sched_spawn_def scheduler_with_strategy_def u64_max_def exchange_start_def exchange_net_def
  net_recv_def net_send_def net_endpoint_def network_new_def bt_empty_def bt_upsert_def

lemma exchange_reported_stuck:
  "\<exists>s n. run_until_idle seeded_next_index exchange_poll (exchange_start 1) exchange_net = Some (Inr (2, s, n))
     \<and> mailbox_of n (NodeId ''b'') = [(NodeId ''a'', ''ping'')]"
  by (simp add: exchange_defs mailbox_of_def)

lemma exchange_runs_to_its_end:
  "\<exists>s n. run_until_idle seeded_next_index exchange_poll (exchange_start 2) exchange_net = Some (Inr (0, s, n))"
  by (simp add: exchange_defs)

end
