(* ===== verification/Sim_Trace.thy ===== *)
theory Sim_Trace
  imports Judge_Evidence
begin

text \<open>
  The journal writer of the simulation kit (\<open>crates/duckspout-ctk/src/trace_writer.rs\<close>), and what the judge reads of what it wrote.
  The encoder of a line is a parameter; a panic of the writer (a record that does not serialise, a write that
  fails) is \<open>None\<close>, since nothing of the writer is used after it.
\<close>

section \<open>The writer\<close>

record trace_record =
  tr_node :: node_id
  tr_seq :: u64
  tr_event :: trace_event

record trace_writer =
  tw_node :: node_id
  tw_next_seq :: u64
  tw_out :: string

definition trace_writer_new :: "node_id \<Rightarrow> trace_writer" where
  "trace_writer_new node = \<lparr>tw_node = node, tw_next_seq = 0, tw_out = []\<rparr>"

definition writer_record :: "(trace_record \<Rightarrow> (string, string) result) \<Rightarrow> trace_event \<Rightarrow> trace_writer \<Rightarrow> trace_writer option" where
  "writer_record to_line event w =
     (case to_line \<lparr>tr_node = tw_node w, tr_seq = tw_next_seq w, tr_event = event\<rparr> of
        Inl _ \<Rightarrow> None
      | Inr line \<Rightarrow> Some (w\<lparr>tw_next_seq := tw_next_seq w + 1, tw_out := tw_out w @ line @ [char_of (10 :: nat)]\<rparr>))"

primrec writer_run :: "(trace_record \<Rightarrow> (string, string) result) \<Rightarrow> trace_event list \<Rightarrow> trace_writer \<Rightarrow> trace_writer option" where
  "writer_run to_line [] w = Some w"
| "writer_run to_line (e # es) w = (case writer_record to_line e w of None \<Rightarrow> None | Some w \<Rightarrow> writer_run to_line es w)"

section \<open>What is read of it\<close>

primrec written :: "node_id \<Rightarrow> u64 \<Rightarrow> trace_event list \<Rightarrow> trace_record list" where
  "written node seq [] = []"
| "written node seq (e # es) = \<lparr>tr_node = node, tr_seq = seq, tr_event = e\<rparr> # written node (seq + 1) es"

text \<open>The encoder and the judge's decoder agree on a record: one line, no repeated key, and none of the optional payloads.\<close>

definition line_decodes :: "'j json_codec \<Rightarrow> (trace_record \<Rightarrow> (string, string) result) \<Rightarrow> trace_record \<Rightarrow> bool" where
  "line_decodes codec to_line r \<longleftrightarrow> (\<exists>line rest. to_line r = Inr line \<and> char_of (10 :: nat) \<notin> set line \<and> strip_cr line = line
     \<and> reject_duplicate_keys codec line = Inr ()
     \<and> jc_envelope codec line = Inr \<lparr>env_node = tr_node r, env_seq = tr_seq r, env_event = tr_event r, env_rest = rest\<rparr>
     \<and> list_all (\<lambda>key. \<not> jc_has_key codec rest key) [''request_id'', ''complete_through_ms'', ''changelog_key'', ''part''])"

definition journal_of :: "string \<Rightarrow> nat \<Rightarrow> trace_record \<Rightarrow> journal_line" where
  "journal_of path line_no r =
     \<lparr>jl_source = path, jl_line_no = line_no, jl_node = tr_node r, jl_seq = tr_seq r, jl_event = tr_event r,
      jl_identity = None, jl_watermark = None, jl_changelog = None, jl_part = None\<rparr>"

lemma lines_loop_line: "char_of (10 :: nat) \<notin> set line \<Longrightarrow> lines_loop cur (line @ char_of (10 :: nat) # s) = strip_cr (cur @ line) # lines_loop [] s"
  by (induction line arbitrary: cur) auto

lemma writer_run_out:
  assumes "list_all (line_decodes codec to_line) (written (tw_node w) (tw_next_seq w) es)"
  shows "\<exists>out w'. writer_run to_line es w = Some w' \<and> tw_out w' = tw_out w @ out \<and> tw_next_seq w' = tw_next_seq w + of_nat (length es)
    \<and> (\<forall>path idx m. expected_seq m (tw_node w) = tw_next_seq w \<longrightarrow> parse_loop codec path idx m (str_lines out)
          = Inr (map (\<lambda>(i, r). journal_of path (i + 1) r) (enumerate idx (written (tw_node w) (tw_next_seq w) es))))"
  using assms
proof (induction es arbitrary: w)
  case (Cons e es)
  let ?r = "\<lparr>tr_node = tw_node w, tr_seq = tw_next_seq w, tr_event = e\<rparr>"
  obtain line rest where line: "to_line ?r = Inr line" "char_of (10 :: nat) \<notin> set line" "strip_cr line = line"
    "reject_duplicate_keys codec line = Inr ()"
    "jc_envelope codec line = Inr \<lparr>env_node = tw_node w, env_seq = tw_next_seq w, env_event = e, env_rest = rest\<rparr>"
    "list_all (\<lambda>key. \<not> jc_has_key codec rest key) [''request_id'', ''complete_through_ms'', ''changelog_key'', ''part'']"
    using Cons.prems by (auto simp: line_decodes_def)
  have decoded: "decode_payloads codec path n \<lparr>env_node = tw_node w, env_seq = tw_next_seq w, env_event = e, env_rest = rest\<rparr>
      = Inr (journal_of path n ?r)" for path n
    using line(6) by (simp add: decode_payloads_def identity_from_rest_def watermark_from_rest_def changelog_from_rest_def
        part_from_rest_def journal_of_def)
  let ?w = "w\<lparr>tw_next_seq := tw_next_seq w + 1, tw_out := tw_out w @ line @ [char_of (10 :: nat)]\<rparr>"
  from Cons.IH[of ?w] Cons.prems obtain out w' where run: "writer_run to_line es ?w = Some w'" "tw_out w' = tw_out ?w @ out"
    "tw_next_seq w' = tw_next_seq ?w + of_nat (length es)"
    and parse: "\<forall>path idx m. expected_seq m (tw_node w) = tw_next_seq w + 1 \<longrightarrow> parse_loop codec path idx m (str_lines out)
       = Inr (map (\<lambda>(i, r). journal_of path (i + 1) r) (enumerate idx (written (tw_node w) (tw_next_seq w + 1) es)))"
    by auto
  have split: "str_lines (line @ char_of (10 :: nat) # out) = line # str_lines out"
    using lines_loop_line[OF line(2), of "[]" out] line(3) by (simp add: str_lines_def)
  show ?case
    using run line(1,4,5) parse decoded
    by (intro exI[of _ "line @ char_of (10 :: nat) # out"] exI[of _ w']) (auto simp: writer_record_def split Let_def ac_simps)
qed (simp add: str_lines_def)

section \<open>The journals of a run\<close>

text \<open>A run of a node: the path of its journal, its name, and the events it recorded before it stopped or crashed.\<close>

type_synonym node_run = "string \<times> node_id \<times> trace_event list"

definition journaled :: "(trace_record \<Rightarrow> (string, string) result) \<Rightarrow> read_fs \<Rightarrow> node_run \<Rightarrow> bool" where
  "journaled to_line fs run = (case run of (path, node, es) \<Rightarrow>
     case writer_run to_line es (trace_writer_new node) of Some w \<Rightarrow> fs path = Inr (tw_out w) | None \<Rightarrow> False)"

definition journal_lines :: "node_run \<Rightarrow> journal_line list" where
  "journal_lines run = (case run of (path, node, es) \<Rightarrow> map (\<lambda>(i, r). journal_of path (i + 1) r) (enumerate 0 (written node 0 es)))"

lemma parse_written:
  assumes "journaled to_line fs (path, node, es)" and "list_all (line_decodes codec to_line) (written node 0 es)"
  shows "parse_journal_file codec fs path = Inr (journal_lines (path, node, es))"
  using assms writer_run_out[of codec to_line "trace_writer_new node" es]
  by (auto simp: journaled_def trace_writer_new_def parse_journal_file_def journal_lines_def split: option.splits)

lemma written_node: "r \<in> set (written node seq es) \<Longrightarrow> tr_node r = node"
  by (induction es arbitrary: seq) auto

lemma journal_lines_node:
  assumes "line \<in> set (journal_lines run)"
  shows "jl_node line = fst (snd run)"
proof -
  obtain i where "i < length (written (fst (snd run)) 0 (snd (snd run)))"
    and "jl_node line = tr_node (written (fst (snd run)) 0 (snd (snd run)) ! i)"
    using assms by (cases run) (auto simp: journal_lines_def journal_of_def in_set_enumerate_eq)
  then show ?thesis using written_node[OF nth_mem] by metis
qed

lemma disjoint_journals:
  assumes "list_all (\<lambda>run. check_cross_file_density (journal_lines run) = Inr ()) runs" and "distinct (map (\<lambda>(_, node, _). node) runs)"
  shows "check_cross_file_density (concat (map journal_lines runs)) = Inr ()"
  using assms
proof (induction runs)
  case (Cons run runs)
  obtain path node es where run: "run = (path, node, es)" by (metis prod_cases3)
  have mine: "node_seqs x (journal_lines run) = []" if "x \<noteq> node" for x
    unfolding node_seqs_Nil using that journal_lines_node[of _ run] run by fastforce
  have others: "node_seqs node (concat (map journal_lines runs)) = []"
  proof -
    have "node \<notin> (\<lambda>run. fst (snd run)) ` set runs" using Cons.prems(2) run by (simp add: split_beta)
    moreover have "jl_node line \<in> (\<lambda>run. fst (snd run)) ` set runs" if "line \<in> set (concat (map journal_lines runs))" for line
    proof -
      from that obtain run' where "run' \<in> set runs" "line \<in> set (journal_lines run')" by auto
      then show ?thesis using journal_lines_node by (metis imageI)
    qed
    ultimately show ?thesis unfolding node_seqs_Nil by (metis imageE)
  qed
  show ?case unfolding density_iff
  proof
    fix x
    have "node_seqs x (journal_lines run) = counting 0 (length (node_seqs x (journal_lines run)))"
      and "node_seqs x (concat (map journal_lines runs)) = counting 0 (length (node_seqs x (concat (map journal_lines runs))))"
      using Cons by (simp_all add: density_iff)
    then show "node_seqs x (concat (map journal_lines (run # runs)))
        = counting 0 (length (node_seqs x (concat (map journal_lines (run # runs)))))"
      using mine others by (cases "x = node") simp_all
  qed
qed (simp add: check_cross_file_density_def)

text \<open>
  C24. The judge reads back what the nodes journaled. When every node of a run wrote its journal with its own writer, up to
  whatever point it reached, and the decoder understands the lines of the encoder, ingestion accepts the journals and yields
  exactly the recorded events of every node, in order, each with its dense number and its place in the file: a journal cut off
  by a crash after any event is a clean prefix and not an error.
\<close>
theorem journals_read_back:
  assumes "list_all (journaled to_line fs) runs" and "distinct (map (\<lambda>(_, node, _). node) runs)"
    and "list_all (\<lambda>(_, node, es). list_all (line_decodes codec to_line) (written node 0 es)) runs"
  shows "ingest_journals codec fs (map fst runs) = Inr (concat (map journal_lines runs))"
proof -
  have parsed: "list_all (\<lambda>run. parse_journal_file codec fs (fst run) = Inr (journal_lines run)) runs"
    using assms(1,3) parse_written by (fastforce simp: list_all_iff)
  then have "list_all2 (\<lambda>path f. parse_journal_file codec fs path = Inr f) (map fst runs) (map journal_lines runs)"
    by (simp add: list_all2_conv_all_nth list_all_length)
  then have "ingest_loop codec fs (map fst runs) = Inr (concat (map journal_lines runs))"
    by (auto simp: ingest_loop_files)
  moreover have "list_all (\<lambda>run. check_cross_file_density (journal_lines run) = Inr ()) runs"
    using parsed by (rule list.pred_mono_strong) (rule parse_file_density)
  ultimately show ?thesis using disjoint_journals[OF _ assms(2)] by (simp add: ingest_journals_def)
qed

text \<open>A decoder of three lines.\<close>

definition plain_line :: "trace_record \<Rightarrow> (string, string) result" where
  "plain_line r = Inr (node_str (tr_node r) @ (if tr_seq r = 0 then ''0'' else ''1''))"

definition plain_codec :: "unit json_codec" where
  "plain_codec = \<lparr>jc_keys = \<lambda>_. ([''node'', ''seq'', ''event''], None),
     jc_envelope = (\<lambda>l. case map_of [
         (''a0'', \<lparr>env_node = NodeId ''a'', env_seq = 0, env_event = TeAccept, env_rest = ()\<rparr>),
         (''a1'', \<lparr>env_node = NodeId ''a'', env_seq = 1, env_event = TeClientAck, env_rest = ()\<rparr>),
         (''b0'', \<lparr>env_node = NodeId ''b'', env_seq = 0, env_event = TeHeartbeat, env_rest = ()\<rparr>)] l of Some e \<Rightarrow> Inr e | None \<Rightarrow> Inl ''no such line''),
     jc_value = \<lambda>_. Inr (), jc_has_key = \<lambda>_ _. False, jc_identity = \<lambda>_. Inl [], jc_watermark = \<lambda>_. Inl [], jc_changelog = \<lambda>_. Inl [],
     jc_part = \<lambda>_. Inl [], jc_read_record = \<lambda>_. Inl [], jc_probe = \<lambda>_. Inl []\<rparr>"

theorem journals_read_back_witness:
  "let fs = (\<lambda>p. if p = ''ja'' then Inr (''a0'' @ [char_of (10 :: nat)] @ ''a1'' @ [char_of (10 :: nat)]) else Inr (''b0'' @ [char_of (10 :: nat)]));
       runs = [(''ja'', NodeId ''a'', [TeAccept, TeClientAck]), (''jb'', NodeId ''b'', [TeHeartbeat])]
   in list_all (journaled plain_line fs) runs
     \<and> ingest_journals plain_codec fs [''ja'', ''jb''] = Inr (concat (map journal_lines runs))"
proof -
  let ?fs = "\<lambda>p. if p = ''ja'' then Inr (''a0'' @ [char_of (10 :: nat)] @ ''a1'' @ [char_of (10 :: nat)]) else Inr (''b0'' @ [char_of (10 :: nat)]) :: (string, string) result"
  let ?runs = "[(''ja'', NodeId ''a'', [TeAccept, TeClientAck]), (''jb'', NodeId ''b'', [TeHeartbeat])]"
  have wrote: "list_all (journaled plain_line ?fs) ?runs"
    by (simp add: journaled_def trace_writer_new_def writer_record_def plain_line_def)
  have "list_all (\<lambda>(_, node, es). list_all (line_decodes plain_codec plain_line) (written node 0 es)) ?runs"
    by (simp add: line_decodes_def plain_line_def plain_codec_def reject_duplicate_keys_def strip_cr_def
        char_of_def)
  from journals_read_back[OF wrote _ this] wrote show ?thesis unfolding Let_def by simp
qed

end
