(* ===== verification/Loadgen.thy ===== *)
theory Loadgen
  imports Accept_Server
begin

text \<open>
  The load generator, \<open>outcome.rs\<close>, \<open>client.rs\<close>, \<open>journal.rs\<close> and the accounting of \<open>main.rs\<close> of
  \<open>crates/duckspout-loadgen/src\<close>: what it sends, how it resolves the race between the answer and its deadline,
  and what it journals as a client. The call and the race are a parameter, as is what the transport library accepts as
  metadata; a status is known by its code and its retry advice. The last section puts the export handler of
  \<open>Accept_Server\<close> at the other end of the connection.
\<close>

section \<open>The race\<close>

record client_status =
  cs_code :: nat
  cs_retry_info :: "u64 option"

datatype race_outcome = Settled "(client_status, partial_success option) result" | DeadlineFirst

datatype request_resolution = Acked | TimedOut | Rejected | Ambiguous

definition classify_error :: "client_status \<Rightarrow> request_resolution" where
  "classify_error status =
     (let explicit_rejection = (cs_retry_info status \<noteq> None
        \<or> cs_code status \<in> {grpc_code_number InvalidArgument, grpc_code_number ResourceExhausted})
      in if explicit_rejection then Rejected else TimedOut)"

definition resolve :: "race_outcome \<Rightarrow> request_resolution" where
  "resolve raced =
     (case raced of
        Settled (Inr partial) \<Rightarrow>
          (if map_or False (\<lambda>p. 0 < ps_rejected_log_records p) partial then Rejected else Acked)
      | Settled (Inl status) \<Rightarrow> classify_error status
      | DeadlineFirst \<Rightarrow> Ambiguous)"

section \<open>The journal\<close>

record load_identity =
  li_request_id :: string
  li_tenant :: string
  li_record_count :: nat
  li_first_index :: u64
  li_source_incarnation :: string

record load_line =
  ll_node :: node_id
  ll_seq :: u64
  ll_event :: trace_event
  ll_identity :: load_identity

record load_journal =
  lj_node :: node_id
  lj_next_seq :: u64
  lj_lines :: "load_line list"

definition load_journal_new :: "node_id \<Rightarrow> load_journal" where
  "load_journal_new node = \<lparr>lj_node = node, lj_next_seq = 0, lj_lines = []\<rparr>"

definition load_record :: "trace_event \<Rightarrow> load_identity \<Rightarrow> load_journal \<Rightarrow> load_journal" where
  "load_record event identity j =
     j\<lparr>lj_next_seq := lj_next_seq j + 1,
       lj_lines := lj_lines j @ [\<lparr>ll_node = lj_node j, ll_seq = lj_next_seq j, ll_event = event, ll_identity = identity\<rparr>]\<rparr>"

definition record_client_ack :: "load_identity \<Rightarrow> load_journal \<Rightarrow> load_journal" where
  "record_client_ack = load_record TeClientAck"

definition record_client_timeout :: "load_identity \<Rightarrow> load_journal \<Rightarrow> load_journal" where
  "record_client_timeout = load_record TeClientTimeout"

section \<open>The client\<close>

definition source_incarnation :: "node_id \<Rightarrow> nat \<Rightarrow> string" where
  "source_incarnation node start_nonce = node_str node @ ''-'' @ show_nat start_nonce"

definition load_request_id :: "node_id \<Rightarrow> nat \<Rightarrow> u64 \<Rightarrow> string" where
  "load_request_id node start_nonce sequence = node_str node @ ''-'' @ show_nat start_nonce @ ''-'' @ show_nat (unat sequence)"

definition load_record_key :: "string \<Rightarrow> u64 \<Rightarrow> string" where
  "load_record_key incarnation index = incarnation @ ''-'' @ show_nat (unat index)"

definition synthetic_record :: "string \<Rightarrow> u64 \<Rightarrow> log_record" where
  "synthetic_record incarnation index =
     \<lparr>lr_time_unix_nano = index, lr_observed_time_unix_nano = 0, lr_severity_number = 9, lr_severity_text = ''INFO'',
      lr_body = Some (AnyValue (Some (StringValue (''loadgen record '' @ show_nat (unat index))))),
      lr_attributes = [KeyValue ''loadgen.index'' 0 (Some (AnyValue (Some (StringValue (load_record_key incarnation index)))))],
      lr_dropped_attributes_count = 0, lr_flags = 0, lr_trace_id = [], lr_span_id = [], lr_event_name = []\<rparr>"

definition synthetic_batch :: "string \<Rightarrow> nat \<Rightarrow> u64 \<Rightarrow> export_request" where
  "synthetic_batch incarnation record_count first_index =
     [\<lparr>rl_resource = None, rl_scope_logs = [\<lparr>sl_scope = None,
        sl_log_records = map (\<lambda>i. synthetic_record incarnation (first_index + of_nat i)) [0..<record_count]\<rparr>]\<rparr>]"

definition load_metadata :: "load_identity \<Rightarrow> request_metadata" where
  "load_metadata identity key =
     (if key = ''x-scope-orgid'' then Some (TextValue (li_tenant identity))
      else if key = ''x-duckspout-idempotency-key'' then Some (TextValue (li_request_id identity))
      else None)"

text \<open>\<open>None\<close> is the panic on a tenant or request id that is not metadata.\<close>

definition send_and_journal ::
  "(string \<Rightarrow> bool) \<Rightarrow> (request_metadata \<Rightarrow> export_request \<Rightarrow> 's \<Rightarrow> race_outcome \<times> 's) \<Rightarrow> load_identity
     \<Rightarrow> load_journal \<times> 's \<Rightarrow> (request_resolution \<times> load_journal \<times> 's) option" where
  "send_and_journal is_metadata call identity x =
     (case x of (j, s) \<Rightarrow>
      let message = synthetic_batch (li_source_incarnation identity) (li_record_count identity) (li_first_index identity) in
      if \<not> is_metadata (li_tenant identity) \<or> \<not> is_metadata (li_request_id identity) then None
      else case call (load_metadata identity) message s of (raced, s) \<Rightarrow>
        let resolution = resolve raced;
            j = (case resolution of
                   Acked \<Rightarrow> record_client_ack identity j
                 | TimedOut \<Rightarrow> record_client_timeout identity j
                 | Rejected \<Rightarrow> j
                 | Ambiguous \<Rightarrow> j)
        in Some (resolution, j, s))"

section \<open>The accounting of a run\<close>

record load_stats =
  ls_acked :: u64
  ls_timed_out :: u64
  ls_rejected :: u64
  ls_ambiguous :: u64

definition load_stats_default :: load_stats where
  "load_stats_default = \<lparr>ls_acked = 0, ls_timed_out = 0, ls_rejected = 0, ls_ambiguous = 0\<rparr>"

definition load_stats_record :: "request_resolution \<Rightarrow> load_stats \<Rightarrow> load_stats" where
  "load_stats_record resolution st =
     (case resolution of
        Acked \<Rightarrow> st\<lparr>ls_acked := ls_acked st + 1\<rparr>
      | TimedOut \<Rightarrow> st\<lparr>ls_timed_out := ls_timed_out st + 1\<rparr>
      | Rejected \<Rightarrow> st\<lparr>ls_rejected := ls_rejected st + 1\<rparr>
      | Ambiguous \<Rightarrow> st\<lparr>ls_ambiguous := ls_ambiguous st + 1\<rparr>)"

definition load_stats_total :: "load_stats \<Rightarrow> u64" where
  "load_stats_total st = ls_acked st + ls_timed_out st + ls_rejected st + ls_ambiguous st"

definition load_identity_at :: "string \<Rightarrow> nat \<Rightarrow> node_id \<Rightarrow> nat \<Rightarrow> u64 \<Rightarrow> load_identity" where
  "load_identity_at tenant batch_size node start_nonce sent =
     \<lparr>li_request_id = load_request_id node start_nonce sent, li_tenant = tenant, li_record_count = batch_size,
      li_first_index = sent * of_nat batch_size, li_source_incarnation = source_incarnation node start_nonce\<rparr>"

text \<open>The tasks of a run, in the order in which they go through their call, with the accounting.\<close>

fun load_run ::
  "(string \<Rightarrow> bool) \<Rightarrow> (request_metadata \<Rightarrow> export_request \<Rightarrow> 's \<Rightarrow> race_outcome \<times> 's) \<Rightarrow> load_identity list
     \<Rightarrow> load_journal \<times> 's \<Rightarrow> load_stats \<Rightarrow> (load_stats \<times> load_journal \<times> 's) option" where
  "load_run is_metadata call [] x st = Some (st, x)"
| "load_run is_metadata call (identity # ids) x st =
     (case send_and_journal is_metadata call identity x of
        None \<Rightarrow> None
      | Some (resolution, x) \<Rightarrow> load_run is_metadata call ids x (load_stats_record resolution st))"

text \<open>A run accounts for every request it sent, and its journal for every acknowledgement and timeout it counted.\<close>

definition journaled_as :: "trace_event \<Rightarrow> load_journal \<Rightarrow> nat" where
  "journaled_as event j = length (filter (\<lambda>l. ll_event l = event) (lj_lines j))"

lemma send_accounts:
  assumes "send_and_journal is_metadata call identity (j, s) = Some (resolution, j', s')"
  shows "load_stats_total (load_stats_record resolution st) = load_stats_total st + 1"
    and "ls_acked (load_stats_record resolution st) - of_nat (journaled_as TeClientAck j') = ls_acked st - of_nat (journaled_as TeClientAck j)"
    and "ls_timed_out (load_stats_record resolution st) - of_nat (journaled_as TeClientTimeout j')
       = ls_timed_out st - of_nat (journaled_as TeClientTimeout j)"
  using assms
  by (cases resolution; auto simp: send_and_journal_def load_stats_total_def load_stats_record_def journaled_as_def load_record_def
      record_client_ack_def record_client_timeout_def Let_def split: if_splits prod.splits)+

lemma load_run_accounts:
  assumes "load_run is_metadata call ids (j, s) st = Some (st', j', s')"
  shows "load_stats_total st' = load_stats_total st + of_nat (length ids)"
    and "ls_acked st' - of_nat (journaled_as TeClientAck j') = ls_acked st - of_nat (journaled_as TeClientAck j)"
    and "ls_timed_out st' - of_nat (journaled_as TeClientTimeout j') = ls_timed_out st - of_nat (journaled_as TeClientTimeout j)"
proof -
  have "load_stats_total st' = load_stats_total st + of_nat (length ids)
    \<and> ls_acked st' - of_nat (journaled_as TeClientAck j') = ls_acked st - of_nat (journaled_as TeClientAck j)
    \<and> ls_timed_out st' - of_nat (journaled_as TeClientTimeout j') = ls_timed_out st - of_nat (journaled_as TeClientTimeout j)"
    using assms
  proof (induction ids arbitrary: j s st)
    case (Cons identity ids)
    then obtain resolution j1 s1 where sent: "send_and_journal is_metadata call identity (j, s) = Some (resolution, j1, s1)"
      and rest: "load_run is_metadata call ids (j1, s1) (load_stats_record resolution st) = Some (st', j', s')"
      by (auto split: option.splits)
    show ?case using Cons.IH[OF rest] send_accounts[OF sent, of st] by (simp add: algebra_simps)
  qed simp
  then show "load_stats_total st' = load_stats_total st + of_nat (length ids)"
    and "ls_acked st' - of_nat (journaled_as TeClientAck j') = ls_acked st - of_nat (journaled_as TeClientAck j)"
    and "ls_timed_out st' - of_nat (journaled_as TeClientTimeout j') = ls_timed_out st - of_nat (journaled_as TeClientTimeout j)"
    by blast+
qed

section \<open>Over the export handler\<close>

text \<open>
  What the connection did to a call: delivered both ways, lost the request or the answer (the client then sees a status the transport
  made up), or was slower than the deadline, before or after the handler ran.
\<close>

datatype link_fate = Delivered | RequestLost client_status | AnswerLost client_status | Late bool

definition on_wire :: "grpc_status \<Rightarrow> client_status" where
  "on_wire st = \<lparr>cs_code = grpc_code_number (st_code st), cs_retry_info = st_retry_info_ms st\<rparr>"

definition serve_call ::
  "'s accept_env \<Rightarrow> admission_config \<Rightarrow> link_fate \<Rightarrow> request_metadata \<Rightarrow> export_request \<Rightarrow> 's otlp_service
     \<Rightarrow> race_outcome \<times> 's otlp_service" where
  "serve_call E admission fate metadata message s =
     (case fate of
        Delivered \<Rightarrow> (case export E admission metadata message s of (r, s) \<Rightarrow> (Settled (map_err on_wire r), s))
      | RequestLost st \<Rightarrow> (Settled (Inl st), s)
      | AnswerLost st \<Rightarrow> (Settled (Inl st), snd (export E admission metadata message s))
      | Late handled \<Rightarrow> (DeadlineFirst, if handled then snd (export E admission metadata message s) else s))"

text \<open>A status that comes from the transport and not from a handler.\<close>

definition transport_status :: "client_status \<Rightarrow> bool" where
  "transport_status st \<longleftrightarrow> cs_retry_info st = None
     \<and> cs_code st \<notin> {grpc_code_number InvalidArgument, grpc_code_number ResourceExhausted}"

definition transport_fate :: "link_fate \<Rightarrow> bool" where
  "transport_fate fate = (case fate of RequestLost st \<Rightarrow> transport_status st | AnswerLost st \<Rightarrow> transport_status st | _ \<Rightarrow> True)"

lemma synthetic_rows: "length (flat_rows render (synthetic_batch incarnation n first)) = n"
  by (simp add: flat_rows_def synthetic_batch_def scope_rows_def)

lemma load_headers:
  "metadata_str (load_metadata identity) ''x-scope-orgid'' = Inr (Some (li_tenant identity))"
  "metadata_str (load_metadata identity) ''x-duckspout-idempotency-key'' = Inr (Some (li_request_id identity))"
  by (simp_all add: metadata_str_def load_metadata_def)

text \<open>The batch of a request that the handler decoded.\<close>

definition carries_request :: "'s accept_env \<Rightarrow> load_identity \<Rightarrow> decoded_batch \<Rightarrow> bool" where
  "carries_request E identity batch \<longleftrightarrow>
     tenant_from_header (Some (li_tenant identity)) = Inr (dcb_tenant batch)
   \<and> dcb_idempotency_key batch = Some (li_request_id identity)
   \<and> ae_ipc_write E (columns_of (ae_render E) (flat_rows (ae_render E)
        (synthetic_batch (li_source_incarnation identity) (li_record_count identity) (li_first_index identity)))) = Inr (dcb_records batch)"

lemma load_decodes:
  assumes "export_decodes E admission (load_metadata identity)
      (synthetic_batch (li_source_incarnation identity) (li_record_count identity) (li_first_index identity)) decoded"
  shows "dl_rows decoded = li_record_count identity" and "carries_request E identity (dl_batch decoded)"
  using assms by (auto simp: export_decodes_def load_headers decode_exact synthetic_rows carries_request_def split: sum.splits)

lemma refusal_rejected:
  assumes "st_retry_info_ms st \<noteq> None \<or> st_code st \<noteq> Unavailable"
  shows "classify_error (on_wire st) = Rejected"
  using assms by (cases "st_code st") (auto simp: classify_error_def on_wire_def)

lemma success_acked: "resolve (Settled (Inr (strindex_warning n))) = Acked"
  by (simp add: resolve_def strindex_warning_def)

text \<open>What the client makes of an answer the handler gave.\<close>

lemma answer_resolved:
  assumes "export E admission (load_metadata identity)
      (synthetic_batch (li_source_incarnation identity) (li_record_count identity) (li_first_index identity)) s = (r, s')"
  obtains (acked) "resolve (Settled (map_err on_wire r)) = Acked" and "li_record_count identity = 0 \<or> (\<exists>batch cov st.
      carries_request E identity batch \<and> sv_stager s' = st
      \<and> ae_stage_commit E batch (sv_stager s) \<in> {(Inr (StageCommitted cov), st), (Inr (DuplicateAcked cov), st)})"
  | (refused) "resolve (Settled (map_err on_wire r)) = Rejected"
      and "sv_trace s' \<in> {sv_trace s, sv_trace s @ [TeThrottle], sv_trace s @ [TeRefuse]}"
  using assms
proof (cases rule: export_cases)
  case (rejected st)
  then show thesis using refusal_rejected[of st] refused by (simp add: resolve_def)
next
  case (empty decoded)
  then show thesis using load_decodes(1)[OF empty(1)] success_acked by (intro acked) simp_all
next
  case (staged decoded rs)
  from staged(3) show thesis
  proof (cases rule: stage_guarded_cases)
    case (over_cap st)
    then show thesis using staged(4) refusal_rejected[of st] refused by (simp add: resolve_def)
  next
    case (failed e st)
    then have "r = Inl (stage_status (ae_stage_error_text E) e)" using staged(4) by simp
    moreover have "sv_trace s' \<in> {sv_trace s, sv_trace s @ [TeThrottle], sv_trace s @ [TeRefuse]}"
      using failed(3) by (auto simp: journal_refusal_def sv_journal_def split: stage_error.splits)
    moreover have "classify_error (on_wire (stage_status (ae_stage_error_text E) e)) = Rejected"
      by (rule refusal_rejected) (use stage_status_unavailable in blast)
    ultimately show thesis using refused by (simp add: resolve_def)
  next
    case (committed cov st)
    then show thesis using staged(4) load_decodes(2)[OF staged(1)] success_acked
      by (intro acked) (auto simp: sv_journal_def)
  next
    case (duplicate cov st)
    then show thesis using staged(4) load_decodes(2)[OF staged(1)] success_acked by (intro acked) auto
  next
    case (in_flight st g)
    then show thesis using staged(4) refusal_rejected[of g] refused by (simp add: resolve_def)
  qed
qed


text \<open>A request of two records, to the port that keeps what it commits.\<close>

definition demo_identity :: load_identity where
  "demo_identity = load_identity_at ''t'' 2 (NodeId ''lg'') 7 0"


section \<open>Identities\<close>

lemma last_dash:
  assumes "CHR ''-'' \<notin> set ds" and "CHR ''-'' \<notin> set es"
  shows "xs @ CHR ''-'' # ds = ys @ CHR ''-'' # es \<longleftrightarrow> xs = ys \<and> ds = es"
proof
  assume "xs @ CHR ''-'' # ds = ys @ CHR ''-'' # es"
  then obtain us where "xs = ys @ us \<and> us @ CHR ''-'' # ds = CHR ''-'' # es \<or> xs @ us = ys \<and> CHR ''-'' # ds = us @ CHR ''-'' # es"
    unfolding append_eq_append_conv2 by blast
  with assms show "xs = ys \<and> ds = es" by (cases us) auto
qed simp

lemma number_no_dash: "CHR ''-'' \<notin> set (show_nat n)"
  using show_nat_digits[of "CHR ''-''" n] by (auto simp: is_digit_def)

lemma record_key_inject:
  "load_record_key (source_incarnation node k) i = load_record_key (source_incarnation node' k') i' \<longleftrightarrow> node = node' \<and> k = k' \<and> i = i'"
  by (cases node; cases node') (auto simp: load_record_key_def source_incarnation_def last_dash number_no_dash word_unat_eq_iff simp flip: append_assoc)

text \<open>The keys of the records a process sends in its first \<open>n\<close> batches.\<close>

definition process_keys :: "string \<Rightarrow> nat \<Rightarrow> nat \<Rightarrow> node_id \<times> nat \<Rightarrow> string list" where
  "process_keys tenant batch_size n p =
     concat (map (\<lambda>sent. let identity = load_identity_at tenant batch_size (fst p) (snd p) (of_nat sent) in
       map (\<lambda>i. load_record_key (li_source_incarnation identity) (li_first_index identity + of_nat i)) [0..<li_record_count identity]) [0..<n])"

lemma process_keys_eq:
  "process_keys tenant batch_size n p = map (\<lambda>i. load_record_key (source_incarnation (fst p) (snd p)) (of_nat i)) [0..<n * batch_size]"
proof (induction n)
  case (Suc n)
  have "[0..<Suc n * batch_size] = [0..<n * batch_size] @ map (\<lambda>i. i + n * batch_size) [0..<batch_size]"
    using upt_add_eq_append[of 0 "n * batch_size" batch_size] by (simp add: map_add_upt add.commute)
  then show ?case using Suc.IH by (simp add: process_keys_def load_identity_at_def o_def add.commute[of "of_nat n * of_nat batch_size"])
qed (simp add: process_keys_def)

text \<open>
  No two records of a fleet share a key. The records sent by any processes that differ in their node or in their start
  nonce, in any number of batches that 64 bits can count, all have different keys: across the batches of a process, across
  its restarts and across the members of the fleet.
\<close>
theorem fleet_records_unique:
  assumes "distinct procs" and "n * batch_size < 2 ^ 64"
  shows "distinct (concat (map (process_keys tenant batch_size n) procs))"
  using assms(1)
proof (induction procs)
  case (Cons p procs)
  have "inj_on (of_nat :: nat \<Rightarrow> u64) {0..<n * batch_size}"
  proof (rule inj_onI)
    fix x y assume "x \<in> {0..<n * batch_size}" "y \<in> {0..<n * batch_size}" "(of_nat x :: u64) = of_nat y"
    then have "x mod 2 ^ 64 = y mod 2 ^ 64" using unat_of_nat[of x, where 'a = 64] unat_of_nat[of y, where 'a = 64] by simp
    moreover have "x < 2 ^ 64" "y < 2 ^ 64" using \<open>x \<in> _\<close> \<open>y \<in> _\<close> assms(2) by (simp_all only: atLeastLessThan_iff) linarith+
    ultimately show "x = y" by (simp only: mod_less)
  qed
  then have "inj_on (\<lambda>i. load_record_key (source_incarnation (fst p) (snd p)) (of_nat i)) {0..<n * batch_size}"
    by (rule inj_on_subset[OF comp_inj_on, unfolded comp_def]) (simp_all add: inj_on_def record_key_inject)
  then have "distinct (process_keys tenant batch_size n p)" by (simp only: process_keys_eq distinct_map distinct_upt set_upt simp_thms)
  moreover have "set (process_keys tenant batch_size n p) \<inter> set (process_keys tenant batch_size n q) = {}" if "q \<in> set procs" for q
    using that Cons.prems by (cases p; cases q) (auto simp: process_keys_eq record_key_inject)
  ultimately show ?case using Cons by auto
qed simp

theorem fleet_records_unique_witness:
  "distinct (concat (map (process_keys ''t'' 2 3) [(NodeId ''a'', 1), (NodeId ''a'', 2), (NodeId ''a-1'', 1)]))"
  by (rule fleet_records_unique) simp_all

end
