(* ===== verification/Spec2Isabelle.thy ===== *)
theory Spec2Isabelle
  imports Reconstruct Loss Drain_Ledger Repl_System Takeover Stage_Claims Judge_Run Accept_System Daemon_Core Daemon_Config
    Sim_Transport Sim_Trace Loadgen
begin

text \<open>
  A verification development for duckspout, the durable ingest tier in front of a lake: batches are
  accepted into a local hot store, replicated to peers, acknowledged, drained window by window into
  the lake, and dropped locally once the lake holds them; a per-partition watermark says up to which
  event time the lake is complete. The sources are the Rust crates under \<open>src/crates\<close>.

  \<^bold>\<open>The parts and how they interact.\<close>
  \<^item> The accept path (\<open>duckspout-accept\<close>) decodes an OTLP export into one Arrow batch, checks its caps, calls
    the hot store and maps every outcome to the wire.
  \<^item> The hot store (\<open>duckspout-staging\<close>) stages a batch in one transaction: rows with fresh sequence
    numbers per origin, the dedup entry, the applied watermark. Its seal surface lists closed windows,
    exports a window as a sealed part with the exact coverage of its rows, and drops what a commit
    covered.
  \<^item> Replication (\<open>duckspout-replication\<close>) places partitions by rendezvous hashing, forwards staged
    ranges to peers, collects their receipts, and allows the client acknowledgment when enough peers
    have applied the range. Incarnations fence messages of an earlier life of a node; a claim or a
    takeover moves a dead node's partitions.
  \<^item> The drain (\<open>duckspout-drain\<close>) carries one window from the seal to the lake commit, resolves an
    indeterminate outcome by reading back, records the commit in the ledger and drops the rows.
  \<^item> The lake backend (\<open>duckspout-lake-ducklake\<close>) registers the parts of a window, its manifest and its watermark
    in one transaction of a catalog, expires parts, and reads the manifests back.
  \<^item> The watermark ledger (\<open>duckspout-watermark\<close>) records commits and declared losses, computes the
    watermark, and can be rebuilt from the lake.
  \<^item> The daemon (\<open>duckspout-daemon\<close>) puts them together: it rebuilds the ledger from the lake at boot, creates the lake
    table, rolls windows and runs the drain loop.
  \<^item> The simulation kit (\<open>duckspout-ctk\<close>) has deterministic doubles of the ports (storage, network, clock, scheduler) and
    the journal writer of the test runs.
  \<^item> The load generator (\<open>duckspout-loadgen\<close>) sends numbered batches and journals, as a client, which of them were acknowledged.
  \<^item> The judge (\<open>duckspout-judge\<close>) reads the journals of a test run and decides whether the run kept
    the promises above.

  \<^bold>\<open>Theories.\<close> A definition carries the name of the function or type it models, with a prefix where
  the name is taken; a method on \<open>&mut self\<close> takes the state and returns the result with the new state.
  \<^item> \<open>Prelude\<close> (results, \<open>u64\<close> and \<open>i64\<close> arithmetic, iterators), \<open>BTree_Map\<close> (ordered maps, with the
    interface \<open>ordered_map\<close>), \<open>Text_Format\<close> (number rendering, escaping), \<open>Types\<close> (\<open>duckspout-types\<close>:
    ids, manifests, port data, trace events), \<open>Overload\<close> (\<open>status.rs\<close>: ladder, retry delay, budget).
  \<^item> Watermark: \<open>Coverage\<close> (\<open>coverage.rs\<close>; interface \<open>range_set\<close>), \<open>Ledger\<close> (\<open>ledger.rs\<close> and its
    specification \<open>partition_state_of\<close>), \<open>Ledger_History\<close> (the ledger as a function of what was
    recorded), \<open>Watermark\<close> (the promises), \<open>Ledger_Port\<close> (\<open>port.rs\<close>; interface \<open>bookkeeping\<close>),
    \<open>Loss\<close> (\<open>loss.rs\<close>), \<open>Reconstruct\<close> (\<open>reconstruct.rs\<close>).
  \<^item> Drain: \<open>Part_Naming\<close>, \<open>Schedule\<close>, \<open>Coordinator\<close> (\<open>naming.rs\<close>, \<open>schedule.rs\<close>,
    \<open>coordinator.rs\<close>), \<open>Drain_Protocol\<close> (the calls of any run, in any environment), \<open>Drain_Ledger\<close>
    (the drain over the real ledger).
  \<^item> Replication: \<open>Placement\<close> (\<open>hrw.rs\<close>, \<open>routing.rs\<close>), \<open>Fencing\<close> (\<open>fencing.rs\<close>, \<open>claims.rs\<close>),
    \<open>Boot\<close> (\<open>boot.rs\<close>), \<open>Replication\<close> (\<open>wire.rs\<close>, \<open>forward.rs\<close>, \<open>peer_apply.rs\<close>, \<open>receipt.rs\<close>),
    \<open>Repl_System\<close> (nodes and a network), \<open>Takeover\<close> (\<open>takeover.rs\<close>).
  \<^item> Staging: \<open>Window_Naming\<close> (\<open>naming.rs\<close>), \<open>Staging_Engine\<close> (\<open>engine.rs\<close>), \<open>Stager\<close>
    (\<open>stager.rs\<close>), \<open>Seal_Surface\<close> (\<open>seal.rs\<close>); \<open>Hot_Store\<close>, \<open>Store_Invariant\<close>, \<open>Stage_Commit\<close> and
    \<open>Hot_System\<close> (the invariant and what each operation does to it), \<open>Seal_Runs\<close> (what a sealed part
    says of its window), \<open>Hot_Life\<close> (a node that boots, stages, seals, drops and crashes),
    \<open>Stage_Claims\<close> (what callers rely on).
  \<^item> Accept: \<open>Accept_Otlp\<close> (\<open>otlp.rs\<close> of the accept and the types crate), \<open>Accept_Server\<close> (\<open>server.rs\<close>), \<open>Accept_System\<close> (the
    handler over the hot store).
  \<^item> Lake: \<open>Lake_Committer\<close> and \<open>Lake_Open\<close> (\<open>lib.rs\<close>), \<open>Lake_Life\<close> (any sequence of operations on a catalog).
  \<^item> Daemon: \<open>Window_Roll\<close>, \<open>Daemon_Boot\<close> and \<open>Daemon_Core\<close> (\<open>wiring.rs\<close>: the roller, the ledger at boot, the lake table, the
    drain loop, the status), \<open>Daemon_Config\<close> (\<open>system.rs\<close> and what is read of the settings).
  \<^item> Simulation kit: \<open>Sim_Storage\<close> (\<open>ledger.rs\<close>, \<open>storage.rs\<close>), \<open>Sim_Scheduler\<close> (\<open>clock.rs\<close>, \<open>strategy.rs\<close>, \<open>scheduler.rs\<close>;
    interface \<open>schedule_strategy\<close>), \<open>Sim_Transport\<close> (\<open>transport.rs\<close>), \<open>Sim_Trace\<close> (\<open>trace_writer.rs\<close>, read by the judge).
  \<^item> Load generator: \<open>Loadgen\<close> (\<open>outcome.rs\<close>, \<open>client.rs\<close>, \<open>journal.rs\<close>, the accounting of \<open>main.rs\<close>).
  \<^item> Judge: \<open>Judge_Evidence\<close> (\<open>verdict.rs\<close>, \<open>journal.rs\<close>, \<open>read_log.rs\<close>, \<open>final_state.rs\<close>),
    \<open>Judge_Zero_Lost\<close> (interface \<open>final_state_reader\<close>), \<open>Judge_Watermark\<close>, \<open>Judge_Latest\<close>,
    \<open>Judge_Cache\<close> (the five predicates), \<open>Judge_Vacuity\<close> (\<open>fault_ledger.rs\<close>, \<open>run_manifest.rs\<close>,
    \<open>summary.rs\<close>, \<open>vacuity.rs\<close>), \<open>Judge_Run\<close> (\<open>runner.rs\<close>); \<open>Judge_Demo\<close> is an example run.

  \<^bold>\<open>What the lemmas show.\<close>
  \<^item> Watermark: the incremental ledger computes exactly the specified state, so the watermark is
    honest (no unexcused gap below it), as high as the record allows, and never regresses; a window is
    recorded once; the reconstruction from the whole record is the ledger itself and from a part of it
    never claims more.
  \<^item> Drain: whatever the ports answer, a window is dropped only after its commit is known to have
    landed and is recorded; it is committed at most once per attempt; the composed system updates the
    ledger as the specification says.
  \<^item> Replication: an allowed acknowledgment is backed by enough durable copies; receipts never claim
    more than was applied; an earlier incarnation is refused; a takeover owner was a replica.
  \<^item> Staging: every state a node can reach satisfies the store's invariant; acknowledged rows survive
    until a drop names them; sequence numbers are unique; a stage call is atomic; a retry gets the
    first answer; a restart rebuilds the registries; a drop removes exactly the covered rows; the
    coverage of a sealed part is exact.
  \<^item> Accept: decoding keeps every record and its fields; a success that is journaled as acknowledged means the rows
    are in the hot store; every refusal carries the code and the retry advice of its cause; the bytes in flight stay under the cap.
  \<^item> Lake: every part is registered once whatever calls fail, the outcome told to the drain is honest (a failed commit is
    only called indeterminate where it may have landed), a retry changes nothing, the manifests read back are those committed,
    and no name or literal escapes its quotes.
  \<^item> Daemon: the ledger rebuilt at boot is the one before the restart; a window offered to the drain receives no
    further row; the lake table has the columns of the hot table; a drain pass reports each window it handled.
  \<^item> Simulation kit: a crash keeps exactly what was synced, so that the boot ceremony never reuses an incarnation over
    it; the network delivers in order what it owes and accounts for what it drops; a run of the scheduler returns;
    a journal is read back as it was written.
  \<^item> Load generator: against the real handler and any connection, what the client journals is what happened, and no two
    records of a fleet share a key.
  \<^item> Judge: each predicate's pass is characterised by what it means (every acknowledged record
    present, every watermark backed, every last value served, every expiry covered, equal answers),
    and an exit code of 0 certifies it of the run.

  \<^bold>\<open>Bounds and assumptions.\<close> Loops over data are recursions on lists or with a
  termination proof, and no fuel is used. The one loop that need not end, \<open>run_until_idle\<close>, is a partial function, with a theorem
  that it returns when the work of its tasks is bounded (\<open>finite_tasks\<close>). Sequence numbers, counters and byte counts are 64-bit words; where the sources use
  checked or saturating arithmetic it is written out, elsewhere \<open>+ 1\<close> wraps as in a release build,
  but for the scheduler, a test double, where the overflow is a panic.
  Window ids and \<open>usize\<close> values are naturals. A port or database call is one atomic step that may fail
  whenever it may fail in reality: a fault schedule indexed by the number of calls made decides for
  the database, an arbitrary port record for the drain, and any delivery order for the network.
  \<open>ROLLBACK\<close> is taken to succeed and a failed \<open>COMMIT\<close> to have changed nothing. When the dedup window
  evicts entries of equal age, the order is that of their keys. Mutexes and tasks are not modelled:
  each operation under a lock is a step, and interleavings are sequences of steps; poisoning is left
  out. Code outside the sources is a parameter: Arrow batches and IPC, what a query reads of payload
  columns, SHA-256, protobuf, the JSON codecs, the replica log, storage and lake ports, the file system, the
  tasks of the scheduler, and the rendering of messages. Hypotheses on a parameter are named predicates:
  \<open>conformant_log\<close> (the replica log), \<open>ipc_round_trip\<close> (Arrow IPC gives back the rows), \<open>local_commit\<close> (a failed commit of a local
  catalog did not land), \<open>quiet\<close> (no call fails), \<open>line_decodes\<close> (the JSON of a journal line), \<open>finite_tasks\<close>. Values stored
  in a signed column are assumed to fit it (\<open>i64_manifest\<close>), and the sizes of all exports in flight to
  fit 64 bits. Characters outside ASCII in error texts are written in ASCII.

  \<^bold>\<open>Not modelled.\<close> The gRPC and HTTP listeners, the tasks and the process life of the daemon; its configuration file
  reader, fault decorator and Flight server (\<open>config.rs\<close>, \<open>manifest.rs\<close>, \<open>fault.rs\<close>, \<open>serving.rs\<close>); \<open>duckspout-lake-contract\<close> (a
  conformance test suite), \<open>duckspout-fleet\<close> (test runner: processes, sockets and wall clocks), the pacing and the command
  line of the load generator, \<open>duckspout-ctl\<close> (prints a status), and the judge's command line and printed report.
\<close>

end
